(* ===== verification/Prelude.thy ===== *)
theory Prelude
  imports Main "HOL-Library.Char_ord"
begin

text \<open>
  The vocabulary every theory of the development shares.

  \<^item> Python exceptions as values of the datatype \<open>py_error\<close>, with the class hierarchy of
    \<open>own_exceptions.py\<close> as the relation \<open>is_a\<close> that an \<open>except\<close> clause tests.
  \<^item> Code that reads and writes shared state as functions of type \<open>('s, 'a) M\<close>: they take the
    state and return the result or the exception raised, and the state as it is then. The state
    survives an exception, as Python's mutations do.
  \<^item> A Python 2 \<open>str\<close> is a list of bytes, the type \<^typ>\<open>string\<close>; \<open>py_chr\<close> and \<open>of_char\<close> are
    \<open>chr\<close> and \<open>ord\<close>.
  \<^item> Generic lemmas on lists and options that several components use.
\<close>

section \<open>Exceptions\<close>

datatype py_error =
    PyException | KeyError | IndexError | ValueError | AssertionError | TypeError
  | AttributeError | StructError | RuntimeError | ZeroDivisionError | NameError | IOError
  | VerificationFailed
  | InvalidTransaction | UnsignedTransaction | InvalidNonce | InsufficientBalance
  | UncategorizedTransaction | InvalidCategory
  | InvalidBlock | UnsignedBlock | InvalidBlockSigner
  | DkgBlockRequiresGroupKey
  | DkgAddContributionSharesError | DkgAddVerificationVectorsError | DkgGenKeysError
  | DkgGenerateSecretKeyShareError
  | BlsInvalidGroupSignature | BlsSignError | BlsRecoverError

text \<open>The base class of every class of \<open>own_exceptions.py\<close>; a built-in class other than
  \<open>Exception\<close> itself is taken to derive from \<open>Exception\<close> directly.\<close>

fun exc_base :: "py_error \<Rightarrow> py_error option" where
  "exc_base PyException = None"
| "exc_base UnsignedTransaction = Some InvalidTransaction"
| "exc_base InvalidNonce = Some InvalidTransaction"
| "exc_base InsufficientBalance = Some InvalidTransaction"
| "exc_base UncategorizedTransaction = Some InvalidTransaction"
| "exc_base InvalidCategory = Some InvalidTransaction"
| "exc_base UnsignedBlock = Some InvalidBlock"
| "exc_base InvalidBlockSigner = Some InvalidBlock"
| "exc_base _ = Some PyException"

text \<open>\<open>is_a e c\<close>: an exception of class \<open>e\<close> is caught by \<open>except c\<close>. The hierarchy has depth
  three, so three steps up the base classes decide it.\<close>

definition is_a :: "py_error \<Rightarrow> py_error \<Rightarrow> bool" where
  "is_a e c \<longleftrightarrow> e = c \<or> exc_base e = Some c \<or> Option.bind (exc_base e) exc_base = Some c"

lemma is_a_refl [simp]: "is_a e e"
  by (simp add: is_a_def)

lemma is_a_Exception [simp]: "is_a e PyException"
  by (cases e) (simp_all add: is_a_def)

section \<open>Computations that raise and mutate\<close>

type_synonym 'a res = "py_error + 'a"
type_synonym ('s, 'a) M = "'s \<Rightarrow> 'a res \<times> 's"

named_theorems monad_defs \<open>definitions of the state and exception combinators\<close>

definition ret :: "'a \<Rightarrow> ('s, 'a) M" where
  [monad_defs]: "ret x s = (Inr x, s)"

definition raise :: "py_error \<Rightarrow> ('s, 'a) M" where
  [monad_defs]: "raise e s = (Inl e, s)"

definition bindM :: "('s, 'a) M \<Rightarrow> ('a \<Rightarrow> ('s, 'b) M) \<Rightarrow> ('s, 'b) M" where
  "bindM m f s = (case m s of (Inl e, s') \<Rightarrow> (Inl e, s') | (Inr x, s') \<Rightarrow> f x s')"

definition bindE :: "'a res \<Rightarrow> ('a \<Rightarrow> 'b res) \<Rightarrow> 'b res" where
  "bindE r f = (case r of Inl e \<Rightarrow> Inl e | Inr x \<Rightarrow> f x)"

definition liftE :: "'a res \<Rightarrow> ('s, 'a) M" where
  [monad_defs]: "liftE r s = (r, s)"

definition gets :: "('s \<Rightarrow> 'a) \<Rightarrow> ('s, 'a) M" where
  [monad_defs]: "gets f s = (Inr (f s), s)"

definition modifyM :: "('s \<Rightarrow> 's) \<Rightarrow> ('s, unit) M" where
  [monad_defs]: "modifyM f s = (Inr (), f s)"

definition assertM :: "bool \<Rightarrow> ('s, unit) M" where
  [monad_defs]: "assertM b s = (if b then Inr () else Inl AssertionError, s)"

text \<open>\<open>catchM m p h\<close> is \<open>try: m except p: h\<close>; \<open>p\<close> says which classes the clause names.\<close>

definition catchM :: "('s, 'a) M \<Rightarrow> (py_error \<Rightarrow> bool) \<Rightarrow> (py_error \<Rightarrow> ('s, 'a) M) \<Rightarrow> ('s, 'a) M" where
  "catchM m p h s = (case m s of (Inl e, s') \<Rightarrow> if p e then h e s' else (Inl e, s')
                               | (Inr x, s') \<Rightarrow> (Inr x, s'))"

text \<open>Running a computation on a component of a larger state.\<close>

definition zoomM :: "('s \<Rightarrow> 't) \<Rightarrow> ('t \<Rightarrow> 's \<Rightarrow> 's) \<Rightarrow> ('t, 'a) M \<Rightarrow> ('s, 'a) M" where
  "zoomM get put m s = (case m (get s) of (r, t) \<Rightarrow> (r, put t s))"

text \<open>\<open>for x in xs: f(x)\<close>, and the list of the results.\<close>

fun forM :: "'a list \<Rightarrow> ('a \<Rightarrow> ('s, unit) M) \<Rightarrow> ('s, unit) M" where
  "forM [] f = ret ()"
| "forM (x # xs) f = bindM (f x) (\<lambda>_. forM xs f)"

fun mapE :: "('a \<Rightarrow> 'b res) \<Rightarrow> 'a list \<Rightarrow> 'b list res" where
  "mapE f [] = Inr []"
| "mapE f (x # xs) = bindE (f x) (\<lambda>y. bindE (mapE f xs) (\<lambda>ys. Inr (y # ys)))"

fun mapM :: "('a \<Rightarrow> ('s, 'b) M) \<Rightarrow> 'a list \<Rightarrow> ('s, 'b list) M" where
  "mapM f [] = ret []"
| "mapM f (x # xs) = bindM (f x) (\<lambda>y. bindM (mapM f xs) (\<lambda>ys. ret (y # ys)))"

subsection \<open>How the combinators run\<close>

lemma bindM_ret [simp]: "bindM (ret x) f = f x"
  by (rule ext) (simp add: bindM_def ret_def)

lemma bindM_raise [simp]: "bindM (raise e) f = raise e"
  by (rule ext) (simp add: bindM_def raise_def)

lemma ret_run [simp]: "ret x s = (Inr x, s)"
  by (simp add: ret_def)

lemma raise_run [simp]: "raise e s = (Inl e, s)"
  by (simp add: raise_def)

lemma liftE_run [simp]: "liftE r s = (r, s)"
  by (simp add: liftE_def)

lemma gets_run [simp]: "gets f s = (Inr (f s), s)"
  by (simp add: gets_def)

lemma modifyM_run [simp]: "modifyM f s = (Inr (), f s)"
  by (simp add: modifyM_def)

lemma assertM_run [simp]: "assertM b s = (if b then Inr () else Inl AssertionError, s)"
  by (simp add: assertM_def)

lemma bindM_run_Inr: "m s = (Inr x, s') \<Longrightarrow> bindM m f s = f x s'"
  by (simp add: bindM_def)

lemma bindM_run_Inl: "m s = (Inl e, s') \<Longrightarrow> bindM m f s = (Inl e, s')"
  by (simp add: bindM_def)

lemma bindM_eq_Inr:
  "bindM m f s = (Inr b, s'') \<longleftrightarrow> (\<exists>a s'. m s = (Inr a, s') \<and> f a s' = (Inr b, s''))"
  by (auto simp: bindM_def split: prod.splits sum.splits)

lemma bindM_liftE_eq_Inr:
  "bindM (liftE r) f s = (Inr b, s'') \<longleftrightarrow> (\<exists>a. r = Inr a \<and> f a s = (Inr b, s''))"
  by (simp add: bindM_eq_Inr)

lemma bindM_liftE_Inr [simp]: "bindM (liftE (Inr a)) f = f a"
  by (rule ext) (simp add: bindM_def)

lemma bindM_assoc: "bindM (bindM m f) g = bindM m (\<lambda>x. bindM (f x) g)"
  by (rule ext) (simp add: bindM_def split: prod.splits sum.splits)

lemma bindE_Inr [simp]: "bindE (Inr x) f = f x" and bindE_Inl [simp]: "bindE (Inl e) f = Inl e"
  by (simp_all add: bindE_def)

lemma bindE_eq_Inr: "bindE r f = Inr b \<longleftrightarrow> (\<exists>a. r = Inr a \<and> f a = Inr b)"
  by (cases r) simp_all

lemma catchM_Inr: "m s = (Inr x, s') \<Longrightarrow> catchM m p h s = (Inr x, s')"
  by (simp add: catchM_def)

lemma catchM_Inl: "m s = (Inl e, s') \<Longrightarrow> catchM m p h s = (if p e then h e s' else (Inl e, s'))"
  by (simp add: catchM_def)

lemma zoomM_eq_Inr:
  "zoomM get put m s = (Inr a, s') \<longleftrightarrow> (\<exists>t. m (get s) = (Inr a, t) \<and> s' = put t s)"
  by (auto simp: zoomM_def split: prod.splits)

lemma mapE_Inr_map: "(\<And>x. x \<in> set xs \<Longrightarrow> f x = Inr (g x)) \<Longrightarrow> mapE f xs = Inr (map g xs)"
  by (induction xs) simp_all

lemma mapE_eq_Inr: "mapE f xs = Inr ys \<longleftrightarrow> list_all2 (\<lambda>x y. f x = Inr y) xs ys"
  by (induction xs arbitrary: ys) (auto simp: bindE_eq_Inr list_all2_Cons1)

lemma forM_invariant:
  assumes "\<And>x s u s'. x \<in> set xs \<Longrightarrow> I s \<Longrightarrow> f x s = (u, s') \<Longrightarrow> I s'" and "I s"
    and "forM xs f s = (r, s'')"
  shows "I s''"
  using assms
proof (induction xs arbitrary: s)
  case Nil
  then show ?case by simp
next
  case (Cons x xs)
  obtain u t where u: "f x s = (u, t)"
    by (cases "f x s")
  have I: "I t"
    using Cons.prems(1) [of x s u t] Cons.prems(2) u by simp
  show ?case
  proof (cases u)
    case (Inl e)
    with u Cons.prems(3) I show ?thesis by (simp add: bindM_def)
  next
    case (Inr v)
    with u Cons.prems(3) have "forM xs f t = (r, s'')"
      by (simp add: bindM_def)
    with I Cons.prems(1) show ?thesis
      by (intro Cons.IH [of t]) auto
  qed
qed

section \<open>Bytes\<close>

text \<open>\<open>chr(n)\<close> raises ValueError outside \<open>range(256)\<close>; \<open>ord(c)\<close> is \<open>of_char c\<close>.\<close>

definition py_chr :: "nat \<Rightarrow> char res" where
  "py_chr n = (if n < 256 then Inr (char_of n) else Inl ValueError)"

abbreviation ord :: "char \<Rightarrow> nat" where
  "ord \<equiv> of_char"

lemma ord_less_256 [simp]: "ord c < 256"
  using of_char_mod_256 [of c] by (metis mod_less_divisor zero_less_numeral)

lemma ord_char_of [simp]: "n < 256 \<Longrightarrow> ord (char_of n) = n"
  by simp

lemma char_of_eq_iff: "(m::nat) < 256 \<Longrightarrow> n < 256 \<Longrightarrow> (char_of m = char_of n) = (m = n)"
  by (metis ord_char_of)

lemma ord_eq_iff: "(ord c = ord d) = (c = d)"
  by (metis char_of_char)

text \<open>Reading a list by index and slicing: \<open>xs[i]\<close> raises IndexError out of range.\<close>

definition py_nth :: "'a list \<Rightarrow> nat \<Rightarrow> 'a res" where
  "py_nth xs i = (if i < length xs then Inr (xs ! i) else Inl IndexError)"

text \<open>\<open>xs[i:j]\<close> for \<open>0 \<le> i \<le> j\<close>.\<close>

definition slice :: "'a list \<Rightarrow> nat \<Rightarrow> nat \<Rightarrow> 'a list" where
  "slice xs i j = take (j - i) (drop i xs)"

text \<open>Cutting a list into consecutive pieces of \<open>n\<close> elements, the loops
  \<open>for i in range(0, len(xs), n)\<close> that read \<open>xs[i:i+n]\<close>.\<close>

function chunks :: "nat \<Rightarrow> 'a list \<Rightarrow> 'a list list" where
  "chunks n xs = (if n = 0 \<or> xs = [] then [] else take n xs # chunks n (drop n xs))"
  by pat_completeness auto
termination
  by (relation "measure (\<lambda>(n, xs). length xs)") auto

declare chunks.simps [simp del]

lemma chunks_Nil [simp]: "chunks n [] = []"
  by (simp add: chunks.simps)

lemma chunks_append [simp]:
  "0 < n \<Longrightarrow> length xs = n \<Longrightarrow> chunks n (xs @ ys) = xs # chunks n ys"
  by (subst chunks.simps) auto

lemma concat_chunks: "0 < n \<Longrightarrow> concat (chunks n xs) = xs"
proof (induction n xs rule: chunks.induct)
  case (1 n xs)
  then show ?case by (cases "xs = []") (auto simp: chunks.simps [of n xs])
qed

lemma chunks_concat: "0 < n \<Longrightarrow> (\<forall>x \<in> set xss. length x = n) \<Longrightarrow> chunks n (concat xss) = xss"
  by (induction xss) simp_all

section \<open>Bit strings\<close>

text \<open>\<open>be_bits w n\<close> is the number \<open>n\<close> in \<open>w\<close> bits, the most significant first; \<open>bits_val\<close> reads one.\<close>

fun be_bits :: "nat \<Rightarrow> nat \<Rightarrow> bool list" where
  "be_bits 0 n = []"
| "be_bits (Suc w) n = be_bits w (n div 2) @ [odd n]"

definition bits_val :: "bool list \<Rightarrow> nat" where
  "bits_val bs = foldl (\<lambda>a b. 2 * a + of_bool b) 0 bs"

lemma length_be_bits [simp]: "length (be_bits w n) = w"
  by (induction w arbitrary: n) auto

lemma bits_val_append: "bits_val (bs @ [b]) = 2 * bits_val bs + of_bool b"
  by (simp add: bits_val_def)

lemma bits_val_be_bits [simp]: "n < 2 ^ w \<Longrightarrow> bits_val (be_bits w n) = n"
proof (induction w arbitrary: n)
  case 0
  then show ?case by (simp add: bits_val_def)
next
  case (Suc w)
  then have "bits_val (be_bits w (n div 2)) = n div 2" by (intro Suc.IH) auto
  then show ?case by (simp add: bits_val_append)
qed

lemma bits_val_bound: "bits_val bs < 2 ^ length bs"
  by (induction bs rule: rev_induct) (auto simp: bits_val_append bits_val_def)

lemma be_bits_bits_val: "be_bits (length bs) (bits_val bs) = bs"
  by (induction bs rule: rev_induct) (auto simp: bits_val_append)

section \<open>Predicates that a computation preserves\<close>

named_theorems preserves_intros \<open>introduction rules for \<open>preserves\<close>\<close>

text \<open>\<open>P\<close> holds after the computation if it held before, whether it returned or raised.\<close>

definition preserves :: "('s \<Rightarrow> bool) \<Rightarrow> ('s, 'a) M \<Rightarrow> bool" where
  "preserves P m \<longleftrightarrow> (\<forall>s r s'. P s \<longrightarrow> m s = (r, s') \<longrightarrow> P s')"

lemma preservesD: "preserves P m \<Longrightarrow> P s \<Longrightarrow> m s = (r, s') \<Longrightarrow> P s'"
  by (simp add: preserves_def)

lemma preserves_basic [preserves_intros]:
  "preserves P (ret x)" "preserves P (raise e)" "preserves P (liftE r)" "preserves P (gets h)" "preserves P (assertM b)"
  by (auto simp: preserves_def ret_def raise_def liftE_def gets_def assertM_def)

lemma preserves_modify: "(\<And>s. P s \<Longrightarrow> P (f s)) \<Longrightarrow> preserves P (modifyM f)"
  by (auto simp: preserves_def modifyM_def)

lemma preserves_bind [preserves_intros]:
  assumes "preserves P m" "\<And>x. preserves P (f x)"
  shows "preserves P (bindM m f)"
  unfolding preserves_def
proof (intro allI impI)
  fix s r s'
  assume s: "P s" and run: "bindM m f s = (r, s')"
  obtain q s1 where m: "m s = (q, s1)" by fastforce
  have "P s1" by (rule preservesD [OF assms(1) s m])
  with run m assms(2) show "P s'" by (cases q) (auto simp: bindM_def dest: preservesD)
qed

lemma preserves_catch [preserves_intros]:
  assumes "preserves P m" "\<And>e. preserves P (h e)"
  shows "preserves P (catchM m p h)"
  unfolding preserves_def
proof (intro allI impI)
  fix s r s'
  assume s: "P s" and run: "catchM m p h s = (r, s')"
  obtain q s1 where m: "m s = (q, s1)" by fastforce
  have "P s1" by (rule preservesD [OF assms(1) s m])
  with run m assms(2) show "P s'" by (cases q) (auto simp: catchM_def dest: preservesD split: if_splits)
qed

lemma preserves_forM [preserves_intros]: "(\<And>x. preserves P (f x)) \<Longrightarrow> preserves P (forM xs f)"
  by (induction xs) (simp_all add: preserves_basic preserves_bind)

lemma preserves_mapM [preserves_intros]: "(\<And>x. preserves P (f x)) \<Longrightarrow> preserves P (mapM f xs)"
  by (induction xs) (simp_all add: preserves_basic preserves_bind)

lemma preserves_if [preserves_intros]: "preserves P m \<Longrightarrow> preserves P m' \<Longrightarrow> preserves P (if b then m else m')"
  by simp

lemma preserves_let [preserves_intros]: "preserves P (f x) \<Longrightarrow> preserves P (Let x f)"
  by simp

lemma preserves_option [preserves_intros]:
  "preserves P m \<Longrightarrow> (\<And>x. preserves P (f x)) \<Longrightarrow> preserves P (case x of None \<Rightarrow> m | Some x \<Rightarrow> f x)"
  by (cases x) auto

lemma preserves_prod [preserves_intros]: "(\<And>a b. preserves P (f a b)) \<Longrightarrow> preserves P (case p of (a, b) \<Rightarrow> f a b)"
  by (cases p) auto

lemma preserves_list [preserves_intros]:
  "preserves P m \<Longrightarrow> (\<And>x xs. preserves P (f x xs)) \<Longrightarrow> preserves P (case l of [] \<Rightarrow> m | x # xs \<Rightarrow> f x xs)"
  by (cases l) auto

section \<open>Lists and options\<close>

lemma take_eq_prefix: "length p \<le> length k \<Longrightarrow> (take (length p) k = p) = (\<exists>r. k = p @ r)"
  by (metis append_eq_conv_conj append_take_drop_id)

end
