(* ===== verification/Pyutils.thy ===== *)
theory Pyutils
  imports Prelude
begin

text \<open>
  \<open>utils.py\<close> and the integer codecs of \<open>keys.py\<close>: hexadecimal and big-endian encodings, address
  and key normalisation, and the folding of a random number. The functions of third-party
  packages (\<open>pycryptodome\<close>, \<open>rlp\<close>, \<open>py_ecc\<close>) are the fields of the record \<open>ext\<close>, which every
  definition that uses them takes as an argument; \<open>ext_ok\<close> states what their documentation
  promises and the code relies on.
\<close>

section \<open>Hexadecimal strings\<close>

definition hex_digit :: "nat \<Rightarrow> char" where
  "hex_digit n = ''0123456789abcdef'' ! n"

definition hex_encode :: "string \<Rightarrow> string" where
  "hex_encode s = concat (map (\<lambda>c. [hex_digit (ord c div 16), hex_digit (ord c mod 16)]) s)"

text \<open>The value of a digit in the notation of \<open>int(s, base)\<close>.\<close>

definition digit_val :: "char \<Rightarrow> nat option" where
  "digit_val c = (let n = ord c in
     if 48 \<le> n \<and> n \<le> 57 then Some (n - 48)
     else if 97 \<le> n \<and> n \<le> 122 then Some (n - 87)
     else if 65 \<le> n \<and> n \<le> 90 then Some (n - 55)
     else None)"

definition hex_val :: "char \<Rightarrow> nat option" where
  "hex_val c = (case digit_val c of Some v \<Rightarrow> if v < 16 then Some v else None | None \<Rightarrow> None)"

fun hex_decode :: "string \<Rightarrow> string res" where
  "hex_decode [] = Inr []"
| "hex_decode [c] = Inl TypeError"
| "hex_decode (c # d # r) =
     (case (hex_val c, hex_val d) of
        (Some a, Some b) \<Rightarrow> bindE (hex_decode r) (\<lambda>s. Inr (char_of (16 * a + b) # s))
      | _ \<Rightarrow> Inl TypeError)"

lemma less_16_cases: "(n::nat) < 16 \<Longrightarrow>
    n = 15 \<or> n = 14 \<or> n = 13 \<or> n = 12 \<or> n = 11 \<or> n = 10 \<or> n = 9 \<or> n = 8 \<or>
    n = 7 \<or> n = 6 \<or> n = 5 \<or> n = 4 \<or> n = 3 \<or> n = 2 \<or> n = 1 \<or> n = 0"
  by presburger

lemma hex_val_digit [simp]: "n < 16 \<Longrightarrow> hex_val (hex_digit n) = Some n"
  by (drule less_16_cases) (elim disjE; simp add: hex_val_def hex_digit_def digit_val_def)

lemma digit_val_hex_digit: "n < 16 \<Longrightarrow> digit_val (hex_digit n) = Some n"
  by (drule less_16_cases) (elim disjE; simp add: hex_digit_def digit_val_def)

lemma ord_div_16 [simp]: "ord c div 16 < 16"
  using ord_less_256 [of c] by linarith

lemma hex_encode_simps [simp]:
  "hex_encode [] = []"
  "hex_encode (c # s) = hex_digit (ord c div 16) # hex_digit (ord c mod 16) # hex_encode s"
  by (simp_all add: hex_encode_def)

lemma length_hex_encode [simp]: "length (hex_encode s) = 2 * length s"
  by (induction s) simp_all

lemma hex_decode_encode [simp]: "hex_decode (hex_encode s) = Inr s"
  by (induction s) simp_all

lemma length_hex_decode: "hex_decode s = Inr b \<Longrightarrow> length s = 2 * length b"
  by (induction s arbitrary: b rule: hex_decode.induct)
    (auto simp: bindE_eq_Inr split: option.splits)

section \<open>Integers in text\<close>

definition is_space :: "char \<Rightarrow> bool" where
  "is_space c \<longleftrightarrow> ord c = 32 \<or> (9 \<le> ord c \<and> ord c \<le> 13)"

definition py_strip :: "string \<Rightarrow> string" where
  "py_strip s = rev (dropWhile is_space (rev (dropWhile is_space s)))"

fun digits_value :: "nat \<Rightarrow> nat \<Rightarrow> string \<Rightarrow> nat option" where
  "digits_value b acc [] = Some acc"
| "digits_value b acc (c # s) =
     (case digit_val c of
        Some v \<Rightarrow> if v < b then digits_value b (b * acc + v) s else None
      | None \<Rightarrow> None)"

text \<open>\<open>int(s, b)\<close>: surrounding blanks, one sign, for base 16 an optional \<open>0x\<close>, at least one digit;
  anything else is a ValueError.\<close>

definition py_int :: "nat \<Rightarrow> string \<Rightarrow> int res" where
  "py_int b s =
     (let t = py_strip s;
          neg = (take 1 t = ''-'');
          u = (if take 1 t = ''-'' \<or> take 1 t = ''+'' then drop 1 t else t);
          w = (if b = 16 \<and> (take 2 u = ''0x'' \<or> take 2 u = ''0X'') then drop 2 u else u)
      in if w = [] then Inl ValueError
         else case digits_value b 0 w of
                Some n \<Rightarrow> Inr (if neg then - int n else int n)
              | None \<Rightarrow> Inl ValueError)"

text \<open>\<open>str(n)\<close> of a number.\<close>

fun dec_digits :: "nat \<Rightarrow> string" where
  "dec_digits n = (if n < 10 then [char_of (48 + n)]
     else dec_digits (n div 10) @ [char_of (48 + n mod 10)])"

declare dec_digits.simps [simp del]

definition py_str_int :: "int \<Rightarrow> string" where
  "py_str_int n = (if n < 0 then CHR ''-'' # dec_digits (nat (- n)) else dec_digits (nat n))"

text \<open>\<open>sep.join(ws)\<close>, \<open>s.split(c)\<close> and \<open>s.strip(c)\<close> for a single character \<open>c\<close>.\<close>

fun join_with :: "char \<Rightarrow> string list \<Rightarrow> string" where
  "join_with c [] = []"
| "join_with c [w] = w"
| "join_with c (w # ws) = w @ c # join_with c ws"

fun split_on :: "char \<Rightarrow> string \<Rightarrow> string list" where
  "split_on c [] = [[]]"
| "split_on c (d # s) =
     (if d = c then [] # split_on c s
      else (d # hd (split_on c s)) # tl (split_on c s))"

definition strip_char :: "char \<Rightarrow> string \<Rightarrow> string" where
  "strip_char c s = rev (dropWhile (\<lambda>d. d = c) (rev (dropWhile (\<lambda>d. d = c) s)))"

section \<open>Big-endian integers\<close>

text \<open>\<open>int_to_big_endian\<close> of \<open>keys.py\<close>: the digits are collected least significant first and
  reversed; 0 is the empty string.\<close>

fun be_bytes :: "nat \<Rightarrow> string" where
  "be_bytes n = (if n = 0 then [] else be_bytes (n div 256) @ [char_of (n mod 256)])"

declare be_bytes.simps [simp del]

definition be_val :: "string \<Rightarrow> nat" where
  "be_val s = foldl (\<lambda>a c. 256 * a + ord c) 0 s"

lemma be_val_simps [simp]: "be_val [] = 0" "be_val (s @ [c]) = 256 * be_val s + ord c"
  by (simp_all add: be_val_def)

lemma be_bytes_0 [simp]: "be_bytes 0 = []"
  by (simp add: be_bytes.simps)

lemma be_bytes_eq_Nil [simp]: "be_bytes n = [] \<longleftrightarrow> n = 0"
  by (subst be_bytes.simps) simp

lemma be_val_be_bytes [simp]: "be_val (be_bytes n) = n"
proof (induction n rule: be_bytes.induct)
  case (1 n)
  then show ?case by (subst be_bytes.simps) simp
qed

lemma be_bytes_snoc: "0 < 256 * a + ord c \<Longrightarrow> be_bytes (256 * a + ord c) = be_bytes a @ [c]"
  by (subst be_bytes.simps) simp

lemma length_be_bytes_le: "n < 256 ^ k \<Longrightarrow> length (be_bytes n) \<le> k"
proof (induction n arbitrary: k rule: be_bytes.induct)
  case (1 n)
  show ?case
  proof (cases "n = 0")
    case True
    then show ?thesis by simp
  next
    case False
    with "1.prems" obtain j where k: "k = Suc j" by (cases k) auto
    with "1.prems" have "n div 256 < 256 ^ j"
      by (simp add: less_mult_imp_div_less mult.commute)
    with "1.IH" [OF False this] False k show ?thesis
      by (subst be_bytes.simps) simp
  qed
qed

lemma be_bytes_no_leading_zero: "be_bytes n = c # r \<Longrightarrow> c \<noteq> CHR 0x00"
proof (induction n arbitrary: r rule: be_bytes.induct)
  case (1 n)
  from "1.prems" have n: "n \<noteq> 0" by (metis be_bytes_0 list.distinct(1))
  show ?case
  proof (cases "n div 256 = 0")
    case True
    then have "n < 256" by (simp add: div_eq_0_iff)
    with True n "1.prems" have "ord c = n" by (auto simp: be_bytes.simps [of n])
    with n show ?thesis by auto
  next
    case False
    with n "1.prems" obtain r' where "be_bytes (n div 256) = c # r'"
      by (cases "be_bytes (n div 256)") (auto simp: be_bytes.simps [of n])
    with "1.IH" n show ?thesis by blast
  qed
qed

lemma be_bytes_be_val: "be_bytes (be_val s) = dropWhile (\<lambda>c. c = CHR 0x00) s"
proof (induction s rule: rev_induct)
  case Nil
  then show ?case by simp
next
  case (snoc c s)
  show ?case
  proof (cases "256 * be_val s + ord c = 0")
    case True
    then have z: "be_val s = 0" "c = CHR 0x00"
      by (simp_all add: ord_eq_iff [symmetric])
    with snoc have "dropWhile (\<lambda>c. c = CHR 0x00) s = []" by simp
    then have "\<forall>x \<in> set s. x = CHR 0x00" by (simp add: dropWhile_eq_Nil_conv)
    with z show ?thesis by (simp add: dropWhile_append2)
  next
    case False
    with snoc have eq: "be_bytes (be_val (s @ [c])) = dropWhile (\<lambda>c. c = CHR 0x00) s @ [c]"
      by (simp add: be_bytes_snoc)
    show ?thesis
    proof (cases "be_val s = 0")
      case True
      with snoc have "dropWhile (\<lambda>c. c = CHR 0x00) s = []" by simp
      moreover from this have "\<forall>x \<in> set s. x = CHR 0x00" by (simp add: dropWhile_eq_Nil_conv)
      moreover have "c \<noteq> CHR 0x00" using False True by auto
      ultimately show ?thesis using eq by (simp add: dropWhile_append2)
    next
      case False
      with snoc have "dropWhile (\<lambda>c. c = CHR 0x00) s \<noteq> []" by (metis be_bytes_eq_Nil)
      then obtain x where "x \<in> set s" "x \<noteq> CHR 0x00" by (auto simp: dropWhile_eq_Nil_conv)
      then show ?thesis using eq by (simp add: dropWhile_append1)
    qed
  qed
qed

lemma be_val_less: "be_val s < 256 ^ length s"
proof (induction s rule: rev_induct)
  case (snoc c s)
  have "256 * be_val s + ord c < 256 * (be_val s + 1)" by simp
  also have "\<dots> \<le> 256 * 256 ^ length s" using snoc by (intro mult_le_mono) simp_all
  finally show ?case by simp
qed simp

section \<open>Third-party functions\<close>

text \<open>An RLP item: a byte string or a list of items, Python's \<open>str\<close> and \<open>list\<close>.\<close>

datatype item = Str string | Lst "item list"

text \<open>
  \<open>keccak\<close> is \<open>keccak.new(digest_bits=256).digest\<close>; \<open>be_ser\<close> and \<open>be_deser\<close> are
  \<open>big_endian_int.serialize\<close> and \<open>.deserialize\<close>; \<open>rlp_enc\<close> and \<open>rlp_dec\<close> are \<open>rlp.encode\<close> of an item
  and \<open>rlp.decode\<close> without sedes; \<open>ec_recover\<close>, \<open>ec_sign\<close> and \<open>ec_pub\<close> are \<open>ecdsa_raw_recover\<close>, \<open>ecdsa_raw_sign\<close> and \<open>privtopub\<close>.
\<close>

record ext =
  keccak :: "string \<Rightarrow> string"
  be_ser :: "nat \<Rightarrow> string"
  be_deser :: "string \<Rightarrow> nat"
  rlp_enc :: "item \<Rightarrow> string"
  rlp_dec :: "string \<Rightarrow> item res"
  ec_recover :: "string \<Rightarrow> nat \<times> nat \<times> nat \<Rightarrow> (nat \<times> nat) option"
  ec_sign :: "string \<Rightarrow> string \<Rightarrow> nat \<times> nat \<times> nat"
  ec_pub :: "string \<Rightarrow> nat \<times> nat"

definition ext_ok :: "ext \<Rightarrow> bool" where
  "ext_ok E \<longleftrightarrow> (\<forall>x. length (keccak E x) = 32) \<and> (\<forall>n. be_ser E n = be_bytes n) \<and>
     (\<forall>s. take 1 s \<noteq> [CHR 0x00] \<longrightarrow> be_deser E s = be_val s)"

lemma ext_okD:
  assumes "ext_ok E"
  shows "length (keccak E x) = 32" "be_ser E n = be_bytes n"
    "take 1 s \<noteq> [CHR 0x00] \<Longrightarrow> be_deser E s = be_val s"
  using assms by (auto simp: ext_ok_def)

text \<open>What the code relies on of secp256k1, for the keys \<open>1\<close> to \<open>n - 1\<close>: a signature recovers to the
  public key of the signer, its numbers are in range, and other recovery ids than 27 to 34 are
  refused.\<close>

definition secpk1n :: nat where
  "secpk1n = 115792089237316195423570985008687907852837564279074904382605163141518161494337"

definition valid_key :: "string \<Rightarrow> bool" where
  "valid_key k \<longleftrightarrow> length k = 32 \<and> 0 < be_val k \<and> be_val k < secpk1n"

definition ec_ok :: "ext \<Rightarrow> bool" where
  "ec_ok E \<longleftrightarrow> (\<forall>h k. valid_key k \<longrightarrow>
      (case ec_sign E h k of (v, r, s) \<Rightarrow> v \<in> {27, 28} \<and> 0 < r \<and> r < secpk1n \<and> 0 < s \<and> s < secpk1n \<and>
         ec_recover E h (v, r, s) = Some (ec_pub E k)) \<and>
      (case ec_pub E k of (x, y) \<Rightarrow> 0 < x \<and> x < 2 ^ 256 \<and> y < 2 ^ 256)) \<and>
    (\<forall>h v r s. v < 27 \<or> 34 < v \<longrightarrow> ec_recover E h (v, r, s) = None)"

section \<open>The functions of utils.py\<close>

definition encode_int8 :: "int \<Rightarrow> string res" where
  "encode_int8 v = (if 0 \<le> v \<and> v \<le> 255 then Inr [char_of (nat v)] else Inl StructError)"

definition bytes_to_int :: "string \<Rightarrow> int res" where
  "bytes_to_int data = py_int 16 (hex_encode data)"

definition sha3 :: "ext \<Rightarrow> string \<Rightarrow> string" where
  "sha3 E seed = keccak E seed"

definition big_endian_to_int :: "ext \<Rightarrow> string \<Rightarrow> nat" where
  "big_endian_to_int E x = be_deser E (dropWhile (\<lambda>c. c = CHR 0x00) x)"

definition int_to_big_endian :: "ext \<Rightarrow> nat \<Rightarrow> string" where
  "int_to_big_endian E x = be_ser E x"

text \<open>The numbers and strings that \<open>normalize_address\<close> and its callers accept.\<close>

datatype pyarg = PyInt int | PyStr string

definition int_to_bytes :: "ext \<Rightarrow> pyarg \<Rightarrow> string res" where
  "int_to_bytes E value = (case value of
     PyStr s \<Rightarrow> Inr s
   | PyInt n \<Rightarrow> if n < 0 then Inl PyException else Inr (int_to_big_endian E (nat n)))"

definition remove_0x_head :: "string \<Rightarrow> string" where
  "remove_0x_head s = (if take 2 s = ''0x'' then drop 2 s else s)"

definition parse_as_bin :: "string \<Rightarrow> string res" where
  "parse_as_bin s = hex_decode (if take 2 s = ''0x'' then drop 2 s else s)"

definition parse_as_int :: "pyarg \<Rightarrow> int res" where
  "parse_as_int s = (case s of
     PyInt n \<Rightarrow> Inr n
   | PyStr t \<Rightarrow> if take 2 t = ''0x'' then py_int 16 (''0'' @ drop 2 t) else py_int 10 t)"

text \<open>The loop of \<open>int_to_addr\<close> fills the buffer from the last byte to the first.\<close>

fun int_to_addr_loop :: "nat \<Rightarrow> int \<Rightarrow> string \<Rightarrow> string" where
  "int_to_addr_loop 0 x buf = buf"
| "int_to_addr_loop (Suc i) x buf =
     int_to_addr_loop i (x div 256) (char_of (nat (x mod 256)) # buf)"

definition int_to_addr :: "int \<Rightarrow> string" where
  "int_to_addr x = int_to_addr_loop 20 x []"

definition normalize_address :: "ext \<Rightarrow> pyarg \<Rightarrow> bool \<Rightarrow> string res" where
  "normalize_address E x allow_blank =
     (case x of
        PyInt n \<Rightarrow> Inr (int_to_addr n)
      | PyStr s \<Rightarrow>
          if allow_blank \<and> s = [] then Inr []
          else
            let s1 = (if (length s = 42 \<or> length s = 50) \<and> take 2 s = ''0x'' then drop 2 s else s)
            in bindE (if length s1 = 40 \<or> length s1 = 48 then hex_decode s1 else Inr s1) (\<lambda>s2.
               bindE (if length s2 = 24
                      then if take 4 (sha3 E (take 20 s2)) = drop 20 s2
                           then Inr (take 20 s2) else Inl AssertionError
                      else Inr s2) (\<lambda>s3.
               if length s3 \<noteq> 20 then Inl PyException else Inr s3)))"

definition encode_int :: "ext \<Rightarrow> int \<Rightarrow> string res" where
  "encode_int E v =
     (if v < 0 \<or> v \<ge> 2 ^ 256 then Inl PyException else Inr (int_to_big_endian E (nat v)))"

definition zpad :: "string \<Rightarrow> nat \<Rightarrow> string" where
  "zpad x l = replicate (l - length x) (CHR 0x00) @ x"

definition encode_int32 :: "ext \<Rightarrow> nat \<Rightarrow> string" where
  "encode_int32 E v = zpad (int_to_big_endian E v) 32"

definition normalize_key :: "ext \<Rightarrow> pyarg \<Rightarrow> string res" where
  "normalize_key E key =
     bindE (case key of
        PyInt n \<Rightarrow> if n < 0 then Inl PyException else Inr (encode_int32 E (nat n))
      | PyStr k \<Rightarrow>
          if length k = 32 then Inr k
          else if length k = 64 then hex_decode k
          else if length k = 66 \<and> take 2 k = ''0x'' then hex_decode (drop 2 k)
          else Inl PyException)
       (\<lambda>key'. if key' = replicate 32 (CHR 0x00) then Inl PyException else Inr key')"

definition privtoaddr :: "ext \<Rightarrow> pyarg \<Rightarrow> string res" where
  "privtoaddr E k =
     bindE (normalize_key E k) (\<lambda>k'.
       case ec_pub E k' of (x, y) \<Rightarrow> Inr (drop 12 (sha3 E (encode_int32 E x @ encode_int32 E y))))"

definition ecrecover_to_pub :: "ext \<Rightarrow> string \<Rightarrow> nat \<Rightarrow> nat \<Rightarrow> nat \<Rightarrow> string res" where
  "ecrecover_to_pub E rawhash v r s =
     (case ec_recover E rawhash (v, r, s) of
        None \<Rightarrow> Inl ValueError
      | Some (x, y) \<Rightarrow>
          (let pub = encode_int32 E x @ encode_int32 E y
           in if length pub = 64 then Inr pub else Inl AssertionError))"

definition ecsign :: "ext \<Rightarrow> string \<Rightarrow> string \<Rightarrow> nat \<times> nat \<times> nat" where
  "ecsign E rawhash key = ec_sign E rawhash key"

text \<open>An \<open>IPNetwork\<close> by its version, its address as an integer and its prefix length.\<close>

datatype ipnet = IPNet (net_version: nat) (net_value: nat) (net_prefixlen: nat)

definition ipaddr_to_netaddr :: "int \<Rightarrow> string \<Rightarrow> ipnet res" where
  "ipaddr_to_netaddr afi ipaddr =
     (if afi = 1 then
        (if length ipaddr = 4 then Inr (IPNet 4 (be_val ipaddr) 32) else Inl ValueError)
      else if afi = 2 then
        (if length ipaddr = 16 then Inr (IPNet 6 (be_val ipaddr) 128) else Inl ValueError)
      else Inl PyException)"

unbundle bit_operations_syntax

text \<open>The groups of the hexadecimal string are combined with exclusive or; the second argument is
  the length of a group and, in the same call of \<open>int\<close>, the base.\<close>

fun xor_groups :: "string \<Rightarrow> nat \<Rightarrow> nat list \<Rightarrow> int \<Rightarrow> int res" where
  "xor_groups s l [] number = Inr number"
| "xor_groups s l (i # is) number =
     bindE (py_int l (slice s (i * l) ((i + 1) * l))) (\<lambda>v. xor_groups s l is (number XOR v))"

definition compress_random_no_to_int :: "string \<Rightarrow> nat \<Rightarrow> int res" where
  "compress_random_no_to_int input_string output_int_lenght =
     (let input_str = remove_0x_head input_string;
          ngroups = length input_str div output_int_lenght
      in if output_int_lenght = 0 then Inl ZeroDivisionError
         else xor_groups input_str output_int_lenght [0..<ngroups] 0)"

section \<open>Laws of the codecs\<close>

lemma digits_value_hex_encode:
  "digits_value 16 acc (hex_encode s) = Some (acc * 256 ^ length s + be_val s)"
proof (induction s arbitrary: acc)
  case Nil
  then show ?case by simp
next
  case (Cons c s)
  have shift: "be_val (c # s) = ord c * 256 ^ length s + be_val s"
  proof (induction s rule: rev_induct)
    case Nil
    then show ?case using be_val_simps(2) [of "[]" c] by simp
  next
    case (snoc d s)
    then show ?case using be_val_simps(2) [of "c # s" d] by (simp add: algebra_simps)
  qed
  have "16 * (16 * acc + ord c div 16) + ord c mod 16 = 256 * acc + (16 * (ord c div 16) + ord c mod 16)"
    by (simp add: algebra_simps)
  also have "\<dots> = 256 * acc + ord c" by simp
  finally have byte: "16 * (16 * acc + ord c div 16) + ord c mod 16 = 256 * acc + ord c" .
  have "digits_value 16 acc (hex_encode (c # s)) = digits_value 16 (256 * acc + ord c) (hex_encode s)"
    using byte by (simp add: digit_val_hex_digit add.commute)
  also have "\<dots> = Some ((256 * acc + ord c) * 256 ^ length s + be_val s)"
    by (rule Cons.IH)
  also have "(256 * acc + ord c) * 256 ^ length s + be_val s
      = acc * 256 ^ length (c # s) + be_val (c # s)"
    by (simp add: shift algebra_simps)
  finally show ?case .
qed

lemma hex_digit_no_space [simp]: "n < 16 \<Longrightarrow> \<not> is_space (hex_digit n)"
  by (drule less_16_cases) (elim disjE; simp add: hex_digit_def is_space_def)

lemma hex_encode_no_space: "\<forall>c \<in> set (hex_encode s). \<not> is_space c"
  by (induction s) simp_all

lemma py_strip_no_space: "(\<forall>c \<in> set s. \<not> is_space c) \<Longrightarrow> py_strip s = s"
  by (simp add: py_strip_def dropWhile_eq_self_iff)
    (metis dropWhile_eq_self_iff hd_in_set list.set_sel(1) rev_rev_ident set_rev)

lemma hex_digit_plain [simp]:
  assumes "n < 16"
  shows "hex_digit n \<noteq> CHR ''-''" "hex_digit n \<noteq> CHR ''+''" "hex_digit n \<noteq> CHR ''x''"
    "hex_digit n \<noteq> CHR ''X''"
  using less_16_cases [OF assms] by (elim disjE; simp add: hex_digit_def)+

lemma bytes_to_int_eq: "s \<noteq> [] \<Longrightarrow> bytes_to_int s = Inr (int (be_val s))"
  using py_strip_no_space [OF hex_encode_no_space, of s] digits_value_hex_encode [of 0 s]
  by (cases s) (auto simp: bytes_to_int_def py_int_def Let_def)

lemma int_to_addr_loop_append: "int_to_addr_loop i x (a @ b) = int_to_addr_loop i x a @ b"
  by (induction i x a rule: int_to_addr_loop.induct) simp_all

lemma length_int_to_addr_loop: "length (int_to_addr_loop i x buf) = i + length buf"
  by (induction i x buf rule: int_to_addr_loop.induct) simp_all

lemma be_val_int_to_addr_loop: "int (be_val (int_to_addr_loop i x [])) = x mod 256 ^ i"
proof (induction i arbitrary: x)
  case 0
  then show ?case by simp
next
  case (Suc i)
  have "int_to_addr_loop (Suc i) x [] = int_to_addr_loop i (x div 256) [] @ [char_of (nat (x mod 256))]"
    using int_to_addr_loop_append [of i "x div 256" "[]" "[char_of (nat (x mod 256))]"]
    by (simp only: int_to_addr_loop.simps append_Nil)
  then have "int (be_val (int_to_addr_loop (Suc i) x [])) = 256 * (x div 256 mod 256 ^ i) + x mod 256"
    by (simp add: Suc nat_less_iff)
  also have "\<dots> = x mod (256 * 256 ^ i)"
    by (simp add: zmod_zmult2_eq)
  finally show ?case by simp
qed

lemma length_int_to_addr [simp]: "length (int_to_addr x) = 20"
  by (simp add: int_to_addr_def length_int_to_addr_loop)

lemma be_val_int_to_addr: "int (be_val (int_to_addr x)) = x mod 2 ^ 160"
  using be_val_int_to_addr_loop [of 20 x] by (simp add: int_to_addr_def)

lemma normalize_address_length:
  "normalize_address E x b = Inr a \<Longrightarrow> length a = 20 \<or> (b \<and> a = [])"
  by (cases x) (auto simp: normalize_address_def Let_def bindE_eq_Inr split: if_splits)

lemma normalize_address_20 [simp]:
  "length a = 20 \<Longrightarrow> normalize_address E (PyStr a) b = Inr a"
  by (auto simp: normalize_address_def)

lemma normalize_address_hex [simp]:
  "length a = 20 \<Longrightarrow> normalize_address E (PyStr (hex_encode a)) b = Inr a"
  by (cases a) (auto simp: normalize_address_def)

lemma normalize_address_0x:
  "length a = 20 \<Longrightarrow> normalize_address E (PyStr (''0x'' @ hex_encode a)) b = Inr a"
  by (auto simp: normalize_address_def)

lemma split_on_not_Nil [simp]: "split_on c s \<noteq> []"
  by (induction s) auto

lemma split_on_word: "c \<notin> set w \<Longrightarrow> split_on c (w @ s) = (w @ hd (split_on c s)) # tl (split_on c s)"
  by (induction w) auto

lemma split_join: "ws \<noteq> [] \<Longrightarrow> (\<forall>w \<in> set ws. c \<notin> set w) \<Longrightarrow> split_on c (join_with c ws) = ws"
proof (induction c ws rule: join_with.induct)
  case (2 c w)
  then show ?case using split_on_word [of c w "[]"] by simp
next
  case (3 c w v ws)
  then show ?case using split_on_word [of c w "c # join_with c (v # ws)"] by simp
qed simp

lemma strip_char_id: "s \<noteq> [] \<Longrightarrow> hd s \<noteq> c \<Longrightarrow> last s \<noteq> c \<Longrightarrow> strip_char c s = s"
proof -
  have id: "dropWhile (\<lambda>d. d = c) t = t" if "hd t \<noteq> c" for t :: string
    using that by (cases t) auto
  assume "hd s \<noteq> c" "last s \<noteq> c" "s \<noteq> []"
  then show ?thesis
    by (simp add: strip_char_def id hd_rev)
qed

lemma join_with_Cons: "ws \<noteq> [] \<Longrightarrow> join_with c (w # ws) = w @ c # join_with c ws"
  by (cases ws) simp_all

lemma join_with_append:
  "vs \<noteq> [] \<Longrightarrow> ws \<noteq> [] \<Longrightarrow> join_with c (vs @ ws) = join_with c vs @ c # join_with c ws"
proof (induction vs)
  case (Cons v vs)
  then show ?case by (cases "vs = []") (simp_all add: join_with_Cons)
qed simp

text \<open>Decimal digits are read back.\<close>

lemma dec_digits_not_Nil [simp]: "dec_digits n \<noteq> []"
  by (subst dec_digits.simps) simp

lemma dec_digits_chars: "c \<in> set (dec_digits n) \<Longrightarrow> 48 \<le> ord c \<and> ord c < 58"
proof (induction n rule: dec_digits.induct)
  case (1 n)
  then show ?case by (subst (asm) dec_digits.simps) (auto split: if_splits)
qed

lemma digits_value_append:
  "digits_value b acc (s @ t) = Option.bind (digits_value b acc s) (\<lambda>a. digits_value b a t)"
  by (induction s arbitrary: acc) (auto split: option.splits)

lemma digit_val_dec: "d < 10 \<Longrightarrow> digit_val (char_of (48 + d)) = Some d"
  by (simp add: digit_val_def)

lemma digits_value_dec [simp]: "digits_value 10 0 (dec_digits n) = Some n"
proof (induction n rule: dec_digits.induct)
  case (1 n)
  show ?case
    by (subst dec_digits.simps) (use 1 in \<open>auto simp: digits_value_append digit_val_dec\<close>)
qed

lemma dec_digits_plain:
  "\<forall>c \<in> set (dec_digits n). \<not> is_space c"
  "take 1 (dec_digits n) \<noteq> ''-''" "take 1 (dec_digits n) \<noteq> ''+''"
  "CHR ''+'' \<notin> set (dec_digits n)"
proof -
  have c: "c \<in> set (dec_digits n) \<Longrightarrow> \<not> is_space c \<and> c \<noteq> CHR ''-'' \<and> c \<noteq> CHR ''+''" for c
    using dec_digits_chars [of c n] by (auto simp: is_space_def)
  then show "\<forall>c \<in> set (dec_digits n). \<not> is_space c" "CHR ''+'' \<notin> set (dec_digits n)" by blast+
  show "take 1 (dec_digits n) \<noteq> ''-''" "take 1 (dec_digits n) \<noteq> ''+''"
    using c by (cases "dec_digits n"; force)+
qed

lemma py_int_dec [simp]: "py_int 10 (dec_digits n) = Inr (int n)"
  using dec_digits_plain [of n] by (simp add: py_int_def py_strip_no_space Let_def)

lemma py_int_str [simp]: "0 \<le> n \<Longrightarrow> py_int 10 (py_str_int n) = Inr n"
  by (simp add: py_str_int_def)

lemma zpad_length: "length (zpad x l) = max l (length x)"
  by (simp add: zpad_def)

lemma be_val_zpad [simp]: "be_val (zpad x l) = be_val x"
proof -
  have "be_val (replicate n (CHR 0x00)) = 0" for n
  proof (induction n)
    case (Suc n)
    have "replicate (Suc n) (CHR 0x00) = replicate n (CHR 0x00) @ [CHR 0x00]"
      by (simp add: replicate_append_same)
    with Suc show ?case by (simp del: replicate.simps)
  qed simp
  moreover have "be_val (a @ b) = be_val a * 256 ^ length b + be_val b" for a b
    by (induction b rule: rev_induct) (simp_all add: append_assoc [symmetric] algebra_simps del: append_assoc)
  ultimately show ?thesis by (simp add: zpad_def)
qed

end
