(* ===== verification/Store.thy ===== *)
theory Store
  imports Pyutils
begin

text \<open>
  \<open>db.py\<close>: the key-value stores. A store class is the record of its methods, \<open>store_ops\<close>, over
  the type of the object's state; a class that wraps another store takes the methods of the
  wrapped one. \<open>LevelDB.get\<close> and \<open>ListeningDB.get\<close> write their caches, so a read is a
  computation on the state as well.

  Two interfaces are stated as locales. \<open>kv_store\<close> is a dictionary: the contents a store shows
  (its \<open>view\<close>) and how each method reads and changes them. \<open>content_store\<close> is what \<open>Trie\<close> needs of
  the store it writes to, under the 32 byte keys that hashes are: a write under a fresh key, or of the value the key holds already, makes
  the value readable, any other write raises AssertionError; \<open>inv n\<close> says that \<open>n\<close> more writes stay within the width of the reference
  counters. \<open>RefcountDB\<close> gives a content store over any dictionary.
\<close>

section \<open>The interface of a store\<close>

record 's store_ops =
  so_get :: "string \<Rightarrow> ('s, string) M"
  so_put :: "string \<Rightarrow> string \<Rightarrow> ('s, unit) M"
  so_del :: "string \<Rightarrow> ('s, unit) M"
  so_has :: "string \<Rightarrow> ('s, bool) M"

definition read_result :: "string option \<Rightarrow> string res" where
  "read_result r = (case r of Some v \<Rightarrow> Inr v | None \<Rightarrow> Inl KeyError)"

lemma read_result_simps [simp]:
  "read_result (Some v) = Inr v" "read_result None = Inl KeyError"
  "read_result r = Inr v \<longleftrightarrow> r = Some v" "read_result r = Inl e \<longleftrightarrow> r = None \<and> e = KeyError"
  by (auto simp: read_result_def split: option.splits)

locale kv_store =
  fixes B :: "'s store_ops" and view :: "'s \<Rightarrow> string \<rightharpoonup> string"
  assumes get_law: "\<exists>s'. so_get B k s = (read_result (view s k), s') \<and> view s' = view s"
    and put_law: "\<exists>s'. so_put B k v s = (Inr (), s') \<and> view s' = (view s)(k \<mapsto> v)"
    and del_law: "view s k \<noteq> None \<Longrightarrow> \<exists>s'. so_del B k s = (Inr (), s') \<and> view s' = (view s)(k := None)"
    and has_law: "\<exists>s'. so_has B k s = (Inr (view s k \<noteq> None), s') \<and> view s' = view s"

locale content_store =
  fixes get :: "string \<Rightarrow> ('s, string) M"
    and put :: "string \<Rightarrow> string \<Rightarrow> ('s, unit) M"
    and view :: "'s \<Rightarrow> string \<rightharpoonup> string"
    and inv :: "nat \<Rightarrow> 's \<Rightarrow> bool"
  assumes get_spec: "inv n s \<Longrightarrow> length k = 32 \<Longrightarrow> \<exists>s'. get k s = (read_result (view s k), s') \<and> view s' = view s \<and> inv n s'"
    and put_spec: "inv (Suc n) s \<Longrightarrow> length k = 32 \<Longrightarrow> \<exists>s'. inv n s' \<and>
        (if view s k = None \<or> view s k = Some v
         then put k v s = (Inr (), s') \<and> view s' = (view s)(k \<mapsto> v)
         else put k v s = (Inl AssertionError, s') \<and> view s' = view s)"
    and inv_mono: "inv (Suc n) s \<Longrightarrow> inv n s"

section \<open>EphemDB\<close>

type_synonym ephem = "string \<rightharpoonup> string"

definition ephem_get :: "string \<Rightarrow> (ephem, string) M" where
  "ephem_get key db = (case db key of Some v \<Rightarrow> (Inr v, db) | None \<Rightarrow> (Inl KeyError, db))"

definition ephem_put :: "string \<Rightarrow> string \<Rightarrow> (ephem, unit) M" where
  "ephem_put key value db = (Inr (), db(key \<mapsto> value))"

definition ephem_delete :: "string \<Rightarrow> (ephem, unit) M" where
  "ephem_delete key db =
     (case db key of Some v \<Rightarrow> (Inr (), db(key := None)) | None \<Rightarrow> (Inl KeyError, db))"

definition ephem_has_key :: "string \<Rightarrow> (ephem, bool) M" where
  "ephem_has_key key db = (Inr (db key \<noteq> None), db)"

definition ephem_db :: "ephem store_ops" where
  "ephem_db = \<lparr>so_get = ephem_get, so_put = ephem_put, so_del = ephem_delete,
     so_has = ephem_has_key\<rparr>"

interpretation eph: kv_store ephem_db "\<lambda>s. s"
  by unfold_locales (auto simp: ephem_db_def ephem_get_def ephem_put_def ephem_delete_def
    ephem_has_key_def split: option.splits)

section \<open>LevelDB\<close>

text \<open>\<open>uncommitted\<close> caches reads and holds the pending writes, \<open>None\<close> for a pending deletion;
  \<open>disk\<close> is the database behind the handle \<open>self.db\<close>, whose \<open>Get\<close> raises KeyError for a key it
  does not hold.\<close>

record level =
  uncommitted :: "string \<rightharpoonup> string option"
  disk :: "string \<rightharpoonup> string"

definition level_get :: "string \<Rightarrow> (level, string) M" where
  "level_get key s =
     (case uncommitted s key of
        Some None \<Rightarrow> (Inl KeyError, s)
      | Some (Some v) \<Rightarrow> (Inr v, s)
      | None \<Rightarrow>
          (case disk s key of
             None \<Rightarrow> (Inl KeyError, s)
           | Some v \<Rightarrow> (Inr v, s\<lparr>uncommitted := (uncommitted s)(key \<mapsto> Some v)\<rparr>)))"

definition level_put :: "string \<Rightarrow> string \<Rightarrow> (level, unit) M" where
  "level_put key value s = (Inr (), s\<lparr>uncommitted := (uncommitted s)(key \<mapsto> Some value)\<rparr>)"

definition level_delete :: "string \<Rightarrow> (level, unit) M" where
  "level_delete key s = (Inr (), s\<lparr>uncommitted := (uncommitted s)(key \<mapsto> None)\<rparr>)"

definition level_has_key :: "string \<Rightarrow> (level, bool) M" where
  "level_has_key key =
     catchM (bindM (level_get key) (\<lambda>_. ret True)) (\<lambda>e. is_a e KeyError) (\<lambda>_. ret False)"

text \<open>The batch holds one write or deletion per key of \<open>uncommitted\<close>, so its order is immaterial.\<close>

definition level_commit :: "(level, unit) M" where
  "level_commit s =
     (Inr (), \<lparr>uncommitted = Map.empty,
               disk = (\<lambda>k. case uncommitted s k of None \<Rightarrow> disk s k | Some v \<Rightarrow> v)\<rparr>)"

definition level_db :: "level store_ops" where
  "level_db = \<lparr>so_get = level_get, so_put = level_put, so_del = level_delete,
     so_has = level_has_key\<rparr>"

definition level_view :: "level \<Rightarrow> string \<rightharpoonup> string" where
  "level_view s k = (case uncommitted s k of None \<Rightarrow> disk s k | Some v \<Rightarrow> v)"

lemma level_get_run: "\<exists>s'. level_get k s = (read_result (level_view s k), s') \<and> level_view s' = level_view s"
  by (auto simp: level_get_def level_view_def fun_eq_iff split: option.splits)

lemma level_has_key_run:
  "\<exists>s'. level_has_key k s = (Inr (level_view s k \<noteq> None), s') \<and> level_view s' = level_view s"
proof -
  obtain s' where "level_get k s = (read_result (level_view s k), s')" and "level_view s' = level_view s"
    using level_get_run by blast
  then show ?thesis
    by (cases "level_view s k") (auto simp: level_has_key_def catchM_def bindM_def)
qed

interpretation lvl: kv_store level_db level_view
proof unfold_locales
  fix k v s
  show "\<exists>s'. so_get level_db k s = (read_result (level_view s k), s') \<and> level_view s' = level_view s"
    using level_get_run by (simp add: level_db_def)
  show "\<exists>s'. so_put level_db k v s = (Inr (), s') \<and> level_view s' = (level_view s)(k \<mapsto> v)"
    by (auto simp: level_db_def level_put_def level_view_def fun_eq_iff split: option.splits)
  show "\<exists>s'. so_has level_db k s = (Inr (level_view s k \<noteq> None), s') \<and> level_view s' = level_view s"
    using level_has_key_run by (simp add: level_db_def)
  show "level_view s k \<noteq> None \<Longrightarrow>
      \<exists>s'. so_del level_db k s = (Inr (), s') \<and> level_view s' = (level_view s)(k := None)"
    by (auto simp: level_db_def level_delete_def level_view_def fun_eq_iff split: option.splits)
qed

lemma level_commit_view:
  "level_commit s = (Inr (), s') \<Longrightarrow>
     level_view s' = level_view s \<and> disk s' = level_view s \<and> uncommitted s' = Map.empty"
  by (auto simp: level_commit_def level_view_def fun_eq_iff)

section \<open>OverlayDB and ListeningDB\<close>

record 'b overlay =
  ov_db :: 'b
  ov_overlay :: "string \<rightharpoonup> string option"

definition in_ov_db :: "('b, 'a) M \<Rightarrow> ('b overlay, 'a) M" where
  "in_ov_db m = zoomM ov_db (\<lambda>b s. s\<lparr>ov_db := b\<rparr>) m"

definition overlay_get :: "'b store_ops \<Rightarrow> string \<Rightarrow> ('b overlay, string) M" where
  "overlay_get B key s =
     (case ov_overlay s key of
        Some None \<Rightarrow> (Inl KeyError, s)
      | Some (Some v) \<Rightarrow> (Inr v, s)
      | None \<Rightarrow> in_ov_db (so_get B key) s)"

definition overlay_put :: "string \<Rightarrow> string \<Rightarrow> ('b overlay, unit) M" where
  "overlay_put key value s = (Inr (), s\<lparr>ov_overlay := (ov_overlay s)(key \<mapsto> Some value)\<rparr>)"

definition overlay_delete :: "string \<Rightarrow> ('b overlay, unit) M" where
  "overlay_delete key s = (Inr (), s\<lparr>ov_overlay := (ov_overlay s)(key \<mapsto> None)\<rparr>)"

definition overlay_has_key :: "'b store_ops \<Rightarrow> string \<Rightarrow> ('b overlay, bool) M" where
  "overlay_has_key B key s =
     (case ov_overlay s key of
        Some v \<Rightarrow> (Inr (v \<noteq> None), s)
      | None \<Rightarrow> in_ov_db (so_has B key) s)"

definition overlay_db :: "'b store_ops \<Rightarrow> 'b overlay store_ops" where
  "overlay_db B = \<lparr>so_get = overlay_get B, so_put = overlay_put, so_del = overlay_delete,
     so_has = overlay_has_key B\<rparr>"

definition overlay_view :: "('b \<Rightarrow> string \<rightharpoonup> string) \<Rightarrow> 'b overlay \<Rightarrow> string \<rightharpoonup> string" where
  "overlay_view bview s k = (case ov_overlay s k of Some v \<Rightarrow> v | None \<Rightarrow> bview (ov_db s) k)"

record 'b listening =
  li_parent :: 'b
  li_kv :: "string \<rightharpoonup> string"

definition in_parent :: "('b, 'a) M \<Rightarrow> ('b listening, 'a) M" where
  "in_parent m = zoomM li_parent (\<lambda>b s. s\<lparr>li_parent := b\<rparr>) m"

definition listening_get :: "'b store_ops \<Rightarrow> string \<Rightarrow> ('b listening, string) M" where
  "listening_get B key =
     bindM (gets (\<lambda>s. li_kv s key = None)) (\<lambda>missing.
     bindM (if missing
            then bindM (in_parent (so_get B key)) (\<lambda>v. modifyM (\<lambda>s. s\<lparr>li_kv := (li_kv s)(key \<mapsto> v)\<rparr>))
            else ret ()) (\<lambda>_.
     in_parent (so_get B key)))"

definition listening_db :: "'b store_ops \<Rightarrow> 'b listening store_ops" where
  "listening_db B = \<lparr>so_get = listening_get B, so_put = (\<lambda>k v. in_parent (so_put B k v)),
     so_del = (\<lambda>k. in_parent (so_del B k)), so_has = (\<lambda>k. in_parent (so_has B k))\<rparr>"

context kv_store begin

lemma overlay_kv_store: "kv_store (overlay_db B) (overlay_view view)"
proof
  fix k v s
  show "\<exists>s'. so_get (overlay_db B) k s = (read_result (overlay_view view s k), s') \<and>
          overlay_view view s' = overlay_view view s"
    using get_law [of k "ov_db s"]
    by (auto simp: overlay_db_def overlay_get_def overlay_view_def in_ov_db_def zoomM_def fun_eq_iff
      split: option.splits)
  show "\<exists>s'. so_put (overlay_db B) k v s = (Inr (), s') \<and>
          overlay_view view s' = (overlay_view view s)(k \<mapsto> v)"
    by (auto simp: overlay_db_def overlay_put_def overlay_view_def fun_eq_iff split: option.splits)
  show "overlay_view view s k \<noteq> None \<Longrightarrow> \<exists>s'. so_del (overlay_db B) k s = (Inr (), s') \<and>
          overlay_view view s' = (overlay_view view s)(k := None)"
    by (auto simp: overlay_db_def overlay_delete_def overlay_view_def fun_eq_iff split: option.splits)
  show "\<exists>s'. so_has (overlay_db B) k s = (Inr (overlay_view view s k \<noteq> None), s') \<and>
          overlay_view view s' = overlay_view view s"
    using has_law [of k "ov_db s"]
    by (auto simp: overlay_db_def overlay_has_key_def overlay_view_def in_ov_db_def zoomM_def fun_eq_iff
      split: option.splits)
qed

lemma listening_get_run:
  "\<exists>s'. listening_get B k s = (read_result (view (li_parent s) k), s') \<and>
     view (li_parent s') = view (li_parent s)"
proof -
  obtain p where p: "so_get B k (li_parent s) = (read_result (view (li_parent s) k), p)"
      "view p = view (li_parent s)"
    using get_law by blast
  obtain q where q: "so_get B k p = (read_result (view p k), q)" "view q = view p"
    using get_law by blast
  show ?thesis
    using p q
    by (cases "view (li_parent s) k")
      (auto simp: listening_get_def bindM_def in_parent_def zoomM_def)
qed

lemma listening_kv_store: "kv_store (listening_db B) (\<lambda>s. view (li_parent s))"
proof
  fix k v s
  show "\<exists>s'. so_get (listening_db B) k s = (read_result (view (li_parent s) k), s') \<and>
          view (li_parent s') = view (li_parent s)"
    using listening_get_run by (simp add: listening_db_def)
  show "\<exists>s'. so_put (listening_db B) k v s = (Inr (), s') \<and>
          view (li_parent s') = (view (li_parent s))(k \<mapsto> v)"
    using put_law [of k v "li_parent s"] by (auto simp: listening_db_def in_parent_def zoomM_def)
  show "view (li_parent s) k \<noteq> None \<Longrightarrow> \<exists>s'. so_del (listening_db B) k s = (Inr (), s') \<and>
          view (li_parent s') = (view (li_parent s))(k := None)"
    using del_law [of "li_parent s" k] by (auto simp: listening_db_def in_parent_def zoomM_def)
  show "\<exists>s'. so_has (listening_db B) k s = (Inr (view (li_parent s) k \<noteq> None), s') \<and>
          view (li_parent s') = view (li_parent s)"
    using has_law [of k "li_parent s"] by (auto simp: listening_db_def in_parent_def zoomM_def)
qed

end

interpretation ovl: kv_store "overlay_db level_db" "overlay_view level_view"
  by (rule lvl.overlay_kv_store)

interpretation lis: kv_store "listening_db level_db" "\<lambda>s. level_view (li_parent s)"
  by (rule lvl.listening_kv_store)

section \<open>RefcountDB\<close>

text \<open>Every entry of the wrapped store is a counter of four bytes followed by the value.\<close>

definition add1 :: "ext \<Rightarrow> string \<Rightarrow> string res" where
  "add1 E b = (let v = big_endian_to_int E b
               in bindE (encode_int E (int v + 1)) (\<lambda>c. Inr (zpad c 4)))"

definition sub1 :: "ext \<Rightarrow> string \<Rightarrow> string res" where
  "sub1 E b = (let v = big_endian_to_int E b
               in bindE (encode_int E (int v - 1)) (\<lambda>c. Inr (zpad c 4)))"

definition one_ref :: string where
  "one_ref = [CHR 0x00, CHR 0x00, CHR 0x00, CHR 0x01]"

definition refcount_get :: "'b store_ops \<Rightarrow> string \<Rightarrow> ('b, string) M" where
  "refcount_get B key = bindM (so_get B key) (\<lambda>v. ret (drop 4 v))"

definition get_refcount :: "ext \<Rightarrow> 'b store_ops \<Rightarrow> string \<Rightarrow> ('b, nat) M" where
  "get_refcount E B key =
     catchM (bindM (so_get B key) (\<lambda>v. ret (big_endian_to_int E (take 4 v))))
       (\<lambda>e. is_a e KeyError) (\<lambda>_. ret 0)"

definition refcount_put :: "ext \<Rightarrow> 'b store_ops \<Rightarrow> string \<Rightarrow> string \<Rightarrow> ('b, unit) M" where
  "refcount_put E B key value =
     catchM
       (bindM (so_get B key) (\<lambda>existing.
        bindM (assertM (drop 4 existing = value)) (\<lambda>_.
        bindM (liftE (add1 E (take 4 existing))) (\<lambda>c.
        so_put B key (c @ value)))))
       (\<lambda>e. is_a e KeyError)
       (\<lambda>_. so_put B key (one_ref @ value))"

definition refcount_delete :: "ext \<Rightarrow> 'b store_ops \<Rightarrow> string \<Rightarrow> ('b, unit) M" where
  "refcount_delete E B key =
     bindM (so_get B key) (\<lambda>existing.
     if take 4 existing = one_ref then so_del B key
     else bindM (liftE (sub1 E (take 4 existing))) (\<lambda>c. so_put B key (c @ drop 4 existing)))"

definition refcount_db :: "ext \<Rightarrow> 'b store_ops \<Rightarrow> 'b store_ops" where
  "refcount_db E B = \<lparr>so_get = refcount_get B, so_put = refcount_put E B,
     so_del = refcount_delete E B, so_has = so_has B\<rparr>"

subsection \<open>Counters\<close>

definition counter :: "nat \<Rightarrow> string" where
  "counter n = zpad (be_bytes n) 4"

lemma be_val_counter [simp]: "be_val (counter n) = n"
  by (simp add: counter_def)

lemma length_counter [simp]: "n < 2 ^ 32 \<Longrightarrow> length (counter n) = 4"
  using length_be_bytes_le [of n 4] by (simp add: counter_def zpad_length)

lemma one_ref_counter: "one_ref = counter 1"
proof -
  have "be_bytes 1 = [CHR 0x01]"
    by (subst be_bytes.simps) (simp add: ord_eq_iff [symmetric])
  then show ?thesis
    by (simp add: one_ref_def counter_def zpad_def numeral_eq_Suc)
qed

lemma big_endian_to_int_eq: "ext_ok E \<Longrightarrow> big_endian_to_int E b = be_val b"
proof -
  assume E: "ext_ok E"
  have d: "dropWhile (\<lambda>c. c = CHR 0x00) b = be_bytes (be_val b)"
    by (simp add: be_bytes_be_val)
  have "take 1 (be_bytes n) \<noteq> [CHR 0x00]" for n
    using be_bytes_no_leading_zero [of n] by (cases "be_bytes n") auto
  then show ?thesis
    by (simp add: big_endian_to_int_def d ext_okD(3) [OF E])
qed

lemma counter_be_val: "length b = 4 \<Longrightarrow> counter (be_val b) = b"
proof -
  assume b: "length b = 4"
  let ?z = "\<lambda>c. c = CHR 0x00"
  have split: "takeWhile ?z b @ dropWhile ?z b = b" by simp
  have rep: "takeWhile ?z b = replicate (length (takeWhile ?z b)) (CHR 0x00)"
    by (rule replicate_eqI) (auto dest: set_takeWhileD)
  have "length (takeWhile ?z b) + length (dropWhile ?z b) = 4"
    using b split by (metis length_append)
  then have len: "4 - length (dropWhile ?z b) = length (takeWhile ?z b)" by simp
  have "counter (be_val b) = replicate (4 - length (dropWhile ?z b)) (CHR 0x00) @ dropWhile ?z b"
    by (simp only: counter_def zpad_def be_bytes_be_val)
  also have "\<dots> = takeWhile ?z b @ dropWhile ?z b"
    by (simp only: len rep [symmetric])
  finally show ?thesis by (simp only: split)
qed

lemma add1_eq: "ext_ok E \<Longrightarrow> be_val b + 1 < 2 ^ 32 \<Longrightarrow> add1 E b = Inr (counter (be_val b + 1))"
  by (simp add: add1_def Let_def encode_int_def big_endian_to_int_eq int_to_big_endian_def
    ext_okD(2) counter_def nat_add_distrib)

lemma sub1_eq:
  "ext_ok E \<Longrightarrow> 0 < be_val b \<Longrightarrow> be_val b < 2 ^ 32 \<Longrightarrow> sub1 E b = Inr (counter (be_val b - 1))"
  by (simp add: sub1_def Let_def encode_int_def big_endian_to_int_eq int_to_big_endian_def
    ext_okD(2) counter_def nat_diff_distrib)

subsection \<open>RefcountDB as a content store\<close>

definition refcount_view :: "('b \<Rightarrow> string \<rightharpoonup> string) \<Rightarrow> 'b \<Rightarrow> string \<rightharpoonup> string" where
  "refcount_view bview s k = (if length k = 32 then map_option (drop 4) (bview s k) else None)"

text \<open>\<open>n\<close> more writes keep every counter below \<open>2 ^ 32\<close>. Entries that other code puts into the wrapped
  store under keys of another length, as the state does, have no counter.\<close>

definition refcount_inv :: "('b \<Rightarrow> string \<rightharpoonup> string) \<Rightarrow> nat \<Rightarrow> 'b \<Rightarrow> bool" where
  "refcount_inv bview n s \<longleftrightarrow> n < 2 ^ 32 \<and>
     (\<forall>k v. length k = 32 \<longrightarrow> bview s k = Some v \<longrightarrow> be_val (take 4 v) + n < 2 ^ 32)"

lemma refcount_inv_cong: "bview s' = bview s \<Longrightarrow> refcount_inv bview n s' = refcount_inv bview n s"
  by (simp add: refcount_inv_def)

lemma refcount_inv_update:
  assumes "refcount_inv bview (Suc n) s" and "bview s' = (bview s)(k \<mapsto> counter c @ v)"
    and "c + n < 2 ^ 32"
  shows "refcount_inv bview n s'"
proof -
  have "take 4 (counter c @ v) = counter c"
    using assms(3) by simp
  with assms show ?thesis
    unfolding refcount_inv_def by (metis be_val_counter Suc_lessD add_Suc_right fun_upd_apply option.inject)
qed

context kv_store begin

lemma refcount_get_run:
  "length k = 32 \<Longrightarrow> \<exists>s'. refcount_get B k s = (read_result (refcount_view view s k), s') \<and> view s' = view s"
  using get_law [of k s]
  by (cases "view s k") (auto simp: refcount_get_def bindM_def refcount_view_def)

lemma refcount_put_new:
  assumes "view s k = None"
  shows "\<exists>s'. refcount_put E B k v s = (Inr (), s') \<and> view s' = (view s)(k \<mapsto> one_ref @ v)"
proof -
  obtain t where t: "so_get B k s = (Inl KeyError, t)" "view t = view s"
    using get_law [of k s] assms by auto
  obtain u where "so_put B k (one_ref @ v) t = (Inr (), u)" "view u = (view t)(k \<mapsto> one_ref @ v)"
    using put_law by blast
  with t show ?thesis
    by (auto simp: refcount_put_def catchM_def bindM_def)
qed

lemma refcount_put_old:
  assumes "ext_ok E" and "view s k = Some w" and "be_val (take 4 w) + 1 < 2 ^ 32"
  shows "if drop 4 w = v
    then \<exists>s'. refcount_put E B k v s = (Inr (), s') \<and>
           view s' = (view s)(k \<mapsto> counter (be_val (take 4 w) + 1) @ v)
    else \<exists>s'. refcount_put E B k v s = (Inl AssertionError, s') \<and> view s' = view s"
proof -
  obtain t where t: "so_get B k s = (Inr w, t)" "view t = view s"
    using get_law [of k s] assms by auto
  obtain u where "so_put B k (counter (be_val (take 4 w) + 1) @ v) t = (Inr (), u)"
      "view u = (view t)(k \<mapsto> counter (be_val (take 4 w) + 1) @ v)"
    using put_law by blast
  with t assms show ?thesis
    by (auto simp: refcount_put_def catchM_def bindM_def add1_eq is_a_def)
qed

lemma refcount_put_spec:
  assumes E: "ext_ok E" and inv: "refcount_inv view (Suc n) s" and key: "length k = 32"
  shows "\<exists>s'. refcount_inv view n s' \<and>
    (if refcount_view view s k = None \<or> refcount_view view s k = Some v
     then refcount_put E B k v s = (Inr (), s') \<and>
       refcount_view view s' = (refcount_view view s)(k \<mapsto> v)
     else refcount_put E B k v s = (Inl AssertionError, s') \<and> refcount_view view s' = refcount_view view s)"
proof (cases "view s k")
  case None
  obtain s' where run: "refcount_put E B k v s = (Inr (), s')" and s': "view s' = (view s)(k \<mapsto> counter 1 @ v)"
    using refcount_put_new [OF None, of E v] by (auto simp: one_ref_counter)
  from inv have "refcount_inv view n s'"
    by (intro refcount_inv_update [OF inv s']) (simp add: refcount_inv_def)
  with run s' None key show ?thesis
    by (auto simp: refcount_view_def fun_eq_iff)
next
  case (Some w)
  with inv key have c: "be_val (take 4 w) + Suc n < 2 ^ 32"
    by (auto simp: refcount_inv_def)
  show ?thesis
  proof (cases "drop 4 w = v")
    case True
    with c refcount_put_old [OF E Some, of v]
    obtain s' where run: "refcount_put E B k v s = (Inr (), s')"
      and s': "view s' = (view s)(k \<mapsto> counter (be_val (take 4 w) + 1) @ v)"
      by auto
    have "refcount_inv view n s'"
      using c by (intro refcount_inv_update [OF inv s']) simp
    with run s' Some True c key show ?thesis
      by (auto simp: refcount_view_def fun_eq_iff)
  next
    case False
    with c refcount_put_old [OF E Some, of v]
    obtain s' where run: "refcount_put E B k v s = (Inl AssertionError, s')" and s': "view s' = view s"
      by auto
    have "refcount_inv view n s"
      using inv by (fastforce simp: refcount_inv_def)
    with run s' Some False key show ?thesis
      by (auto simp: refcount_view_def refcount_inv_def fun_eq_iff)
  qed
qed

text \<open>Over any dictionary \<open>RefcountDB\<close> is a content store.\<close>

sublocale rc: content_store "refcount_get B" "refcount_put E B" "refcount_view view"
    "\<lambda>n s. ext_ok E \<and> refcount_inv view n s" for E
proof
  fix n k v s
  show "ext_ok E \<and> refcount_inv view n s \<Longrightarrow> length k = 32 \<Longrightarrow>
      \<exists>s'. refcount_get B k s = (read_result (refcount_view view s k), s') \<and>
        refcount_view view s' = refcount_view view s \<and> ext_ok E \<and> refcount_inv view n s'"
    using refcount_get_run [of k s] by (auto simp: refcount_view_def fun_eq_iff refcount_inv_def)
  show "ext_ok E \<and> refcount_inv view (Suc n) s \<Longrightarrow> length k = 32 \<Longrightarrow> \<exists>s'. (ext_ok E \<and> refcount_inv view n s') \<and>
    (if refcount_view view s k = None \<or> refcount_view view s k = Some v
     then refcount_put E B k v s = (Inr (), s') \<and>
       refcount_view view s' = (refcount_view view s)(k \<mapsto> v)
     else refcount_put E B k v s = (Inl AssertionError, s') \<and> refcount_view view s' = refcount_view view s)"
    using refcount_put_spec [of E n s k v] by blast
  show "ext_ok E \<and> refcount_inv view (Suc n) s \<Longrightarrow> ext_ok E \<and> refcount_inv view n s"
    by (fastforce simp: refcount_inv_def)
qed

text \<open>A write followed by a deletion of the same key leaves the wrapped store as it was.\<close>

lemma refcount_delete_run:
  assumes E: "ext_ok E" and k: "view s k = Some (counter c @ v)" and c: "0 < c" "c < 2 ^ 32"
  shows "\<exists>s'. refcount_delete E B k s = (Inr (), s') \<and>
    view s' = (view s)(k := (if c = 1 then None else Some (counter (c - 1) @ v)))"
proof -
  obtain t where t: "so_get B k s = (Inr (counter c @ v), t)" "view t = view s"
    using get_law [of k s] k by auto
  show ?thesis
  proof (cases "c = 1")
    case True
    with t k del_law [of t k] show ?thesis
      by (auto simp: refcount_delete_def bindM_def one_ref_counter)
  next
    case False
    then have "counter c \<noteq> one_ref"
      by (metis be_val_counter one_ref_counter)
    with False t c E put_law [of k "counter (c - 1) @ v" t] show ?thesis
      by (auto simp: refcount_delete_def bindM_def sub1_eq)
  qed
qed

lemma refcount_put_delete:
  assumes E: "ext_ok E" and wf: "\<And>w. view s k = Some w \<Longrightarrow> 4 \<le> length w \<and> 0 < be_val (take 4 w)"
    and inv: "refcount_inv view (Suc n) s" "length k = 32" and run: "refcount_put E B k v s = (Inr (), s')"
  shows "\<exists>s''. refcount_delete E B k s' = (Inr (), s'') \<and> view s'' = view s"
proof (cases "view s k")
  case None
  with run refcount_put_new [of s k E v] have s': "view s' = (view s)(k \<mapsto> counter 1 @ v)"
    by (auto simp: one_ref_counter)
  with refcount_delete_run [OF E, of s' k 1 v] None show ?thesis
    by (auto simp: fun_eq_iff)
next
  case (Some w)
  let ?c = "be_val (take 4 w)"
  have w: "counter ?c @ drop 4 w = w" and pos: "0 < ?c"
    using wf [OF Some] by (simp_all add: counter_be_val)
  from Some inv have c: "?c + 1 < 2 ^ 32"
    by (fastforce simp: refcount_inv_def)
  with run refcount_put_old [OF E Some, of v] have v: "drop 4 w = v"
    and s': "view s' = (view s)(k \<mapsto> counter (?c + 1) @ v)"
    by (auto split: if_splits)
  then obtain s'' where "refcount_delete E B k s' = (Inr (), s'')"
      and "view s'' = (view s')(k := Some (counter ?c @ v))"
    using refcount_delete_run [OF E, of s' k "?c + 1" v] c pos by auto
  with s' Some w v show ?thesis
    by (auto simp: fun_eq_iff)
qed

end

end
