(* ===== verification/Codec.thy ===== *)
theory Codec
  imports Store
begin

text \<open>
  The codecs of \<open>trie.py\<close> (lines 1 to 116): nibble lists, the hexadecimal-prefix encoding of trie
  paths with its terminator flag, and the RLP encoder \<open>encode_optimized\<close>. A reference decoder
  shows that the encoder is unambiguous; it also serves as the concrete \<open>rlp.decode\<close> of the
  witnesses.
\<close>

section \<open>Nibbles\<close>

definition NIBBLE_TERMINATOR :: nat where
  "NIBBLE_TERMINATOR = 16"

text \<open>The table \<open>hti\<close> maps the sixteen hexadecimal digits to their values.\<close>

definition hti :: "char \<Rightarrow> nat res" where
  "hti c = (case find (\<lambda>i. hex_digit i = c) [0..<16] of Some i \<Rightarrow> Inr i | None \<Rightarrow> Inl KeyError)"

definition bin_to_nibbles :: "string \<Rightarrow> nat list res" where
  "bin_to_nibbles s = mapE hti (hex_encode s)"

text \<open>The loop of \<open>nibbles_to_bin\<close> and \<open>pack_nibbles\<close> over pairs of nibbles.\<close>

fun pack_pairs :: "nat list \<Rightarrow> string res" where
  "pack_pairs [] = Inr []"
| "pack_pairs [a] = Inl IndexError"
| "pack_pairs (a # b # r) =
     bindE (py_chr (16 * a + b)) (\<lambda>c. bindE (pack_pairs r) (\<lambda>s. Inr (c # s)))"

definition nibbles_to_bin :: "nat list \<Rightarrow> string res" where
  "nibbles_to_bin nibbles =
     (if \<exists>x \<in> set nibbles. x > 15 then Inl PyException
      else if length nibbles mod 2 \<noteq> 0 then Inl PyException
      else pack_pairs nibbles)"

definition with_terminator :: "nat list \<Rightarrow> nat list" where
  "with_terminator nibbles =
     (if nibbles = [] \<or> last nibbles \<noteq> NIBBLE_TERMINATOR then nibbles @ [NIBBLE_TERMINATOR]
      else nibbles)"

definition without_terminator :: "nat list \<Rightarrow> nat list" where
  "without_terminator nibbles =
     (if nibbles \<noteq> [] \<and> last nibbles = NIBBLE_TERMINATOR then butlast nibbles else nibbles)"

definition adapt_terminator :: "nat list \<Rightarrow> bool \<Rightarrow> nat list" where
  "adapt_terminator nibbles has_terminator =
     (if has_terminator then with_terminator nibbles else without_terminator nibbles)"

definition pack_nibbles :: "nat list \<Rightarrow> string res" where
  "pack_nibbles nibbles =
     (let t = (nibbles \<noteq> [] \<and> last nibbles = NIBBLE_TERMINATOR);
          flags = (if t then 2 else 0);
          nibbles1 = (if t then butlast nibbles else nibbles);
          oddlen = length nibbles1 mod 2;
          flags1 = flags + oddlen
      in if oddlen \<noteq> 0 then pack_pairs (flags1 # nibbles1)
         else pack_pairs (flags1 # 0 # nibbles1))"

definition unpack_to_nibbles :: "string \<Rightarrow> nat list res" where
  "unpack_to_nibbles bindata =
     bindE (bin_to_nibbles bindata) (\<lambda>ns.
     bindE (py_nth ns 0) (\<lambda>flags.
       let ns1 = (if flags div 2 mod 2 = 1 then ns @ [NIBBLE_TERMINATOR] else ns)
       in Inr (if flags mod 2 = 1 then drop 1 ns1 else drop 2 ns1)))"

definition starts_with :: "nat list \<Rightarrow> nat list \<Rightarrow> bool" where
  "starts_with full part =
     (if length full < length part then False else take (length part) full = part)"

subsection \<open>Laws\<close>

definition nibs :: "string \<Rightarrow> nat list" where
  "nibs s = concat (map (\<lambda>c. [ord c div 16, ord c mod 16]) s)"

definition nibs_ok :: "nat list \<Rightarrow> bool" where
  "nibs_ok k \<longleftrightarrow> (\<forall>x \<in> set k. x < 16)"

definition tflag :: "bool \<Rightarrow> nat list" where
  "tflag t = (if t then [NIBBLE_TERMINATOR] else [])"

lemma nibs_simps [simp]:
  "nibs [] = []" "nibs (c # s) = ord c div 16 # ord c mod 16 # nibs s"
  "nibs (a @ b) = nibs a @ nibs b"
  by (simp_all add: nibs_def)

lemma nibs_ok_simps [simp]:
  "nibs_ok []" "nibs_ok (x # k) \<longleftrightarrow> x < 16 \<and> nibs_ok k" "nibs_ok (j @ k) \<longleftrightarrow> nibs_ok j \<and> nibs_ok k"
  by (auto simp: nibs_ok_def)

lemma nibs_ok_take [simp]: "nibs_ok k \<Longrightarrow> nibs_ok (take n k)"
  and nibs_ok_drop [simp]: "nibs_ok k \<Longrightarrow> nibs_ok (drop n k)"
  by (auto simp: nibs_ok_def dest: in_set_takeD in_set_dropD)

lemma nibs_ok_nibs [simp]: "nibs_ok (nibs s)"
  by (induction s) simp_all

lemma length_nibs [simp]: "length (nibs s) = 2 * length s"
  by (induction s) simp_all

lemma hti_digit [simp]: "n < 16 \<Longrightarrow> hti (hex_digit n) = Inr n"
  by (drule less_16_cases) (elim disjE; simp add: hti_def hex_digit_def upt_rec)

lemma bin_to_nibbles_eq [simp]: "bin_to_nibbles s = Inr (nibs s)"
  by (induction s) (simp_all add: bin_to_nibbles_def)

lemma nibs_inject: "nibs a = nibs b \<longleftrightarrow> a = b"
proof (induction a arbitrary: b)
  case Nil
  then show ?case by (cases b) simp_all
next
  case (Cons c a)
  have "ord c = ord d" if "ord c div 16 = ord d div 16" "ord c mod 16 = ord d mod 16" for d
    using that by (metis div_mult_mod_eq)
  with Cons show ?case by (cases b) (auto simp: ord_eq_iff)
qed

lemma nibs_ok_last: "nibs_ok k \<Longrightarrow> k \<noteq> [] \<Longrightarrow> last k \<noteq> 16"
  using last_in_set by (fastforce simp: nibs_ok_def)

lemma terminator_simps [simp]:
  assumes "nibs_ok k"
  shows "with_terminator k = k @ [16]" "with_terminator (k @ [16]) = k @ [16]"
    "without_terminator (k @ [16]) = k" "without_terminator k = k"
    "without_terminator (k @ tflag t) = k"
  using nibs_ok_last [OF assms]
  by (auto simp: with_terminator_def without_terminator_def NIBBLE_TERMINATOR_def tflag_def)

lemma adapt_terminator_eq [simp]: "nibs_ok k \<Longrightarrow> adapt_terminator k t = k @ tflag t"
  by (simp add: adapt_terminator_def tflag_def NIBBLE_TERMINATOR_def)

lemma pack_pairs_nibs: "pack_pairs (nibs s) = Inr s"
  by (induction s) (simp_all add: py_chr_def)

lemma pack_pairs_ok:
  "nibs_ok k \<Longrightarrow> even (length k) \<Longrightarrow> \<exists>s. pack_pairs k = Inr s \<and> nibs s = k"
proof (induction k rule: pack_pairs.induct)
  case (3 a b r)
  then obtain s where "pack_pairs r = Inr s" "nibs s = r" by auto
  with 3 show ?case by (intro exI [of _ "char_of (16 * a + b) # s"]) (simp add: py_chr_def)
qed simp_all

text \<open>\<open>hp k t\<close> is the packed form of the path \<open>k\<close> with the terminator flag \<open>t\<close>.\<close>

definition hp :: "nat list \<Rightarrow> bool \<Rightarrow> string" where
  "hp k t = (case pack_nibbles (k @ tflag t) of Inr s \<Rightarrow> s | Inl _ \<Rightarrow> [])"

lemma pack_nibbles_hp:
  assumes "nibs_ok k"
  shows "pack_nibbles (k @ tflag t) = Inr (hp k t) \<and>
    nibs (hp k t) = (let f = (if t then 2 else 0) + length k mod 2
                     in if odd (length k) then f # k else f # 0 # k)"
proof -
  let ?f = "(if t then 2 else 0) + length k mod 2"
  have eq: "pack_nibbles (k @ tflag t) = pack_pairs (if odd (length k) then ?f # k else ?f # 0 # k)"
    using nibs_ok_last [OF assms]
    by (auto simp: pack_nibbles_def tflag_def NIBBLE_TERMINATOR_def Let_def odd_iff_mod_2_eq_one)
  have "\<exists>s. pack_nibbles (k @ tflag t) = Inr s \<and> nibs s = (if odd (length k) then ?f # k else ?f # 0 # k)"
    unfolding eq using assms by (intro pack_pairs_ok) auto
  then show ?thesis by (auto simp: hp_def Let_def)
qed

lemmas pack_hp = pack_nibbles_hp [THEN conjunct1]
lemmas nibs_hp = pack_nibbles_hp [THEN conjunct2]

lemma pack_hp_simps [simp]:
  assumes "nibs_ok k"
  shows "pack_nibbles (k @ [16]) = Inr (hp k True)" "pack_nibbles k = Inr (hp k False)"
    "pack_nibbles (k @ tflag t) = Inr (hp k t)"
  using pack_hp [OF assms, of True] pack_hp [OF assms, of False] pack_hp [OF assms, of t]
  by (simp_all add: tflag_def NIBBLE_TERMINATOR_def)

lemma unpack_hp [simp]: "nibs_ok k \<Longrightarrow> unpack_to_nibbles (hp k t) = Inr (k @ tflag t)"
  using nibs_hp [of k t]
  by (auto simp: unpack_to_nibbles_def Let_def py_nth_def tflag_def odd_iff_mod_2_eq_one
    split: if_splits)

lemma hp_inject: "nibs_ok j \<Longrightarrow> nibs_ok k \<Longrightarrow> hp j t = hp k u \<longleftrightarrow> j = k \<and> t = u"
proof
  assume ok: "nibs_ok j" "nibs_ok k" and "hp j t = hp k u"
  then have eq: "j @ tflag t = k @ tflag u"
    using unpack_hp [of j t] unpack_hp [of k u] by simp
  have "t = u"
    using eq ok nibs_ok_last [of j] nibs_ok_last [of k]
    by (cases t; cases u; cases j rule: rev_cases; cases k rule: rev_cases)
      (auto simp: tflag_def NIBBLE_TERMINATOR_def)
  with eq show "j = k \<and> t = u" by simp
qed simp

lemma length_hp: "nibs_ok k \<Longrightarrow> length (hp k t) \<le> length k div 2 + 1"
  using nibs_hp [of k t] arg_cong [of _ _ length] length_nibs [of "hp k t"]
  by (auto simp: Let_def split: if_splits)

lemma starts_with_append [simp]: "starts_with (p @ r) p"
  by (simp add: starts_with_def)

lemma starts_with_iff: "starts_with k p \<longleftrightarrow> (\<exists>r. k = p @ r)"
  using take_eq_prefix [of p k] by (auto simp: starts_with_def)

section \<open>RLP\<close>

text \<open>
  \<open>chr\<close> is applied to at most \<open>offset + 55 + 8\<close>, which is in range for the two offsets 128 and
  192, because the length of a Python 2 string or list is at most \<open>sys.maxsize\<close>, below \<open>2 ^ 64\<close>.
\<close>

definition length_prefix :: "ext \<Rightarrow> nat \<Rightarrow> nat \<Rightarrow> string" where
  "length_prefix E len offset =
     (if len < 56 then [char_of (offset + len)]
      else let length_string = int_to_big_endian E len
           in char_of (offset + 56 - 1 + length length_string) # length_string)"

fun encode_optimized :: "ext \<Rightarrow> item \<Rightarrow> string" where
  "encode_optimized E (Str b) =
     (if length b = 1 \<and> ord (hd b) < 128 then b
      else length_prefix E (length b) 128 @ b)"
| "encode_optimized E (Lst xs) =
     (let b = concat (map (encode_optimized E) xs)
      in length_prefix E (length b) 192 @ b)"

text \<open>The reference decoder, with fuel for the nesting and the length of lists.\<close>

fun rlp_split :: "nat \<Rightarrow> nat \<Rightarrow> string \<Rightarrow> (string \<times> string) option" where
  "rlp_split offset n r =
     (if n < offset + 56
      then let len = n - offset in if length r < len then None else Some (take len r, drop len r)
      else let ll = n - (offset + 55); len = be_val (take ll r); r' = drop ll r
           in if length r < ll \<or> length r' < len then None else Some (take len r', drop len r'))"

fun rlp_item :: "nat \<Rightarrow> string \<Rightarrow> (item \<times> string) option"
  and rlp_items :: "nat \<Rightarrow> string \<Rightarrow> item list option" where
  "rlp_item 0 s = None"
| "rlp_item (Suc f) [] = None"
| "rlp_item (Suc f) (b # r) =
     (let n = ord b in
      if n < 128 then Some (Str [b], r)
      else if n < 192 then map_option (\<lambda>(p, q). (Str p, q)) (rlp_split 128 n r)
      else case rlp_split 192 n r of
             None \<Rightarrow> None
           | Some (p, q) \<Rightarrow> map_option (\<lambda>xs. (Lst xs, q)) (rlp_items f p))"
| "rlp_items 0 s = None"
| "rlp_items (Suc f) [] = Some []"
| "rlp_items (Suc f) (c # s) =
     (case rlp_item f (c # s) of
        None \<Rightarrow> None
      | Some (x, r) \<Rightarrow> map_option (\<lambda>xs. x # xs) (rlp_items f r))"

definition rlp_decode_ref :: "string \<Rightarrow> item res" where
  "rlp_decode_ref s =
     (case rlp_item (2 * length s) s of Some (x, []) \<Rightarrow> Inr x | _ \<Rightarrow> Inl PyException)"

subsection \<open>The encoder is decodable\<close>

definition sized :: "ext \<Rightarrow> item \<Rightarrow> bool" where
  "sized E x \<longleftrightarrow> length (encode_optimized E x) < 2 ^ 64"

lemma length_prefix_not_Nil [simp]: "length_prefix E n off \<noteq> []"
  by (simp add: length_prefix_def Let_def)

lemma length_prefix_le: "ext_ok E \<Longrightarrow> n < 2 ^ 64 \<Longrightarrow> length (length_prefix E n off) \<le> 9"
  using length_be_bytes_le [of n 8]
  by (simp add: length_prefix_def Let_def int_to_big_endian_def ext_okD)

lemma encode_nonempty [simp]: "0 < length (encode_optimized E x)"
  by (cases x) (auto simp: Let_def)

lemma encode_not_Nil [simp]: "encode_optimized E x \<noteq> []"
  using encode_nonempty [of E x] by (metis length_greater_0_conv)

text \<open>A bound on the length of an encoding that is easy to compute.\<close>

fun item_bound :: "item \<Rightarrow> nat" where
  "item_bound (Str s) = length s + 9"
| "item_bound (Lst xs) = sum_list (map item_bound xs) + 9"

lemma encode_le_bound: "ext_ok E \<Longrightarrow> item_bound x < 2 ^ 64 \<Longrightarrow> length (encode_optimized E x) \<le> item_bound x"
proof (induction x)
  case (Str s)
  then show ?case using length_prefix_le [of E "length s" 128] by auto
next
  case (Lst xs)
  have "length (concat (map (encode_optimized E) ys)) \<le> sum_list (map item_bound ys)" if "set ys \<subseteq> set xs" for ys
    using that
  proof (induction ys)
    case (Cons y ys)
    then have "item_bound y \<le> sum_list (map item_bound xs)"
      by (intro member_le_sum_list) auto
    then have "length (encode_optimized E y) \<le> item_bound y"
      using Cons.prems Lst.prems by (intro Lst.IH) auto
    with Cons show ?case by simp
  qed simp
  from this [of xs] show ?case
    using Lst.prems length_prefix_le [of E "length (concat (map (encode_optimized E) xs))" 192]
    by (auto simp: Let_def simp del: length_concat)
qed

lemma sized_bound: "ext_ok E \<Longrightarrow> item_bound x < 2 ^ 64 \<Longrightarrow> sized E x"
  using encode_le_bound [of E x] by (simp add: sized_def)

lemma rlp_split_prefix:
  assumes E: "ext_ok E" and len: "length p < 2 ^ 64" and off: "off = 128 \<or> off = 192"
  shows "\<exists>b l. length_prefix E (length p) off = b # l \<and> off \<le> ord b \<and> (off = 128 \<longrightarrow> ord b < 192) \<and>
    rlp_split off (ord b) (l @ p @ q) = Some (p, q)"
proof (cases "length p < 56")
  case True
  with off show ?thesis by (auto simp: length_prefix_def)
next
  case False
  let ?l = "be_bytes (length p)"
  have pos: "0 < length ?l" using False by (cases "length p") auto
  have le: "length ?l \<le> 8" using len length_be_bytes_le [of "length p" 8] by simp
  have ob: "ord (char_of (off + 56 - 1 + length ?l)) = off + 55 + length ?l"
    using off le by auto
  have "length_prefix E (length p) off = char_of (off + 56 - 1 + length ?l) # ?l"
    using False E by (simp add: length_prefix_def Let_def int_to_big_endian_def ext_okD)
  moreover have "rlp_split off (off + 55 + length ?l) (?l @ p @ q) = Some (p, q)"
    using pos by (simp add: Let_def)
  ultimately show ?thesis using ob off le by auto
qed

lemma concat_encode_member: "x \<in> set xs \<Longrightarrow>
    length (encode_optimized E x) \<le> length (concat (map (encode_optimized E) xs))"
  by (induction xs) auto

lemma rlp_items_encode:
  assumes "\<forall>x \<in> set xs. \<forall>f q. 2 * length (encode_optimized E x) \<le> f \<longrightarrow>
      rlp_item f (encode_optimized E x @ q) = Some (x, q)"
    and "2 * length (concat (map (encode_optimized E) xs)) + 1 \<le> f"
  shows "rlp_items f (concat (map (encode_optimized E) xs)) = Some xs"
  using assms
proof (induction xs arbitrary: f)
  case Nil
  then show ?case by (cases f) simp_all
next
  case (Cons x xs)
  let ?e = "encode_optimized E x" and ?r = "concat (map (encode_optimized E) xs)"
  obtain g where f: "f = Suc g" using Cons.prems(2) by (cases f) auto
  obtain c t where e: "?e = c # t" by (cases ?e) auto
  have "rlp_item g (?e @ ?r) = Some (x, ?r)"
    using Cons.prems f by simp
  moreover have "rlp_items g ?r = Some xs"
    using Cons.prems f e by (intro Cons.IH) auto
  ultimately show ?case using e f by simp
qed

lemma sized_member:
  "sized E (Lst xs) \<Longrightarrow> x \<in> set xs \<Longrightarrow> sized E x"
  using concat_encode_member [of x xs E] by (simp add: sized_def Let_def)

lemma rlp_item_encode:
  assumes "ext_ok E"
  shows "sized E x \<Longrightarrow> 2 * length (encode_optimized E x) \<le> f \<Longrightarrow>
    rlp_item f (encode_optimized E x @ q) = Some (x, q)"
proof (induction x arbitrary: f q)
  case (Str b)
  obtain g where f: "f = Suc g" using Str.prems(2) encode_nonempty [of E "Str b"] by (cases f) auto
  show ?case
  proof (cases "length b = 1 \<and> ord (hd b) < 128")
    case True
    then obtain c where "b = [c]" by (cases b) auto
    with True f show ?thesis by simp
  next
    case False
    then have enc: "encode_optimized E (Str b) = length_prefix E (length b) 128 @ b" by auto
    with Str.prems(1) have "length b < 2 ^ 64" by (simp add: sized_def)
    with rlp_split_prefix [OF assms this, of 128 q] enc f show ?thesis by auto
  qed
next
  case (Lst xs)
  let ?p = "concat (map (encode_optimized E) xs)"
  obtain g where f: "f = Suc g" using Lst.prems(2) encode_nonempty [of E "Lst xs"] by (cases f) auto
  have enc: "encode_optimized E (Lst xs) = length_prefix E (length ?p) 192 @ ?p"
    by (simp add: Let_def)
  have len: "length ?p < 2 ^ 64"
    using Lst.prems(1) by (simp add: sized_def Let_def)
  obtain b l where bl: "length_prefix E (length ?p) 192 = b # l" "192 \<le> ord b"
      "rlp_split 192 (ord b) (l @ ?p @ q) = Some (?p, q)"
    using rlp_split_prefix [OF assms len, of 192 q] by auto
  have "rlp_items g ?p = Some xs"
  proof (rule rlp_items_encode)
    show "\<forall>x \<in> set xs. \<forall>f q. 2 * length (encode_optimized E x) \<le> f \<longrightarrow>
        rlp_item f (encode_optimized E x @ q) = Some (x, q)"
      using Lst.IH sized_member [OF Lst.prems(1)] by blast
    show "2 * length ?p + 1 \<le> g"
      using Lst.prems(2) f bl(1) enc by simp
  qed
  with bl enc f show ?case by simp
qed

lemma rlp_decode_ref_encode:
  "ext_ok E \<Longrightarrow> sized E x \<Longrightarrow> rlp_decode_ref (encode_optimized E x) = Inr x"
  using rlp_item_encode [of E x _ "[]"] by (simp add: rlp_decode_ref_def)

lemma encode_optimized_inject:
  "ext_ok E \<Longrightarrow> sized E x \<Longrightarrow> sized E y \<Longrightarrow>
     encode_optimized E x = encode_optimized E y \<longleftrightarrow> x = y"
  by (metis rlp_decode_ref_encode sum.inject(2))

text \<open>What the code relies on of \<open>rlp\<close>: \<open>rlp.encode\<close> writes what \<open>encode_optimized\<close> writes and
  \<open>rlp.decode\<close> inverts it.\<close>

definition rlp_ok :: "ext \<Rightarrow> bool" where
  "rlp_ok E \<longleftrightarrow> (\<forall>x. sized E x \<longrightarrow> rlp_dec E (encode_optimized E x) = Inr x) \<and>
     (\<forall>x. rlp_enc E x = encode_optimized E x)"

text \<open>A concrete set of external functions, for the witnesses: the reference codecs, and as the
  hash the input cut or padded to 32 bytes, followed by its length and byte sum modulo 256.\<close>

definition hash_ref :: "string \<Rightarrow> string" where
  "hash_ref s = char_of (length s mod 256) # char_of (sum_list (map ord s) mod 256) #
     take 30 (s @ replicate 30 (CHR 0x00))"

definition ext_ref :: ext where
  "ext_ref = \<lparr>keccak = hash_ref, be_ser = be_bytes, be_deser = be_val,
     rlp_enc = encode_optimized \<lparr>keccak = hash_ref, be_ser = be_bytes, be_deser = be_val,
       rlp_enc = (\<lambda>_. []), rlp_dec = rlp_decode_ref, ec_recover = (\<lambda>_ _. None),
       ec_sign = (\<lambda>_ _. (0, 0, 0)), ec_pub = (\<lambda>_. (0, 0))\<rparr>,
     rlp_dec = rlp_decode_ref,
     ec_recover = (\<lambda>h (v, r, s). if v \<in> {27, 28} then Some (r, s) else None),
     ec_sign = (\<lambda>h k. (27, be_val k, 1)), ec_pub = (\<lambda>k. (be_val k, 1))\<rparr>"

lemma ext_ref_ok: "ext_ok ext_ref"
  by (auto simp: ext_ok_def ext_ref_def hash_ref_def min_def)

lemma encode_optimized_cong:
  "be_ser E = be_ser E' \<Longrightarrow> encode_optimized E x = encode_optimized E' x"
proof (induction x)
  case (Lst xs)
  then have "concat (map (encode_optimized E) xs) = concat (map (encode_optimized E') xs)"
    by (intro arg_cong [of _ _ concat] map_cong) auto
  then show ?case
    by (simp only: encode_optimized.simps Let_def length_prefix_def int_to_big_endian_def Lst.prems)
qed (simp add: length_prefix_def int_to_big_endian_def)

lemma ext_ref_rlp_ok: "rlp_ok ext_ref"
proof -
  have "rlp_dec ext_ref = rlp_decode_ref" by (simp add: ext_ref_def)
  moreover have "rlp_enc ext_ref x = encode_optimized ext_ref x" for x
    unfolding ext_ref_def ext.simps by (rule encode_optimized_cong) simp
  ultimately show ?thesis by (simp add: rlp_ok_def rlp_decode_ref_encode ext_ref_ok)
qed

lemma ext_ref_ec_ok: "ec_ok ext_ref"
proof -
  have "secpk1n < 2 ^ 256" "1 < secpk1n" by (simp_all add: secpk1n_def)
  then show ?thesis by (auto simp: ec_ok_def ext_ref_def valid_key_def simp del: power_numeral)
qed

end
