(* ===== verification/Ptree.thy ===== *)
theory Ptree
  imports Codec
begin

text \<open>
  The abstract Patricia tree that \<open>Trie\<close> implements: the same node kinds as \<open>trie.py\<close>, with the
  children in place instead of behind encodings and hashes. Lookup, update and deletion follow
  the case analysis of the code; this theory proves what they do to the finite map a tree
  stands for, that they keep the canonical form, and that a canonical tree is determined by its
  map. The theory \<open>Trie\<close> shows that the code computes exactly these operations.
\<close>

section \<open>Trees and their operations\<close>

datatype ptree =
    PBlank
  | PLeaf "nat list" string
  | PExt "nat list" ptree
  | PBranch "ptree list" string

abbreviation blanks :: "ptree list" where
  "blanks \<equiv> replicate 16 PBlank"

fun plookup :: "ptree \<Rightarrow> nat list \<Rightarrow> string" where
  "plookup PBlank k = []"
| "plookup (PLeaf p v) k = (if k = p then v else [])"
| "plookup (PExt p t) k = (if starts_with k p then plookup t (drop (length p) k) else [])"
| "plookup (PBranch ts v) [] = v"
| "plookup (PBranch ts v) (i # k) = (if i < length ts then plookup (ts ! i) k else [])"

fun common_prefix_length :: "nat list \<Rightarrow> nat list \<Rightarrow> nat" where
  "common_prefix_length (x # xs) (y # ys) = (if x \<noteq> y then 0 else Suc (common_prefix_length xs ys))"
| "common_prefix_length xs ys = 0"

definition pwrap :: "nat \<Rightarrow> nat list \<Rightarrow> ptree \<Rightarrow> ptree" where
  "pwrap n p t = (if n \<noteq> 0 then PExt (take n p) t else t)"

definition psplit_leaf :: "nat list \<Rightarrow> string \<Rightarrow> nat list \<Rightarrow> string \<Rightarrow> ptree" where
  "psplit_leaf rp w rk v =
     (if rp = [] then PBranch (blanks[hd rk := PLeaf (tl rk) v]) w
      else if rk = [] then PBranch (blanks[hd rp := PLeaf (tl rp) w]) v
      else PBranch (blanks[hd rp := PLeaf (tl rp) w, hd rk := PLeaf (tl rk) v]) [])"

definition psplit_ext :: "nat list \<Rightarrow> ptree \<Rightarrow> nat list \<Rightarrow> string \<Rightarrow> ptree" where
  "psplit_ext rp t rk v =
     (let sub = (if length rp = 1 then t else PExt (tl rp) t)
      in if rk = [] then PBranch (blanks[hd rp := sub]) v
         else PBranch (blanks[hd rp := sub, hd rk := PLeaf (tl rk) v]) [])"

fun pupd :: "ptree \<Rightarrow> nat list \<Rightarrow> string \<Rightarrow> ptree" where
  "pupd PBlank k v = PLeaf k v"
| "pupd (PLeaf p w) k v =
     (let n = common_prefix_length k p
      in if drop n k = [] \<and> drop n p = [] then PLeaf p v
         else pwrap n p (psplit_leaf (drop n p) w (drop n k) v))"
| "pupd (PExt p t) k v =
     (let n = common_prefix_length k p
      in pwrap n p (if drop n p = [] then pupd t (drop n k) v
                    else psplit_ext (drop n p) t (drop n k) v))"
| "pupd (PBranch ts w) [] v = PBranch ts v"
| "pupd (PBranch ts w) (i # k) v = PBranch (ts[i := pupd (ts ! i) k v]) w"

definition pprefix :: "nat list \<Rightarrow> ptree \<Rightarrow> ptree" where
  "pprefix p t = (case t of
     PBlank \<Rightarrow> PBlank
   | PLeaf q w \<Rightarrow> PLeaf (p @ q) w
   | PExt q u \<Rightarrow> PExt (p @ q) u
   | PBranch ts v \<Rightarrow> PExt p t)"

definition nonblank :: "ptree list \<Rightarrow> nat list" where
  "nonblank ts = filter (\<lambda>i. ts ! i \<noteq> PBlank) [0..<16]"

definition pnorm :: "ptree list \<Rightarrow> string \<Rightarrow> ptree" where
  "pnorm ts v =
     (case nonblank ts of
        [] \<Rightarrow> if v = [] then PBranch ts v else PLeaf [] v
      | [i] \<Rightarrow> if v = [] then pprefix [i] (ts ! i) else PBranch ts v
      | _ \<Rightarrow> PBranch ts v)"

fun pdel :: "ptree \<Rightarrow> nat list \<Rightarrow> ptree" where
  "pdel PBlank k = PBlank"
| "pdel (PLeaf p v) k = (if k = p then PBlank else PLeaf p v)"
| "pdel (PExt p t) k =
     (if starts_with k p then pprefix p (pdel t (drop (length p) k)) else PExt p t)"
| "pdel (PBranch ts v) [] = pnorm ts []"
| "pdel (PBranch ts v) (i # k) =
     (let t = pdel (ts ! i) k
      in if t = PBlank \<and> ts ! i \<noteq> PBlank then pnorm (ts[i := PBlank]) v
         else PBranch (ts[i := t]) v)"

section \<open>Canonical trees\<close>

definition is_branch :: "ptree \<Rightarrow> bool" where
  "is_branch t = (case t of PBranch _ _ \<Rightarrow> True | _ \<Rightarrow> False)"

definition entries :: "ptree list \<Rightarrow> string \<Rightarrow> nat" where
  "entries ts v = length (nonblank ts) + (if v = [] then 0 else 1)"

text \<open>No empty path below an extension, no extension over anything but a branch, at least two
  entries in a branch, no empty value in a leaf.\<close>

fun pcanon :: "ptree \<Rightarrow> bool" where
  "pcanon PBlank = True"
| "pcanon (PLeaf p v) = (nibs_ok p \<and> v \<noteq> [])"
| "pcanon (PExt p t) = (nibs_ok p \<and> p \<noteq> [] \<and> is_branch t \<and> pcanon t)"
| "pcanon (PBranch ts v) = (length ts = 16 \<and> (\<forall>t \<in> set ts. pcanon t) \<and> 2 \<le> entries ts v)"

lemma is_branch_simps [simp]:
  "\<not> is_branch PBlank" "\<not> is_branch (PLeaf p v)" "\<not> is_branch (PExt p t)" "is_branch (PBranch ts v)"
  by (simp_all add: is_branch_def)

lemma is_branchE:
  assumes "is_branch t" obtains ts v where "t = PBranch ts v"
  using assms by (cases t) auto

lemma common_prefix_length_le: "common_prefix_length k p \<le> length k" "common_prefix_length k p \<le> length p"
  by (induction k p rule: common_prefix_length.induct) auto

lemma common_prefix_take: "take (common_prefix_length k p) k = take (common_prefix_length k p) p"
  by (induction k p rule: common_prefix_length.induct) auto

lemma common_prefix_differ:
  "drop (common_prefix_length k p) k = x # xs \<Longrightarrow> drop (common_prefix_length k p) p = y # ys \<Longrightarrow> x \<noteq> y"
  by (induction k p rule: common_prefix_length.induct) (auto split: if_splits)

text \<open>The three parts a key and a path fall into.\<close>

lemma common_prefix_cases:
  obtains c rk rp where "k = c @ rk" "p = c @ rp" "common_prefix_length k p = length c"
    "drop (common_prefix_length k p) k = rk" "drop (common_prefix_length k p) p = rp"
    "take (common_prefix_length k p) p = c"
    "\<And>x xs y ys. rk = x # xs \<Longrightarrow> rp = y # ys \<Longrightarrow> x \<noteq> y"
proof
  let ?n = "common_prefix_length k p"
  show "k = take ?n k @ drop ?n k" by simp
  show "p = take ?n k @ drop ?n p" by (metis common_prefix_take append_take_drop_id)
  show "?n = length (take ?n k)" using common_prefix_length_le(1) [of k p] by simp
  show "take ?n p = take ?n k" by (rule common_prefix_take [symmetric])
  show "x \<noteq> y" if "drop ?n k = x # xs" "drop ?n p = y # ys" for x xs y ys
    using common_prefix_differ that by blast
qed simp_all

section \<open>Lookup after update\<close>

fun pwf :: "ptree \<Rightarrow> bool" where
  "pwf PBlank = True"
| "pwf (PLeaf p v) = nibs_ok p"
| "pwf (PExt p t) = (nibs_ok p \<and> pwf t)"
| "pwf (PBranch ts v) = (length ts = 16 \<and> (\<forall>t \<in> set ts. pwf t))"

lemma pcanon_pwf: "pcanon t \<Longrightarrow> pwf t"
  by (induction t) auto

lemma plookup_pwrap:
  "n \<le> length p \<Longrightarrow> plookup (pwrap n p t) k =
     (if starts_with k (take n p) then plookup t (drop n k) else [])"
  by (simp add: pwrap_def starts_with_def min_absorb2)

lemma nth_blanks_update:
  "i < 16 \<Longrightarrow> j < 16 \<Longrightarrow> (blanks[j := t]) ! i = (if i = j then t else PBlank)"
  by simp

lemma plookup_psplit_leaf:
  assumes "nibs_ok rk" "nibs_ok rp" "nibs_ok k'" "rk \<noteq> [] \<or> rp \<noteq> []"
    and "\<And>x xs y ys. rk = x # xs \<Longrightarrow> rp = y # ys \<Longrightarrow> x \<noteq> y"
  shows "plookup (psplit_leaf rp w rk v) k' = (if k' = rk then v else if k' = rp then w else [])"
  using assms by (cases rk; cases rp; cases k') (auto simp: psplit_leaf_def nth_list_update)

lemma plookup_psplit_ext:
  assumes "nibs_ok rk" "nibs_ok rp" "nibs_ok k'" "rp \<noteq> []"
    and "\<And>x xs y ys. rk = x # xs \<Longrightarrow> rp = y # ys \<Longrightarrow> x \<noteq> y"
  shows "plookup (psplit_ext rp t rk v) k' =
    (if k' = rk then v else if starts_with k' rp then plookup t (drop (length rp) k') else [])"
proof -
  obtain y ys where rp: "rp = y # ys" using assms(4) by (cases rp) auto
  have sub: "plookup (if length rp = 1 then t else PExt (tl rp) t) j =
      (if starts_with j ys then plookup t (drop (length ys) j) else [])" for j
    using rp by (auto simp: starts_with_def)
  show ?thesis
    using assms sub rp
    by (cases rk; cases k') (auto simp: psplit_ext_def Let_def nth_list_update starts_with_def)
qed

theorem plookup_pupd_same_or_other:
  "pwf t \<Longrightarrow> nibs_ok k \<Longrightarrow> nibs_ok k' \<Longrightarrow>
     plookup (pupd t k v) k' = (if k' = k then v else plookup t k')"
proof (induction t k v arbitrary: k' rule: pupd.induct)
  case (1 k v)
  then show ?case by simp
next
  case (2 p w k v)
  obtain c rk rp where c: "k = c @ rk" "p = c @ rp" "common_prefix_length k p = length c"
    "drop (common_prefix_length k p) k = rk" "drop (common_prefix_length k p) p = rp"
    "\<And>x xs y ys. rk = x # xs \<Longrightarrow> rp = y # ys \<Longrightarrow> x \<noteq> y"
    using common_prefix_cases [of k p] by metis
  show ?case
  proof (cases "rk = [] \<and> rp = []")
    case True
    with c show ?thesis by (auto simp: Let_def)
  next
    case False
    with c have "pupd (PLeaf p w) k v = pwrap (length c) p (psplit_leaf rp w rk v)"
      by (auto simp: Let_def)
    then have "plookup (pupd (PLeaf p w) k v) k' =
        (if starts_with k' c then plookup (psplit_leaf rp w rk v) (drop (length c) k') else [])"
      by (simp add: plookup_pwrap c(2))
    also have "\<dots> = (if k' = k then v else plookup (PLeaf p w) k')"
    proof (cases "starts_with k' c")
      case True
      then obtain r where r: "k' = c @ r" by (auto simp: starts_with_iff)
      with 2 c False show ?thesis by (subst plookup_psplit_leaf) auto
    next
      case False
      with c show ?thesis by (auto simp: starts_with_iff)
    qed
    finally show ?thesis .
  qed
next
  case (3 p t k v)
  obtain c rk rp where c: "k = c @ rk" "p = c @ rp" "common_prefix_length k p = length c"
    "drop (common_prefix_length k p) k = rk" "drop (common_prefix_length k p) p = rp"
    "\<And>x xs y ys. rk = x # xs \<Longrightarrow> rp = y # ys \<Longrightarrow> x \<noteq> y"
    using common_prefix_cases [of k p] by metis
  let ?new = "if rp = [] then pupd t rk v else psplit_ext rp t rk v"
  have eq: "pupd (PExt p t) k v = pwrap (length c) p ?new"
    using c by (simp add: Let_def)
  have le: "length c \<le> length p" "take (length c) p = c" using c(2) by simp_all
  have "plookup (pupd (PExt p t) k v) k' =
      (if starts_with k' c then plookup ?new (drop (length c) k') else [])"
    by (simp only: eq plookup_pwrap [OF le(1)] le(2))
  also have "\<dots> = (if k' = k then v else plookup (PExt p t) k')"
  proof (cases "starts_with k' c")
    case True
    then obtain r where r: "k' = c @ r" by (auto simp: starts_with_iff)
    show ?thesis
    proof (cases "rp = []")
      case rp: True
      have "plookup (pupd t rk v) r = (if r = rk then v else plookup t r)"
        using "3.IH" [OF refl, of r] "3.prems" c rp r by auto
      with rp r c show ?thesis by simp
    next
      case False
      have "nibs_ok rk" "nibs_ok rp" "nibs_ok r" using "3.prems" c r by auto
      then have "plookup (psplit_ext rp t rk v) r =
          (if r = rk then v else if starts_with r rp then plookup t (drop (length rp) r) else [])"
        using False c(6) by (rule plookup_psplit_ext)
      with False r c show ?thesis by (auto simp: starts_with_iff)
    qed
  next
    case False
    with c show ?thesis by (auto simp: starts_with_iff)
  qed
  finally show ?case .
next
  case (4 ts w v)
  then show ?case by (cases k') simp_all
next
  case (5 ts w i k v)
  then show ?case by (cases k') (auto simp: nth_list_update)
qed

section \<open>Updates keep the canonical form\<close>

lemma set_nonblank [simp]: "set (nonblank ts) = {i. i < 16 \<and> ts ! i \<noteq> PBlank}"
  by (auto simp: nonblank_def)

lemma distinct_nonblank [simp]: "distinct (nonblank ts)"
  by (simp add: nonblank_def)

lemma length_nonblank: "length (nonblank ts) = card {i. i < 16 \<and> ts ! i \<noteq> PBlank}"
  by (metis distinct_card distinct_nonblank set_nonblank)

lemma entries_two:
  assumes "i < 16" "j < 16" "i \<noteq> j" "ts ! i \<noteq> PBlank" "ts ! j \<noteq> PBlank"
  shows "2 \<le> entries ts v"
proof -
  have "card {i, j} \<le> card {i. i < 16 \<and> ts ! i \<noteq> PBlank}"
    using assms by (intro card_mono) auto
  with assms(3) show ?thesis by (simp add: entries_def length_nonblank)
qed

lemma entries_value:
  assumes "i < 16" "ts ! i \<noteq> PBlank" "v \<noteq> []"
  shows "2 \<le> entries ts v"
proof -
  have "card {i} \<le> card {i. i < 16 \<and> ts ! i \<noteq> PBlank}"
    using assms by (intro card_mono) auto
  with assms(3) show ?thesis by (simp add: entries_def length_nonblank)
qed

lemma entries_mono:
  assumes "\<And>i. i < 16 \<Longrightarrow> ts ! i \<noteq> PBlank \<Longrightarrow> us ! i \<noteq> PBlank" and "v \<noteq> [] \<Longrightarrow> w \<noteq> []"
  shows "entries ts v \<le> entries us w"
proof -
  have "card {i. i < 16 \<and> ts ! i \<noteq> PBlank} \<le> card {i. i < 16 \<and> us ! i \<noteq> PBlank}"
    using assms(1) by (intro card_mono) auto
  with assms(2) show ?thesis by (auto simp: entries_def length_nonblank)
qed

lemma pupd_not_blank [simp]: "pupd t k v \<noteq> PBlank"
  by (induction t k v rule: pupd.induct)
    (auto simp: Let_def pwrap_def psplit_leaf_def psplit_ext_def)

lemma in_set_updateD: "x \<in> set (ts[i := y]) \<Longrightarrow> x = y \<or> x \<in> set ts"
  using set_update_subset_insert [of ts i y] by auto

lemma pcanon_branch2:
  assumes "i < 16" "j < 16" "i \<noteq> j" "pcanon t" "pcanon u" "t \<noteq> PBlank" "u \<noteq> PBlank"
  shows "pcanon (PBranch (blanks[i := t, j := u]) v)"
  using assms entries_two [of i j "blanks[i := t, j := u]" v]
  by (auto dest!: in_set_updateD simp: nth_list_update)

lemma pcanon_branch1:
  assumes "i < 16" "pcanon t" "t \<noteq> PBlank" "v \<noteq> []"
  shows "pcanon (PBranch (blanks[i := t]) v)"
  using assms entries_value [of i "blanks[i := t]" v]
  by (auto dest!: in_set_updateD simp: nth_list_update)

lemma pcanon_pwrap:
  "nibs_ok p \<Longrightarrow> n \<le> length p \<Longrightarrow> is_branch t \<Longrightarrow> pcanon t \<Longrightarrow> pcanon (pwrap n p t)"
  by (auto simp: pwrap_def)

lemma pcanon_psplit_leaf:
  assumes "nibs_ok rk" "nibs_ok rp" "rk \<noteq> [] \<or> rp \<noteq> []" "v \<noteq> []" "w \<noteq> []"
    and "\<And>x xs y ys. rk = x # xs \<Longrightarrow> rp = y # ys \<Longrightarrow> x \<noteq> y"
  shows "pcanon (psplit_leaf rp w rk v) \<and> is_branch (psplit_leaf rp w rk v)"
  using assms
  by (cases rk; cases rp) (auto simp: psplit_leaf_def intro!: pcanon_branch1 pcanon_branch2
    simp del: pcanon.simps(4))

lemma pcanon_psplit_ext:
  assumes "nibs_ok rk" "nibs_ok rp" "rp \<noteq> []" "v \<noteq> []" "is_branch t" "pcanon t"
    and "\<And>x xs y ys. rk = x # xs \<Longrightarrow> rp = y # ys \<Longrightarrow> x \<noteq> y"
  shows "pcanon (psplit_ext rp t rk v) \<and> is_branch (psplit_ext rp t rk v)"
proof -
  obtain y ys where rp: "rp = y # ys" using assms(3) by (cases rp) auto
  let ?sub = "if length rp = 1 then t else PExt (tl rp) t"
  have sub: "pcanon ?sub" "?sub \<noteq> PBlank"
    using assms rp by (auto simp: is_branch_def split: ptree.splits)
  show ?thesis
    using assms rp sub
    by (cases rk) (auto simp: psplit_ext_def Let_def intro!: pcanon_branch1 pcanon_branch2
      simp del: pcanon.simps(4))
qed

lemma pcanon_pupd:
  "pcanon t \<Longrightarrow> nibs_ok k \<Longrightarrow> v \<noteq> [] \<Longrightarrow>
     pcanon (pupd t k v) \<and> (is_branch t \<longrightarrow> is_branch (pupd t k v))"
proof (induction t k v rule: pupd.induct)
  case (1 k v)
  then show ?case by simp
next
  case (2 p w k v)
  obtain c rk rp where c: "k = c @ rk" "p = c @ rp" "common_prefix_length k p = length c"
    "drop (common_prefix_length k p) k = rk" "drop (common_prefix_length k p) p = rp"
    "\<And>x xs y ys. rk = x # xs \<Longrightarrow> rp = y # ys \<Longrightarrow> x \<noteq> y"
    using common_prefix_cases [of k p] by metis
  show ?case
  proof (cases "rk = [] \<and> rp = []")
    case True
    with c 2 show ?thesis by (auto simp: Let_def)
  next
    case False
    with c have eq: "pupd (PLeaf p w) k v = pwrap (length c) p (psplit_leaf rp w rk v)"
      by (auto simp: Let_def)
    have "pcanon (psplit_leaf rp w rk v) \<and> is_branch (psplit_leaf rp w rk v)"
      using 2 False c(1,2) by (intro pcanon_psplit_leaf c(6)) auto
    then have "pcanon (pwrap (length c) p (psplit_leaf rp w rk v))"
      using 2 c(2) by (intro pcanon_pwrap) auto
    then show ?thesis by (simp add: eq del: pupd.simps)
  qed
next
  case (3 p t k v)
  obtain c rk rp where c: "k = c @ rk" "p = c @ rp" "common_prefix_length k p = length c"
    "drop (common_prefix_length k p) k = rk" "drop (common_prefix_length k p) p = rp"
    "\<And>x xs y ys. rk = x # xs \<Longrightarrow> rp = y # ys \<Longrightarrow> x \<noteq> y"
    using common_prefix_cases [of k p] by metis
  let ?new = "if rp = [] then pupd t rk v else psplit_ext rp t rk v"
  have eq: "pupd (PExt p t) k v = pwrap (length c) p ?new"
    using c by (simp add: Let_def)
  have "pcanon ?new \<and> is_branch ?new"
  proof (cases "rp = []")
    case True
    with "3.IH" [OF refl] "3.prems" c show ?thesis by auto
  next
    case False
    have "pcanon (psplit_ext rp t rk v) \<and> is_branch (psplit_ext rp t rk v)"
      using "3.prems" False c(1,2) by (intro pcanon_psplit_ext c(6)) auto
    with False show ?thesis by simp
  qed
  then have "pcanon (pwrap (length c) p ?new)"
    using "3.prems" c(2) by (intro pcanon_pwrap) auto
  then show ?case by (simp add: eq del: pupd.simps)
next
  case (4 ts w v)
  then show ?case using entries_mono [of ts ts w v] by auto
next
  case (5 ts w i k v)
  have "entries ts w \<le> entries (ts[i := pupd (ts ! i) k v]) w"
    using 5 by (intro entries_mono) (auto simp: nth_list_update)
  with 5 show ?case by (auto dest!: in_set_updateD)
qed

section \<open>Deletion\<close>

lemma plookup_pprefix:
  "plookup (pprefix p t) k = (if starts_with k p then plookup t (drop (length p) k) else [])"
  by (cases t) (auto simp: pprefix_def starts_with_iff)

lemma nonblank_other: "i < 16 \<Longrightarrow> i \<notin> set (nonblank ts) \<Longrightarrow> ts ! i = PBlank"
  by simp

lemma plookup_pnorm:
  assumes "length ts = 16"
  shows "plookup (pnorm ts v) k = plookup (PBranch ts v) k"
proof (cases "nonblank ts")
  case Nil
  then have "\<And>i. i < 16 \<Longrightarrow> ts ! i = PBlank"
    using nonblank_other [of _ ts] by simp
  with Nil assms show ?thesis by (cases k) (auto simp: pnorm_def)
next
  case (Cons i rest)
  then have i: "i < 16" using set_nonblank [of ts] by auto
  show ?thesis
  proof (cases "rest = [] \<and> v = []")
    case True
    with Cons have "\<And>j. j < 16 \<Longrightarrow> j \<noteq> i \<Longrightarrow> ts ! j = PBlank"
      using nonblank_other [of _ ts] by simp
    with True Cons i assms show ?thesis
      by (cases k) (auto simp: pnorm_def plookup_pprefix starts_with_def)
  next
    case False
    with Cons show ?thesis by (auto simp: pnorm_def split: list.splits)
  qed
qed

lemma pcanon_pprefix: "nibs_ok p \<Longrightarrow> p \<noteq> [] \<Longrightarrow> pcanon t \<Longrightarrow> pcanon (pprefix p t)"
  by (cases t) (auto simp: pprefix_def)

lemma pcanon_pnorm:
  assumes "length ts = 16" "\<forall>t \<in> set ts. pcanon t" "1 \<le> entries ts v"
  shows "pcanon (pnorm ts v)"
proof (cases "nonblank ts")
  case Nil
  with assms show ?thesis by (auto simp: pnorm_def entries_def)
next
  case (Cons i rest)
  then have i: "i < 16" using set_nonblank [of ts] by auto
  show ?thesis
  proof (cases "rest = [] \<and> v = []")
    case True
    with Cons i assms show ?thesis
      by (auto simp: pnorm_def intro!: pcanon_pprefix)
  next
    case False
    with Cons have "2 \<le> entries ts v" by (cases rest) (auto simp: entries_def)
    with False Cons assms show ?thesis by (auto simp: pnorm_def split: list.splits)
  qed
qed

lemma entries_update_blank:
  assumes "2 \<le> entries ts v" "length ts = 16"
  shows "1 \<le> entries (ts[i := PBlank]) v"
proof -
  have "card {j. j < 16 \<and> ts ! j \<noteq> PBlank} \<le> card (insert i {j. j < 16 \<and> (ts[i := PBlank]) ! j \<noteq> PBlank})"
    using assms(2) by (intro card_mono) (auto simp: nth_list_update)
  also have "\<dots> \<le> Suc (card {j. j < 16 \<and> (ts[i := PBlank]) ! j \<noteq> PBlank})"
    by (rule card_insert_le_m1) auto
  finally show ?thesis using assms(1) by (simp add: entries_def length_nonblank)
qed

lemma pcanon_pdel: "pcanon t \<Longrightarrow> pcanon (pdel t k)"
proof (induction t k rule: pdel.induct)
  case (3 p t k)
  then show ?case by (auto intro: pcanon_pprefix)
next
  case (4 ts v)
  have "entries ts v \<le> Suc (entries ts [])" by (simp add: entries_def)
  with 4 have "1 \<le> entries ts []" by simp
  with 4 show ?case by (auto intro: pcanon_pnorm)
next
  case (5 ts v i k)
  let ?t = "pdel (ts ! i) k"
  show ?case
  proof (cases "i < 16")
    case i: True
    with 5 have t: "pcanon ?t" by auto
    show ?thesis
    proof (cases "?t = PBlank \<and> ts ! i \<noteq> PBlank")
      case True
      with 5 entries_update_blank [of ts v i] show ?thesis
        by (auto simp: Let_def intro!: pcanon_pnorm dest!: in_set_updateD)
    next
      case False
      with 5 t i have "2 \<le> entries (ts[i := ?t]) v"
        by (intro order_trans [OF _ entries_mono [of ts "ts[i := ?t]" v v]]) (auto simp: nth_list_update)
      with False 5 t show ?thesis by (auto simp: Let_def dest!: in_set_updateD)
    qed
  next
    case False
    with 5 have "ts[i := x] = ts" for x by (simp add: list_update_beyond)
    with 5 False entries_update_blank [of ts v i] show ?thesis
      by (auto simp: Let_def intro!: pcanon_pnorm)
  qed
qed auto

theorem plookup_pdel:
  "pcanon t \<Longrightarrow> nibs_ok k \<Longrightarrow> nibs_ok k' \<Longrightarrow>
     plookup (pdel t k) k' = (if k' = k then [] else plookup t k')"
proof (induction t k arbitrary: k' rule: pdel.induct)
  case (3 p t k)
  show ?case
  proof (cases "starts_with k p \<and> starts_with k' p")
    case True
    then obtain r r' where "k = p @ r" "k' = p @ r'" by (auto simp: starts_with_iff)
    with 3 True show ?thesis by (simp add: plookup_pprefix)
  next
    case False
    then show ?thesis by (auto simp: plookup_pprefix)
  qed
next
  case (4 ts v)
  then have "length ts = 16" by simp
  then show ?case by (cases k') (auto simp: plookup_pnorm)
next
  case (5 ts v i k)
  then have len: "length ts = 16" and i: "i < 16" by auto
  let ?t = "pdel (ts ! i) k"
  have "plookup (pdel (PBranch ts v) (i # k)) k' = plookup (PBranch (ts[i := ?t]) v) k'"
    using len by (auto simp: Let_def plookup_pnorm)
  with 5 len i show ?case by (cases k') (auto simp: nth_list_update)
qed auto

section \<open>A canonical tree is determined by its map\<close>

lemma pcanon_nonempty: "pcanon t \<Longrightarrow> t \<noteq> PBlank \<Longrightarrow> \<exists>k. nibs_ok k \<and> plookup t k \<noteq> []"
proof (induction t)
  case (PLeaf p v)
  then show ?case by (intro exI [of _ p]) simp
next
  case (PExt p t)
  then obtain k where "nibs_ok k" "plookup t k \<noteq> []"
    by (auto simp: is_branch_def split: ptree.splits)
  with PExt show ?case by (intro exI [of _ "p @ k"]) simp
next
  case (PBranch ts v)
  show ?case
  proof (cases "v = []")
    case True
    with PBranch.prems(1) have "nonblank ts \<noteq> []" by (auto simp: entries_def)
    then obtain i where i: "i < 16" "ts ! i \<noteq> PBlank"
      using set_nonblank [of ts] by (cases "nonblank ts") auto
    with PBranch.prems(1) have "ts ! i \<in> set ts" "pcanon (ts ! i)" by auto
    with PBranch.IH i obtain k where "nibs_ok k" "plookup (ts ! i) k \<noteq> []" by blast
    with i PBranch.prems(1) show ?thesis by (intro exI [of _ "i # k"]) simp
  next
    case False
    then show ?thesis by (intro exI [of _ "[]"]) simp
  qed
qed simp

text \<open>Two keys part at the root when no nibble starts both.\<close>

definition part_at_root :: "nat list \<Rightarrow> nat list \<Rightarrow> bool" where
  "part_at_root j k \<longleftrightarrow> j \<noteq> k \<and> (j = [] \<or> k = [] \<or> hd j \<noteq> hd k)"

lemma pcanon_branch_parts:
  assumes "pcanon (PBranch ts v)"
  shows "\<exists>j k. nibs_ok j \<and> nibs_ok k \<and> part_at_root j k \<and>
    plookup (PBranch ts v) j \<noteq> [] \<and> plookup (PBranch ts v) k \<noteq> []"
proof -
  have child: "\<exists>k. nibs_ok (i # k) \<and> plookup (PBranch ts v) (i # k) \<noteq> []" if "i \<in> set (nonblank ts)" for i
    using that assms pcanon_nonempty [of "ts ! i"] by auto
  obtain i rest where i: "nonblank ts = i # rest"
    using assms by (cases "nonblank ts") (auto simp: entries_def split: if_splits)
  obtain k where k: "nibs_ok (i # k)" "plookup (PBranch ts v) (i # k) \<noteq> []"
    using child [of i] i by auto
  show ?thesis
  proof (cases "v = []")
    case True
    with assms i obtain j js where j: "rest = j # js" by (cases rest) (auto simp: entries_def)
    then have "j \<noteq> i" using distinct_nonblank [of ts] i by auto
    obtain k' where "nibs_ok (j # k')" "plookup (PBranch ts v) (j # k') \<noteq> []"
      using child [of j] i j by auto
    with k \<open>j \<noteq> i\<close> show ?thesis
      by (intro exI [of _ "i # k"] exI [of _ "j # k'"]) (auto simp: part_at_root_def)
  next
    case False
    with k show ?thesis
      by (intro exI [of _ "[]"] exI [of _ "i # k"]) (auto simp: part_at_root_def)
  qed
qed

lemma plookup_ext_prefix: "plookup (PExt p t) k \<noteq> [] \<Longrightarrow> \<exists>r. k = p @ r"
  by (auto simp: starts_with_iff split: if_splits)

lemma part_prefix:
  assumes "part_at_root j k" "p @ j = q @ j'" "p @ k = q @ k'"
  shows "\<exists>r. p = q @ r"
proof (cases "length q \<le> length p")
  case True
  with assms(2) show ?thesis by (metis append_eq_append_conv_if append_take_drop_id)
next
  case False
  with assms(2,3) obtain x xs where "j = x # xs @ j'" "k = x # xs @ k'"
    by (auto simp: append_eq_append_conv2 Cons_eq_append_conv append_eq_Cons_conv) (metis neq_Nil_conv append_Cons)
  with assms(1) show ?thesis by (auto simp: part_at_root_def)
qed

lemma pext_prefix_le:
  assumes t: "pcanon (PExt p t)" and pre: "\<And>k. nibs_ok k \<Longrightarrow> plookup (PExt p t) k \<noteq> [] \<Longrightarrow> \<exists>r. k = q @ r"
  shows "\<exists>r. p = q @ r"
proof -
  from t obtain ts v where tb: "t = PBranch ts v" by (auto elim: is_branchE)
  with t obtain j k where jk: "nibs_ok j" "nibs_ok k" "part_at_root j k"
      "plookup t j \<noteq> []" "plookup t k \<noteq> []"
    using pcanon_branch_parts [of ts v] by auto
  then obtain j' k' where "p @ j = q @ j'" "p @ k = q @ k'"
    using pre [of "p @ j"] pre [of "p @ k"] t by auto
  with jk(3) show ?thesis by (rule part_prefix)
qed

lemma pext_starts:
  assumes "pcanon (PExt p t)" "plookup (PExt p t) j \<noteq> []" "plookup (PExt p t) k \<noteq> []"
  shows "\<not> part_at_root j k"
proof -
  obtain r r' where "j = p @ r" "k = p @ r'"
    using plookup_ext_prefix assms(2,3) by blast
  moreover have "p \<noteq> []" using assms(1) by simp
  ultimately show ?thesis by (cases p) (auto simp: part_at_root_def)
qed

text \<open>Equal maps force equal kinds of root node.\<close>

definition same_map :: "ptree \<Rightarrow> ptree \<Rightarrow> bool" where
  "same_map t u \<longleftrightarrow> (\<forall>k. nibs_ok k \<longrightarrow> plookup t k = plookup u k)"

lemma same_map_sym: "same_map t u \<Longrightarrow> same_map u t"
  by (simp add: same_map_def)

lemma same_map_leaf:
  assumes "same_map (PLeaf p v) u" "pcanon u" "v \<noteq> []" "nibs_ok p"
  shows "u = PLeaf p v"
proof (cases u)
  case PBlank
  with assms show ?thesis by (auto simp: same_map_def)
next
  case (PLeaf q w)
  with assms show ?thesis by (metis pcanon.simps(2) plookup.simps(2) same_map_def)
next
  case (PExt q t)
  with assms(2) obtain ts w where tb: "t = PBranch ts w" by (auto elim: is_branchE)
  with PExt assms(2) obtain j k where "nibs_ok (q @ j)" "nibs_ok (q @ k)" "part_at_root j k"
      "plookup u (q @ j) \<noteq> []" "plookup u (q @ k) \<noteq> []"
    using pcanon_branch_parts [of ts w] by auto
  with assms(1) show ?thesis
    by (metis plookup.simps(2) same_append_eq same_map_def part_at_root_def)
next
  case (PBranch ts w)
  with assms(2) obtain j k where "nibs_ok j" "nibs_ok k" "part_at_root j k"
      "plookup u j \<noteq> []" "plookup u k \<noteq> []"
    using pcanon_branch_parts [of ts w] by auto
  with assms(1) show ?thesis
    by (metis plookup.simps(2) same_map_def part_at_root_def)
qed

lemma same_map_ext:
  assumes "same_map (PExt p t) u" "pcanon (PExt p t)" "pcanon u"
  shows "\<exists>t'. u = PExt p t' \<and> same_map t t'"
proof (cases u)
  case PBlank
  with assms pcanon_nonempty [of "PExt p t"] show ?thesis by (auto simp: same_map_def)
next
  case (PLeaf q w)
  with assms same_map_leaf [of q w "PExt p t"] show ?thesis by (auto dest: same_map_sym)
next
  case (PExt q t')
  have "\<exists>r. p = q @ r"
    using assms PExt by (intro pext_prefix_le [OF assms(2)]) (metis plookup_ext_prefix same_map_def)
  moreover have "\<exists>r. q = p @ r"
    using assms PExt by (intro pext_prefix_le [of q t']) (simp, metis plookup_ext_prefix same_map_def)
  ultimately have "p = q" by auto
  have "plookup t k = plookup t' k" if "nibs_ok k" for k
    using assms(1,2) PExt \<open>p = q\<close> that by (auto simp: same_map_def dest: spec [of _ "p @ k"])
  with PExt \<open>p = q\<close> show ?thesis by (simp add: same_map_def)
next
  case (PBranch ts w)
  with assms(3) obtain j k where "nibs_ok j" "nibs_ok k" "part_at_root j k"
      "plookup u j \<noteq> []" "plookup u k \<noteq> []"
    using pcanon_branch_parts [of ts w] by auto
  with assms show ?thesis by (metis pext_starts same_map_def)
qed

lemma same_map_branch:
  assumes "same_map (PBranch ts v) u" "pcanon (PBranch ts v)" "pcanon u"
  shows "\<exists>us. u = PBranch us v \<and> (\<forall>i < 16. same_map (ts ! i) (us ! i))"
proof (cases u)
  case PBlank
  with assms pcanon_nonempty [of "PBranch ts v"] show ?thesis by (auto simp: same_map_def)
next
  case (PLeaf q w)
  with assms same_map_leaf [of q w "PBranch ts v"] show ?thesis by (auto dest: same_map_sym)
next
  case (PExt q t)
  with assms same_map_ext [of q t "PBranch ts v"] show ?thesis by (auto dest: same_map_sym)
next
  case (PBranch us w)
  have "v = w"
    using assms(1) PBranch by (auto simp: same_map_def dest: spec [of _ "[]"])
  moreover have "plookup (ts ! i) k = plookup (us ! i) k" if "i < 16" "nibs_ok k" for i k
    using assms PBranch that by (auto simp: same_map_def dest: spec [of _ "i # k"])
  ultimately show ?thesis using PBranch by (simp add: same_map_def)
qed

theorem pcanon_unique:
  "pcanon t \<Longrightarrow> pcanon u \<Longrightarrow> same_map t u \<Longrightarrow> t = u"
proof (induction t arbitrary: u)
  case PBlank
  show ?case
  proof (rule ccontr)
    assume "PBlank \<noteq> u"
    with PBlank pcanon_nonempty [of u] show False by (auto simp: same_map_def)
  qed
next
  case (PLeaf p v)
  then show ?case using same_map_leaf [of p v u] by simp
next
  case (PExt p t)
  from same_map_ext [OF PExt.prems(3,1,2)] PExt show ?case by auto
next
  case (PBranch ts v)
  from same_map_branch [OF PBranch.prems(3,1,2)] obtain us where
    us: "u = PBranch us v" "\<forall>i < 16. same_map (ts ! i) (us ! i)" by blast
  with PBranch.prems have len: "length ts = 16" "length us = 16" by auto
  have "ts = us"
  proof (rule nth_equalityI)
    show "ts ! i = us ! i" if "i < length ts" for i
      using PBranch us len that by auto
  qed (simp add: len)
  with us show ?case by simp
qed

end
