(* ===== verification/Trie.thy ===== *)
theory Trie
  imports Ptree
begin

text \<open>
  The class \<open>Trie\<close> of \<open>trie.py\<close>: a Merkle Patricia trie whose nodes are RLP items, a node of 32
  bytes or more being stored under its hash. The methods take the trie's store as the pair of its
  \<open>get\<close> and \<open>put\<close> in the record \<open>trie_env\<close>, so they run over any of the store classes.

  The recursive methods carry fuel for the depth of the recursion; the public methods start them
  with one more than the length of the key, which the theorems below show is never used up on a
  canonical trie. The list \<open>self.deletes\<close>, which no code of the repository reads, is left out,
  and with it the calls of \<open>_delete_node_storage\<close>.
\<close>

section \<open>Nodes\<close>

datatype node_type = NODE_TYPE_BLANK | NODE_TYPE_LEAF | NODE_TYPE_EXTENSION | NODE_TYPE_BRANCH

definition BLANK_NODE :: item where
  "BLANK_NODE = Str []"

definition BLANK_ROOT :: "ext \<Rightarrow> string" where
  "BLANK_ROOT E = sha3 E [CHR 0x80]"

record 's trie_env =
  t_ext :: ext
  t_get :: "string \<Rightarrow> ('s, string) M"
  t_put :: "string \<Rightarrow> string \<Rightarrow> ('s, unit) M"

definition is_key_value_type :: "node_type \<Rightarrow> bool" where
  "is_key_value_type ty \<longleftrightarrow> ty = NODE_TYPE_LEAF \<or> ty = NODE_TYPE_EXTENSION"

text \<open>\<open>node[i]\<close> and \<open>node[i] = x\<close> on a node that is a list.\<close>

definition node_nth :: "item \<Rightarrow> nat \<Rightarrow> item res" where
  "node_nth node i = (case node of Lst xs \<Rightarrow> py_nth xs i | Str s \<Rightarrow> Inl TypeError)"

definition node_set :: "item \<Rightarrow> nat \<Rightarrow> item \<Rightarrow> item" where
  "node_set node i x = (case node of Lst xs \<Rightarrow> Lst (xs[i := x]) | Str s \<Rightarrow> node)"

definition blank_branch :: item where
  "blank_branch = Lst (replicate 17 BLANK_NODE)"

text \<open>The nibbles of the path of a two-element node.\<close>

definition node_nibbles :: "item \<Rightarrow> nat list res" where
  "node_nibbles node =
     bindE (node_nth node 0) (\<lambda>p. case p of Str s \<Rightarrow> unpack_to_nibbles s | Lst _ \<Rightarrow> Inl TypeError)"

definition node_key :: "item \<Rightarrow> nat list res" where
  "node_key node = bindE (node_nibbles node) (\<lambda>ns. Inr (without_terminator ns))"

text \<open>An item that is no node (a non-empty string, a list of another length) has no type: the
  method falls through and its callers fail on the result.\<close>

definition get_node_type :: "item \<Rightarrow> node_type res" where
  "get_node_type node =
     (case node of
        Str s \<Rightarrow> if s = [] then Inr NODE_TYPE_BLANK else Inl TypeError
      | Lst xs \<Rightarrow>
          if length xs = 2
          then bindE (node_nibbles node) (\<lambda>nibbles.
                 if nibbles \<noteq> [] \<and> last nibbles = NIBBLE_TERMINATOR
                 then Inr NODE_TYPE_LEAF else Inr NODE_TYPE_EXTENSION)
          else if length xs = 17 then Inr NODE_TYPE_BRANCH
          else Inl TypeError)"

definition encode_node :: "'s trie_env \<Rightarrow> item \<Rightarrow> ('s, item) M" where
  "encode_node T node =
     (if node = BLANK_NODE then ret BLANK_NODE
      else let rlpnode = encode_optimized (t_ext T) node
           in if length rlpnode < 32 then ret node
              else let hashkey = sha3 (t_ext T) rlpnode
                   in bindM (t_put T hashkey rlpnode) (\<lambda>_. ret (Str hashkey)))"

definition decode_to_node :: "'s trie_env \<Rightarrow> item \<Rightarrow> ('s, item) M" where
  "decode_to_node T encoded =
     (if encoded = BLANK_NODE then ret BLANK_NODE
      else case encoded of
             Lst _ \<Rightarrow> ret encoded
           | Str h \<Rightarrow> bindM (t_get T h) (\<lambda>v. liftE (rlp_dec (t_ext T) v)))"

text \<open>\<open>self._decode_to_node(node[i])\<close>.\<close>

definition child_node :: "'s trie_env \<Rightarrow> item \<Rightarrow> nat \<Rightarrow> ('s, item) M" where
  "child_node T node i = bindM (liftE (node_nth node i)) (\<lambda>e. decode_to_node T e)"

section \<open>Lookup\<close>

fun trie_get :: "nat \<Rightarrow> 's trie_env \<Rightarrow> item \<Rightarrow> nat list \<Rightarrow> ('s, item) M" where
  "trie_get 0 T node key = raise RuntimeError"
| "trie_get (Suc f) T node key =
     bindM (liftE (get_node_type node)) (\<lambda>node_type.
     case node_type of
       NODE_TYPE_BLANK \<Rightarrow> ret BLANK_NODE
     | NODE_TYPE_BRANCH \<Rightarrow>
         (case key of
            [] \<Rightarrow> liftE (node_nth node 16)
          | i # k \<Rightarrow> bindM (child_node T node i) (\<lambda>sub_node. trie_get f T sub_node k))
     | NODE_TYPE_LEAF \<Rightarrow>
         bindM (liftE (node_key node)) (\<lambda>curr_key.
         if key = curr_key then liftE (node_nth node 1) else ret BLANK_NODE)
     | NODE_TYPE_EXTENSION \<Rightarrow>
         bindM (liftE (node_key node)) (\<lambda>curr_key.
         if starts_with key curr_key
         then bindM (child_node T node 1) (\<lambda>sub_node.
              trie_get f T sub_node (drop (length curr_key) key))
         else ret BLANK_NODE))"

section \<open>Update\<close>

text \<open>A fresh leaf with the given remaining path.\<close>

definition new_leaf :: "nat list \<Rightarrow> item \<Rightarrow> item res" where
  "new_leaf key value =
     bindE (pack_nibbles (with_terminator key)) (\<lambda>p. Inr (Lst [Str p, value]))"

text \<open>The case in which the paths part inside the current node: a new branch.\<close>

definition split_kv_node ::
  "'s trie_env \<Rightarrow> bool \<Rightarrow> nat list \<Rightarrow> item \<Rightarrow> nat list \<Rightarrow> string \<Rightarrow> ('s, item) M" where
  "split_kv_node T is_inner remain_curr_key node1 remain_key value =
     bindM (if length remain_curr_key = 1 \<and> is_inner
            then ret (node_set blank_branch (hd remain_curr_key) node1)
            else bindM (liftE (pack_nibbles (adapt_terminator (tl remain_curr_key) (\<not> is_inner)))) (\<lambda>p.
                 bindM (encode_node T (Lst [Str p, node1])) (\<lambda>e.
                 ret (node_set blank_branch (hd remain_curr_key) e)))) (\<lambda>new_node.
     if remain_key = [] then ret (node_set new_node 16 (Str value))
     else bindM (liftE (new_leaf (tl remain_key) (Str value))) (\<lambda>leaf.
          bindM (encode_node T leaf) (\<lambda>e.
          ret (node_set new_node (hd remain_key) e))))"

text \<open>\<open>upd\<close> is the recursive call \<open>self._update_and_delete_storage\<close>.\<close>

definition update_kv_node ::
  "'s trie_env \<Rightarrow> (item \<Rightarrow> nat list \<Rightarrow> string \<Rightarrow> ('s, item) M) \<Rightarrow> item \<Rightarrow> nat list \<Rightarrow> string \<Rightarrow> ('s, item) M" where
  "update_kv_node T upd node key value =
     bindM (liftE (get_node_type node)) (\<lambda>node_type.
     bindM (liftE (node_key node)) (\<lambda>curr_key.
     bindM (liftE (node_nth node 0)) (\<lambda>node0.
     bindM (liftE (node_nth node 1)) (\<lambda>node1.
     let is_inner = (node_type = NODE_TYPE_EXTENSION);
         prefix_length = common_prefix_length key curr_key;
         remain_key = drop prefix_length key;
         remain_curr_key = drop prefix_length curr_key
     in if remain_key = [] \<and> remain_curr_key = [] \<and> \<not> is_inner
        then ret (Lst [node0, Str value])
        else
          bindM
            (if remain_curr_key = []
             then if is_inner
                  then bindM (decode_to_node T node1) (\<lambda>sub_node. upd sub_node remain_key value)
                  else bindM (liftE (new_leaf (tl remain_key) (Str value))) (\<lambda>leaf.
                       bindM (encode_node T leaf) (\<lambda>e.
                       ret (node_set (node_set blank_branch 16 node1) (hd remain_key) e)))
             else split_kv_node T is_inner remain_curr_key node1 remain_key value) (\<lambda>new_node.
          if prefix_length \<noteq> 0
          then bindM (liftE (pack_nibbles (take prefix_length curr_key))) (\<lambda>p.
               bindM (encode_node T new_node) (\<lambda>e.
               ret (Lst [Str p, e])))
          else ret new_node)))))"

fun trie_update :: "nat \<Rightarrow> 's trie_env \<Rightarrow> item \<Rightarrow> nat list \<Rightarrow> string \<Rightarrow> ('s, item) M" where
  "trie_update 0 T node key value = raise RuntimeError"
| "trie_update (Suc f) T node key value =
     bindM (liftE (get_node_type node)) (\<lambda>node_type.
     case node_type of
       NODE_TYPE_BLANK \<Rightarrow> liftE (new_leaf key (Str value))
     | NODE_TYPE_BRANCH \<Rightarrow>
         (case key of
            [] \<Rightarrow> ret (node_set node 16 (Str value))
          | i # k \<Rightarrow>
              bindM (child_node T node i) (\<lambda>sub_node.
              bindM (trie_update f T sub_node k value) (\<lambda>new_node.
              bindM (encode_node T new_node) (\<lambda>e.
              ret (node_set node i e)))))
     | _ \<Rightarrow> update_kv_node T (trie_update f T) node key value)"

section \<open>Deletion\<close>

text \<open>The items of a branch that Python counts as true: a non-empty string or list.\<close>

definition truthy :: "item \<Rightarrow> bool" where
  "truthy x = (case x of Str s \<Rightarrow> s \<noteq> [] | Lst xs \<Rightarrow> xs \<noteq> [])"

definition normalize_branch_node :: "'s trie_env \<Rightarrow> item \<Rightarrow> ('s, item) M" where
  "normalize_branch_node T node =
     (case node of
        Str s \<Rightarrow> raise TypeError
      | Lst xs \<Rightarrow>
          case filter (\<lambda>i. truthy (xs ! i)) [0..<length xs] of
            [] \<Rightarrow> raise AssertionError
          | i # j # r \<Rightarrow> ret node
          | [not_blank_index] \<Rightarrow>
              if not_blank_index = 16
              then bindM (liftE (pack_nibbles (with_terminator []))) (\<lambda>p.
                   ret (Lst [Str p, xs ! 16]))
              else
                bindM (decode_to_node T (xs ! not_blank_index)) (\<lambda>sub_node.
                bindM (liftE (get_node_type sub_node)) (\<lambda>sub_node_type.
                if is_key_value_type sub_node_type
                then bindM (liftE (node_nibbles sub_node)) (\<lambda>ns.
                     bindM (liftE (pack_nibbles (not_blank_index # ns))) (\<lambda>p.
                     bindM (liftE (node_nth sub_node 1)) (\<lambda>v.
                     ret (Lst [Str p, v]))))
                else if sub_node_type = NODE_TYPE_BRANCH
                then bindM (liftE (pack_nibbles [not_blank_index])) (\<lambda>p.
                     bindM (encode_node T sub_node) (\<lambda>e.
                     ret (Lst [Str p, e])))
                else raise AssertionError)))"

definition delete_branch_node ::
  "'s trie_env \<Rightarrow> (item \<Rightarrow> nat list \<Rightarrow> ('s, item) M) \<Rightarrow> item \<Rightarrow> nat list \<Rightarrow> ('s, item) M" where
  "delete_branch_node T del node key =
     (case key of
        [] \<Rightarrow> normalize_branch_node T (node_set node 16 BLANK_NODE)
      | i # k \<Rightarrow>
          bindM (child_node T node i) (\<lambda>sub_node.
          bindM (del sub_node k) (\<lambda>new_sub_node.
          bindM (encode_node T new_sub_node) (\<lambda>encoded_new_sub_node.
          bindM (liftE (node_nth node i)) (\<lambda>old.
          if encoded_new_sub_node = old then ret node
          else if encoded_new_sub_node = BLANK_NODE
          then normalize_branch_node T (node_set node i encoded_new_sub_node)
          else ret (node_set node i encoded_new_sub_node))))))"

definition delete_kv_node ::
  "'s trie_env \<Rightarrow> (item \<Rightarrow> nat list \<Rightarrow> ('s, item) M) \<Rightarrow> item \<Rightarrow> nat list \<Rightarrow> ('s, item) M" where
  "delete_kv_node T del node key =
     bindM (liftE (get_node_type node)) (\<lambda>node_type.
     bindM (liftE (node_key node)) (\<lambda>curr_key.
     if \<not> starts_with key curr_key then ret node
     else if node_type = NODE_TYPE_LEAF
     then ret (if key = curr_key then BLANK_NODE else node)
     else
       bindM (child_node T node 1) (\<lambda>sub_node.
       bindM (del sub_node (drop (length curr_key) key)) (\<lambda>new_sub_node.
       bindM (encode_node T new_sub_node) (\<lambda>e.
       bindM (liftE (node_nth node 1)) (\<lambda>old.
       if e = old then ret node
       else if new_sub_node = BLANK_NODE then ret BLANK_NODE
       else
         bindM (liftE (get_node_type new_sub_node)) (\<lambda>new_sub_node_type.
         if is_key_value_type new_sub_node_type
         then bindM (liftE (node_nibbles new_sub_node)) (\<lambda>ns.
              bindM (liftE (pack_nibbles (curr_key @ ns))) (\<lambda>p.
              bindM (liftE (node_nth new_sub_node 1)) (\<lambda>v.
              ret (Lst [Str p, v]))))
         else if new_sub_node_type = NODE_TYPE_BRANCH
         then bindM (liftE (pack_nibbles curr_key)) (\<lambda>p.
              bindM (encode_node T new_sub_node) (\<lambda>e'.
              ret (Lst [Str p, e'])))
         else raise AssertionError)))))))"

fun trie_delete :: "nat \<Rightarrow> 's trie_env \<Rightarrow> item \<Rightarrow> nat list \<Rightarrow> ('s, item) M" where
  "trie_delete 0 T node key = raise RuntimeError"
| "trie_delete (Suc f) T node key =
     bindM (liftE (get_node_type node)) (\<lambda>node_type.
     case node_type of
       NODE_TYPE_BLANK \<Rightarrow> ret BLANK_NODE
     | NODE_TYPE_BRANCH \<Rightarrow> delete_branch_node T (trie_delete f T) node key
     | _ \<Rightarrow> delete_kv_node T (trie_delete f T) node key)"

section \<open>The trie object\<close>

record 's trie =
  tdb :: 's
  root_node :: item
  root_hash :: string

definition in_tdb :: "('s, 'a) M \<Rightarrow> ('s trie, 'a) M" where
  "in_tdb m = zoomM tdb (\<lambda>d t. t\<lparr>tdb := d\<rparr>) m"

definition update_root_hash :: "'s trie_env \<Rightarrow> ('s trie, unit) M" where
  "update_root_hash T =
     bindM (gets root_node) (\<lambda>node.
     let val = encode_optimized (t_ext T) node; key = sha3 (t_ext T) val
     in bindM (in_tdb (t_put T key val)) (\<lambda>_. modifyM (\<lambda>t. t\<lparr>root_hash := key\<rparr>)))"

definition set_root_hash :: "'s trie_env \<Rightarrow> string \<Rightarrow> ('s trie, unit) M" where
  "set_root_hash T value =
     bindM (assertM (length value = 0 \<or> length value = 32)) (\<lambda>_.
     if value = BLANK_ROOT (t_ext T)
     then modifyM (\<lambda>t. t\<lparr>root_node := BLANK_NODE, root_hash := BLANK_ROOT (t_ext T)\<rparr>)
     else bindM (in_tdb (decode_to_node T (Str value))) (\<lambda>node.
          modifyM (\<lambda>t. t\<lparr>root_node := node, root_hash := value\<rparr>)))"

definition get :: "'s trie_env \<Rightarrow> string \<Rightarrow> ('s trie, item) M" where
  "get T key =
     bindM (liftE (bin_to_nibbles key)) (\<lambda>ns.
     bindM (gets root_node) (\<lambda>node. in_tdb (trie_get (Suc (length ns)) T node ns)))"

definition update :: "'s trie_env \<Rightarrow> string \<Rightarrow> string \<Rightarrow> ('s trie, unit) M" where
  "update T key value =
     bindM (liftE (bin_to_nibbles key)) (\<lambda>ns.
     bindM (gets root_node) (\<lambda>node.
     bindM (in_tdb (trie_update (Suc (length ns)) T node ns value)) (\<lambda>node'.
     bindM (modifyM (\<lambda>t. t\<lparr>root_node := node'\<rparr>)) (\<lambda>_.
     update_root_hash T))))"

definition delete :: "'s trie_env \<Rightarrow> string \<Rightarrow> ('s trie, unit) M" where
  "delete T key =
     (if length key > 32 then raise PyException
      else bindM (liftE (bin_to_nibbles key)) (\<lambda>ns.
           bindM (gets root_node) (\<lambda>node.
           bindM (in_tdb (trie_delete (Suc (length ns)) T node ns)) (\<lambda>node'.
           bindM (modifyM (\<lambda>t. t\<lparr>root_node := node'\<rparr>)) (\<lambda>_.
           update_root_hash T)))))"

end
