(* ===== verification/TrieRefine.thy ===== *)
theory TrieRefine
  imports Trie
begin

text \<open>
  The class \<open>Trie\<close> refines the trees of \<open>Ptree\<close>. \<open>nodeof E t\<close> is the node of the tree \<open>t\<close>, \<open>ref_of\<close>
  the reference a parent holds (the node itself when its encoding is shorter than 32 bytes, its
  hash otherwise), \<open>stored\<close> says that the store holds the encodings of all hashed nodes below.

  \<open>runs\<close> is the triple of a small program logic: a computation of a given cost in writes either
  returns a value that satisfies the postcondition, or it raises AssertionError in a store with the
  condition given as the first argument: \<open>clash\<close>, another value under the hash of a node, for the
  methods that write. The rules are proved once in the interface
  \<open>content_store\<close>; the methods of the trie are then verified inside it.
\<close>

section \<open>Trees as nodes\<close>

definition ref_of :: "ext \<Rightarrow> item \<Rightarrow> item" where
  "ref_of E node =
     (if node = BLANK_NODE then BLANK_NODE
      else let r = encode_optimized E node
           in if length r < 32 then node else Str (sha3 E r))"

fun nodeof :: "ext \<Rightarrow> ptree \<Rightarrow> item" where
  "nodeof E PBlank = BLANK_NODE"
| "nodeof E (PLeaf p v) = Lst [Str (hp p True), Str v]"
| "nodeof E (PExt p t) = Lst [Str (hp p False), ref_of E (nodeof E t)]"
| "nodeof E (PBranch ts v) = Lst (map (\<lambda>t. ref_of E (nodeof E t)) ts @ [Str v])"

abbreviation tref :: "ext \<Rightarrow> ptree \<Rightarrow> item" where
  "tref E t \<equiv> ref_of E (nodeof E t)"

definition held :: "ext \<Rightarrow> (string \<rightharpoonup> string) \<Rightarrow> item \<Rightarrow> bool" where
  "held E m node \<longleftrightarrow>
     node = BLANK_NODE \<or> length (encode_optimized E node) < 32 \<or>
     m (sha3 E (encode_optimized E node)) = Some (encode_optimized E node)"

fun stored :: "ext \<Rightarrow> (string \<rightharpoonup> string) \<Rightarrow> ptree \<Rightarrow> bool" where
  "stored E m PBlank = True"
| "stored E m (PLeaf p v) = True"
| "stored E m (PExt p t) = (held E m (nodeof E t) \<and> stored E m t)"
| "stored E m (PBranch ts v) = (\<forall>t \<in> set ts. held E m (nodeof E t) \<and> stored E m t)"

abbreviation kept :: "ext \<Rightarrow> (string \<rightharpoonup> string) \<Rightarrow> ptree \<Rightarrow> bool" where
  "kept E m t \<equiv> held E m (nodeof E t) \<and> stored E m t"

lemma held_mono: "held E m n \<Longrightarrow> m \<subseteq>\<^sub>m m' \<Longrightarrow> held E m' n"
  by (auto simp: held_def map_le_def dom_def)

lemma stored_mono: "stored E m t \<Longrightarrow> m \<subseteq>\<^sub>m m' \<Longrightarrow> stored E m' t"
  by (induction t) (auto intro: held_mono)

lemma held_blank [simp]: "held E m BLANK_NODE" "held E m (Str [])"
  by (simp_all add: held_def BLANK_NODE_def)

lemma ref_of_blank [simp]: "ref_of E BLANK_NODE = BLANK_NODE"
  by (simp add: ref_of_def)

lemma Lst_not_blank [simp]: "Lst xs \<noteq> BLANK_NODE" "BLANK_NODE \<noteq> Lst xs"
  by (simp_all add: BLANK_NODE_def)

lemma nodeof_blank_iff [simp]: "nodeof E t = BLANK_NODE \<longleftrightarrow> t = PBlank"
  by (cases t) auto

lemma nodeof_cases: "t = PBlank \<or> (\<exists>xs. nodeof E t = Lst xs)"
  by (cases t) auto

lemma length_sha3: "ext_ok E \<Longrightarrow> length (sha3 E x) = 32"
  by (simp add: sha3_def ext_okD)

lemma sha3_not_Nil: "ext_ok E \<Longrightarrow> sha3 E x \<noteq> []"
  using length_sha3 [of E x] by auto

lemma tref_blank_iff [simp]: "ext_ok E \<Longrightarrow> tref E t = BLANK_NODE \<longleftrightarrow> t = PBlank"
  using nodeof_cases [of t E] sha3_not_Nil [of E]
  by (auto simp: ref_of_def Let_def BLANK_NODE_def)

lemma tref_blank_iff' [simp]: "ext_ok E \<Longrightarrow> BLANK_NODE = tref E t \<longleftrightarrow> t = PBlank"
  using tref_blank_iff by metis

lemma truthy_tref [simp]: "ext_ok E \<Longrightarrow> truthy (tref E t) \<longleftrightarrow> t \<noteq> PBlank"
  using sha3_not_Nil [of E] nodeof_cases [of t E]
  by (cases t) (auto simp: ref_of_def Let_def truthy_def BLANK_NODE_def)

subsection \<open>Bounds\<close>

text \<open>Paths and values short enough for the length fields of RLP; the number of entries is not
  bounded.\<close>

fun small :: "ptree \<Rightarrow> bool" where
  "small PBlank = True"
| "small (PLeaf p v) = (length p < 2 ^ 50 \<and> length v < 2 ^ 50)"
| "small (PExt p t) = (length p < 2 ^ 50 \<and> small t)"
| "small (PBranch ts v) = ((\<forall>t \<in> set ts. small t) \<and> length v < 2 ^ 50)"

definition small_map :: "ptree \<Rightarrow> bool" where
  "small_map t \<longleftrightarrow> (\<forall>k. nibs_ok k \<longrightarrow> plookup t k \<noteq> [] \<longrightarrow>
     length k < 2 ^ 50 \<and> length (plookup t k) < 2 ^ 50)"

lemma encode_Str_le:
  assumes "ext_ok E" "length b < 2 ^ 64"
  shows "length (encode_optimized E (Str b)) \<le> length b + 9"
  using length_prefix_le [OF assms, of 128] by auto

lemma encode_short_Str:
  assumes "length b < 56"
  shows "length (encode_optimized E (Str b)) \<le> length b + 1"
  using assms by (auto simp: length_prefix_def)

lemma encode_ref_le: "ext_ok E \<Longrightarrow> length (encode_optimized E (ref_of E n)) \<le> 33"
  using encode_short_Str [of "sha3 E (encode_optimized E n)" E] length_sha3 [of E]
  by (auto simp: ref_of_def BLANK_NODE_def Let_def length_prefix_def)

lemma sized_Lst:
  assumes E: "ext_ok E" and le: "\<And>x. x \<in> set xs \<Longrightarrow> length (encode_optimized E x) \<le> 2 ^ 51"
    and n: "length xs \<le> 17"
  shows "sized E (Lst xs)"
proof -
  let ?p = "concat (map (encode_optimized E) xs)"
  have "length ?p \<le> length xs * 2 ^ 51"
    using le by (induction xs) fastforce+
  with n have "length ?p \<le> 17 * 2 ^ 51"
    using mult_le_mono1 [OF n, of "2 ^ 51"] by linarith
  with length_prefix_le [OF E, of "length ?p" 192] show ?thesis
    by (simp add: sized_def Let_def)
qed

lemma sized_nodeof:
  assumes E: "ext_ok E" and t: "pwf t" "small t"
  shows "sized E (nodeof E t)"
proof -
  have str: "length (encode_optimized E (Str b)) \<le> 2 ^ 51" if "length b < 2 ^ 50" for b
    using encode_Str_le [OF E, of b] that by simp
  have path: "length (encode_optimized E (Str (hp p b))) \<le> 2 ^ 51" if "nibs_ok p" "length p < 2 ^ 50" for p b
    using that length_hp [of p b] by (intro str) auto
  have ref: "length (encode_optimized E (tref E u)) \<le> 2 ^ 51" for u
    using encode_ref_le [OF E, of "nodeof E u"] by simp
  show ?thesis
  proof (cases t)
    case PBlank
    then show ?thesis by (simp add: sized_def BLANK_NODE_def length_prefix_def)
  next
    case (PLeaf p v)
    with t str path show ?thesis by (auto intro!: sized_Lst [OF E] simp del: encode_optimized.simps)
  next
    case (PExt p u)
    with t ref path show ?thesis by (auto intro!: sized_Lst [OF E] simp del: encode_optimized.simps)
  next
    case (PBranch ts v)
    with t ref str show ?thesis by (auto intro!: sized_Lst [OF E] simp del: encode_optimized.simps)
  qed
qed

lemma small_map_child:
  "small_map (PExt p t) \<Longrightarrow> nibs_ok p \<Longrightarrow> small_map t"
  "small_map (PBranch ts v) \<Longrightarrow> length ts = 16 \<Longrightarrow> i < 16 \<Longrightarrow> small_map (ts ! i)"
proof -
  show "small_map t" if s: "small_map (PExt p t)" and p: "nibs_ok p"
    unfolding small_map_def
  proof (intro allI impI)
    fix k assume "nibs_ok k" "plookup t k \<noteq> []"
    then show "length k < 2 ^ 50 \<and> length (plookup t k) < 2 ^ 50"
      using s [unfolded small_map_def, rule_format, of "p @ k"] p by simp
  qed
  show "small_map (ts ! i)" if s: "small_map (PBranch ts v)" and i: "length ts = 16" "i < 16"
    unfolding small_map_def
  proof (intro allI impI)
    fix k assume "nibs_ok k" "plookup (ts ! i) k \<noteq> []"
    then show "length k < 2 ^ 50 \<and> length (plookup (ts ! i) k) < 2 ^ 50"
      using s [unfolded small_map_def, rule_format, of "i # k"] i by simp
  qed
qed

lemma small_map_small: "pcanon t \<Longrightarrow> small_map t \<Longrightarrow> small t"
proof (induction t)
  case (PLeaf p v)
  then show ?case by (auto simp: small_map_def)
next
  case (PExt p t)
  then have t: "pcanon t" "t \<noteq> PBlank" "nibs_ok p" by auto
  obtain k where "nibs_ok k" "plookup t k \<noteq> []"
    using pcanon_nonempty t by blast
  with PExt.prems(2) [unfolded small_map_def, rule_format, of "p @ k"] t
  have "length p < 2 ^ 50" by simp
  with PExt t small_map_child(1) show ?case by auto
next
  case (PBranch ts v)
  have "length v < 2 ^ 50"
    using PBranch.prems(2) [unfolded small_map_def, rule_format, of "[]"] by (cases v) auto
  moreover have "small t" if t: "t \<in> set ts" for t
  proof -
    obtain i where "i < length ts" "t = ts ! i" using t by (auto simp: in_set_conv_nth)
    with PBranch t small_map_child(2) [of ts v i] show ?thesis by auto
  qed
  ultimately show ?case by simp
qed simp

lemma small_map_pupd:
  assumes "pwf t" "small_map t" "nibs_ok k" "length k < 2 ^ 50" "length v < 2 ^ 50"
  shows "small_map (pupd t k v)"
  using assms by (auto simp: small_map_def plookup_pupd_same_or_other)

lemma small_map_pdel: "pcanon t \<Longrightarrow> small_map t \<Longrightarrow> nibs_ok k \<Longrightarrow> small_map (pdel t k)"
  by (auto simp: small_map_def plookup_pdel)

subsection \<open>Reading nodes\<close>

lemma get_node_type_simps [simp]:
  "get_node_type BLANK_NODE = Inr NODE_TYPE_BLANK"
  "nibs_ok p \<Longrightarrow> get_node_type (Lst [Str (hp p True), x]) = Inr NODE_TYPE_LEAF"
  "nibs_ok p \<Longrightarrow> get_node_type (Lst [Str (hp p False), x]) = Inr NODE_TYPE_EXTENSION"
  "length xs = 17 \<Longrightarrow> get_node_type (Lst xs) = Inr NODE_TYPE_BRANCH"
  using nibs_ok_last [of p]
  by (auto simp: get_node_type_def BLANK_NODE_def node_nibbles_def node_nth_def py_nth_def tflag_def
    NIBBLE_TERMINATOR_def)

lemma node_key_simps [simp]:
  "nibs_ok p \<Longrightarrow> node_key (Lst [Str (hp p b), x]) = Inr p"
  "nibs_ok p \<Longrightarrow> node_nibbles (Lst [Str (hp p b), x]) = Inr (p @ tflag b)"
  by (auto simp: node_key_def node_nibbles_def node_nth_def py_nth_def)

lemma node_nth_simps [simp]:
  "i < length xs \<Longrightarrow> node_nth (Lst xs) i = Inr (xs ! i)"
  "node_set (Lst xs) i x = Lst (xs[i := x])"
  by (simp_all add: node_nth_def py_nth_def node_set_def)

lemma new_leaf_eq [simp]: "nibs_ok k \<Longrightarrow> new_leaf k (Str v) = Inr (nodeof E (PLeaf k v))"
  by (simp add: new_leaf_def)

lemma node_type_nodeof:
  assumes "pwf t"
  shows "get_node_type (nodeof E t) = Inr (case t of
    PBlank \<Rightarrow> NODE_TYPE_BLANK | PLeaf _ _ \<Rightarrow> NODE_TYPE_LEAF | PExt _ _ \<Rightarrow> NODE_TYPE_EXTENSION
  | PBranch _ _ \<Rightarrow> NODE_TYPE_BRANCH)"
  using assms by (cases t) auto

section \<open>The program logic\<close>

text \<open>The store holds something else than the encoding of its node under the hash of a tree of the
  set \<open>S\<close>, the trees that a computation writes.\<close>

fun subtrees :: "ptree \<Rightarrow> ptree set" where
  "subtrees PBlank = {PBlank}"
| "subtrees (PLeaf p v) = {PLeaf p v}"
| "subtrees (PExt p t) = insert (PExt p t) (subtrees t)"
| "subtrees (PBranch ts v) = insert (PBranch ts v) (\<Union>t \<in> set ts. subtrees t)"

lemma subtrees_self [simp]: "t \<in> subtrees t"
  by (cases t) auto

definition clash :: "ext \<Rightarrow> ptree set \<Rightarrow> (string \<rightharpoonup> string) \<Rightarrow> bool" where
  "clash E S m \<longleftrightarrow> (\<exists>t \<in> S. \<exists>w. m (sha3 E (encode_optimized E (nodeof E t))) = Some w \<and>
     w \<noteq> encode_optimized E (nodeof E t))"

definition runs :: "((string \<rightharpoonup> string) \<Rightarrow> bool) \<Rightarrow> ('s \<Rightarrow> string \<rightharpoonup> string) \<Rightarrow> (nat \<Rightarrow> 's \<Rightarrow> bool) \<Rightarrow> nat \<Rightarrow>
    (string \<rightharpoonup> string) \<Rightarrow> ('s, 'a) M \<Rightarrow> ('a \<Rightarrow> (string \<rightharpoonup> string) \<Rightarrow> bool) \<Rightarrow> bool" where
  "runs C view I c m0 prog Q \<longleftrightarrow>
     (\<forall>n s. I (n + c) s \<longrightarrow> m0 \<subseteq>\<^sub>m view s \<longrightarrow>
        (\<exists>r s'. prog s = (r, s') \<and> I n s' \<and> view s \<subseteq>\<^sub>m view s' \<and>
           (case r of Inl e \<Rightarrow> e = AssertionError \<and> C (view s') | Inr x \<Rightarrow> Q x (view s'))))"

abbreviation trie_methods ::
  "ext \<Rightarrow> (string \<Rightarrow> ('s, string) M) \<Rightarrow> (string \<Rightarrow> string \<Rightarrow> ('s, unit) M) \<Rightarrow> 's trie_env" where
  "trie_methods E g p \<equiv> \<lparr>t_ext = E, t_get = g, t_put = p\<rparr>"

lemma blank_branch_eq: "blank_branch = nodeof E (PBranch blanks [])"
proof -
  have "blank_branch = Lst (replicate 16 BLANK_NODE @ [Str []])"
    by (simp add: blank_branch_def BLANK_NODE_def eval_nat_numeral)
  then show ?thesis by simp
qed

lemma node_set_branch:
  "length ts = 16 \<Longrightarrow> i < 16 \<Longrightarrow>
     node_set (nodeof E (PBranch ts v)) i (tref E t) = nodeof E (PBranch (ts[i := t]) v)"
  "length ts = 16 \<Longrightarrow> node_set (nodeof E (PBranch ts v)) 16 (Str w) = nodeof E (PBranch ts w)"
  by (simp_all add: list_update_append map_update)

lemma node_nth_branch:
  "length ts = 16 \<Longrightarrow> i < 16 \<Longrightarrow> node_nth (nodeof E (PBranch ts v)) i = Inr (tref E (ts ! i))"
  "length ts = 16 \<Longrightarrow> node_nth (nodeof E (PBranch ts v)) 16 = Inr (Str v)"
  by (simp_all add: nth_append)

lemma stored_branch_set:
  "stored E m (PBranch ts v) \<Longrightarrow> kept E m t \<Longrightarrow> stored E m (PBranch (ts[i := t]) w)"
  by (auto dest!: in_set_updateD)

lemma stored_blanks [simp]: "stored E m (PBranch blanks v)"
  by simp

context content_store begin

lemma inv_less: "inv (n + c) s \<Longrightarrow> inv n s"
  by (induction c) (auto dest: inv_mono)

lemma runs_bind:
  assumes "runs C view inv c m0 p Q"
    and "\<And>x m1. m0 \<subseteq>\<^sub>m m1 \<Longrightarrow> Q x m1 \<Longrightarrow> runs C view inv d m1 (f x) R"
  shows "runs C view inv (c + d) m0 (bindM p f) R"
  unfolding runs_def
proof (intro allI impI)
  fix n s assume inv: "inv (n + (c + d)) s" and m0: "m0 \<subseteq>\<^sub>m view s"
  from inv have "inv ((n + d) + c) s" by (simp add: ac_simps)
  with assms(1) m0 obtain r s' where r: "p s = (r, s')" "inv (n + d) s'" "view s \<subseteq>\<^sub>m view s'"
      "case r of Inl e \<Rightarrow> e = AssertionError \<and> C (view s') | Inr x \<Rightarrow> Q x (view s')"
    unfolding runs_def by blast
  show "\<exists>r s'. bindM p f s = (r, s') \<and> inv n s' \<and> view s \<subseteq>\<^sub>m view s' \<and>
      (case r of Inl e \<Rightarrow> e = AssertionError \<and> C (view s') | Inr x \<Rightarrow> R x (view s'))"
  proof (cases r)
    case (Inl e)
    with r inv_less [of n d s'] show ?thesis
      by (simp add: bindM_def)
  next
    case (Inr x)
    have "m0 \<subseteq>\<^sub>m view s'" using m0 r(3) by (rule map_le_trans)
    with assms(2) [of "view s'" x] r Inr obtain r' s'' where "f x s' = (r', s'')" "inv n s''"
        "view s' \<subseteq>\<^sub>m view s''"
        "case r' of Inl e \<Rightarrow> e = AssertionError \<and> C (view s'') | Inr x \<Rightarrow> R x (view s'')"
      unfolding runs_def by fastforce
    with r Inr show ?thesis
      by (intro exI [of _ r'] exI [of _ s'']) (auto simp: bindM_def intro: map_le_trans)
  qed
qed

lemma runs_ret: "(\<And>m. m0 \<subseteq>\<^sub>m m \<Longrightarrow> Q x m) \<Longrightarrow> runs C view inv c m0 (ret x) Q"
  by (auto simp: runs_def inv_less)

lemma runs_conseq:
  "runs C view inv c m0 p Q \<Longrightarrow> (\<And>x m. m0 \<subseteq>\<^sub>m m \<Longrightarrow> Q x m \<Longrightarrow> R x m) \<Longrightarrow> c \<le> d \<Longrightarrow>
     runs C view inv d m0 p R"
proof -
  assume p: "runs C view inv c m0 p Q" and QR: "\<And>x m. m0 \<subseteq>\<^sub>m m \<Longrightarrow> Q x m \<Longrightarrow> R x m" and "c \<le> d"
  then obtain k where d: "d = k + c" using le_Suc_ex by (metis add.commute)
  show ?thesis
    unfolding runs_def
  proof (intro allI impI)
    fix n s assume "inv (n + d) s" and m0: "m0 \<subseteq>\<^sub>m view s"
    with d have "inv ((n + k) + c) s" by (simp add: ac_simps)
    with p m0 obtain r s' where r: "p s = (r, s')" "inv (n + k) s'" "view s \<subseteq>\<^sub>m view s'"
        "case r of Inl e \<Rightarrow> e = AssertionError \<and> C (view s') | Inr x \<Rightarrow> Q x (view s')"
      unfolding runs_def by blast
    with m0 QR [of "view s'"] inv_less [of n k s']
    show "\<exists>r s'. p s = (r, s') \<and> inv n s' \<and> view s \<subseteq>\<^sub>m view s' \<and>
        (case r of Inl e \<Rightarrow> e = AssertionError \<and> C (view s') | Inr x \<Rightarrow> R x (view s'))"
      by (auto split: sum.splits intro: map_le_trans)
  qed
qed


lemma runs_seq:
  assumes "runs C view inv c m0 p Q" and "c + d \<le> e"
    and "\<And>x m1. m0 \<subseteq>\<^sub>m m1 \<Longrightarrow> Q x m1 \<Longrightarrow> runs C view inv d m1 (f x) R"
  shows "runs C view inv e m0 (bindM p f) R"
proof -
  have "runs C view inv (c + d) m0 (bindM p f) R"
    using assms(1,3) by (rule runs_bind)
  then show ?thesis by (rule runs_conseq [OF _ _ assms(2)])
qed

lemmas runs_Pair = runs_ret [unfolded ret_def [abs_def]]

lemma runs_liftE: "(\<And>m. m0 \<subseteq>\<^sub>m m \<Longrightarrow> Q x m) \<Longrightarrow> runs C view inv c m0 (liftE (Inr x)) Q"
  by (auto simp: runs_def inv_less)

lemmas runs_value = runs_ret runs_Pair runs_liftE

lemma runs_encode:
  assumes "ext_ok E" "t \<in> S"
  shows "runs (clash E S) view inv 1 m0 (encode_node (trie_methods E get put) (nodeof E t))
    (\<lambda>x m. x = tref E t \<and> held E m (nodeof E t))"
  (is "runs _ _ _ _ _ (_ ?node) _")
proof (cases "?node = BLANK_NODE \<or> length (encode_optimized E ?node) < 32")
  case True
  then show ?thesis
    by (auto simp: encode_node_def ref_of_def held_def Let_def intro!: runs_ret)
next
  case False
  let ?r = "encode_optimized E ?node"
  let ?h = "sha3 E ?r"
  have eq: "encode_node (trie_methods E get put) ?node = bindM (put ?h ?r) (\<lambda>_. ret (Str ?h))"
    using False by (simp add: encode_node_def Let_def)
  have "runs (clash E S) view inv 1 m0 (put ?h ?r) (\<lambda>x m. m ?h = Some ?r)"
    unfolding runs_def
  proof (intro allI impI)
    fix n s assume inv: "inv (n + 1) s"
    obtain s' where s': "inv n s'" "if view s ?h = None \<or> view s ?h = Some ?r
         then put ?h ?r s = (Inr (), s') \<and> view s' = (view s)(?h \<mapsto> ?r)
         else put ?h ?r s = (Inl AssertionError, s') \<and> view s' = view s"
      using put_spec [of n s ?h ?r] inv length_sha3 [OF assms(1)] by auto
    show "\<exists>r s'. put ?h ?r s = (r, s') \<and> inv n s' \<and> view s \<subseteq>\<^sub>m view s' \<and>
        (case r of Inl e \<Rightarrow> e = AssertionError \<and> clash E S (view s') | Inr x \<Rightarrow> view s' ?h = Some ?r)"
    proof (cases "view s ?h = None \<or> view s ?h = Some ?r")
      case True
      with s' show ?thesis by (auto simp: map_le_def dom_def)
    next
      case False
      then have "clash E S (view s)" using assms(2) by (auto simp: clash_def)
      with False s' show ?thesis by auto
    qed
  qed
  then show ?thesis
    unfolding eq
  proof (rule runs_seq [where d = 0])
    fix x m1 assume "m1 ?h = Some ?r"
    with False show "runs (clash E S) view inv 0 m1 (ret (Str ?h)) (\<lambda>x m. x = ref_of E ?node \<and> held E m ?node)"
      by (intro runs_ret) (auto simp: ref_of_def held_def Let_def map_le_def dom_def)
  qed simp
qed

lemma runs_decode:
  assumes E: "ext_ok E" "rlp_ok E" and node: "held E m0 (nodeof E t)" "sized E (nodeof E t)"
  shows "runs C view inv 0 m0 (decode_to_node (trie_methods E get put) (tref E t))
    (\<lambda>x m. x = nodeof E t)"
proof (cases "t = PBlank \<or> length (encode_optimized E (nodeof E t)) < 32")
  case True
  then show ?thesis
    using nodeof_cases [of t E] by (auto simp: decode_to_node_def ref_of_def Let_def intro!: runs_ret)
next
  case False
  let ?r = "encode_optimized E (nodeof E t)"
  have m0: "m0 (sha3 E ?r) = Some ?r"
    using False node by (auto simp: held_def)
  have dec: "rlp_dec E ?r = Inr (nodeof E t)"
    using E node by (simp add: rlp_ok_def)
  have "tref E t \<noteq> BLANK_NODE" using False E by simp
  moreover have "tref E t = Str (sha3 E ?r)"
    using False by (simp add: ref_of_def Let_def)
  ultimately have eq: "decode_to_node (trie_methods E get put) (tref E t) =
      bindM (get (sha3 E ?r)) (\<lambda>v. liftE (rlp_dec E v))"
    by (simp add: decode_to_node_def)
  show ?thesis
    unfolding runs_def eq
  proof (intro allI impI)
    fix n s assume "inv (n + 0) s" and "m0 \<subseteq>\<^sub>m view s"
    with m0 have s: "inv n s" "view s (sha3 E ?r) = Some ?r"
      by (auto simp: map_le_def dom_def)
    with get_spec [OF s(1), of "sha3 E ?r"] length_sha3 [OF E(1)] dec
    show "\<exists>r s'. bindM (get (sha3 E ?r)) (\<lambda>v. liftE (rlp_dec E v)) s = (r, s') \<and> inv n s' \<and>
        view s \<subseteq>\<^sub>m view s' \<and> (case r of Inl e \<Rightarrow> e = AssertionError \<and> C (view s') | Inr x \<Rightarrow> x = nodeof E t)"
      by (auto simp: bindM_def)
  qed
qed

lemma runs_kept: "runs C view inv c m0 p Q \<Longrightarrow> stored E m0 t \<Longrightarrow> runs C view inv c m0 p (\<lambda>x m. Q x m \<and> stored E m t)"
  by (erule runs_conseq) (auto intro: stored_mono)

lemma runs_encode_tree:
  assumes "ext_ok E" "stored E m0 t" "t \<in> S"
  shows "runs (clash E S) view inv 1 m0 (encode_node (trie_methods E get put) (nodeof E t))
    (\<lambda>x m. x = tref E t \<and> kept E m t)"
  using runs_kept [OF runs_encode [OF assms(1,3)] assms(2)] by (rule runs_conseq) auto

lemma runs_child:
  assumes E: "ext_ok E" "rlp_ok E" and t: "kept E m0 t" "pwf t" "small t"
    and nth: "node_nth node i = Inr (tref E t)"
  shows "runs C view inv 0 m0 (child_node (trie_methods E get put) node i)
    (\<lambda>x m. x = nodeof E t \<and> kept E m t)"
proof -
  have "runs C view inv 0 m0 (child_node (trie_methods E get put) node i) (\<lambda>x m. x = nodeof E t)"
    using runs_decode [OF E, of m0 t] sized_nodeof [OF E(1)] t nth by (simp add: child_node_def)
  then show ?thesis
    by (rule runs_conseq) (use t in \<open>auto intro: held_mono stored_mono\<close>)
qed

end

end
