(* ===== verification/TrieMethods.thy ===== *)
theory TrieMethods
  imports TrieRefine
begin

text \<open>
  The methods of the class \<open>Trie\<close> run as \<open>plookup\<close>, \<open>pupd\<close> and \<open>pdel\<close> on the canonical tree that the
  root node represents: the recursive methods first, inside the interface \<open>content_store\<close>, then
  \<open>get\<close>, \<open>update\<close>, \<open>delete\<close> and the root hash of the trie object.
\<close>

text \<open>The branch that a split makes: the old part at \<open>rp\<close>, the new value at \<open>rk\<close>.\<close>

definition padd :: "ptree list \<Rightarrow> nat list \<Rightarrow> string \<Rightarrow> ptree" where
  "padd ts rk v = (if rk = [] then PBranch ts v else PBranch (ts[hd rk := PLeaf (tl rk) v]) [])"

lemma psplit_padd:
  "rp \<noteq> [] \<Longrightarrow> psplit_ext rp t rk v = padd (blanks[hd rp := (if length rp = 1 then t else PExt (tl rp) t)]) rk v"
  "rp \<noteq> [] \<Longrightarrow> psplit_leaf rp w rk v = padd (blanks[hd rp := PLeaf (tl rp) w]) rk v"
  "rk \<noteq> [] \<Longrightarrow> psplit_leaf [] w rk v = PBranch (blanks[hd rk := PLeaf (tl rk) v]) w"
  by (auto simp: psplit_ext_def psplit_leaf_def padd_def Let_def)

lemma subtrees_pwrap: "subtrees t \<subseteq> subtrees (pwrap n p t)"
  by (auto simp: pwrap_def)

lemma set_blanks2:
  "a < 16 \<Longrightarrow> b < 16 \<Longrightarrow> a \<noteq> b \<Longrightarrow> {x, y} \<subseteq> set (blanks[a := x, b := y])"
  using set_update_memI [of a "blanks[b := y]" x] set_update_memI [of b "blanks[a := x]" y]
  by (simp add: list_update_swap)

lemma subtrees_psplit_leaf:
  assumes "nibs_ok rk" "nibs_ok rp" "rk \<noteq> [] \<Longrightarrow> rp \<noteq> [] \<Longrightarrow> hd rk \<noteq> hd rp"
  shows "(rp \<noteq> [] \<longrightarrow> PLeaf (tl rp) w \<in> subtrees (psplit_leaf rp w rk v)) \<and>
    (rk \<noteq> [] \<longrightarrow> PLeaf (tl rk) v \<in> subtrees (psplit_leaf rp w rk v))"
proof (cases "rp = [] \<or> rk = []")
  case True
  then show ?thesis
    using assms(1,2) set_update_memI [of "hd rk" blanks] set_update_memI [of "hd rp" blanks]
    by (cases rp; cases rk) (auto simp: psplit_leaf_def intro!: bexI [of _ "PLeaf _ _"])
next
  case False
  have "hd rp < 16" "hd rk < 16" using assms(1,2) False by (cases rp; cases rk; simp)+
  from set_blanks2 [OF this, of "PLeaf (tl rp) w" "PLeaf (tl rk) v"] assms(3) False
  show ?thesis by (auto simp: psplit_leaf_def intro!: bexI [of _ "PLeaf _ _"])
qed

lemma subtrees_psplit_ext:
  assumes "nibs_ok rk" "nibs_ok rp" "rp \<noteq> []" "rk \<noteq> [] \<Longrightarrow> rp \<noteq> [] \<Longrightarrow> hd rk \<noteq> hd rp"
  shows "(if length rp = 1 then t else PExt (tl rp) t) \<in> subtrees (psplit_ext rp t rk v) \<and>
    (rk \<noteq> [] \<longrightarrow> PLeaf (tl rk) v \<in> subtrees (psplit_ext rp t rk v))"
proof -
  define sub where "sub = (if length rp = 1 then t else PExt (tl rp) t)"
  have eq: "psplit_ext rp t rk v = (if rk = [] then PBranch (blanks[hd rp := sub]) v
      else PBranch (blanks[hd rp := sub, hd rk := PLeaf (tl rk) v]) [])"
    by (simp add: psplit_ext_def sub_def)
  have rp: "hd rp < 16" using assms(2,3) by (cases rp) auto
  have "sub \<in> subtrees (psplit_ext rp t rk v) \<and>
    (rk \<noteq> [] \<longrightarrow> PLeaf (tl rk) v \<in> subtrees (psplit_ext rp t rk v))"
  proof (cases "rk = []")
    case True
    have "sub \<in> set (blanks[hd rp := sub])" using rp by (intro set_update_memI) simp
    then have "sub \<in> (\<Union>u \<in> set (blanks[hd rp := sub]). subtrees u)"
      using subtrees_self by blast
    then show ?thesis using True eq by simp
  next
    case False
    then have rk: "hd rk < 16" using assms(1) by (cases rk) auto
    have "hd rp \<noteq> hd rk" using assms(3,4) False by auto
    from set_blanks2 [OF rp rk this, of sub "PLeaf (tl rk) v"]
    have "sub \<in> set (blanks[hd rp := sub, hd rk := PLeaf (tl rk) v])"
      "PLeaf (tl rk) v \<in> set (blanks[hd rp := sub, hd rk := PLeaf (tl rk) v])"
      by simp_all
    then have "sub \<in> (\<Union>u \<in> set (blanks[hd rp := sub, hd rk := PLeaf (tl rk) v]). subtrees u)"
      "PLeaf (tl rk) v \<in> (\<Union>u \<in> set (blanks[hd rp := sub, hd rk := PLeaf (tl rk) v]). subtrees u)"
      using UN_I [of sub _ sub subtrees] UN_I [of "PLeaf (tl rk) v" _ "PLeaf (tl rk) v" subtrees]
        subtrees_self by blast+
    then show ?thesis using False by (simp add: eq)
  qed
  then show ?thesis unfolding sub_def .
qed

text \<open>The entries of a branch node that are not blank, the value slot last.\<close>

lemma filter_truthy:
  assumes "ext_ok E" "length ts = 16"
  shows "filter (\<lambda>i. truthy ((map (tref E) ts @ [Str v]) ! i)) [0..<17] =
    nonblank ts @ (if v = [] then [] else [16])"
proof -
  have "[0..<17] = [0..<16] @ [16::nat]" by (simp add: upt_rec)
  moreover have "filter (\<lambda>i. truthy ((map (tref E) ts @ [Str v]) ! i)) [0..<16] = nonblank ts"
    unfolding nonblank_def using assms by (intro filter_cong) (auto simp: nth_append)
  moreover have "truthy ((map (tref E) ts @ [Str v]) ! 16) = (v \<noteq> [])"
    using assms by (simp add: nth_append truthy_def)
  ultimately show ?thesis by simp
qed

text \<open>In one store, equal references are references of equal nodes.\<close>

lemma tref_eqD:
  assumes E: "ext_ok E" "rlp_ok E" and eq: "tref E t = tref E u"
    and t: "held E m (nodeof E t)" "sized E (nodeof E t)"
    and u: "held E m (nodeof E u)" "sized E (nodeof E u)"
  shows "nodeof E t = nodeof E u"
proof -
  have str: "tref E x = Str (sha3 E (encode_optimized E (nodeof E x)))"
    if "x \<noteq> PBlank" "\<not> length (encode_optimized E (nodeof E x)) < 32" for x
    using that by (simp add: ref_of_def Let_def)
  have node: "tref E x = nodeof E x"
    if "x = PBlank \<or> length (encode_optimized E (nodeof E x)) < 32" for x
    using that by (auto simp: ref_of_def Let_def)
  have no: "nodeof E x \<noteq> Str (sha3 E y)" for x y
    using nodeof_cases [of x E] sha3_not_Nil [OF E(1), of y] by (auto simp: BLANK_NODE_def)
  show ?thesis
  proof (cases "(t = PBlank \<or> length (encode_optimized E (nodeof E t)) < 32) \<or>
      (u = PBlank \<or> length (encode_optimized E (nodeof E u)) < 32)")
    case True
    with eq str [of t] str [of u] node [of t] node [of u] no [of t] no [of u] show ?thesis by metis
  next
    case False
    with eq str [of t] str [of u] have "sha3 E (encode_optimized E (nodeof E t)) =
        sha3 E (encode_optimized E (nodeof E u))" by simp
    with False t(1) u(1) have "encode_optimized E (nodeof E t) = encode_optimized E (nodeof E u)"
      by (auto simp: held_def)
    then have "rlp_dec E (encode_optimized E (nodeof E t)) = rlp_dec E (encode_optimized E (nodeof E u))"
      by simp
    with E(2) t(2) u(2) show ?thesis by (simp add: rlp_ok_def)
  qed
qed

text \<open>The trees that a deletion writes: subtrees of the old tree, and what is left of a subtree once
  the rest of the key is deleted from it.\<close>

definition delete_trees :: "ptree \<Rightarrow> nat list \<Rightarrow> ptree set" where
  "delete_trees t k = subtrees t \<union> (\<Union>u \<in> subtrees t. \<Union>n. {pdel u (drop n k)})"

lemma delete_trees_self: "pdel t k \<in> delete_trees t k"
  by (auto simp: delete_trees_def intro!: bexI [of _ t] exI [of _ 0])

lemma delete_trees_mono:
  assumes "subtrees t \<subseteq> subtrees t'" "\<And>n. \<exists>n'. drop n k = drop n' k'"
  shows "delete_trees t k \<subseteq> delete_trees t' k'"
proof
  fix x assume "x \<in> delete_trees t k"
  then consider "x \<in> subtrees t" | u n where "u \<in> subtrees t" "x = pdel u (drop n k)"
    by (auto simp: delete_trees_def)
  then show "x \<in> delete_trees t' k'"
  proof cases
    case 2
    obtain n' where "drop n k = drop n' k'" using assms(2) by blast
    with 2 assms(1) show ?thesis by (auto simp: delete_trees_def)
  qed (use assms(1) in \<open>auto simp: delete_trees_def\<close>)
qed

lemma delete_trees_child:
  "delete_trees t r \<subseteq> delete_trees (PExt p t) (p @ r)"
  "i < length ts \<Longrightarrow> delete_trees (ts ! i) r \<subseteq> delete_trees (PBranch ts v) (i # r)"
proof -
  have "\<exists>n'. drop n r = drop n' (p @ r)" for n by (rule exI [of _ "n + length p"]) simp
  then show "delete_trees t r \<subseteq> delete_trees (PExt p t) (p @ r)"
    by (intro delete_trees_mono) auto
  have "\<exists>n'. drop n r = drop n' (i # r)" for n by (rule exI [of _ "Suc n"]) simp
  then show "i < length ts \<Longrightarrow> delete_trees (ts ! i) r \<subseteq> delete_trees (PBranch ts v) (i # r)"
    using nth_mem [of i ts] by (intro delete_trees_mono) auto
qed

context content_store begin

section \<open>Lookup\<close>

lemma runs_trie_get:
  assumes E: "ext_ok E" "rlp_ok E"
  shows "pcanon t \<Longrightarrow> small t \<Longrightarrow> stored E m0 t \<Longrightarrow> nibs_ok k \<Longrightarrow> length k < f \<Longrightarrow>
    runs C view inv 0 m0 (trie_get f (trie_methods E get put) (nodeof E t) k)
      (\<lambda>x m. x = Str (plookup t k))"
proof (induction f arbitrary: t k m0)
  case 0
  then show ?case by simp
next
  case (Suc f)
  show ?case
  proof (cases t)
    case PBlank
    then show ?thesis by (auto simp: BLANK_NODE_def intro!: runs_value simp del: get_node_type_simps
      simp: get_node_type_def)
  next
    case (PLeaf p v)
    with Suc.prems show ?thesis
      by (auto simp: BLANK_NODE_def intro!: runs_value)
  next
    case (PExt p u)
    let ?rest = "\<lambda>sub_node. trie_get f (trie_methods E get put) sub_node (drop (length p) k)"
    from PExt Suc.prems have u: "kept E m0 u" "pcanon u" "small u" "nibs_ok p" "p \<noteq> []" by auto
    have run: "trie_get (Suc f) (trie_methods E get put) (nodeof E t) k =
        (if starts_with k p then bindM (child_node (trie_methods E get put) (nodeof E t) 1) ?rest
         else ret BLANK_NODE)"
      by (rule ext) (use PExt u in simp)
    show ?thesis
    proof (cases "starts_with k p")
      case True
      have "length (drop (length p) k) < f"
        using Suc.prems u True by (cases p) (auto simp: starts_with_iff)
      with Suc.IH [of u _ "drop (length p) k"] Suc.prems u
      have IH: "stored E m u \<Longrightarrow> runs C view inv 0 m (?rest (nodeof E u))
          (\<lambda>x m. x = Str (plookup u (drop (length p) k)))" for m
        by simp
      have "runs C view inv 0 m0 (child_node (trie_methods E get put) (nodeof E t) 1)
          (\<lambda>x m. x = nodeof E u \<and> kept E m u)"
        using PExt u pcanon_pwf [of u] by (intro runs_child [OF E]) auto
      then show ?thesis
        unfolding run using True PExt IH by (auto intro: runs_seq [where d = 0])
    next
      case False
      then show ?thesis
        unfolding run using PExt by (auto simp: BLANK_NODE_def intro!: runs_value)
    qed
  next
    case (PBranch ts v)
    then have n: "length ts = 16" using Suc.prems by simp
    show ?thesis
    proof (cases k)
      case Nil
      with PBranch n show ?thesis by (auto simp: node_nth_branch nth_append intro!: runs_value)
    next
      case (Cons i r)
      with n PBranch Suc.prems have c: "kept E m0 (ts ! i)" "pcanon (ts ! i)" "small (ts ! i)" "i < 16" "nibs_ok r"
          "length r < f"
        by auto
      have "runs C view inv 0 m0 (child_node (trie_methods E get put) (nodeof E t) i)
          (\<lambda>x m. x = nodeof E (ts ! i) \<and> kept E m (ts ! i))"
        using PBranch c n pcanon_pwf [of "ts ! i"] by (intro runs_child [OF E]) (auto simp: nth_append)
      moreover have "trie_get (Suc f) (trie_methods E get put) (nodeof E t) k =
          bindM (child_node (trie_methods E get put) (nodeof E t) i)
            (\<lambda>sub_node. trie_get f (trie_methods E get put) sub_node r)"
        using PBranch Cons n by simp
      ultimately show ?thesis
        using PBranch Cons c n Suc.IH [of "ts ! i" _ r] by (auto intro: runs_seq [where d = 0])
    qed
  qed
qed

section \<open>Update\<close>

lemma runs_new_child:
  assumes "ext_ok E" and "length ts = 16" "stored E m0 (PBranch ts w)" "i < 16" "stored E m0 t" "t \<in> S"
  shows "runs (clash E S) view inv 1 m0
    (bindM (encode_node (trie_methods E get put) (nodeof E t))
      (\<lambda>e. ret (node_set (nodeof E (PBranch ts w)) i e)))
    (\<lambda>x m. x = nodeof E (PBranch (ts[i := t]) w) \<and> stored E m (PBranch (ts[i := t]) w))"
proof (rule runs_seq [OF runs_encode_tree, where d = 0])
  fix x m1 assume m1: "m0 \<subseteq>\<^sub>m m1" and x: "x = tref E t \<and> kept E m1 t"
  have "stored E m1 (PBranch (ts[i := t]) w)"
    using stored_mono [OF assms(3) m1] x by (intro stored_branch_set) auto
  then show "runs (clash E S) view inv 0 m1 (ret (node_set (nodeof E (PBranch ts w)) i x))
      (\<lambda>x m. x = nodeof E (PBranch (ts[i := t]) w) \<and> stored E m (PBranch (ts[i := t]) w))"
    using assms(2,4) x node_set_branch(1) [of ts i E w t]
    by (intro runs_ret) (auto intro: stored_mono simp del: nodeof.simps stored.simps)
qed (use assms in auto)

lemma runs_padd:
  assumes "ext_ok E" and "length ts = 16" "stored E m0 (PBranch ts [])" "nibs_ok rk"
    and "rk \<noteq> [] \<Longrightarrow> PLeaf (tl rk) v \<in> S"
  shows "runs (clash E S) view inv 1 m0
    (if rk = [] then ret (node_set (nodeof E (PBranch ts [])) 16 (Str v))
     else bindM (liftE (new_leaf (tl rk) (Str v))) (\<lambda>leaf.
          bindM (encode_node (trie_methods E get put) leaf) (\<lambda>e.
          ret (node_set (nodeof E (PBranch ts [])) (hd rk) e))))
    (\<lambda>x m. x = nodeof E (padd ts rk v) \<and> stored E m (padd ts rk v))"
proof (cases rk)
  case Nil
  then show ?thesis
    using assms node_set_branch(2) [of ts E "[]" v] stored_mono [OF assms(3)]
    by (auto simp: padd_def intro!: runs_value simp del: nodeof.simps)
next
  case (Cons i r)
  with assms runs_new_child [OF assms(1-3), of i "PLeaf r v" S] show ?thesis
    by (simp add: padd_def new_leaf_eq [of _ _ E] del: nodeof.simps)
qed

lemma runs_split:
  assumes "ext_ok E" and "stored E m0 u" "nibs_ok rk" "nibs_ok rp" "rp \<noteq> []"
    and node1: "if is_inner then node1 = tref E u \<and> kept E m0 u \<and> sub = (if length rp = 1 then u else PExt (tl rp) u)
      else node1 = Str w \<and> sub = PLeaf (tl rp) w"
    and S: "sub \<in> S" "rk \<noteq> [] \<Longrightarrow> PLeaf (tl rk) v \<in> S"
  shows "runs (clash E S) view inv 2 m0 (split_kv_node (trie_methods E get put) is_inner rp node1 rk v)
    (\<lambda>x m. x = nodeof E (padd (blanks[hd rp := sub]) rk v) \<and> stored E m (padd (blanks[hd rp := sub]) rk v))"
proof -
  obtain i r where rp: "rp = i # r" "i < 16" "nibs_ok r"
    using assms by (cases rp) auto
  have "runs (clash E S) view inv 1 m0
     (if length rp = 1 \<and> is_inner
            then ret (node_set blank_branch (hd rp) node1)
            else bindM (liftE (pack_nibbles (adapt_terminator (tl rp) (\<not> is_inner)))) (\<lambda>p.
                 bindM (encode_node (trie_methods E get put) (Lst [Str p, node1])) (\<lambda>e.
                 ret (node_set blank_branch (hd rp) e))))
     (\<lambda>x m. x = nodeof E (PBranch (blanks[i := sub]) []) \<and> stored E m (PBranch (blanks[i := sub]) []))"
  proof (cases "length rp = 1 \<and> is_inner")
    case True
    with node1 rp have u: "node1 = tref E u" "kept E m0 u" "sub = u" by auto
    have "stored E m (PBranch (blanks[i := u]) [])" if "m0 \<subseteq>\<^sub>m m" for m
      using u that by (intro stored_branch_set) (auto intro: held_mono stored_mono)
    with True rp u node_set_branch(1) [of blanks i E "[]" u] show ?thesis
      by (auto simp: blank_branch_eq [of E] intro!: runs_value simp del: nodeof.simps stored.simps)
  next
    case False
    have sub: "Lst [Str (hp r (\<not> is_inner)), node1] = nodeof E sub" "stored E m0 sub"
      using False node1 rp by (auto split: if_splits)
    have "pack_nibbles (adapt_terminator (tl rp) (\<not> is_inner)) = Inr (hp r (\<not> is_inner))"
      using rp by simp
    with False sub rp S(1) runs_new_child [OF assms(1) _ stored_blanks, of i m0 sub S "[]"] show ?thesis
      by (auto simp: blank_branch_eq [of E] simp del: nodeof.simps stored.simps)
  qed
  then show ?thesis
    unfolding split_kv_node_def
  proof (rule runs_seq [where d = 1])
    fix x m1 assume x: "x = nodeof E (PBranch (blanks[i := sub]) []) \<and> stored E m1 (PBranch (blanks[i := sub]) [])"
    have i: "hd rp = i" using rp by simp
    show "runs (clash E S) view inv 1 m1
       (if rk = [] then ret (node_set x 16 (Str v))
        else bindM (liftE (new_leaf (tl rk) (Str v))) (\<lambda>leaf.
             bindM (encode_node (trie_methods E get put) leaf) (\<lambda>e. ret (node_set x (hd rk) e))))
       (\<lambda>x m. x = nodeof E (padd (blanks[hd rp := sub]) rk v) \<and> stored E m (padd (blanks[hd rp := sub]) rk v))"
      unfolding i conjunct1 [OF x]
      by (rule runs_padd) (use assms x S in auto)
  qed simp
qed

text \<open>Putting the common prefix back over the new node.\<close>

lemma runs_wrap:
  assumes "ext_ok E" "stored E m0 t" "nibs_ok p" "n \<le> length p" "n \<noteq> 0 \<Longrightarrow> t \<in> S"
  shows "runs (clash E S) view inv 1 m0
    (if n \<noteq> 0
     then bindM (liftE (pack_nibbles (take n p))) (\<lambda>p.
          bindM (encode_node (trie_methods E get put) (nodeof E t)) (\<lambda>e.
          ret (Lst [Str p, e])))
     else ret (nodeof E t))
    (\<lambda>x m. x = nodeof E (pwrap n p t) \<and> stored E m (pwrap n p t))"
proof (cases "n = 0")
  case True
  with assms show ?thesis by (auto simp: pwrap_def intro!: runs_value intro: stored_mono)
next
  case False
  have "runs (clash E S) view inv 1 m0
     (bindM (encode_node (trie_methods E get put) (nodeof E t)) (\<lambda>e. ret (Lst [Str (hp (take n p) False), e])))
     (\<lambda>x m. x = nodeof E (PExt (take n p) t) \<and> stored E m (PExt (take n p) t))"
    by (rule runs_seq [OF runs_encode_tree [OF assms(1,2)], where d = 0])
      (use assms(5) False in \<open>auto intro!: runs_value intro: held_mono stored_mono\<close>)
  with False assms show ?thesis by (simp add: pwrap_def)
qed


lemma update_kv_node_eq:
  assumes "nibs_ok p" "k = c @ rk" "p = c @ rp" "common_prefix_length k p = length c"
  shows "update_kv_node T upd (Lst [Str (hp p (\<not> is_inner)), x]) k v =
    (if rk = [] \<and> rp = [] \<and> \<not> is_inner then ret (Lst [Str (hp p (\<not> is_inner)), Str v])
     else bindM
       (if rp = []
        then if is_inner then bindM (decode_to_node T x) (\<lambda>sub_node. upd sub_node rk v)
             else bindM (liftE (new_leaf (tl rk) (Str v))) (\<lambda>leaf.
                  bindM (encode_node T leaf) (\<lambda>e.
                  ret (node_set (node_set blank_branch 16 x) (hd rk) e)))
        else split_kv_node T is_inner rp x rk v) (\<lambda>new_node.
       if length c \<noteq> 0
       then bindM (liftE (pack_nibbles (take (length c) p))) (\<lambda>p.
            bindM (encode_node T new_node) (\<lambda>e. ret (Lst [Str p, e])))
       else ret new_node))"
proof -
  have ty: "get_node_type (Lst [Str (hp p (\<not> is_inner)), x]) =
      Inr (if is_inner then NODE_TYPE_EXTENSION else NODE_TYPE_LEAF)"
    using assms(1) by simp
  have "drop (length c) k = rk" "drop (length c) p = rp"
    using assms by simp_all
  moreover have "((if is_inner then NODE_TYPE_EXTENSION else NODE_TYPE_LEAF) = NODE_TYPE_EXTENSION) = is_inner"
    by simp
  moreover have "node_nth (Lst [Str (hp p (\<not> is_inner)), x]) 0 = Inr (Str (hp p (\<not> is_inner)))"
    "node_nth (Lst [Str (hp p (\<not> is_inner)), x]) 1 = Inr x" by simp_all
  ultimately show ?thesis
    unfolding update_kv_node_def
    by (simp only: ty bindM_liftE_Inr node_key_simps(1) [OF assms(1)] Let_def assms(4))
qed

lemmas update_ext_eq = update_kv_node_eq [where is_inner = True, unfolded simp_thms not_True_eq_False if_True if_False]
lemmas update_leaf_eq = update_kv_node_eq [where is_inner = False, unfolded simp_thms not_False_eq_True if_True if_False]

lemma runs_update_leaf:
  assumes E: "ext_ok E" and ok: "nibs_ok p" "nibs_ok k" and S: "subtrees (pupd (PLeaf p w) k v) \<subseteq> S"
  shows "runs (clash E S) view inv 3 m0 (update_kv_node (trie_methods E get put) upd (nodeof E (PLeaf p w)) k v)
    (\<lambda>x m. x = nodeof E (pupd (PLeaf p w) k v) \<and> stored E m (pupd (PLeaf p w) k v))"
proof (rule common_prefix_cases [of k p])
  fix c rk rp
  assume c: "k = c @ rk" "p = c @ rp" "common_prefix_length k p = length c"
    "drop (common_prefix_length k p) k = rk" "drop (common_prefix_length k p) p = rp"
    and heads: "\<And>x xs y ys. rk = x # xs \<Longrightarrow> rp = y # ys \<Longrightarrow> x \<noteq> y"
  have differ: "rk \<noteq> [] \<Longrightarrow> rp \<noteq> [] \<Longrightarrow> hd rk \<noteq> hd rp"
    using heads [of "hd rk" "tl rk" "hd rp" "tl rp"] by simp
  note eq = update_leaf_eq [OF ok(1) c(1,2,3)]
  have ok': "nibs_ok c" "nibs_ok rk" "nibs_ok rp" using ok c by auto
  show ?thesis
  proof (cases "rk = [] \<and> rp = []")
    case True
    with c eq [of "trie_methods E get put" upd "Str w" v] show ?thesis
      by (auto simp: Let_def intro!: runs_value)
  next
    case False
    let ?u = "psplit_leaf rp w rk v"
    have pupd: "pupd (PLeaf p w) k v = pwrap (length c) p ?u"
      using False c by (auto simp: Let_def)
    have S': "subtrees ?u \<subseteq> S"
      using S subtrees_pwrap [of ?u "length c" p] unfolding pupd by blast
    have leaves: "rp \<noteq> [] \<Longrightarrow> PLeaf (tl rp) w \<in> S" "rk \<noteq> [] \<Longrightarrow> PLeaf (tl rk) v \<in> S"
      using S' subtrees_psplit_leaf [OF ok'(2,3) differ] by blast+
    have "runs (clash E S) view inv 2 m0
       (if rp = []
        then bindM (liftE (new_leaf (tl rk) (Str v))) (\<lambda>leaf.
             bindM (encode_node (trie_methods E get put) leaf) (\<lambda>e.
             ret (node_set (node_set blank_branch 16 (Str w)) (hd rk) e)))
        else split_kv_node (trie_methods E get put) False rp (Str w) rk v)
       (\<lambda>x m. x = nodeof E ?u \<and> stored E m ?u)"
    proof (cases "rp = []")
      case True
      with False obtain i r where r: "rk = i # r" by (cases rk) auto
      have "runs (clash E S) view inv 1 m0
         (bindM (encode_node (trie_methods E get put) (nodeof E (PLeaf r v)))
            (\<lambda>e. ret (node_set (nodeof E (PBranch blanks w)) i e)))
         (\<lambda>x m. x = nodeof E ?u \<and> stored E m ?u)"
        using runs_new_child [OF E _ stored_blanks, of i m0 "PLeaf r v" S w] ok' r True leaves
        by (simp add: psplit_padd(3) del: nodeof.simps)
      then have "runs (clash E S) view inv 2 m0
         (bindM (encode_node (trie_methods E get put) (nodeof E (PLeaf r v)))
            (\<lambda>e. ret (node_set (nodeof E (PBranch blanks w)) i e)))
         (\<lambda>x m. x = nodeof E ?u \<and> stored E m ?u)"
        by (rule runs_conseq) auto
      with True r ok' show ?thesis
        by (simp add: blank_branch_eq [of E] node_set_branch(2) new_leaf_eq [of _ _ E] del: nodeof.simps stored.simps)
    next
      case F: False
      with runs_split [OF E, of m0 PBlank rk rp False "Str w" "PLeaf (tl rp) w" w S v] ok' leaves
      show ?thesis by (simp add: psplit_padd(2) del: nodeof.simps stored.simps(3,4))
    qed
    then have "runs (clash E S) view inv 3 m0 (bindM
       (if rp = []
        then bindM (liftE (new_leaf (tl rk) (Str v))) (\<lambda>leaf.
             bindM (encode_node (trie_methods E get put) leaf) (\<lambda>e.
             ret (node_set (node_set blank_branch 16 (Str w)) (hd rk) e)))
        else split_kv_node (trie_methods E get put) False rp (Str w) rk v) (\<lambda>new_node.
       if length c \<noteq> 0
       then bindM (liftE (pack_nibbles (take (length c) p))) (\<lambda>p.
            bindM (encode_node (trie_methods E get put) new_node) (\<lambda>e. ret (Lst [Str p, e])))
       else ret new_node))
       (\<lambda>x m. x = nodeof E (pwrap (length c) p ?u) \<and> stored E m (pwrap (length c) p ?u))"
    proof (rule runs_seq [where d = 1])
      fix x m1 assume x: "x = nodeof E ?u \<and> stored E m1 ?u"
      show "runs (clash E S) view inv 1 m1 (if length c \<noteq> 0
          then bindM (liftE (pack_nibbles (take (length c) p))) (\<lambda>p.
               bindM (encode_node (trie_methods E get put) x) (\<lambda>e. ret (Lst [Str p, e])))
          else ret x)
          (\<lambda>x m. x = nodeof E (pwrap (length c) p ?u) \<and> stored E m (pwrap (length c) p ?u))"
        unfolding conjunct1 [OF x] by (rule runs_wrap) (use E x ok c S' in auto)
    qed simp
    with False show ?thesis
      unfolding pupd nodeof.simps(2) eq by (simp only: if_False)
  qed
qed


lemma runs_update_ext:
  assumes E: "ext_ok E" "rlp_ok E" and ok: "nibs_ok p" "nibs_ok k" "p \<noteq> []"
    and u: "kept E m0 u" "pwf u" "small u"
    and S: "subtrees (pupd (PExt p u) k v) \<subseteq> S"
    and upd: "\<And>r m. k = p @ r \<Longrightarrow> stored E m u \<Longrightarrow> runs (clash E S) view inv c0 m (upd (nodeof E u) r v)
      (\<lambda>x m. x = nodeof E (pupd u r v) \<and> stored E m (pupd u r v))"
  shows "runs (clash E S) view inv (3 + c0) m0 (update_kv_node (trie_methods E get put) upd (nodeof E (PExt p u)) k v)
    (\<lambda>x m. x = nodeof E (pupd (PExt p u) k v) \<and> stored E m (pupd (PExt p u) k v))"
proof (rule common_prefix_cases [of k p])
  fix c rk rp
  assume c: "k = c @ rk" "p = c @ rp" "common_prefix_length k p = length c"
    "drop (common_prefix_length k p) k = rk" "drop (common_prefix_length k p) p = rp"
    and heads: "\<And>x xs y ys. rk = x # xs \<Longrightarrow> rp = y # ys \<Longrightarrow> x \<noteq> y"
  have differ: "rk \<noteq> [] \<Longrightarrow> rp \<noteq> [] \<Longrightarrow> hd rk \<noteq> hd rp"
    using heads [of "hd rk" "tl rk" "hd rp" "tl rp"] by simp
  note eq = update_ext_eq [OF ok(1) c(1,2,3)]
  have ok': "nibs_ok c" "nibs_ok rk" "nibs_ok rp" using ok c by auto
  define u' where "u' = (if rp = [] then pupd u rk v else psplit_ext rp u rk v)"
  have pupd: "pupd (PExt p u) k v = pwrap (length c) p u'"
    using c by (simp add: Let_def u'_def)
  have S': "subtrees u' \<subseteq> S"
    using S subtrees_pwrap [of u' "length c" p] unfolding pupd by blast
  have "runs (clash E S) view inv (2 + c0) m0
     (if rp = [] then bindM (decode_to_node (trie_methods E get put) (tref E u)) (\<lambda>sub_node. upd sub_node rk v)
      else split_kv_node (trie_methods E get put) True rp (tref E u) rk v)
     (\<lambda>x m. x = nodeof E u' \<and> stored E m u')"
  proof (cases "rp = []")
    case True
    have "runs (clash E S) view inv (2 + c0) m0
       (bindM (decode_to_node (trie_methods E get put) (tref E u)) (\<lambda>sub_node. upd sub_node rk v))
       (\<lambda>x m. x = nodeof E u' \<and> stored E m u')"
    proof (rule runs_seq [OF runs_decode [OF E], where d = c0])
      show "held E m0 (nodeof E u)" "sized E (nodeof E u)"
        using u sized_nodeof [OF E(1)] by auto
      fix x m1 assume "m0 \<subseteq>\<^sub>m m1" "x = nodeof E u"
      with upd [of rk m1] u c True show "runs (clash E S) view inv c0 m1 (upd x rk v) (\<lambda>x m. x = nodeof E u' \<and> stored E m u')"
        by (auto simp: u'_def intro: stored_mono)
    qed simp
    with True show ?thesis by simp
  next
    case False
    then have subs: "(if length rp = 1 then u else PExt (tl rp) u) \<in> S" "rk \<noteq> [] \<Longrightarrow> PLeaf (tl rk) v \<in> S"
      using S' subtrees_psplit_ext [OF ok'(2,3) False differ] by (auto simp: u'_def)
    from False runs_split [OF E(1), of m0 u rk rp True "tref E u" _ undefined S v] u ok' subs
    have "runs (clash E S) view inv 2 m0 (split_kv_node (trie_methods E get put) True rp (tref E u) rk v)
       (\<lambda>x m. x = nodeof E u' \<and> stored E m u')"
      by (simp add: psplit_padd(1) u'_def del: nodeof.simps stored.simps)
    with False show ?thesis by (auto intro: runs_conseq)
  qed
  then have "runs (clash E S) view inv (3 + c0) m0 (bindM
     (if rp = [] then bindM (decode_to_node (trie_methods E get put) (tref E u)) (\<lambda>sub_node. upd sub_node rk v)
      else split_kv_node (trie_methods E get put) True rp (tref E u) rk v) (\<lambda>new_node.
     if length c \<noteq> 0
     then bindM (liftE (pack_nibbles (take (length c) p))) (\<lambda>p.
          bindM (encode_node (trie_methods E get put) new_node) (\<lambda>e. ret (Lst [Str p, e])))
     else ret new_node))
     (\<lambda>x m. x = nodeof E (pwrap (length c) p u') \<and> stored E m (pwrap (length c) p u'))"
  proof (rule runs_seq [where d = 1])
    fix x m1 assume x: "x = nodeof E u' \<and> stored E m1 u'"
    show "runs (clash E S) view inv 1 m1 (if length c \<noteq> 0
        then bindM (liftE (pack_nibbles (take (length c) p))) (\<lambda>p.
             bindM (encode_node (trie_methods E get put) x) (\<lambda>e. ret (Lst [Str p, e])))
        else ret x)
        (\<lambda>x m. x = nodeof E (pwrap (length c) p u') \<and> stored E m (pwrap (length c) p u'))"
      unfolding conjunct1 [OF x] by (rule runs_wrap) (use E x ok c S' in auto)
  qed simp
  then show ?thesis
    unfolding pupd nodeof.simps(3) eq .
qed

lemma runs_trie_update:
  assumes E: "ext_ok E" "rlp_ok E"
  shows "pcanon t \<Longrightarrow> small t \<Longrightarrow> stored E m0 t \<Longrightarrow> nibs_ok k \<Longrightarrow> length k < f \<Longrightarrow>
    subtrees (pupd t k v) \<subseteq> S \<Longrightarrow>
    runs (clash E S) view inv (3 * f) m0 (trie_update f (trie_methods E get put) (nodeof E t) k v)
      (\<lambda>x m. x = nodeof E (pupd t k v) \<and> stored E m (pupd t k v))"
proof (induction f arbitrary: t k m0)
  case 0
  then show ?case by simp
next
  case (Suc f)
  show ?case
  proof (cases t)
    case PBlank
    with Suc.prems show ?thesis by (auto simp: new_leaf_eq [of _ _ E] intro!: runs_value)
  next
    case (PLeaf p w)
    with Suc.prems have ok: "nibs_ok p" by auto
    have eq: "trie_update (Suc f) (trie_methods E get put) (nodeof E t) k v =
        update_kv_node (trie_methods E get put) (trie_update f (trie_methods E get put)) (nodeof E (PLeaf p w)) k v"
      using PLeaf ok by simp
    show ?thesis
      unfolding eq unfolding PLeaf by (rule runs_conseq [OF runs_update_leaf [OF E(1) ok Suc.prems(4) Suc.prems(6) [unfolded PLeaf]]]) auto
  next
    case (PExt p u)
    with Suc.prems have u: "nibs_ok p" "p \<noteq> []" "kept E m0 u" "pcanon u" "small u" by auto
    have eq: "trie_update (Suc f) (trie_methods E get put) (nodeof E t) k v =
        update_kv_node (trie_methods E get put) (trie_update f (trie_methods E get put)) (nodeof E (PExt p u)) k v"
      using PExt u by simp
    have step: "runs (clash E S) view inv (3 + 3 * f) m0
      (update_kv_node (trie_methods E get put) (trie_update f (trie_methods E get put)) (nodeof E (PExt p u)) k v)
      (\<lambda>x m. x = nodeof E (pupd (PExt p u) k v) \<and> stored E m (pupd (PExt p u) k v))"
    proof (rule runs_update_ext [OF E u(1) Suc.prems(4) u(2,3) pcanon_pwf [OF u(4)] u(5) Suc.prems(6) [unfolded PExt]])
      fix r m assume "k = p @ r" "stored E m u"
      moreover have "length r < f"
        using Suc.prems(5) \<open>k = p @ r\<close> u(2) by (cases p) auto
      moreover have "subtrees (pupd u r v) \<subseteq> S"
      proof -
        have "common_prefix_length (p @ r) p = length p" by (induction p) auto
        then show ?thesis
          using Suc.prems(6) \<open>k = p @ r\<close> subtrees_pwrap [of "pupd u r v" "length p" p] PExt by (simp add: Let_def)
      qed
      ultimately show "runs (clash E S) view inv (3 * f) m (trie_update f (trie_methods E get put) (nodeof E u) r v)
          (\<lambda>x m. x = nodeof E (pupd u r v) \<and> stored E m (pupd u r v))"
        using Suc.IH [of u m r] Suc.prems(4) u by simp
    qed
    show ?thesis unfolding eq unfolding PExt by (rule runs_conseq [OF step]) auto
  next
    case (PBranch ts w)
    then have n: "length ts = 16" using Suc.prems by simp
    show ?thesis
    proof (cases k)
      case Nil
      with PBranch n Suc.prems show ?thesis
        by (auto simp: list_update_append intro!: runs_value intro: held_mono stored_mono)
    next
      case (Cons i r)
      with n PBranch Suc.prems have c: "kept E m0 (ts ! i)" "pcanon (ts ! i)" "small (ts ! i)" "i < 16" "nibs_ok r"
          "length r < f"
        by auto
      have S: "subtrees (pupd (ts ! i) r v) \<subseteq> S"
        using Suc.prems(6) PBranch Cons c(4) n set_update_memI [of i ts] by fastforce
      have eq: "trie_update (Suc f) (trie_methods E get put) (nodeof E t) k v =
          bindM (child_node (trie_methods E get put) (nodeof E t) i) (\<lambda>sub_node.
          bindM (trie_update f (trie_methods E get put) sub_node r v) (\<lambda>new_node.
          bindM (encode_node (trie_methods E get put) new_node) (\<lambda>e.
          ret (node_set (nodeof E t) i e))))"
        using PBranch Cons n by simp
      show ?thesis
        unfolding eq
      proof (rule runs_seq [where d = "3 * f + 1"])
        show "runs (clash E S) view inv 0 m0 (child_node (trie_methods E get put) (nodeof E t) i)
            (\<lambda>x m. x = nodeof E (ts ! i) \<and> kept E m (ts ! i))"
          using PBranch c n pcanon_pwf [of "ts ! i"] by (intro runs_child [OF E]) (auto simp: nth_append)
        fix x m1 assume m1: "m0 \<subseteq>\<^sub>m m1" and x: "x = nodeof E (ts ! i) \<and> kept E m1 (ts ! i)"
        show "runs (clash E S) view inv (3 * f + 1) m1
           (bindM (trie_update f (trie_methods E get put) x r v) (\<lambda>new_node.
            bindM (encode_node (trie_methods E get put) new_node) (\<lambda>e. ret (node_set (nodeof E t) i e))))
           (\<lambda>x m. x = nodeof E (pupd t k v) \<and> stored E m (pupd t k v))"
        proof (rule runs_seq [OF Suc.IH [of "ts ! i"], where d = 1, folded conjunct1 [OF x]])
          fix y m2 assume m2: "m1 \<subseteq>\<^sub>m m2" and y: "y = nodeof E (pupd (ts ! i) r v) \<and> stored E m2 (pupd (ts ! i) r v)"
          have "stored E m2 (PBranch ts w)"
            using Suc.prems(3) PBranch map_le_trans [OF m1 m2] stored_mono by blast
          then show "runs (clash E S) view inv 1 m2
             (bindM (encode_node (trie_methods E get put) y) (\<lambda>e. ret (node_set (nodeof E t) i e)))
             (\<lambda>x m. x = nodeof E (pupd t k v) \<and> stored E m (pupd t k v))"
            using runs_new_child [OF E(1) n, of m2 w i "pupd (ts ! i) r v" S] c y PBranch Cons set_mp [OF S subtrees_self]
            by (simp del: nodeof.simps stored.simps)
        qed (use c x S in auto)
      qed simp
    qed
  qed
qed


section \<open>Deletion\<close>

text \<open>The node with the path \<open>p\<close> put before a subtree that is not blank, the last step of both
  \<open>_normalize_branch_node\<close> and \<open>_delete_kv_node\<close>.\<close>

lemma runs_prefix:
  assumes E: "ext_ok E" and t: "stored E m0 t" "pwf t" "t \<noteq> PBlank" "nibs_ok p" "t \<in> S"
  shows "runs (clash E S) view inv 1 m0
    (bindM (liftE (get_node_type (nodeof E t))) (\<lambda>sub_node_type.
     if is_key_value_type sub_node_type
     then bindM (liftE (node_nibbles (nodeof E t))) (\<lambda>ns.
          bindM (liftE (pack_nibbles (p @ ns))) (\<lambda>q.
          bindM (liftE (node_nth (nodeof E t) 1)) (\<lambda>v. ret (Lst [Str q, v]))))
     else if sub_node_type = NODE_TYPE_BRANCH
     then bindM (liftE (pack_nibbles p)) (\<lambda>q.
          bindM (encode_node (trie_methods E get put) (nodeof E t)) (\<lambda>e. ret (Lst [Str q, e])))
     else raise AssertionError))
    (\<lambda>x m. x = nodeof E (pprefix p t) \<and> stored E m (pprefix p t))"
proof (cases t)
  case PBlank
  with t show ?thesis by simp
next
  case (PLeaf q w)
  have "pack_nibbles (p @ q @ tflag True) = Inr (hp (p @ q) True)"
    using pack_hp [of "p @ q" True] t PLeaf by simp
  with PLeaf t show ?thesis
    by (simp add: is_key_value_type_def pprefix_def) (auto intro!: runs_value)
next
  case (PExt q u)
  have pack: "pack_nibbles (p @ q @ tflag False) = Inr (hp (p @ q) False)"
    using pack_hp [of "p @ q" False] t PExt by simp
  have "runs (clash E S) view inv 1 m0 (ret (Lst [Str (hp (p @ q) False), tref E u]))
      (\<lambda>x m. x = nodeof E (pprefix p t) \<and> stored E m (pprefix p t))"
    using PExt t by (auto simp: pprefix_def intro!: runs_value intro: held_mono stored_mono)
  with PExt t pack show ?thesis by (simp add: is_key_value_type_def del: ret_run)
next
  case (PBranch ts w)
  have ty: "get_node_type (nodeof E t) = Inr NODE_TYPE_BRANCH"
    using PBranch t node_type_nodeof [of t E] by simp
  have "runs (clash E S) view inv 1 m0
      (bindM (encode_node (trie_methods E get put) (nodeof E t)) (\<lambda>e. ret (Lst [Str (hp p False), e])))
      (\<lambda>x m. x = nodeof E (PExt p t) \<and> stored E m (PExt p t))"
    by (rule runs_seq [OF runs_encode_tree [OF E t(1,5)], where d = 0])
      (auto intro!: runs_value intro: held_mono stored_mono)
  moreover have "pprefix p t = PExt p t" using PBranch by (simp add: pprefix_def)
  ultimately show ?thesis
    using t ty by (simp add: is_key_value_type_def del: stored.simps)
qed

lemma runs_normalize:
  assumes E: "ext_ok E" "rlp_ok E"
    and ts: "length ts = 16" "stored E m0 (PBranch ts v)" "\<forall>t \<in> set ts. pwf t \<and> small t" "1 \<le> entries ts v"
    and S: "\<forall>t \<in> set ts. t = PBlank \<or> t \<in> S"
  shows "runs (clash E S) view inv 1 m0 (normalize_branch_node (trie_methods E get put) (nodeof E (PBranch ts v)))
    (\<lambda>x m. x = nodeof E (pnorm ts v) \<and> stored E m (pnorm ts v))"
proof -
  let ?ixs = "nonblank ts @ (if v = [] then [] else [16])"
  have ixs: "filter (\<lambda>i. truthy ((map (tref E) ts @ [Str v]) ! i)) [0..<Suc (length ts)] = ?ixs"
    using filter_truthy [OF E(1) ts(1), of v] ts(1) by (simp add: numeral_eq_Suc)
  have keep: "runs (clash E S) view inv 1 m0 (ret (nodeof E (PBranch ts v)))
      (\<lambda>x m. x = nodeof E (PBranch ts v) \<and> stored E m (PBranch ts v))"
    by (rule runs_ret) (use ts(2) stored_mono in blast)
  consider (val) "nonblank ts = []" "v \<noteq> []" | (child) i where "nonblank ts = [i]" "v = []"
    | (both) i where "nonblank ts = [i]" "v \<noteq> []" | (many) i j r where "nonblank ts = i # j # r"
    using ts(4) by (cases "nonblank ts" rule: remdups_adj.cases) (auto simp: entries_def split: if_splits)
  then show ?thesis
  proof cases
    case val
    with ixs ts(1) show ?thesis
      by (auto simp: normalize_branch_node_def pnorm_def nth_append intro!: runs_value
        simp: pack_hp_simps(1) [of "[]", simplified])
  next
    case child
    have i: "i < 16" "ts ! i \<noteq> PBlank"
      using set_nonblank [of ts] child by auto
    with ts S have t: "kept E m0 (ts ! i)" "pwf (ts ! i)" "small (ts ! i)" "ts ! i \<in> S" by auto
    have nth: "(map (tref E) ts @ [Str v]) ! i = tref E (ts ! i)"
      using i ts(1) by (simp add: nth_append)
    let ?rest = "\<lambda>sub_node.
      bindM (liftE (get_node_type sub_node)) (\<lambda>sub_node_type.
      if is_key_value_type sub_node_type
      then bindM (liftE (node_nibbles sub_node)) (\<lambda>ns.
           bindM (liftE (pack_nibbles ([i] @ ns))) (\<lambda>q.
           bindM (liftE (node_nth sub_node 1)) (\<lambda>v. ret (Lst [Str q, v]))))
      else if sub_node_type = NODE_TYPE_BRANCH
      then bindM (liftE (pack_nibbles [i])) (\<lambda>q.
           bindM (encode_node (trie_methods E get put) sub_node) (\<lambda>e. ret (Lst [Str q, e])))
      else raise AssertionError)"
    have eq: "normalize_branch_node (trie_methods E get put) (nodeof E (PBranch ts v)) =
        bindM (decode_to_node (trie_methods E get put) (tref E (ts ! i))) ?rest"
      using child i ixs nth by (simp add: normalize_branch_node_def cong: if_cong)
    have pn: "pnorm ts v = pprefix [i] (ts ! i)"
      using child by (simp add: pnorm_def)
    show ?thesis
      unfolding eq pn
    proof (rule runs_seq [OF runs_decode [OF E], where d = 1])
      show "held E m0 (nodeof E (ts ! i))" "sized E (nodeof E (ts ! i))"
        using t sized_nodeof [OF E(1)] by auto
      fix x m1 assume m1: "m0 \<subseteq>\<^sub>m m1" and x: "x = nodeof E (ts ! i)"
      show "runs (clash E S) view inv 1 m1 (?rest x)
          (\<lambda>x m. x = nodeof E (pprefix [i] (ts ! i)) \<and> stored E m (pprefix [i] (ts ! i)))"
        unfolding x by (rule runs_prefix [OF E(1)]) (use t i m1 stored_mono in auto)
    qed simp
  next
    case both
    with ixs keep show ?thesis by (simp add: normalize_branch_node_def pnorm_def del: stored.simps)
  next
    case many
    with ixs keep show ?thesis by (simp add: normalize_branch_node_def pnorm_def del: stored.simps)
  qed
qed


lemma runs_delete_branch:
  assumes E: "ext_ok E" "rlp_ok E"
    and t: "pcanon (PBranch ts v)" "small_map (PBranch ts v)" "stored E m0 (PBranch ts v)" "nibs_ok k"
    and S: "\<forall>t \<in> set ts. t \<in> S" "\<And>i r. k = i # r \<Longrightarrow> pdel (ts ! i) r \<in> S"
    and del: "\<And>i r m. k = i # r \<Longrightarrow> stored E m (ts ! i) \<Longrightarrow> runs (clash E S) view inv c0 m (del (nodeof E (ts ! i)) r)
      (\<lambda>x m. x = nodeof E (pdel (ts ! i) r) \<and> stored E m (pdel (ts ! i) r))"
  shows "runs (clash E S) view inv (2 + c0) m0
    (delete_branch_node (trie_methods E get put) del (nodeof E (PBranch ts v)) k)
    (\<lambda>x m. x = nodeof E (pdel (PBranch ts v) k) \<and> stored E m (pdel (PBranch ts v) k))"
proof -
  have n: "length ts = 16" and canon: "\<forall>t \<in> set ts. pcanon t" and ent: "2 \<le> entries ts v"
    using t(1) by auto
  have small: "\<forall>t \<in> set ts. pwf t \<and> small t"
    using small_map_small [OF t(1,2)] canon pcanon_pwf by auto
  show ?thesis
  proof (cases k)
    case Nil
    have "1 \<le> entries ts []"
      using ent by (auto simp: entries_def split: if_splits)
    with runs_normalize [OF E n, of m0 "[]" S] t(3) small S(1)
    have "runs (clash E S) view inv 1 m0 (normalize_branch_node (trie_methods E get put) (nodeof E (PBranch ts [])))
        (\<lambda>x m. x = nodeof E (pnorm ts []) \<and> stored E m (pnorm ts []))"
      by simp
    moreover have "delete_branch_node (trie_methods E get put) del (nodeof E (PBranch ts v)) k =
        normalize_branch_node (trie_methods E get put) (nodeof E (PBranch ts []))"
      using Nil node_set_branch(2) [OF n, of E v "[]"]
      by (simp add: delete_branch_node_def BLANK_NODE_def del: nodeof.simps)
    ultimately show ?thesis
      using Nil by (auto intro: runs_conseq)
  next
    case (Cons i r)
    let ?u = "ts ! i" and ?u' = "pdel (ts ! i) r"
    have u: "i < 16" "kept E m0 ?u" "pcanon ?u" "pwf ?u" "small ?u"
      using t(3,4) Cons n canon small by auto
    have eq: "delete_branch_node (trie_methods E get put) del (nodeof E (PBranch ts v)) k =
        bindM (child_node (trie_methods E get put) (nodeof E (PBranch ts v)) i) (\<lambda>sub_node.
        bindM (del sub_node r) (\<lambda>new_sub_node.
        bindM (encode_node (trie_methods E get put) new_sub_node) (\<lambda>e.
        if e = tref E ?u then ret (nodeof E (PBranch ts v))
        else if e = BLANK_NODE
        then normalize_branch_node (trie_methods E get put) (node_set (nodeof E (PBranch ts v)) i e)
        else ret (node_set (nodeof E (PBranch ts v)) i e))))"
      using Cons node_nth_branch(1) [OF n u(1), of E v]
      by (simp add: delete_branch_node_def del: nodeof.simps)
    show ?thesis
      unfolding eq
    proof (rule runs_seq [where d = "c0 + 2"])
      show "runs (clash E S) view inv 0 m0 (child_node (trie_methods E get put) (nodeof E (PBranch ts v)) i)
          (\<lambda>x m. x = nodeof E ?u \<and> kept E m ?u)"
        using u node_nth_branch(1) [OF n u(1), of E v] by (intro runs_child [OF E]) auto
      fix x m1 assume m1: "m0 \<subseteq>\<^sub>m m1" and x: "x = nodeof E ?u \<and> kept E m1 ?u"
      show "runs (clash E S) view inv (c0 + 2) m1
         (bindM (del x r) (\<lambda>new_sub_node.
          bindM (encode_node (trie_methods E get put) new_sub_node) (\<lambda>e.
          if e = tref E ?u then ret (nodeof E (PBranch ts v))
          else if e = BLANK_NODE
          then normalize_branch_node (trie_methods E get put) (node_set (nodeof E (PBranch ts v)) i e)
          else ret (node_set (nodeof E (PBranch ts v)) i e))))
         (\<lambda>x m. x = nodeof E (pdel (PBranch ts v) k) \<and> stored E m (pdel (PBranch ts v) k))"
        unfolding conjunct1 [OF x]
      proof (rule runs_seq [OF del, where d = 2])
        fix y m2 assume m2: "m1 \<subseteq>\<^sub>m m2" and y: "y = nodeof E ?u' \<and> stored E m2 ?u'"
        show "runs (clash E S) view inv 2 m2
           (bindM (encode_node (trie_methods E get put) y) (\<lambda>e.
            if e = tref E ?u then ret (nodeof E (PBranch ts v))
            else if e = BLANK_NODE
            then normalize_branch_node (trie_methods E get put) (node_set (nodeof E (PBranch ts v)) i e)
            else ret (node_set (nodeof E (PBranch ts v)) i e)))
           (\<lambda>x m. x = nodeof E (pdel (PBranch ts v) k) \<and> stored E m (pdel (PBranch ts v) k))"
          unfolding conjunct1 [OF y]
        proof (rule runs_seq [OF runs_encode_tree [OF E(1) _ S(2) [OF Cons]], where d = 1])
          fix e m3 assume m3: "m2 \<subseteq>\<^sub>m m3" and e: "e = tref E ?u' \<and> kept E m3 ?u'"
          have st: "stored E m3 (PBranch ts v)"
            using t(3) m1 m2 m3 map_le_trans stored_mono by blast
          have st': "stored E m3 (PBranch (ts[i := ?u']) v)"
            using st e by (intro stored_branch_set) auto
          have node: "node_set (nodeof E (PBranch ts v)) i e = nodeof E (PBranch (ts[i := ?u']) v)"
            using node_set_branch(1) [OF n u(1)] e by simp
          show "runs (clash E S) view inv 1 m3
             (if e = tref E ?u then ret (nodeof E (PBranch ts v))
              else if e = BLANK_NODE
              then normalize_branch_node (trie_methods E get put) (node_set (nodeof E (PBranch ts v)) i e)
              else ret (node_set (nodeof E (PBranch ts v)) i e))
             (\<lambda>x m. x = nodeof E (pdel (PBranch ts v) k) \<and> stored E m (pdel (PBranch ts v) k))"
          proof (cases "?u' = PBlank \<and> ?u \<noteq> PBlank")
            case True
            then have pd: "pdel (PBranch ts v) k = pnorm (ts[i := PBlank]) v"
              using Cons by (simp add: Let_def)
            have "1 \<le> entries (ts[i := PBlank]) v"
              using entries_update_blank [OF ent n] .
            moreover have "\<forall>t \<in> set (ts[i := PBlank]). pwf t \<and> small t"
              using small by (auto dest!: in_set_updateD)
            moreover have "\<forall>t \<in> set (ts[i := PBlank]). t = PBlank \<or> t \<in> S"
              using S(1) by (auto dest!: in_set_updateD)
            ultimately have "runs (clash E S) view inv 1 m3 (normalize_branch_node (trie_methods E get put) (nodeof E (PBranch (ts[i := PBlank]) v)))
                (\<lambda>x m. x = nodeof E (pnorm (ts[i := PBlank]) v) \<and> stored E m (pnorm (ts[i := PBlank]) v))"
              using st' True n by (intro runs_normalize [OF E]) auto
            moreover have "e = BLANK_NODE" "e \<noteq> tref E ?u"
              using True e E tref_blank_iff [OF E(1), of ?u] by auto
            ultimately show ?thesis
              using True node unfolding pd by (simp del: nodeof.simps stored.simps)
          next
            case False
            then have pd: "pdel (PBranch ts v) k = PBranch (ts[i := ?u']) v"
              using Cons by (auto simp: Let_def)
            have "runs (clash E S) view inv 1 m3 (ret (nodeof E (PBranch (ts[i := ?u']) v)))
                (\<lambda>x m. x = nodeof E (pdel (PBranch ts v) k) \<and> stored E m (pdel (PBranch ts v) k))"
              unfolding pd by (rule runs_ret) (use st' stored_mono in blast)
            moreover have "nodeof E (PBranch (ts[i := ?u']) v) = nodeof E (PBranch ts v)" if "e = tref E ?u"
              unfolding node [symmetric] that using n u by (simp add: list_update_append list_update_same_conv)
            moreover have "e = tref E ?u" if "e = BLANK_NODE"
              using that False e E by auto
            ultimately show ?thesis
              using node by (auto simp del: nodeof.simps stored.simps ret_run)
          qed
        qed (use y in auto)
      qed (use Cons x in auto)
    qed simp
  qed
qed

lemma runs_delete_leaf:
  assumes "nibs_ok p"
  shows "runs (clash E S) view inv c m0 (delete_kv_node (trie_methods E get put) del (nodeof E (PLeaf p v)) k)
    (\<lambda>x m. x = nodeof E (pdel (PLeaf p v) k) \<and> stored E m (pdel (PLeaf p v) k))"
  using assms by (auto simp: delete_kv_node_def starts_with_iff intro!: runs_value)


lemma runs_delete_ext:
  assumes E: "ext_ok E" "rlp_ok E"
    and t: "pcanon (PExt p u)" "small_map (PExt p u)" "stored E m0 (PExt p u)" "nibs_ok k"
    and S: "\<And>r. k = p @ r \<Longrightarrow> pdel u r \<in> S"
    and del: "\<And>r m. k = p @ r \<Longrightarrow> stored E m u \<Longrightarrow> runs (clash E S) view inv c0 m (del (nodeof E u) r)
      (\<lambda>x m. x = nodeof E (pdel u r) \<and> stored E m (pdel u r))"
  shows "runs (clash E S) view inv (2 + c0) m0
    (delete_kv_node (trie_methods E get put) del (nodeof E (PExt p u)) k)
    (\<lambda>x m. x = nodeof E (pdel (PExt p u) k) \<and> stored E m (pdel (PExt p u) k))"
proof -
  have p: "nibs_ok p" and u: "kept E m0 u" "pcanon u" "pwf u" "small u" "is_branch u" "small_map u"
    using t pcanon_pwf [of u] small_map_small [OF t(1,2)] small_map_child(1) [OF t(2)] by auto
  let ?node = "nodeof E (PExt p u)"
  show ?thesis
  proof (cases "starts_with k p")
    case False
    have eq: "delete_kv_node (trie_methods E get put) del ?node k = ret ?node"
      by (rule ext) (use False p in \<open>simp add: delete_kv_node_def\<close>)
    show ?thesis
      unfolding eq using False t(3) stored_mono by (intro runs_ret) (auto simp del: stored.simps)
  next
    case True
    then obtain r where k: "k = p @ r" by (auto simp: starts_with_iff)
    then have r: "nibs_ok r" using t(4) by simp
    let ?u' = "pdel u r"
    have u': "pcanon ?u'" "small_map ?u'"
      using pcanon_pdel u small_map_pdel r by auto
    then have u'2: "pwf ?u'" "small ?u'"
      using pcanon_pwf small_map_small by auto
    have pd: "pdel (PExt p u) k = pprefix p ?u'"
      using k by simp
    let ?rest = "\<lambda>new_sub_node.
      bindM (liftE (get_node_type new_sub_node)) (\<lambda>ty.
      if is_key_value_type ty
      then bindM (liftE (node_nibbles new_sub_node)) (\<lambda>ns.
           bindM (liftE (pack_nibbles (p @ ns))) (\<lambda>q.
           bindM (liftE (node_nth new_sub_node 1)) (\<lambda>v. ret (Lst [Str q, v]))))
      else if ty = NODE_TYPE_BRANCH
      then bindM (liftE (pack_nibbles p)) (\<lambda>q.
           bindM (encode_node (trie_methods E get put) new_sub_node) (\<lambda>e. ret (Lst [Str q, e])))
      else raise AssertionError)"
    have eq: "delete_kv_node (trie_methods E get put) del ?node k =
        bindM (child_node (trie_methods E get put) ?node 1) (\<lambda>sub_node.
        bindM (del sub_node r) (\<lambda>new_sub_node.
        bindM (encode_node (trie_methods E get put) new_sub_node) (\<lambda>e.
        if e = tref E u then ret ?node
        else if new_sub_node = BLANK_NODE then ret BLANK_NODE
        else ?rest new_sub_node)))"
      using k p by (simp add: delete_kv_node_def cong: if_cong)
    show ?thesis
      unfolding eq pd
    proof (rule runs_seq [where d = "c0 + 2"])
      show "runs (clash E S) view inv 0 m0 (child_node (trie_methods E get put) ?node 1) (\<lambda>x m. x = nodeof E u \<and> kept E m u)"
        using u by (intro runs_child [OF E]) auto
      fix x m1 assume m1: "m0 \<subseteq>\<^sub>m m1" and x: "x = nodeof E u \<and> kept E m1 u"
      show "runs (clash E S) view inv (c0 + 2) m1
         (bindM (del x r) (\<lambda>new_sub_node.
          bindM (encode_node (trie_methods E get put) new_sub_node) (\<lambda>e.
          if e = tref E u then ret ?node
          else if new_sub_node = BLANK_NODE then ret BLANK_NODE
          else ?rest new_sub_node)))
         (\<lambda>x m. x = nodeof E (pprefix p ?u') \<and> stored E m (pprefix p ?u'))"
        unfolding conjunct1 [OF x]
      proof (rule runs_seq [OF del, where d = 2])
        fix y m2 assume m2: "m1 \<subseteq>\<^sub>m m2" and y: "y = nodeof E ?u' \<and> stored E m2 ?u'"
        show "runs (clash E S) view inv 2 m2
           (bindM (encode_node (trie_methods E get put) y) (\<lambda>e.
            if e = tref E u then ret ?node
            else if y = BLANK_NODE then ret BLANK_NODE
            else ?rest y))
           (\<lambda>x m. x = nodeof E (pprefix p ?u') \<and> stored E m (pprefix p ?u'))"
          unfolding conjunct1 [OF y]
        proof (rule runs_seq [OF runs_encode_tree [OF E(1) _ S [OF k]], where d = 1])
          fix e m3 assume m3: "m2 \<subseteq>\<^sub>m m3" and e: "e = tref E ?u' \<and> kept E m3 ?u'"
          have ku: "kept E m3 u"
            using u(1) m1 m2 m3 map_le_trans stored_mono held_mono by metis
          show "runs (clash E S) view inv 1 m3
             (if e = tref E u then ret ?node
              else if nodeof E ?u' = BLANK_NODE then ret BLANK_NODE
              else ?rest (nodeof E ?u'))
             (\<lambda>x m. x = nodeof E (pprefix p ?u') \<and> stored E m (pprefix p ?u'))"
          proof (cases "e = tref E u")
            case True
            then have "nodeof E ?u' = nodeof E u"
              using e ku u u'2 sized_nodeof [OF E(1)] by (intro tref_eqD [OF E, of _ _ m3]) auto
            moreover obtain ts v where "u = PBranch ts v" using u(5) by (rule is_branchE)
            moreover have "length ts = 16" if "u = PBranch ts v" for ts v using u(2) that by simp
            ultimately have "is_branch ?u'"
              using u'2(1) by (cases "pdel u r") auto
            then have pp: "pprefix p ?u' = PExt p ?u'"
              by (auto simp: pprefix_def elim!: is_branchE)
            have "stored E m (PExt p ?u')" if "m3 \<subseteq>\<^sub>m m" for m
              using e that by (auto intro: held_mono stored_mono)
            moreover have "nodeof E (PExt p ?u') = ?node" using True e by simp
            ultimately show ?thesis
              unfolding if_P [OF True] pp by (intro runs_ret) auto
          next
            case ne: False
            show ?thesis
            proof (cases "?u' = PBlank")
              case True
              with ne show ?thesis by (auto simp: pprefix_def intro!: runs_value)
            next
              case False
              then have "runs (clash E S) view inv 1 m3 (?rest (nodeof E ?u'))
                  (\<lambda>x m. x = nodeof E (pprefix p ?u') \<and> stored E m (pprefix p ?u'))"
                using e u'2 p S [OF k] by (intro runs_prefix [OF E(1)]) auto
              with ne False show ?thesis by (simp only: nodeof_blank_iff if_False)
            qed
          qed
        qed (use y in auto)
      qed (use k x in auto)
    qed simp
  qed
qed

lemma runs_trie_delete:
  assumes E: "ext_ok E" "rlp_ok E"
  shows "pcanon t \<Longrightarrow> small_map t \<Longrightarrow> stored E m0 t \<Longrightarrow> nibs_ok k \<Longrightarrow> length k < f \<Longrightarrow>
    delete_trees t k \<subseteq> S \<Longrightarrow>
    runs (clash E S) view inv (2 * f) m0 (trie_delete f (trie_methods E get put) (nodeof E t) k)
      (\<lambda>x m. x = nodeof E (pdel t k) \<and> stored E m (pdel t k))"
proof (induction f arbitrary: t k m0)
  case 0
  then show ?case by simp
next
  case (Suc f)
  have cost: "2 * Suc f = 2 + 2 * f" by simp
  show ?case
  proof (cases t)
    case PBlank
    then show ?thesis by (auto intro!: runs_value)
  next
    case (PLeaf p w)
    with Suc.prems have ok: "nibs_ok p" by auto
    have eq: "trie_delete (Suc f) (trie_methods E get put) (nodeof E t) k =
        delete_kv_node (trie_methods E get put) (trie_delete f (trie_methods E get put)) (nodeof E (PLeaf p w)) k"
      using PLeaf ok by simp
    show ?thesis
      unfolding eq unfolding PLeaf by (rule runs_delete_leaf [OF ok])
  next
    case (PExt p u)
    with Suc.prems have u: "nibs_ok p" "p \<noteq> []" "pcanon u" by auto
    have eq: "trie_delete (Suc f) (trie_methods E get put) (nodeof E t) k =
        delete_kv_node (trie_methods E get put) (trie_delete f (trie_methods E get put)) (nodeof E (PExt p u)) k"
      using PExt u by simp
    show ?thesis
      unfolding eq cost unfolding PExt
    proof (rule runs_delete_ext [OF E])
      fix r assume "k = p @ r"
      then show "pdel u r \<in> S"
        using Suc.prems(6) delete_trees_child(1) [of u r p] delete_trees_self [of u r] PExt by blast
    next
      fix r m assume k: "k = p @ r" and st: "stored E m u"
      have "length r < f" using Suc.prems(5) k u(2) by (cases p) auto
      then show "runs (clash E S) view inv (2 * f) m (trie_delete f (trie_methods E get put) (nodeof E u) r)
          (\<lambda>x m. x = nodeof E (pdel u r) \<and> stored E m (pdel u r))"
        using Suc.IH [of u m r] Suc.prems(2,4,6) delete_trees_child(1) [of u r p] k st u small_map_child(1) PExt
        by auto
    qed (use Suc.prems PExt in auto)
  next
    case (PBranch ts v)
    then have n: "length ts = 16" using Suc.prems by simp
    have eq: "trie_delete (Suc f) (trie_methods E get put) (nodeof E t) k =
        delete_branch_node (trie_methods E get put) (trie_delete f (trie_methods E get put)) (nodeof E (PBranch ts v)) k"
      using PBranch n by simp
    show ?thesis
      unfolding eq cost unfolding PBranch
    proof (rule runs_delete_branch [OF E])
      show "\<forall>u \<in> set ts. u \<in> S"
      proof
        fix u assume "u \<in> set ts"
        then have "u \<in> subtrees (PBranch ts v)" using subtrees_self [of u] by (simp del: subtrees_self) blast
        then show "u \<in> S" using Suc.prems(6) PBranch by (auto simp: delete_trees_def)
      qed
    next
      fix i r assume "k = i # r"
      then have "i < 16" using Suc.prems(4) by simp
      with \<open>k = i # r\<close> show "pdel (ts ! i) r \<in> S"
        using Suc.prems(6) delete_trees_child(2) [of i ts r v] delete_trees_self [of "ts ! i" r] PBranch n by auto
    next
      fix i r m assume k: "k = i # r" and st: "stored E m (ts ! i)"
      then have "i < 16" "nibs_ok r" "length r < f" "pcanon (ts ! i)"
        using Suc.prems(1,4,5) n PBranch by auto
      then show "runs (clash E S) view inv (2 * f) m (trie_delete f (trie_methods E get put) (nodeof E (ts ! i)) r)
          (\<lambda>x m. x = nodeof E (pdel (ts ! i) r) \<and> stored E m (pdel (ts ! i) r))"
        using Suc.IH [of "ts ! i" m r] Suc.prems(2,6) delete_trees_child(2) [of i ts r v] k st n
          small_map_child(2) [of ts v i] PBranch by auto
    qed (use Suc.prems PBranch in auto)
  qed
qed

end

end
