(* ===== verification/TrieObject.thy ===== *)
theory TrieObject
  imports TrieMethods
begin

text \<open>
  What the trie object promises. \<open>represents E view tr m\<close>: the object \<open>tr\<close> over its store shows the
  map \<open>m\<close> from keys to values (the empty string for an absent key): its root node is the node of a
  canonical tree with these contents, every hashed node below is in the store, and the root hash is
  the hash of the root node. \<open>get\<close>, \<open>update\<close> and \<open>delete\<close> are lookup and update of that map; the
  root hash is a function of the map alone; and \<open>set_root_hash\<close> brings back the map of any root
  hash an earlier state of the trie had.
\<close>

section \<open>The abstraction\<close>

type_synonym contents = "string \<Rightarrow> string"

definition tree_for :: "ptree \<Rightarrow> contents \<Rightarrow> bool" where
  "tree_for t m \<longleftrightarrow> pcanon t \<and> small_map t \<and> (\<forall>key. plookup t (nibs key) = m key) \<and>
     (\<forall>k. nibs_ok k \<longrightarrow> plookup t k \<noteq> [] \<longrightarrow> (\<exists>key. k = nibs key))"

definition root_of :: "ext \<Rightarrow> ptree \<Rightarrow> string" where
  "root_of E t = sha3 E (encode_optimized E (nodeof E t))"

definition in_store :: "ext \<Rightarrow> (string \<rightharpoonup> string) \<Rightarrow> ptree \<Rightarrow> bool" where
  "in_store E d t \<longleftrightarrow> stored E d t \<and>
     (t = PBlank \<or> d (root_of E t) = Some (encode_optimized E (nodeof E t)))"

definition represents :: "ext \<Rightarrow> ('s \<Rightarrow> string \<rightharpoonup> string) \<Rightarrow> 's trie \<Rightarrow> contents \<Rightarrow> bool" where
  "represents E view tr m \<longleftrightarrow>
     (\<exists>t. tree_for t m \<and> in_store E (view (tdb tr)) t \<and> root_node tr = nodeof E t \<and>
        root_hash tr = root_of E t)"

lemma tree_for_pupd:
  assumes "tree_for t m" "length key < 2 ^ 49" "v \<noteq> []" "length v < 2 ^ 50"
  shows "tree_for (pupd t (nibs key) v) (m(key := v))"
  using assms pcanon_pwf [of t] pcanon_pupd [of t "nibs key" v] small_map_pupd [of t "nibs key" v]
  by (auto simp: tree_for_def plookup_pupd_same_or_other nibs_inject)

lemma tree_for_pdel:
  assumes "tree_for t m"
  shows "tree_for (pdel t (nibs key)) (m(key := []))"
  using assms pcanon_pdel [of t "nibs key"] small_map_pdel [of t "nibs key"]
  by (auto simp: tree_for_def plookup_pdel nibs_inject split: if_splits)

text \<open>A map has one canonical tree.\<close>

lemma tree_for_unique: "tree_for t m \<Longrightarrow> tree_for u m \<Longrightarrow> t = u"
  by (rule pcanon_unique) (auto simp: tree_for_def same_map_def, metis)

lemma tree_for_small: "tree_for t m \<Longrightarrow> pcanon t \<and> small t \<and> pwf t \<and> small_map t"
  using small_map_small pcanon_pwf by (auto simp: tree_for_def)

lemma tree_for_blank: "tree_for PBlank (\<lambda>_. [])"
  by (simp add: tree_for_def small_map_def)

lemma tree_for_blank_iff: "tree_for t m \<Longrightarrow> t = PBlank \<longleftrightarrow> (\<forall>key. m key = [])"
  using pcanon_nonempty [of t] by (fastforce simp: tree_for_def)

lemma in_store_mono: "in_store E d t \<Longrightarrow> d \<subseteq>\<^sub>m d' \<Longrightarrow> in_store E d' t"
  using stored_mono by (auto simp: in_store_def map_le_def dom_def)

lemma BLANK_ROOT_eq: "BLANK_ROOT E = root_of E PBlank"
proof -
  have "CHR 0x80 = char_of (128 :: nat)" using char_of_char [of "CHR 0x80", where ?'a = nat] by simp
  then show ?thesis by (simp add: BLANK_ROOT_def root_of_def BLANK_NODE_def length_prefix_def)
qed

section \<open>The methods of the object\<close>

context content_store begin

lemma in_tdb_runs:
  assumes "runs C view inv c m0 p Q" "inv (n + c) (tdb tr)" "m0 \<subseteq>\<^sub>m view (tdb tr)"
  obtains r s' where "in_tdb p tr = (r, tr\<lparr>tdb := s'\<rparr>)" "inv n s'" "view (tdb tr) \<subseteq>\<^sub>m view s'"
    "case r of Inl e \<Rightarrow> e = AssertionError \<and> C (view s') | Inr x \<Rightarrow> Q x (view s')"
proof -
  obtain r s' where "p (tdb tr) = (r, s')" "inv n s'" "view (tdb tr) \<subseteq>\<^sub>m view s'"
      "case r of Inl e \<Rightarrow> e = AssertionError \<and> C (view s') | Inr x \<Rightarrow> Q x (view s')"
    using assms unfolding runs_def by blast
  then show ?thesis
    by (intro that [of r s']) (auto simp: in_tdb_def zoomM_def)
qed

lemma get_run:
  assumes E: "ext_ok E" "rlp_ok E" and tr: "represents E view tr m" and inv: "inv n (tdb tr)"
  shows "\<exists>s'. Trie.get (trie_methods E get put) key tr = (Inr (Str (m key)), tr\<lparr>tdb := s'\<rparr>) \<and>
    inv n s' \<and> view (tdb tr) \<subseteq>\<^sub>m view s' \<and> represents E view (tr\<lparr>tdb := s'\<rparr>) m"
proof -
  obtain t where t: "tree_for t m" "in_store E (view (tdb tr)) t" "root_node tr = nodeof E t"
      "root_hash tr = root_of E t"
    using tr by (auto simp: represents_def)
  have step: "runs (\<lambda>_. False) view inv 0 (view (tdb tr))
      (trie_get (Suc (length (nibs key))) (trie_methods E get put) (nodeof E t) (nibs key))
      (\<lambda>x d. x = Str (plookup t (nibs key)))"
    using tree_for_small [OF t(1)] t(2) by (intro runs_trie_get [OF E]) (auto simp: in_store_def)
  obtain r s' where "in_tdb (trie_get (Suc (length (nibs key))) (trie_methods E get put) (nodeof E t) (nibs key)) tr =
        (r, tr\<lparr>tdb := s'\<rparr>)" "inv n s'" and le: "view (tdb tr) \<subseteq>\<^sub>m view s'"
      and "case r of Inl e \<Rightarrow> e = AssertionError \<and> False | Inr x \<Rightarrow> x = Str (plookup t (nibs key))"
    by (rule in_tdb_runs [OF step, of n tr]) (use inv in auto)
  moreover have "plookup t (nibs key) = m key"
    using t(1) by (simp add: tree_for_def)
  moreover have "represents E view (tr\<lparr>tdb := s'\<rparr>) m"
    using t in_store_mono [OF t(2) le] by (auto simp: represents_def)
  ultimately show ?thesis
    using t(3) le by (auto simp: Trie.get_def bindM_def simp del: trie_get.simps split: sum.splits)
qed

text \<open>A step that computes the node of a new tree, followed by \<open>_update_root_hash\<close>.\<close>

lemma new_root_run:
  assumes E: "ext_ok E"
    and step: "runs (clash E S) view inv c (view (tdb tr)) p (\<lambda>x d. x = nodeof E t \<and> stored E d t)"
    and t: "tree_for t m" "t \<in> S" and inv: "inv (n + (c + 1)) (tdb tr)"
  shows "\<exists>r tr'. bindM (in_tdb p) (\<lambda>node'. bindM (modifyM (\<lambda>t. t\<lparr>root_node := node'\<rparr>)) (\<lambda>_.
      update_root_hash (trie_methods E get put))) tr = (r, tr') \<and>
    inv n (tdb tr') \<and> view (tdb tr) \<subseteq>\<^sub>m view (tdb tr') \<and>
    (case r of Inl e \<Rightarrow> e = AssertionError \<and> clash E S (view (tdb tr')) | Inr u \<Rightarrow> represents E view tr' m)"
proof -
  have inv': "inv ((n + 1) + c) (tdb tr)" using inv by (simp add: ac_simps)
  obtain r s1 where r: "in_tdb p tr = (r, tr\<lparr>tdb := s1\<rparr>)" "inv (n + 1) s1" "view (tdb tr) \<subseteq>\<^sub>m view s1"
      "case r of Inl e \<Rightarrow> e = AssertionError \<and> clash E S (view s1) | Inr x \<Rightarrow> x = nodeof E t \<and> stored E (view s1) t"
    by (rule in_tdb_runs [OF step inv']) auto
  show ?thesis
  proof (cases r)
    case (Inl e)
    with r inv_less [of n 1 s1] show ?thesis
      by (intro exI [of _ "Inl e"] exI [of _ "tr\<lparr>tdb := s1\<rparr>"]) (auto simp: bindM_def)
  next
    case (Inr x)
    with r have x: "x = nodeof E t" "stored E (view s1) t" by auto
    let ?tr1 = "tr\<lparr>tdb := s1, root_node := nodeof E t\<rparr>"
    let ?val = "encode_optimized E (nodeof E t)"
    have eq: "bindM (in_tdb p) (\<lambda>node'. bindM (modifyM (\<lambda>t. t\<lparr>root_node := node'\<rparr>)) (\<lambda>_.
        update_root_hash (trie_methods E get put))) tr =
      bindM (in_tdb (put (root_of E t) ?val)) (\<lambda>_. modifyM (\<lambda>tr. tr\<lparr>root_hash := root_of E t\<rparr>)) ?tr1"
      using r(1) Inr x
      by (simp add: bindM_def update_root_hash_def Let_def root_of_def split: prod.split sum.split)
    obtain s2 where s2: "inv n s2" "if view s1 (root_of E t) = None \<or> view s1 (root_of E t) = Some ?val
         then put (root_of E t) ?val s1 = (Inr (), s2) \<and> view s2 = (view s1)(root_of E t \<mapsto> ?val)
         else put (root_of E t) ?val s1 = (Inl AssertionError, s2) \<and> view s2 = view s1"
      using put_spec [of n s1 "root_of E t" ?val] r(2) length_sha3 [OF E] by (auto simp: root_of_def)
    show ?thesis
    proof (cases "view s1 (root_of E t) = None \<or> view s1 (root_of E t) = Some ?val")
      case True
      let ?tr2 = "tr\<lparr>tdb := s2, root_node := nodeof E t, root_hash := root_of E t\<rparr>"
      from True s2 have put: "put (root_of E t) ?val s1 = (Inr (), s2)" "view s2 = (view s1)(root_of E t \<mapsto> ?val)"
        by auto
      have le: "view s1 \<subseteq>\<^sub>m view s2" using True put(2) by (auto simp: map_le_def dom_def)
      have "in_store E (view s2) t"
        using stored_mono [OF x(2) le] put(2) by (simp add: in_store_def)
      then have "represents E view ?tr2 m"
        using t by (auto simp: represents_def)
      with eq put(1) s2(1) map_le_trans [OF r(3) le] show ?thesis
        by (intro exI [of _ "Inr ()"] exI [of _ ?tr2]) (simp add: bindM_def in_tdb_def zoomM_def)
    next
      case False
      then have "clash E S (view s1)" using t(2) by (auto simp: clash_def root_of_def)
      with False s2 eq r(3) show ?thesis
        by (intro exI [of _ "Inl AssertionError"] exI [of _ "tr\<lparr>tdb := s2, root_node := nodeof E t\<rparr>"])
          (simp add: bindM_def in_tdb_def zoomM_def)
    qed
  qed
qed

lemma update_run:
  assumes E: "ext_ok E" "rlp_ok E" and tr: "represents E view tr m"
    and inv: "inv (n + (6 * length key + 4)) (tdb tr)"
    and small: "length key < 2 ^ 49" "v \<noteq> []" "length v < 2 ^ 50"
  shows "\<exists>r tr'. update (trie_methods E get put) key v tr = (r, tr') \<and>
    inv n (tdb tr') \<and> view (tdb tr) \<subseteq>\<^sub>m view (tdb tr') \<and>
    (case r of Inl e \<Rightarrow> e = AssertionError \<and> (\<exists>t. tree_for t (m(key := v)) \<and> clash E (subtrees t) (view (tdb tr')))
     | Inr u \<Rightarrow> represents E view tr' (m(key := v)))"
proof -
  obtain t where t: "tree_for t m" "in_store E (view (tdb tr)) t" "root_node tr = nodeof E t"
    using tr by (auto simp: represents_def)
  let ?k = "nibs key"
  have step: "runs (clash E (subtrees (pupd t ?k v))) view inv (3 * Suc (length ?k)) (view (tdb tr))
      (trie_update (Suc (length ?k)) (trie_methods E get put) (nodeof E t) ?k v)
      (\<lambda>x d. x = nodeof E (pupd t ?k v) \<and> stored E d (pupd t ?k v))"
    using tree_for_small [OF t(1)] t(2) by (intro runs_trie_update [OF E]) (auto simp: in_store_def)
  have "n + (3 * Suc (length ?k) + 1) = n + (6 * length key + 4)" by simp
  with inv have "inv (n + (3 * Suc (length ?k) + 1)) (tdb tr)" by (simp only:)
  from new_root_run [OF E(1) step tree_for_pupd [OF t(1) small] subtrees_self this] t(3)
    tree_for_pupd [OF t(1) small]
  show ?thesis by (fastforce simp: update_def bindM_def simp del: trie_update.simps split: sum.splits)
qed

lemma delete_run:
  assumes E: "ext_ok E" "rlp_ok E" and tr: "represents E view tr m"
    and inv: "inv (n + (4 * length key + 3)) (tdb tr)" and key: "length key \<le> 32"
  shows "\<exists>r tr'. delete (trie_methods E get put) key tr = (r, tr') \<and>
    inv n (tdb tr') \<and> view (tdb tr) \<subseteq>\<^sub>m view (tdb tr') \<and>
    (case r of Inl e \<Rightarrow> e = AssertionError \<and>
       (\<exists>t. tree_for t m \<and> clash E (delete_trees t (nibs key)) (view (tdb tr')))
     | Inr u \<Rightarrow> represents E view tr' (m(key := [])))"
proof -
  obtain t where t: "tree_for t m" "in_store E (view (tdb tr)) t" "root_node tr = nodeof E t"
    using tr by (auto simp: represents_def)
  let ?k = "nibs key"
  have step: "runs (clash E (delete_trees t ?k)) view inv (2 * Suc (length ?k)) (view (tdb tr))
      (trie_delete (Suc (length ?k)) (trie_methods E get put) (nodeof E t) ?k)
      (\<lambda>x d. x = nodeof E (pdel t ?k) \<and> stored E d (pdel t ?k))"
    using tree_for_small [OF t(1)] t(2) by (intro runs_trie_delete [OF E]) (auto simp: in_store_def)
  have "n + (2 * Suc (length ?k) + 1) = n + (4 * length key + 3)" by simp
  with inv have "inv (n + (2 * Suc (length ?k) + 1)) (tdb tr)" by (simp only:)
  from new_root_run [OF E(1) step tree_for_pdel [OF t(1)] delete_trees_self this] t(1,3) key
  show ?thesis by (fastforce simp: delete_def bindM_def simp del: trie_delete.simps split: sum.splits)
qed

text \<open>Opening a trie at a root hash that was reached before: \<open>set_root_hash\<close>.\<close>

lemma set_root_hash_run:
  assumes E: "ext_ok E" "rlp_ok E" and old: "represents E view tr m"
    and le: "view (tdb tr) \<subseteq>\<^sub>m view (tdb tr')" and inv: "inv n (tdb tr')"
    and no: "root_hash tr = BLANK_ROOT E \<Longrightarrow> m = (\<lambda>_. [])"
  shows "\<exists>tr''. set_root_hash (trie_methods E get put) (root_hash tr) tr' = (Inr (), tr'') \<and>
    inv n (tdb tr'') \<and> view (tdb tr'') = view (tdb tr') \<and> represents E view tr'' m"
proof -
  obtain t where t: "tree_for t m" "in_store E (view (tdb tr)) t" "root_hash tr = root_of E t"
    using old by (auto simp: represents_def)
  have st: "in_store E (view (tdb tr')) t" using in_store_mono [OF t(2) le] .
  have len: "length (root_of E t) = 32" using E(1) by (simp add: root_of_def length_sha3)
  show ?thesis
  proof (cases "root_of E t = BLANK_ROOT E")
    case True
    have "t = PBlank"
      using no True t(3) tree_for_blank_iff [OF t(1)] by simp
    with t st True len inv show ?thesis
      by (auto simp: set_root_hash_def bindM_def represents_def BLANK_ROOT_eq)
  next
    case False
    then have ne: "t \<noteq> PBlank" by (auto simp: BLANK_ROOT_eq)
    have dec: "rlp_dec E (encode_optimized E (nodeof E t)) = Inr (nodeof E t)"
      using E tree_for_small [OF t(1)] sized_nodeof [OF E(1), of t] by (simp add: rlp_ok_def)
    have nb: "Str (root_of E t) \<noteq> BLANK_NODE" using len by (auto simp: BLANK_NODE_def)
    obtain s' where s': "get (root_of E t) (tdb tr') = (Inr (encode_optimized E (nodeof E t)), s')"
        "view s' = view (tdb tr')" "inv n s'"
      using get_spec [OF inv len] st ne by (auto simp: in_store_def)
    have "represents E view (tr'\<lparr>tdb := s', root_node := nodeof E t, root_hash := root_of E t\<rparr>) m"
      using t(1) st s'(2) by (auto simp: represents_def)
    then show ?thesis
      using False len t(3) s' dec nb
      by (auto simp: set_root_hash_def bindM_def in_tdb_def zoomM_def decode_to_node_def)
  qed
qed

text \<open>In one store the root hash determines the contents, when only the empty trie has the blank
  root hash.\<close>

lemma root_hash_contents:
  assumes E: "ext_ok E" "rlp_ok E" and tr: "represents E view tr m" "represents E view tr' m'"
    and eq: "view (tdb tr) = view (tdb tr')" "root_hash tr = root_hash tr'"
    and no: "root_hash tr = BLANK_ROOT E \<Longrightarrow> m = (\<lambda>_. []) \<and> m' = (\<lambda>_. [])" and inv: "inv n (tdb tr)"
  shows "m = m'"
proof -
  obtain t where t: "tree_for t m" "in_store E (view (tdb tr)) t" "root_node tr = nodeof E t"
      "root_hash tr = root_of E t"
    using tr(1) by (auto simp: represents_def)
  obtain u where u: "tree_for u m'" "in_store E (view (tdb tr)) u" "root_node tr' = nodeof E u"
      "root_hash tr' = root_of E u"
    using tr(2) eq(1) by (auto simp: represents_def)
  have "t = PBlank \<longleftrightarrow> u = PBlank"
    using no t(4) u(4) eq(2) tree_for_blank_iff [OF t(1)] tree_for_blank_iff [OF u(1)] BLANK_ROOT_eq [of E]
    by (metis tree_for_blank_iff t(1) u(1))
  then have enc: "encode_optimized E (nodeof E t) = encode_optimized E (nodeof E u)"
    using t u eq(2) by (cases "t = PBlank") (auto simp: in_store_def)
  have "nodeof E t = nodeof E u"
    using enc encode_optimized_inject [OF E(1)] sized_nodeof [OF E(1)] tree_for_small t(1) u(1) by metis
  then have "represents E view tr m'"
    using u t by (auto simp: represents_def root_of_def intro!: exI [of _ u])
  then have "Str (m' key) = Str (m key)" for key
    using get_run [OF E tr(1) inv, of key] get_run [OF E _ inv, of m' key] by fastforce
  then show ?thesis by auto
qed

end

text \<open>\<open>Trie.__init__\<close> with the default root hash.\<close>

lemma represents_blank:
  "represents E view \<lparr>tdb = s, root_node = BLANK_NODE, root_hash = BLANK_ROOT E\<rparr> (\<lambda>_. [])"
  using tree_for_blank by (auto simp: represents_def in_store_def BLANK_ROOT_eq)

text \<open>The root hash is determined by the contents, whatever the stores and the history.\<close>

lemma represents_root_hash:
  "represents E view tr m \<Longrightarrow> represents E view' tr' m \<Longrightarrow> root_hash tr = root_hash tr'"
  using tree_for_unique by (metis represents_def)


section \<open>The trie over the reference-counted database of the chain\<close>

abbreviation chain_trie :: "ext \<Rightarrow> level trie_env" where
  "chain_trie E \<equiv> trie_methods E (refcount_get level_db) (refcount_put E level_db)"

abbreviation chain_view :: "level \<Rightarrow> string \<rightharpoonup> string" where
  "chain_view \<equiv> refcount_view level_view"

abbreviation blank_trie :: "ext \<Rightarrow> 's \<Rightarrow> 's trie" where
  "blank_trie E s \<equiv> \<lparr>tdb = s, root_node = BLANK_NODE, root_hash = BLANK_ROOT E\<rparr>"

definition level_empty :: level where
  "level_empty = \<lparr>uncommitted = Map.empty, disk = Map.empty\<rparr>"

lemma level_empty_inv: "n < 2 ^ 32 \<Longrightarrow> refcount_inv level_view n level_empty"
  by (simp add: refcount_inv_def level_empty_def level_view_def)

lemma level_empty_view: "chain_view level_empty = Map.empty"
  by (auto simp: refcount_view_def level_empty_def level_view_def)

text \<open>C8. \<open>Trie.get\<close> returns the value of the map the trie represents, the empty string for an
  absent key, and leaves the trie representing the same map. It never raises and its fuel is never
  used up.\<close>

theorem trie_get_correct:
  assumes "ext_ok E" "rlp_ok E" "represents E chain_view tr m" "refcount_inv level_view n (tdb tr)"
  shows "\<exists>s'. Trie.get (chain_trie E) key tr = (Inr (Str (m key)), tr\<lparr>tdb := s'\<rparr>) \<and>
    represents E chain_view (tr\<lparr>tdb := s'\<rparr>) m"
  using lvl.rc.get_run [OF assms(1-3), where n = n and key = key] assms(1,4) by auto

theorem trie_get_correct_witness:
  "\<exists>s'. Trie.get (chain_trie ext_ref) ''key'' (blank_trie ext_ref level_empty) =
     (Inr (Str []), (blank_trie ext_ref level_empty)\<lparr>tdb := s'\<rparr>)"
  using trie_get_correct [OF ext_ref_ok ext_ref_rlp_ok represents_blank, of 0 level_empty "''key''"]
    level_empty_inv [of 0] by auto

text \<open>C7. \<open>Trie.update\<close> with a non-empty value either makes the trie represent the map with the
  key set to the value, or raises AssertionError because the database holds, under the hash of a
  node of the new tree, bytes that are not the encoding of that node: a collision. The nodes written
  before stay readable.\<close>

theorem trie_update_correct:
  assumes "ext_ok E" "rlp_ok E" "represents E chain_view tr m"
    and "refcount_inv level_view (n + (6 * length key + 4)) (tdb tr)"
    and "length key < 2 ^ 49" "v \<noteq> []" "length v < 2 ^ 50"
  shows "\<exists>r tr'. update (chain_trie E) key v tr = (r, tr') \<and>
    refcount_inv level_view n (tdb tr') \<and> chain_view (tdb tr) \<subseteq>\<^sub>m chain_view (tdb tr') \<and>
    (case r of Inl e \<Rightarrow> e = AssertionError \<and>
       (\<exists>t. tree_for t (m(key := v)) \<and> clash E (subtrees t) (chain_view (tdb tr')))
     | Inr u \<Rightarrow> represents E chain_view tr' (m(key := v)))"
  using lvl.rc.update_run [OF assms(1-3), of E n key v] assms by auto

theorem trie_update_correct_witness:
  "\<exists>r tr'. update (chain_trie ext_ref) ''key'' ''value'' (blank_trie ext_ref level_empty) = (r, tr') \<and>
    (case r of Inl e \<Rightarrow> e = AssertionError \<and>
       (\<exists>t. tree_for t ((\<lambda>_. [])(''key'' := ''value'')) \<and> clash ext_ref (subtrees t) (chain_view (tdb tr')))
     | Inr u \<Rightarrow> represents ext_ref chain_view tr' ((\<lambda>_. [])(''key'' := ''value'')))"
  using trie_update_correct [OF ext_ref_ok ext_ref_rlp_ok represents_blank, of 0 "''key''" level_empty "''value''"]
    level_empty_inv [of 22] by auto

text \<open>C9. \<open>Trie.delete\<close> of a key of at most 32 bytes removes the key from the map, with the same
  single error case as \<open>update\<close>; deleting an absent key changes nothing.\<close>

theorem trie_delete_correct:
  assumes "ext_ok E" "rlp_ok E" "represents E chain_view tr m"
    and "refcount_inv level_view (n + (4 * length key + 3)) (tdb tr)" and "length key \<le> 32"
  shows "\<exists>r tr'. delete (chain_trie E) key tr = (r, tr') \<and>
    refcount_inv level_view n (tdb tr') \<and> chain_view (tdb tr) \<subseteq>\<^sub>m chain_view (tdb tr') \<and>
    (case r of Inl e \<Rightarrow> e = AssertionError \<and>
       (\<exists>t. tree_for t m \<and> clash E (delete_trees t (nibs key)) (chain_view (tdb tr')))
     | Inr u \<Rightarrow> represents E chain_view tr' (m(key := [])))"
  using lvl.rc.delete_run [OF assms(1-3), of E n key] assms by auto

theorem trie_delete_correct_witness:
  "\<exists>r tr'. delete (chain_trie ext_ref) ''key'' (blank_trie ext_ref level_empty) = (r, tr') \<and>
    (case r of Inl e \<Rightarrow> e = AssertionError \<and>
       (\<exists>t. tree_for t (\<lambda>_. []) \<and> clash ext_ref (delete_trees t (nibs ''key'')) (chain_view (tdb tr')))
     | Inr u \<Rightarrow> represents ext_ref chain_view tr' ((\<lambda>_. [])(''key'' := [])))"
  using trie_delete_correct [OF ext_ref_ok ext_ref_rlp_ok represents_blank, of 0 "''key''" level_empty]
    level_empty_inv [of 15] by auto



text \<open>The root hash determines the contents: two tries over the same database with the same root
  hash represent the same map, provided that no other trie than the empty one has the blank root
  hash (a collision).\<close>

theorem root_hash_determines_contents:
  assumes "ext_ok E" "rlp_ok E" "represents E chain_view tr m" "represents E chain_view tr' m'"
    and "chain_view (tdb tr) = chain_view (tdb tr')" "root_hash tr = root_hash tr'"
    and "root_hash tr = BLANK_ROOT E \<Longrightarrow> m = (\<lambda>_. []) \<and> m' = (\<lambda>_. [])"
    and "refcount_inv level_view n (tdb tr)"
  shows "m = m'"
  using lvl.rc.root_hash_contents [OF assms(1-7), where n = n] assms by auto

theorem root_hash_determines_contents_witness:
  "(\<lambda>_. []) = ((\<lambda>_. [])(''key'' := []) :: contents)"
  by (rule root_hash_determines_contents [OF ext_ref_ok ext_ref_rlp_ok represents_blank, of "blank_trie ext_ref level_empty" _ level_empty 0])
    (use represents_blank [of ext_ref chain_view level_empty] level_empty_inv [of 0] level_empty_view in
      \<open>auto simp: clash_def fun_upd_idem\<close>)

text \<open>\<open>set_root_hash\<close> with the root hash of an earlier state of a trie, on any trie over a
  database that kept the nodes, brings the contents of that state back, provided again that only
  the empty trie has the blank root hash.\<close>

theorem set_root_hash_restores:
  assumes "ext_ok E" "rlp_ok E" "represents E chain_view tr m"
    and "chain_view (tdb tr) \<subseteq>\<^sub>m chain_view (tdb tr')" "refcount_inv level_view n (tdb tr')"
    and "root_hash tr = BLANK_ROOT E \<Longrightarrow> m = (\<lambda>_. [])"
  shows "\<exists>tr''. set_root_hash (chain_trie E) (root_hash tr) tr' = (Inr (), tr'') \<and>
    chain_view (tdb tr'') = chain_view (tdb tr') \<and> represents E chain_view tr'' m"
  using lvl.rc.set_root_hash_run [OF assms(1-4), where n = n] assms by auto

theorem set_root_hash_restores_witness:
  "\<exists>tr''. set_root_hash (chain_trie ext_ref) (root_hash (blank_trie ext_ref level_empty))
      \<lparr>tdb = level_empty, root_node = Str ''x'', root_hash = []\<rparr> = (Inr (), tr'') \<and>
    represents ext_ref chain_view tr'' (\<lambda>_. [])"
  using set_root_hash_restores [OF ext_ref_ok ext_ref_rlp_ok represents_blank, of level_empty
      "\<lparr>tdb = level_empty, root_node = Str ''x'', root_hash = []\<rparr>" 0]
    level_empty_inv [of 0] level_empty_view by (auto simp: clash_def)

end
