(* ===== verification/Transactions.thy ===== *)
theory Transactions
  imports Codec
begin

text \<open>
  \<open>transactions.py\<close>: the class \<open>Transaction\<close>. A transaction carries a category (0 allocate,
  1 delegate, 2 map servers, 3 locators), an IP prefix as its bytes and prefix length, the metadata
  of the last two categories, and a recoverable signature. The constructor normalises what it is
  given, text or bytes; it runs on every transaction that comes off the wire.

  The text parsers of the package \<open>ipaddr\<close> are the parameter \<open>iplib\<close>; its addresses and networks
  of packed bytes and of numbers are written out.
\<close>

section \<open>Addresses and networks of the package ipaddr\<close>

record iplib =
  ip_text :: "nat \<Rightarrow> string \<Rightarrow> nat option"
  net_text :: "nat \<Rightarrow> string \<Rightarrow> (nat \<times> nat) option"

definition ip_bits :: "nat \<Rightarrow> nat" where
  "ip_bits ver = (if ver = 4 then 32 else 128)"

definition ip_bytes :: "nat \<Rightarrow> nat" where
  "ip_bytes ver = (if ver = 4 then 4 else 16)"

definition packed :: "nat \<Rightarrow> nat \<Rightarrow> string" where
  "packed ver n = zpad (be_bytes n) (ip_bytes ver)"

text \<open>\<open>IPv4Address(Bytes(x))\<close> and \<open>IPv6Address(Bytes(x))\<close>; \<open>Bytes\<close> of a number is its text.\<close>

definition ip_packed :: "nat \<Rightarrow> pyarg \<Rightarrow> nat res" where
  "ip_packed ver x =
     (let b = (case x of PyStr s \<Rightarrow> s | PyInt n \<Rightarrow> py_str_int n)
      in if length b = ip_bytes ver then Inr (be_val b) else Inl ValueError)"

text \<open>\<open>IPv4Address(x)\<close> and \<open>IPv6Address(x)\<close> of a text or a number.\<close>

definition ip_arg :: "iplib \<Rightarrow> nat \<Rightarrow> pyarg \<Rightarrow> nat res" where
  "ip_arg L ver x =
     (case x of
        PyInt n \<Rightarrow> if 0 \<le> n \<and> n < 2 ^ ip_bits ver then Inr (nat n) else Inl ValueError
      | PyStr s \<Rightarrow> (case ip_text L ver s of Some n \<Rightarrow> Inr n | None \<Rightarrow> Inl ValueError))"

text \<open>\<open>IPv4Network(x)\<close> and \<open>IPv6Network(x)\<close> of a text or a number: the address with its host
  bits, and the prefix length.\<close>

definition net_arg :: "iplib \<Rightarrow> nat \<Rightarrow> pyarg \<Rightarrow> ipnet option" where
  "net_arg L ver x =
     (case x of
        PyInt n \<Rightarrow> if 0 \<le> n \<and> n < 2 ^ ip_bits ver then Some (IPNet ver (nat n) (ip_bits ver)) else None
      | PyStr s \<Rightarrow> map_option (\<lambda>(a, p). IPNet ver a p) (net_text L ver s))"

text \<open>\<open>IPv4Network(str(ip) + '/' + str(p))\<close>: the prefix length must fit.\<close>

definition net_of :: "nat \<Rightarrow> nat \<Rightarrow> int \<Rightarrow> ipnet res" where
  "net_of ver a p =
     (if 0 \<le> p \<and> p \<le> int (ip_bits ver) then Inr (IPNet ver a (nat p)) else Inl ValueError)"

text \<open>The parsers return addresses and prefix lengths in range; the text of an IPv4 network has at
  least seven characters.\<close>

definition iplib_ok :: "iplib \<Rightarrow> bool" where
  "iplib_ok L \<longleftrightarrow>
     (\<forall>ver s n. ip_text L ver s = Some n \<longrightarrow> n < 2 ^ ip_bits ver) \<and>
     (\<forall>ver s a p. net_text L ver s = Some (a, p) \<longrightarrow> a < 2 ^ ip_bits ver \<and> p \<le> ip_bits ver) \<and>
     (\<forall>s. length s < 7 \<longrightarrow> net_text L 4 s = None)"

section \<open>The constructor\<close>

record tx =
  tx_nonce :: nat
  tx_category :: nat
  tx_to :: string
  tx_afi :: nat
  tx_value :: string
  tx_metadata :: item
  tx_time :: nat
  tx_v :: nat
  tx_r :: nat
  tx_s :: nat
  tx_sender :: "string option"

datatype meta_arg = MetaStr string | MetaList "pyarg list"

text \<open>A bare \<open>except:\<close> that raises InvalidTransaction.\<close>

definition or_invalid :: "'a res \<Rightarrow> 'a res" where
  "or_invalid r = (case r of Inl e \<Rightarrow> Inl InvalidTransaction | Inr x \<Rightarrow> Inr x)"

definition check :: "bool \<Rightarrow> py_error \<Rightarrow> unit res" where
  "check b e = (if b then Inr () else Inl e)"

text \<open>The address family of an entry: its number and the bytes that are kept.\<close>

definition meta_afi :: "bool \<Rightarrow> pyarg \<Rightarrow> (int \<times> string) res" where
  "meta_afi as_bytes x = or_invalid
     (bindE (case x of
         PyStr s \<Rightarrow> if as_bytes then bindE (bytes_to_int s) (\<lambda>n. Inr (n, s)) else Inl StructError
       | PyInt n \<Rightarrow> if as_bytes then Inl TypeError else bindE (encode_int8 n) (\<lambda>b. Inr (n, b)))
       (\<lambda>(n, b). bindE (check (n = 1 \<or> n = 2) InvalidTransaction) (\<lambda>_. Inr (n, b))))"

definition afi_version :: "int \<Rightarrow> nat" where
  "afi_version afi = (if afi = 1 then 4 else 6)"

definition meta_ip :: "iplib \<Rightarrow> bool \<Rightarrow> int \<Rightarrow> pyarg \<Rightarrow> string res" where
  "meta_ip L as_bytes afi x =
     (let ver = afi_version afi
      in bindE (if as_bytes then ip_packed ver x else ip_arg L ver x) (\<lambda>n. Inr (packed ver n)))"

definition map_server_entry :: "ext \<Rightarrow> iplib \<Rightarrow> bool \<Rightarrow> pyarg list \<Rightarrow> string list res" where
  "map_server_entry E L as_bytes m =
     (case m of [a, ip, ms] \<Rightarrow>
        bindE (meta_afi as_bytes a) (\<lambda>(afi, afib).
        or_invalid
          (bindE (meta_ip L as_bytes afi ip) (\<lambda>p.
           bindE (normalize_address E ms True) (\<lambda>addr. Inr [afib, p, addr]))))
      | _ \<Rightarrow> Inl IndexError)"

text \<open>A priority or a weight: a number up to 255, a text in the numeric form compares as larger.\<close>

definition meta_byte :: "ext \<Rightarrow> bool \<Rightarrow> pyarg \<Rightarrow> string res" where
  "meta_byte E as_bytes x =
     bindE (case x of
         PyStr s \<Rightarrow> if as_bytes then bytes_to_int s else Inl InvalidTransaction
       | PyInt n \<Rightarrow> if as_bytes then Inl TypeError else Inr n)
       (\<lambda>n. if n < 0 \<or> n > 255 then Inl InvalidTransaction else int_to_bytes E (PyInt n))"

definition locator_entry :: "ext \<Rightarrow> iplib \<Rightarrow> bool \<Rightarrow> pyarg list \<Rightarrow> string list res" where
  "locator_entry E L as_bytes m =
     (case m of [a, ip, pr, w] \<Rightarrow>
        bindE (meta_afi as_bytes a) (\<lambda>(afi, afib).
        or_invalid
          (bindE (meta_ip L as_bytes afi ip) (\<lambda>p.
           bindE (meta_byte E as_bytes pr) (\<lambda>prb.
           bindE (meta_byte E as_bytes w) (\<lambda>wb. Inr [afib, p, prb, wb])))))
      | _ \<Rightarrow> Inl IndexError)"

text \<open>The loop over the entries of \<open>n\<close> elements; the type of the first element decides the form of
  all of them.\<close>

definition meta_list :: "nat \<Rightarrow> (bool \<Rightarrow> pyarg list \<Rightarrow> string list res) \<Rightarrow> meta_arg \<Rightarrow> item res" where
  "meta_list n entry metadata =
     (case metadata of
        MetaStr s \<Rightarrow> Inl InvalidTransaction
      | MetaList m \<Rightarrow>
          if length m mod n \<noteq> 0 then Inl InvalidTransaction
          else bindE (py_nth m 0) (\<lambda>m0.
               let as_bytes = (case m0 of PyStr s \<Rightarrow> True | PyInt k \<Rightarrow> False)
               in bindE (mapE (entry as_bytes) (chunks n m)) (\<lambda>es. Inr (Lst (map Str (concat es))))))"

definition init_metadata :: "ext \<Rightarrow> iplib \<Rightarrow> nat \<Rightarrow> meta_arg \<Rightarrow> item res" where
  "init_metadata E L category metadata =
     (if category = 0 \<or> category = 1
      then if metadata \<noteq> MetaStr [] then Inl InvalidTransaction else Inr (Str [])
      else if category = 2 then meta_list 3 (map_server_entry E L) metadata
      else if category = 3 then meta_list 4 (locator_entry E L) metadata
      else Inl InvalidTransaction)"

text \<open>The fallback for a value of packed bytes looks at its length only, not at the family.\<close>

definition packed_net :: "nat \<Rightarrow> string \<Rightarrow> ipnet res" where
  "packed_net ver value =
     or_invalid
       (bindE (ip_packed ver (PyStr (take (ip_bytes ver) value))) (\<lambda>a.
        bindE (py_nth value (ip_bytes ver)) (\<lambda>c.
        bindE (bytes_to_int [c]) (\<lambda>p. net_of ver a p))))"

definition init_value :: "iplib \<Rightarrow> nat \<Rightarrow> pyarg \<Rightarrow> string res" where
  "init_value L afi value =
     bindE (case net_arg L (afi_version (int afi)) value of
        Some n \<Rightarrow> Inr n
      | None \<Rightarrow>
          (case value of
             PyInt n \<Rightarrow> Inl TypeError
           | PyStr b \<Rightarrow>
               if length b = 5 then packed_net 4 b
               else if length b = 17 then packed_net 6 b
               else Inl InvalidTransaction))
       (\<lambda>net. bindE (encode_int8 (int (net_prefixlen net))) (\<lambda>p.
        Inr (packed (net_version net) (net_value net) @ p)))"

definition tx_init ::
  "ext \<Rightarrow> iplib \<Rightarrow> nat \<Rightarrow> nat \<Rightarrow> pyarg \<Rightarrow> nat \<Rightarrow> pyarg \<Rightarrow> meta_arg \<Rightarrow> nat \<Rightarrow> nat \<Rightarrow> nat \<Rightarrow> nat \<Rightarrow> tx res" where
  "tx_init E L nonce category to afi value metadata time v r s =
     bindE (init_metadata E L category metadata) (\<lambda>m.
     bindE (normalize_address E to True) (\<lambda>to'.
     if afi \<noteq> 1 \<and> afi \<noteq> 2 then Inl InvalidTransaction
     else bindE (init_value L afi value) (\<lambda>value'.
       Inr \<lparr>tx_nonce = nonce, tx_category = category, tx_to = to', tx_afi = afi, tx_value = value',
         tx_metadata = m, tx_time = time, tx_v = v, tx_r = r, tx_s = s, tx_sender = None\<rparr>)))"

section \<open>Serialisation, hash and signature\<close>

definition unsigned_fields :: "ext \<Rightarrow> tx \<Rightarrow> item list" where
  "unsigned_fields E t =
     [Str (be_ser E (tx_nonce t)), Str (be_ser E (tx_category t)), Str (tx_to t),
      Str (zpad (be_ser E (tx_afi t)) 1), Str (tx_value t), tx_metadata t, Str (be_ser E (tx_time t))]"

definition tx_item :: "ext \<Rightarrow> tx \<Rightarrow> item" where
  "tx_item E t = Lst (unsigned_fields E t @
     [Str (be_ser E (tx_v t)), Str (be_ser E (tx_r t)), Str (be_ser E (tx_s t))])"

definition tx_hash :: "ext \<Rightarrow> tx \<Rightarrow> string" where
  "tx_hash E t = sha3 E (rlp_enc E (tx_item E t))"

definition hash_message :: "ext \<Rightarrow> tx \<Rightarrow> string \<Rightarrow> string res" where
  "hash_message E t msg =
     (let prefix = (if tx_category t = 0 then ''Allocate:'' @ [CHR 0x0A]
                    else if tx_category t = 1 then ''Delegate:'' @ [CHR 0x0A]
                    else if tx_category t = 2 then ''MapServer:'' @ [CHR 0x0A]
                    else if tx_category t = 3 then ''Locator:'' @ [CHR 0x0A] else [])
      in bindE (int_to_bytes E (PyInt (int (length prefix)))) (\<lambda>a.
         bindE (int_to_bytes E (PyInt (int (length msg)))) (\<lambda>b.
         Inr (sha3 E (a @ prefix @ b @ msg)))))"

definition null_address :: string where
  "null_address = replicate 20 (CHR 0xFF)"

definition network_id :: "tx \<Rightarrow> int option" where
  "network_id t =
     (if tx_r t = 0 \<and> tx_s t = 0 then Some (int (tx_v t))
      else if tx_v t = 27 \<or> tx_v t = 28 then None
      else Some ((int (tx_v t) - 1) div 2 - 17))"

definition unsigned_hash :: "ext \<Rightarrow> item list \<Rightarrow> string" where
  "unsigned_hash E flds = sha3 E (rlp_enc E (Lst flds))"

definition network_hash :: "ext \<Rightarrow> item list \<Rightarrow> nat \<Rightarrow> string" where
  "network_hash E flds n = sha3 E (rlp_enc E (Lst (flds @ [Str (be_ser E n), Str [], Str []])))"

text \<open>The part of \<open>sender\<close> that recovers the address, the same in \<open>Block.signer\<close>; \<open>flds\<close> are the
  serialised fields without the signature, \<open>invalid\<close> the exception of the class and \<open>nid\<close> what
  \<open>self.network_id\<close> gives. A \<open>v\<close> of 29 to
  36 or below 27 leaves \<open>sighash\<close> unbound. The recovery uses \<open>self.v\<close>, not \<open>vee\<close>.\<close>

definition recover_sender ::
  "ext \<Rightarrow> py_error \<Rightarrow> item list \<Rightarrow> int res \<Rightarrow> nat \<Rightarrow> nat \<Rightarrow> nat \<Rightarrow> string res" where
  "recover_sender E invalid flds nid v r s =
     bindE (if v = 27 \<or> v = 28 then Inr (Some (unsigned_hash E flds))
            else if 37 \<le> v
            then bindE nid (\<lambda>n.
                 if int v - n * 2 - 8 \<noteq> 27 \<and> int v - n * 2 - 8 \<noteq> 28 then Inl AssertionError
                 else Inr (Some (network_hash E flds (nat n))))
            else Inr None) (\<lambda>sighash.
     if r \<ge> secpk1n \<or> s \<ge> secpk1n \<or> r = 0 \<or> s = 0 then Inl invalid
     else case sighash of
            None \<Rightarrow> Inl NameError
          | Some h \<Rightarrow>
              bindE (ecrecover_to_pub E h v r s) (\<lambda>pub.
              if pub = replicate 64 (CHR 0x00) then Inl invalid
              else Inr (let a = sha3 E pub in drop (length a - 20) a)))"

definition sender :: "ext \<Rightarrow> (tx, string) M" where
  "sender E =
     bindM (gets (\<lambda>t. t)) (\<lambda>t.
     case tx_sender t of
       Some (c # a) \<Rightarrow> ret (c # a)
     | _ \<Rightarrow>
         bindM (liftE (if tx_r t = 0 \<and> tx_s t = 0 then Inr null_address
            else recover_sender E InvalidTransaction (unsigned_fields E t)
                   (case network_id t of None \<Rightarrow> Inl TypeError | Some n \<Rightarrow> Inr n)
                   (tx_v t) (tx_r t) (tx_s t))) (\<lambda>a.
         bindM (modifyM (\<lambda>t. t\<lparr>tx_sender := Some a\<rparr>)) (\<lambda>_. ret a)))"

text \<open>The hash that is signed, and the signature with the network id folded into \<open>v\<close>.\<close>

definition sign_hash :: "ext \<Rightarrow> item list \<Rightarrow> nat option \<Rightarrow> string res" where
  "sign_hash E flds nid =
     (case nid of
        None \<Rightarrow> Inr (unsigned_hash E flds)
      | Some n \<Rightarrow> if 1 \<le> n \<and> n < 2 ^ 63 - 18 then Inr (network_hash E flds n) else Inl AssertionError)"

definition sign_v :: "nat \<Rightarrow> nat option \<Rightarrow> nat" where
  "sign_v v nid = (case nid of None \<Rightarrow> v | Some n \<Rightarrow> v + 8 + n * 2)"

definition sign :: "ext \<Rightarrow> pyarg \<Rightarrow> nat option \<Rightarrow> (tx, unit) M" where
  "sign E key nid =
     bindM (gets (\<lambda>t. unsigned_fields E t)) (\<lambda>flds.
     bindM (liftE (sign_hash E flds nid)) (\<lambda>rawhash.
     bindM (liftE (normalize_key E key)) (\<lambda>k.
     case ecsign E rawhash k of (v, r, s) \<Rightarrow>
     bindM (modifyM (\<lambda>t. t\<lparr>tx_v := sign_v v nid, tx_r := r, tx_s := s\<rparr>)) (\<lambda>_.
     bindM (liftE (privtoaddr E (PyStr k))) (\<lambda>a.
     modifyM (\<lambda>t. t\<lparr>tx_sender := Some a\<rparr>))))))"

definition ip_network :: "tx \<Rightarrow> ipnet res" where
  "ip_network t =
     (let ver = (if tx_afi t = 1 then 4 else 6)
      in bindE (ip_packed ver (PyStr (take (ip_bytes ver) (tx_value t)))) (\<lambda>a.
         bindE (py_nth (tx_value t) (ip_bytes ver)) (\<lambda>c.
         bindE (bytes_to_int [c]) (\<lambda>p. net_of ver a p))))"


section \<open>Laws of the constructor\<close>

lemma or_invalid_simps [simp]:
  "or_invalid (Inr x) = Inr x" "or_invalid (Inl e) = Inl InvalidTransaction"
  "or_invalid r = Inr x \<longleftrightarrow> r = Inr x"
  by (auto simp: or_invalid_def split: sum.splits)

lemma check_simps [simp]: "check b e = Inr u \<longleftrightarrow> b" "check True e = Inr ()"
  by (auto simp: check_def)

lemma packed_length: "n < 2 ^ ip_bits ver \<Longrightarrow> length (packed ver n) = ip_bytes ver"
  using length_be_bytes_le [of n "ip_bytes ver"]
  by (auto simp: packed_def zpad_length ip_bits_def ip_bytes_def split: if_splits)

lemma be_val_packed [simp]: "be_val (packed ver n) = n"
  by (simp add: packed_def)

lemma ip_packed_packed [simp]: "n < 2 ^ ip_bits ver \<Longrightarrow> ip_packed ver (PyStr (packed ver n)) = Inr n"
  by (simp add: ip_packed_def packed_length)

lemma ip_packed_bound: "ip_packed ver x = Inr n \<Longrightarrow> n < 2 ^ ip_bits ver"
proof -
  assume "ip_packed ver x = Inr n"
  then obtain b where "length b = ip_bytes ver" "n = be_val b"
    by (auto simp: ip_packed_def Let_def split: if_splits)
  moreover have "(256 :: nat) ^ ip_bytes ver = 2 ^ ip_bits ver"
    by (simp add: ip_bytes_def ip_bits_def)
  ultimately show ?thesis
    using be_val_less [of b] by simp
qed

lemma ip_arg_bound: "iplib_ok L \<Longrightarrow> ip_arg L ver x = Inr n \<Longrightarrow> n < 2 ^ ip_bits ver"
  by (cases x) (auto simp: ip_arg_def iplib_ok_def zless_nat_eq_int_zless nat_less_iff split: if_splits option.splits)

lemma normalize_again:
  "normalize_address E x True = Inr a \<Longrightarrow> normalize_address E (PyStr a) True = Inr a \<and> (a = [] \<or> length a = 20)"
  using normalize_address_length [of E x True a] normalize_address_20 [of a E True]
  by (cases "a = []") (auto simp: normalize_address_def)

lemma be_val_single [simp]: "be_val [c] = ord c"
  using be_val_simps(2) [of "[]" c] by simp

lemma bytes_to_int_single: "n < 256 \<Longrightarrow> bytes_to_int [char_of n] = Inr (int n)"
  by (simp add: bytes_to_int_eq)

lemma char_of_neq: "n < 256 \<Longrightarrow> n \<noteq> ord c \<Longrightarrow> char_of n \<noteq> c"
  by (metis ord_char_of)

lemma be_bytes_single: "0 < n \<Longrightarrow> n < 256 \<Longrightarrow> be_bytes n = [char_of n]"
  by (subst be_bytes.simps) simp

lemma meta_afi_again:
  assumes "meta_afi b x = Inr (n, s)"
  shows "(n = 1 \<or> n = 2) \<and> meta_afi True (PyStr s) = Inr (n, s)"
proof (cases x)
  case (PyStr t)
  with assms show ?thesis
    by (cases b) (auto simp: meta_afi_def bindE_eq_Inr)
next
  case (PyInt k)
  with assms show ?thesis
    by (cases b) (auto simp: meta_afi_def bindE_eq_Inr encode_int8_def bytes_to_int_eq split: if_splits)
qed

lemma meta_ip_again:
  assumes "iplib_ok L" "meta_ip L b afi x = Inr s"
  shows "meta_ip L True afi (PyStr s) = Inr s"
  using assms ip_packed_bound [of "afi_version afi" x] ip_arg_bound [of L "afi_version afi" x]
  by (cases b) (auto simp: meta_ip_def Let_def bindE_eq_Inr)

lemma meta_byte_again:
  assumes "ext_ok E" "meta_byte E b x = Inr s" "s \<noteq> []"
  shows "meta_byte E True (PyStr s) = Inr s"
proof -
  obtain n :: int where n: "0 \<le> n" "n \<le> 255" "s = be_bytes (nat n)"
  proof -
    obtain n where "\<not> (n < 0 \<or> n > 255)" "int_to_bytes E (PyInt n) = Inr s"
      using assms(2) unfolding meta_byte_def bindE_eq_Inr by (auto split: if_splits)
    with assms(1) that [of n] show ?thesis
      by (simp add: int_to_bytes_def int_to_big_endian_def ext_okD(2))
  qed
  with assms(3) have "0 < nat n" by (cases "nat n") auto
  with n have s: "s = [char_of (nat n)]" using be_bytes_single [of "nat n"] by auto
  then have "bytes_to_int s = Inr n" using n bytes_to_int_single [of "nat n"] by simp
  then show ?thesis
    using n assms(1) by (simp add: meta_byte_def int_to_bytes_def int_to_big_endian_def ext_okD(2))
qed

lemma map_server_entry_again:
  assumes "iplib_ok L" "map_server_entry E L b m = Inr e"
  shows "length e = 3 \<and> map_server_entry E L True (map PyStr e) = Inr e"
  using assms meta_afi_again meta_ip_again normalize_again
  by (auto simp: map_server_entry_def bindE_eq_Inr split: list.splits prod.splits)

lemma locator_entry_again:
  assumes "ext_ok E" "iplib_ok L" "locator_entry E L b m = Inr e" "\<forall>x \<in> set e. x \<noteq> []"
  shows "length e = 4 \<and> locator_entry E L True (map PyStr e) = Inr e"
  using assms meta_afi_again meta_ip_again meta_byte_again [OF assms(1)]
  by (auto simp: locator_entry_def bindE_eq_Inr split: list.splits prod.splits)

text \<open>The metadata of a constructed transaction as an argument of the constructor again, the form
  in which it arrives after decoding.\<close>

definition meta_of :: "item \<Rightarrow> meta_arg" where
  "meta_of m = (case m of
     Str s \<Rightarrow> MetaStr s
   | Lst xs \<Rightarrow> MetaList (map (\<lambda>x. case x of Str s \<Rightarrow> PyStr s | Lst _ \<Rightarrow> PyStr []) xs))"

definition meta_strings :: "item \<Rightarrow> string set" where
  "meta_strings m = (case m of Str s \<Rightarrow> {} | Lst xs \<Rightarrow> {s. Str s \<in> set xs})"

lemma meta_list_again:
  assumes m: "meta_list n entry m = Inr r" and n: "0 < n"
    and again: "\<And>b c e. entry b c = Inr e \<Longrightarrow> (\<forall>x \<in> set e. x \<in> meta_strings r) \<Longrightarrow>
      length e = n \<and> entry True (map PyStr e) = Inr e"
  shows "meta_list n entry (meta_of r) = Inr r"
proof -
  obtain xs where xs: "m = MetaList xs"
    using m by (auto simp: meta_list_def split: meta_arg.splits)
  obtain x0 es where x0: "py_nth xs 0 = Inr x0"
    and es: "mapE (entry (case x0 of PyStr s \<Rightarrow> True | PyInt k \<Rightarrow> False)) (chunks n xs) = Inr es"
    and r: "r = Lst (map Str (concat es))"
    using m xs by (auto simp: meta_list_def bindE_eq_Inr Let_def split: if_splits)
  have each: "length e = n \<and> entry True (map PyStr e) = Inr e" if "e \<in> set es" for e
  proof -
    obtain c where "entry (case x0 of PyStr s \<Rightarrow> True | PyInt k \<Rightarrow> False) c = Inr e"
      using es \<open>e \<in> set es\<close> by (auto simp: mapE_eq_Inr list_all2_conv_all_nth in_set_conv_nth)
    then show ?thesis
      using that r by (intro again) (auto simp: meta_strings_def)
  qed
  have ne: "es \<noteq> []"
  proof -
    have "xs \<noteq> []" using x0 by (auto simp: py_nth_def split: if_splits)
    then have "chunks n xs \<noteq> []" using n by (subst chunks.simps) simp
    then show ?thesis using es by (auto simp: mapE_eq_Inr)
  qed
  then obtain e es' where es': "es = e # es'" by (cases es) auto
  have "e \<noteq> []" using each [of e] es' n by auto
  have arg: "meta_of r = MetaList (concat (map (map PyStr) es))"
    by (simp add: meta_of_def r map_concat comp_def)
  have "chunks n (concat (map (map PyStr) es)) = map (map PyStr) es"
    using each n by (intro chunks_concat) auto
  moreover have "mapE (entry True) (map (map PyStr) es) = Inr es"
    using each by (auto simp: mapE_eq_Inr list_all2_conv_all_nth)
  moreover have "length (concat (map (map PyStr) es)) mod n = 0"
  proof -
    have "map length (map (map PyStr) es) = replicate (length es) n"
      using each by (intro replicate_eqI) auto
    then have "length (concat (map (map PyStr) es)) = length es * n"
      by (simp add: length_concat sum_list_replicate)
    then show ?thesis by simp
  qed
  moreover have "py_nth (concat (map (map PyStr) es)) 0 = Inr (PyStr (hd e))"
    using es' \<open>e \<noteq> []\<close> by (cases e) (auto simp: py_nth_def)
  ultimately show ?thesis
    unfolding arg by (simp add: meta_list_def r)
qed

lemma init_metadata_again:
  assumes "ext_ok E" "iplib_ok L" "init_metadata E L category m = Inr r"
    and "category = 3 \<Longrightarrow> [] \<notin> meta_strings r"
  shows "init_metadata E L category (meta_of r) = Inr r"
proof -
  have "category \<le> 3" using assms(3) by (auto simp: init_metadata_def split: if_splits)
  then consider "category = 0 \<or> category = 1" | "category = 2" | "category = 3" by linarith
  then show ?thesis
  proof cases
    case 1
    with assms(3) have "r = Str []" by (auto simp: init_metadata_def split: if_splits)
    with 1 show ?thesis by (auto simp: init_metadata_def meta_of_def)
  next
    case 2
    with assms(3) have "meta_list 3 (map_server_entry E L) m = Inr r" by (simp add: init_metadata_def)
    from meta_list_again [OF this] 2 map_server_entry_again [OF assms(2)]
    show ?thesis by (simp add: init_metadata_def)
  next
    case 3
    with assms(3) have "meta_list 4 (locator_entry E L) m = Inr r" by (simp add: init_metadata_def)
    from meta_list_again [OF this] 3 locator_entry_again [OF assms(1,2)] assms(4)
    show ?thesis by (simp add: init_metadata_def) blast
  qed
qed

lemma init_value_form:
  assumes "iplib_ok L" "init_value L afi value = Inr b"
  shows "\<exists>ver a p. (ver = 4 \<or> ver = 6) \<and> a < 2 ^ ip_bits ver \<and> p \<le> ip_bits ver \<and>
    b = packed ver a @ [char_of p]"
proof -
  obtain net where net: "(case net_arg L (afi_version (int afi)) value of
        Some n \<Rightarrow> Inr n
      | None \<Rightarrow>
          (case value of
             PyInt n \<Rightarrow> Inl TypeError
           | PyStr b \<Rightarrow>
               if length b = 5 then packed_net 4 b
               else if length b = 17 then packed_net 6 b
               else Inl InvalidTransaction)) = Inr net"
    and b: "bindE (encode_int8 (int (net_prefixlen net))) (\<lambda>p. Inr (packed (net_version net) (net_value net) @ p)) = Inr b"
    using assms(2) by (auto simp: init_value_def bindE_eq_Inr)
  have packed: "net_version n = ver \<and> net_value n < 2 ^ ip_bits ver \<and> net_prefixlen n \<le> ip_bits ver"
    if "packed_net ver v = Inr n" for ver v n
    using that ip_packed_bound [of ver]
    by (auto simp: packed_net_def bindE_eq_Inr net_of_def split: if_splits)
  have arg: "net_version n = ver \<and> net_value n < 2 ^ ip_bits ver \<and> net_prefixlen n \<le> ip_bits ver"
    if "net_arg L ver value = Some n" for ver n
    using that assms(1)
    by (auto simp: net_arg_def iplib_ok_def nat_less_iff split: pyarg.splits if_splits)
  have "(net_version net = 4 \<or> net_version net = 6) \<and> net_value net < 2 ^ ip_bits (net_version net) \<and>
      net_prefixlen net \<le> ip_bits (net_version net)"
    using net packed [of 4 _ net] packed [of 6 _ net] arg [of "afi_version (int afi)" net]
    by (auto simp: afi_version_def split: option.splits pyarg.splits if_splits)
  moreover have "b = packed (net_version net) (net_value net) @ [char_of (net_prefixlen net)]"
    using b by (auto simp: encode_int8_def bindE_eq_Inr split: if_splits)
  ultimately show ?thesis by blast
qed

lemma packed_net_packed:
  assumes "ver = 4 \<or> ver = 6" "a < 2 ^ ip_bits ver" "p \<le> ip_bits ver"
  shows "packed_net ver (packed ver a @ [char_of p]) = Inr (IPNet ver a p)"
proof -
  have "p < 256" using assms(1,3) by (auto simp: ip_bits_def)
  moreover have "(packed ver a @ [char_of p]) ! ip_bytes ver = char_of p"
    using packed_length [OF assms(2)] by (simp add: nth_append)
  ultimately show ?thesis
    using assms packed_length [OF assms(2)]
    by (simp add: packed_net_def py_nth_def bytes_to_int_single net_of_def)
qed

lemma init_value_packed:
  assumes "ver = 4 \<or> ver = 6" "a < 2 ^ ip_bits ver" "p \<le> ip_bits ver"
    and "net_arg L (afi_version (int afi)) (PyStr (packed ver a @ [char_of p])) = None"
  shows "init_value L afi (PyStr (packed ver a @ [char_of p])) = Inr (packed ver a @ [char_of p])"
proof -
  have "p < 256" using assms(1,3) by (auto simp: ip_bits_def)
  with assms packed_net_packed [OF assms(1-3)] packed_length [OF assms(2)] show ?thesis
    by (auto simp: init_value_def encode_int8_def ip_bytes_def ip_bits_def)
qed

section \<open>Properties of transactions\<close>

text \<open>A concrete text parser, for the witnesses: it knows one address and one network.\<close>

definition iplib_ref :: iplib where
  "iplib_ref = \<lparr>ip_text = (\<lambda>ver s. if ver = 4 \<and> s = ''10.0.0.1'' then Some 167772161 else None),
     net_text = (\<lambda>ver s. if ver = 4 \<and> s = ''10.0.0.0/8'' then Some (167772160, 8) else None)\<rparr>"

lemma iplib_ref_ok: "iplib_ok iplib_ref"
  by (auto simp: iplib_ok_def iplib_ref_def ip_bits_def)

lemma tx_init_eq_Inr:
  "tx_init E L nonce category to afi value metadata time v r s = Inr t \<longleftrightarrow>
     (\<exists>m to' value'. init_metadata E L category metadata = Inr m \<and> normalize_address E to True = Inr to' \<and>
        (afi = 1 \<or> afi = 2) \<and> init_value L afi value = Inr value' \<and>
        t = \<lparr>tx_nonce = nonce, tx_category = category, tx_to = to', tx_afi = afi, tx_value = value',
         tx_metadata = m, tx_time = time, tx_v = v, tx_r = r, tx_s = s, tx_sender = None\<rparr>)"
  by (auto simp: tx_init_def bindE_eq_Inr)

lemma tx_init_again:
  assumes "ext_ok E" "iplib_ok L" "tx_init E L nonce category to afi value metadata time v r s = Inr t"
    and "category = 3 \<Longrightarrow> [] \<notin> meta_strings (tx_metadata t)"
    and "net_text L (afi_version (int afi)) (tx_value t) = None"
  shows "tx_init E L (tx_nonce t) (tx_category t) (PyStr (tx_to t)) (tx_afi t) (PyStr (tx_value t))
    (meta_of (tx_metadata t)) (tx_time t) (tx_v t) (tx_r t) (tx_s t) = Inr t"
proof -
  obtain m to' value' where parts: "init_metadata E L category metadata = Inr m"
      "normalize_address E to True = Inr to'" "afi = 1 \<or> afi = 2" "init_value L afi value = Inr value'"
    and t: "t = \<lparr>tx_nonce = nonce, tx_category = category, tx_to = to', tx_afi = afi, tx_value = value',
         tx_metadata = m, tx_time = time, tx_v = v, tx_r = r, tx_s = s, tx_sender = None\<rparr>"
    using assms(3) by (auto simp: tx_init_eq_Inr)
  obtain ver a p where val: "ver = 4 \<or> ver = 6" "a < 2 ^ ip_bits ver" "p \<le> ip_bits ver"
      "value' = packed ver a @ [char_of p]"
    using init_value_form [OF assms(2) parts(4)] by blast
  have "init_value L afi (PyStr value') = Inr value'"
    unfolding val(4) using assms(5) t val by (intro init_value_packed) (auto simp: net_arg_def)
  moreover have "init_metadata E L category (meta_of m) = Inr m"
    using init_metadata_again [OF assms(1,2) parts(1)] assms(4) t by simp
  ultimately show ?thesis
    using t parts(3) normalize_again [OF parts(2)] by (simp add: tx_init_eq_Inr)
qed

text \<open>The constructor normalises once and for all: called again with the fields of the
  transaction it built, as decoding does, it builds the same transaction. The exceptions are a
  locator with an empty priority or weight, and a packed value that happens to be the text of an
  IPv6 network.\<close>

theorem tx_init_idempotent:
  assumes "ext_ok E" "iplib_ok L" "tx_init E L nonce category to afi value metadata time v r s = Inr t"
    and "category = 3 \<Longrightarrow> [] \<notin> meta_strings (tx_metadata t)"
    and "net_text L (afi_version (int afi)) (tx_value t) = None"
  shows "tx_init E L (tx_nonce t) (tx_category t) (PyStr (tx_to t)) (tx_afi t) (PyStr (tx_value t))
    (meta_of (tx_metadata t)) (tx_time t) (tx_v t) (tx_r t) (tx_s t) = Inr t"
  by (rule tx_init_again) (use assms in auto)

theorem tx_init_idempotent_witness:
  "\<exists>t. tx_init ext_ref iplib_ref 5 2 (PyStr []) 1 (PyStr ''10.0.0.0/8'')
      (MetaList [PyInt 1, PyStr ''10.0.0.1'', PyInt 7]) 9 0 0 0 = Inr t \<and>
    tx_init ext_ref iplib_ref (tx_nonce t) (tx_category t) (PyStr (tx_to t)) (tx_afi t) (PyStr (tx_value t))
      (meta_of (tx_metadata t)) (tx_time t) (tx_v t) (tx_r t) (tx_s t) = Inr t"
proof -
  let ?init = "tx_init ext_ref iplib_ref 5 2 (PyStr []) 1 (PyStr ''10.0.0.0/8'')
      (MetaList [PyInt 1, PyStr ''10.0.0.1'', PyInt 7]) 9 0 0 0"
  have ch: "chunks 3 [PyInt 1, PyStr ''10.0.0.1'', PyInt 7] = [[PyInt 1, PyStr ''10.0.0.1'', PyInt 7]]"
    by (simp add: chunks.simps)
  have net: "net_arg iplib_ref 4 (PyStr ''10.0.0.0/8'') = Some (IPNet 4 167772160 8)"
    by (simp add: net_arg_def iplib_ref_def)
  have c: "char_of (8 :: nat) \<noteq> CHR ''8''"
    by (rule char_of_neq) simp_all
  have "\<exists>t. ?init = Inr t \<and> net_text iplib_ref 4 (tx_value t) = None \<and> tx_category t = 2"
    by (auto simp: tx_init_eq_Inr init_metadata_def meta_list_def ch py_nth_def map_server_entry_def
        meta_afi_def encode_int8_def meta_ip_def ip_arg_def afi_version_def normalize_address_def
        init_value_def net check_def Let_def)
      (auto simp: iplib_ref_def packed_def ip_bytes_def zpad_def c)
  then obtain t where t: "?init = Inr t" "net_text iplib_ref 4 (tx_value t) = None" by blast
  have "tx_init ext_ref iplib_ref (tx_nonce t) (tx_category t) (PyStr (tx_to t)) (tx_afi t) (PyStr (tx_value t))
      (meta_of (tx_metadata t)) (tx_time t) (tx_v t) (tx_r t) (tx_s t) = Inr t"
    by (rule tx_init_idempotent [OF ext_ref_ok iplib_ref_ok t(1)]) (use t in \<open>simp_all add: afi_version_def\<close>)
  with t(1) show ?thesis by blast
qed

text \<open>The prefix of a constructed transaction: \<open>ip_network\<close> reads back the address and the prefix
  length that the value holds, when the value has the length of the declared family.\<close>

theorem ip_network_reads_value:
  assumes "iplib_ok L" "tx_init E L nonce category to afi value metadata time v r s = Inr t"
    and "length (tx_value t) = ip_bytes (afi_version (int afi)) + 1"
  shows "\<exists>a p. ip_network t = Inr (IPNet (afi_version (int afi)) a p) \<and> p \<le> ip_bits (afi_version (int afi)) \<and>
    tx_value t = packed (afi_version (int afi)) a @ [char_of p]"
proof -
  obtain value' where parts: "afi = 1 \<or> afi = 2" "init_value L afi value = Inr value'"
    and t: "tx_afi t = afi" "tx_value t = value'"
    using assms(2) by (auto simp: tx_init_eq_Inr)
  obtain ver a p where val: "ver = 4 \<or> ver = 6" "a < 2 ^ ip_bits ver" "p \<le> ip_bits ver"
      "value' = packed ver a @ [char_of p]"
    using init_value_form [OF assms(1) parts(2)] by blast
  have ver: "ver = afi_version (int afi)"
    using assms(3) t val packed_length [OF val(2)] parts(1)
    by (auto simp: ip_bytes_def afi_version_def split: if_splits)
  have "packed_net ver value' = Inr (IPNet ver a p)"
    unfolding val(4) using packed_net_packed val by blast
  then have "ip_network t = Inr (IPNet ver a p)"
    using t parts(1) ver by (auto simp: ip_network_def packed_net_def afi_version_def)
  with ver val t show ?thesis by auto
qed

theorem ip_network_reads_value_witness:
  "\<exists>t. tx_init ext_ref iplib_ref 5 0 (PyStr []) 1 (PyStr ''10.0.0.0/8'') (MetaStr []) 9 0 0 0 = Inr t \<and>
    (\<exists>a p. ip_network t = Inr (IPNet 4 a p) \<and> p \<le> 32 \<and> tx_value t = packed 4 a @ [char_of p])"
proof -
  let ?init = "tx_init ext_ref iplib_ref 5 0 (PyStr []) 1 (PyStr ''10.0.0.0/8'') (MetaStr []) 9 0 0 0"
  have net: "net_arg iplib_ref 4 (PyStr ''10.0.0.0/8'') = Some (IPNet 4 167772160 8)"
    by (simp add: net_arg_def iplib_ref_def)
  have len: "length (packed 4 167772160) = 4"
    using packed_length [of 167772160 4] by (simp add: ip_bits_def ip_bytes_def)
  obtain t where t: "?init = Inr t" "length (tx_value t) = 5"
    by (auto simp: tx_init_eq_Inr init_metadata_def encode_int8_def afi_version_def normalize_address_def
        init_value_def net len)
  from ip_network_reads_value [OF iplib_ref_ok t(1)] t show ?thesis
    by (simp add: afi_version_def ip_bytes_def ip_bits_def)
qed

text \<open>The family is not checked against the length of a packed value: the constructor accepts
  the seventeen bytes of any IPv6 prefix with the IPv4 family number, and \<open>ip_network\<close> then reads the
  first five bytes as an IPv4 prefix.\<close>

theorem ip_network_family_mismatch:
  assumes "iplib_ok L" "a < 2 ^ 128" "(p :: nat) \<le> 128" "length b = 16" "b = packed 6 a" "ord (b ! 4) \<le> 32"
    and "net_text L 4 (b @ [char_of p]) = None" "normalize_address E to True = Inr to'"
  shows "\<exists>t. tx_init E L nonce 0 to 1 (PyStr (b @ [char_of p])) (MetaStr []) time v r s = Inr t \<and>
    ip_network t = Inr (IPNet 4 (be_val (take 4 b)) (ord (b ! 4)))"
proof -
  have val: "init_value L 1 (PyStr (b @ [char_of p])) = Inr (b @ [char_of p])"
    unfolding assms(5) using assms by (intro init_value_packed) (auto simp: ip_bits_def net_arg_def afi_version_def)
  then obtain t where t: "tx_init E L nonce 0 to 1 (PyStr (b @ [char_of p])) (MetaStr []) time v r s = Inr t"
      "tx_afi t = 1" "tx_value t = b @ [char_of p]"
    using assms(8) by (auto simp: tx_init_eq_Inr init_metadata_def)
  have "ip_network t = Inr (IPNet 4 (be_val (take 4 b)) (ord (b ! 4)))"
    using t assms(4,6) by (auto simp: ip_network_def ip_packed_def ip_bytes_def py_nth_def nth_append
        bytes_to_int_eq net_of_def ip_bits_def min_def)
  with t(1) show ?thesis by blast
qed

theorem ip_network_family_mismatch_witness:
  "\<exists>t. tx_init ext_ref iplib_ref 0 0 (PyStr []) 1 (PyStr (packed 6 0 @ [char_of (64 :: nat)])) (MetaStr []) 0 0 0 0 = Inr t \<and>
    ip_network t = Inr (IPNet 4 (be_val (take 4 (packed 6 0))) (ord ((packed 6 0) ! 4)))"
proof -
  have c: "char_of (64 :: nat) \<noteq> CHR ''8''" by (rule char_of_neq) simp_all
  have b: "packed 6 0 = replicate 16 (CHR 0x00)" by (simp add: packed_def zpad_def ip_bytes_def)
  show ?thesis
    by (rule ip_network_family_mismatch [OF iplib_ref_ok, of 0 64])
      (auto simp: b c iplib_ref_def normalize_address_def)
qed

section \<open>Signatures\<close>

lemma network_id_vee:
  assumes "37 \<le> v"
  shows "int v - ((int v - 1) div 2 - 17) * 2 - 8 = 27 \<or> int v - ((int v - 1) div 2 - 17) * 2 - 8 = 28"
  using assms by presburger

lemma length_encode_int32: "ext_ok E \<Longrightarrow> n < 2 ^ 256 \<Longrightarrow> length (encode_int32 E n) = 32"
  using length_be_bytes_le [of n 32]
  by (simp add: encode_int32_def int_to_big_endian_def ext_okD zpad_length)

lemma encode_int32_val: "ext_ok E \<Longrightarrow> be_val (encode_int32 E n) = n"
  by (simp add: encode_int32_def int_to_big_endian_def ext_okD)

lemma be_val_zeros: "be_val (replicate n (CHR 0x00)) = 0"
  using be_val_zpad [of "[]" n] by (simp add: zpad_def)

lemma valid_key_normalize: "valid_key k \<Longrightarrow> normalize_key E (PyStr k) = Inr k"
  using be_val_zeros [of 32] by (auto simp: normalize_key_def valid_key_def)

lemma privtoaddr_valid:
  "valid_key k \<Longrightarrow> ext_ok E \<Longrightarrow> \<exists>c a. privtoaddr E (PyStr k) = Inr (c # a)"
proof -
  assume k: "valid_key k" and E: "ext_ok E"
  obtain x y where pub: "ec_pub E k = (x, y)" by (metis surj_pair)
  let ?h = "drop 12 (sha3 E (encode_int32 E x @ encode_int32 E y))"
  have "length ?h = 20" using E by (simp add: sha3_def ext_okD)
  then obtain c a where "?h = c # a" by (cases ?h) auto
  with k pub show ?thesis by (auto simp: privtoaddr_def valid_key_normalize)
qed

lemma ec_sign_facts:
  assumes "ec_ok E" "valid_key k" "ec_sign E h k = (v, r, s)"
  shows "v = 27 \<or> v = 28" "0 < r" "r < secpk1n" "0 < s" "s < secpk1n"
    "ec_recover E h (v, r, s) = Some (ec_pub E k)"
  using assms(1) [unfolded ec_ok_def, THEN conjunct1, rule_format, OF assms(2), of h] assms(3)
  by simp_all

lemma ec_pub_facts:
  assumes "ec_ok E" "valid_key k" "ec_pub E k = (x, y)"
  shows "0 < x" "x < 2 ^ 256" "y < 2 ^ 256"
  using assms(1) [unfolded ec_ok_def, THEN conjunct1, rule_format, OF assms(2)] assms(3)
  by (simp_all del: power_numeral)

lemma ec_recover_range: "ec_ok E \<Longrightarrow> v < 27 \<or> 34 < v \<Longrightarrow> ec_recover E h (v, r, s) = None"
  unfolding ec_ok_def by blast

text \<open>The address that is recovered from a signature of the same bytes.\<close>

lemma recover_signed:
  assumes E: "ext_ok E" "ec_ok E" and k: "valid_key k"
  shows "case ecsign E (unsigned_hash E flds) k of (v, r, s) \<Rightarrow>
    0 < r \<and> recover_sender E e flds nid v r s = privtoaddr E (PyStr k)"
proof -
  obtain v r s x y where sig: "ec_sign E (unsigned_hash E flds) k = (v, r, s)" "ec_pub E k = (x, y)"
    by (metis prod_cases3 surj_pair)
  note ok = ec_sign_facts [OF E(2) k sig(1)] ec_pub_facts [OF E(2) k sig(2)]
  let ?pub = "encode_int32 E x @ encode_int32 E y"
  have "length ?pub = 64" using ok length_encode_int32 [OF E(1)] by simp
  then have pub: "ecrecover_to_pub E (unsigned_hash E flds) v r s = Inr ?pub"
    using ok sig(2) by (simp add: ecrecover_to_pub_def Let_def)
  have nz: "?pub \<noteq> replicate 64 (CHR 0x00)"
  proof
    assume "?pub = replicate 64 (CHR 0x00)"
    moreover have "replicate 64 (CHR 0x00) = replicate 32 (CHR 0x00) @ replicate 32 (CHR 0x00)"
      by (simp add: replicate_add [symmetric])
    ultimately have "encode_int32 E x = replicate 32 (CHR 0x00)"
      using length_encode_int32 [OF E(1) ok(8)] by simp
    then show False using encode_int32_val [OF E(1), of x] ok(7) be_val_zeros [of 32] by simp
  qed
  have "length (sha3 E ?pub) = 32" using E(1) by (simp add: sha3_def ext_okD)
  with ok pub nz sig k show ?thesis
    by (auto simp: ecsign_def recover_sender_def privtoaddr_def valid_key_normalize Let_def)
qed

lemma sign_run:
  assumes "sign_hash E (unsigned_fields E t) nid = Inr h" "valid_key k" "ecsign E h k = (v, r, s)"
    and "privtoaddr E (PyStr k) = Inr a"
  shows "sign E (PyStr k) nid t =
    (Inr (), t\<lparr>tx_v := sign_v v nid, tx_r := r, tx_s := s, tx_sender := Some a\<rparr>)"
  using assms by (simp add: sign_def bindM_def valid_key_normalize)


lemma valid_key_ref: "valid_key (replicate 31 (CHR 0x00) @ [CHR 0x05])"
proof -
  have "be_val (replicate 31 (CHR 0x00) @ [CHR 0x05]) = 5"
    using be_val_simps(2) [of "replicate 31 (CHR 0x00)" "CHR 0x05"] be_val_zeros [of 31] by simp
  then show ?thesis by (simp add: valid_key_def secpk1n_def)
qed

abbreviation sample_tx :: tx where
  "sample_tx \<equiv> \<lparr>tx_nonce = 0, tx_category = 0, tx_to = [], tx_afi = 1, tx_value = ''ABCD '', tx_metadata = Str [],
     tx_time = 7, tx_v = 0, tx_r = 0, tx_s = 0, tx_sender = None\<rparr>"


text \<open>A transaction signed with a network id is not: the recovery is called with \<open>self.v\<close>, which
  the network id moved to 37 or more, instead of \<open>vee\<close>, so that every other node gets a ValueError,
  while the signer, who has the sender cached, sees a valid transaction.\<close>

theorem network_signature_rejected:
  assumes "ext_ok E" "ec_ok E" "valid_key k" "1 \<le> n" "n < 2 ^ 63 - 18"
  shows "\<exists>t' a. sign E (PyStr k) (Some n) t = (Inr (), t') \<and> network_id t' = Some (int n) \<and>
    fst (sender E t') = Inr a \<and> fst (sender E (t'\<lparr>tx_sender := None\<rparr>)) = Inl ValueError"
proof -
  let ?h = "network_hash E (unsigned_fields E t) n"
  obtain v r s where sig: "ec_sign E ?h k = (v, r, s)" by (metis prod_cases3)
  note ok = ec_sign_facts [OF assms(2,3) sig]
  obtain c a where a: "privtoaddr E (PyStr k) = Inr (c # a)"
    using privtoaddr_valid [OF assms(3,1)] by blast
  let ?t' = "t\<lparr>tx_v := v + 8 + n * 2, tx_r := r, tx_s := s, tx_sender := Some (c # a)\<rparr>"
  have run: "sign E (PyStr k) (Some n) t = (Inr (), ?t')"
    using sign_run [OF _ assms(3) _ a, of t "Some n" ?h v r s] sig assms(4,5)
    by (simp add: sign_hash_def sign_v_def ecsign_def)
  have nid: "network_id ?t' = Some (int n)" "network_id (?t'\<lparr>tx_sender := None\<rparr>) = Some (int n)"
    using ok assms(4) by (auto simp: network_id_def)
  have none: "ec_recover E h (v + 8 + n * 2, r, s) = None" for h
    using ok(1) assms(4) by (intro ec_recover_range [OF assms(2)]) auto
  have "recover_sender E InvalidTransaction (unsigned_fields E (?t'\<lparr>tx_sender := None\<rparr>)) (Inr (int n))
      (v + 8 + n * 2) r s = Inl ValueError"
    using ok assms(4) none by (auto simp: recover_sender_def ecrecover_to_pub_def)
  then have "fst (sender E (?t'\<lparr>tx_sender := None\<rparr>)) = Inl ValueError"
    using ok nid by (simp add: sender_def bindM_def)
  moreover have "fst (sender E ?t') = Inr (c # a)"
    by (simp add: sender_def bindM_def)
  ultimately show ?thesis using run nid by blast
qed

theorem network_signature_rejected_witness:
  "\<exists>t' a. sign ext_ref (PyStr (replicate 31 (CHR 0x00) @ [CHR 0x05])) (Some 3) sample_tx = (Inr (), t') \<and>
    network_id t' = Some 3 \<and> fst (sender ext_ref t') = Inr a \<and>
    fst (sender ext_ref (t'\<lparr>tx_sender := None\<rparr>)) = Inl ValueError"
  using network_signature_rejected [OF ext_ref_ok ext_ref_ec_ok valid_key_ref, of 3 sample_tx] by simp

end
