(* ===== verification/Block.thy ===== *)
theory Block
  imports Transactions
begin

text \<open>
  \<open>block.py\<close>: block headers, the stand-in \<open>FakeHeader\<close> for the header of a past block, and signed
  blocks. A block has the attributes of its header as well (\<open>__getattribute__\<close>), but no
  \<open>network_id\<close>. The byte strings of a header are taken to have the lengths that their RLP types
  ask for; \<open>rlp.encode\<close> refuses any other.
\<close>

section \<open>Headers\<close>

record header =
  h_prevhash :: string
  h_timestamp :: nat
  h_extra_data :: string
  h_state_root :: string
  h_tx_root :: string
  h_number :: nat
  h_coinbase :: string
  h_random_number :: string
  h_group_pubkey :: string
  h_group_sig :: string
  h_count :: nat

definition header_item :: "ext \<Rightarrow> header \<Rightarrow> item" where
  "header_item E h = Lst [Str (h_prevhash h), Str (be_ser E (h_timestamp h)), Str (h_extra_data h),
     Str (h_state_root h), Str (h_tx_root h), Str (be_ser E (h_number h)), Str (h_coinbase h),
     Str (h_random_number h), Str (h_group_pubkey h), Str (h_group_sig h), Str (be_ser E (h_count h))]"

definition header_hash :: "ext \<Rightarrow> header \<Rightarrow> string" where
  "header_hash E h = sha3 E (rlp_enc E (header_item E h))"

definition hex_hash :: "ext \<Rightarrow> header \<Rightarrow> string" where
  "hex_hash E h = hex_encode (header_hash E h)"

text \<open>The header of a past block: the header itself, or its hash, number and timestamp.\<close>

datatype past_header = RealHeader header | FakeHeader string nat nat

fun past_hash :: "ext \<Rightarrow> past_header \<Rightarrow> string" where
  "past_hash E (RealHeader h) = header_hash E h"
| "past_hash E (FakeHeader hash n ts) = hash"

fun past_number :: "past_header \<Rightarrow> nat" where
  "past_number (RealHeader h) = h_number h"
| "past_number (FakeHeader hash n ts) = n"

fun past_timestamp :: "past_header \<Rightarrow> nat" where
  "past_timestamp (RealHeader h) = h_timestamp h"
| "past_timestamp (FakeHeader hash n ts) = ts"

section \<open>Blocks\<close>

record block =
  b_header :: header
  b_transactions :: "tx list"
  b_v :: nat
  b_r :: nat
  b_s :: nat
  b_signer :: "string option"

definition block_init :: "header \<Rightarrow> tx list \<Rightarrow> nat \<Rightarrow> nat \<Rightarrow> nat \<Rightarrow> block" where
  "block_init h txs v r s =
     \<lparr>b_header = h, b_transactions = txs, b_v = v, b_r = r, b_s = s, b_signer = None\<rparr>"

definition block_fields :: "ext \<Rightarrow> block \<Rightarrow> item list" where
  "block_fields E b = [header_item E (b_header b), Lst (map (tx_item E) (b_transactions b))]"

definition block_item :: "ext \<Rightarrow> block \<Rightarrow> item" where
  "block_item E b = Lst (block_fields E b @
     [Str (be_ser E (b_v b)), Str (be_ser E (b_r b)), Str (be_ser E (b_s b))])"

definition transaction_count :: "block \<Rightarrow> nat" where
  "transaction_count b = length (b_transactions b)"

definition block_sign :: "ext \<Rightarrow> pyarg \<Rightarrow> nat option \<Rightarrow> (block, unit) M" where
  "block_sign E key nid =
     bindM (gets (\<lambda>b. block_fields E b)) (\<lambda>flds.
     bindM (liftE (sign_hash E flds nid)) (\<lambda>rawhash.
     bindM (liftE (normalize_key E key)) (\<lambda>k.
     case ecsign E rawhash k of (v, r, s) \<Rightarrow>
     bindM (modifyM (\<lambda>b. b\<lparr>b_v := sign_v v nid, b_r := r, b_s := s\<rparr>)) (\<lambda>_.
     bindM (liftE (privtoaddr E (PyStr k))) (\<lambda>a.
     modifyM (\<lambda>b. b\<lparr>b_signer := Some a\<rparr>))))))"

text \<open>An unsigned block has the null address as its signer, the genesis block included: what is
  computed for block 0 is overwritten.\<close>

definition signer :: "ext \<Rightarrow> (block, string) M" where
  "signer E =
     bindM (gets (\<lambda>b. b)) (\<lambda>b.
     case b_signer b of
       Some (c # a) \<Rightarrow> ret (c # a)
     | _ \<Rightarrow>
         bindM (liftE (if b_r b = 0 \<and> b_s b = 0 then Inr null_address
            else recover_sender E InvalidBlock (block_fields E b) (Inl AttributeError)
                   (b_v b) (b_r b) (b_s b))) (\<lambda>a.
         bindM (modifyM (\<lambda>b. b\<lparr>b_signer := Some a\<rparr>)) (\<lambda>_. ret a)))"

section \<open>Properties\<close>

lemma block_sign_run:
  assumes "sign_hash E (block_fields E b) nid = Inr h" "valid_key k" "ecsign E h k = (v, r, s)"
    and "privtoaddr E (PyStr k) = Inr a"
  shows "block_sign E (PyStr k) nid b =
    (Inr (), b\<lparr>b_v := sign_v v nid, b_r := r, b_s := s, b_signer := Some a\<rparr>)"
  using assms by (simp add: block_sign_def bindM_def valid_key_normalize)

text \<open>A block signed without a network id has, for every node, the address of the signing key as
  its signer; signed with a network id it has no signer for any node but the one that signed it,
  since a block has no \<open>network_id\<close>.\<close>

theorem signer_of_signed:
  assumes "ext_ok E" "ec_ok E" "valid_key k" "nid = None \<or> (\<exists>n. nid = Some n \<and> 1 \<le> n \<and> n < 2 ^ 63 - 18)"
  shows "\<exists>b' a. block_sign E (PyStr k) nid b = (Inr (), b') \<and> privtoaddr E (PyStr k) = Inr a \<and>
    fst (signer E b') = Inr a \<and>
    fst (signer E (b'\<lparr>b_signer := None\<rparr>)) = (if nid = None then Inr a else Inl AttributeError)"
proof -
  obtain h where h: "sign_hash E (block_fields E b) nid = Inr h"
    using assms(4) by (auto simp: sign_hash_def)
  obtain v r s where sig: "ecsign E h k = (v, r, s)" by (metis prod_cases3)
  note ok = ec_sign_facts [OF assms(2,3), of h v r s, unfolded ecsign_def [symmetric], OF sig]
  obtain c a where a: "privtoaddr E (PyStr k) = Inr (c # a)"
    using privtoaddr_valid [OF assms(3,1)] by blast
  let ?b = "b\<lparr>b_v := sign_v v nid, b_r := r, b_s := s, b_signer := Some (c # a)\<rparr>"
  have flds: "block_fields E (?b\<lparr>b_signer := None\<rparr>) = block_fields E b"
    by (simp add: block_fields_def)
  have "fst (signer E ?b) = Inr (c # a)"
    by (simp add: signer_def bindM_def)
  moreover have "fst (signer E (?b\<lparr>b_signer := None\<rparr>)) = (if nid = None then Inr (c # a) else Inl AttributeError)"
  proof (cases nid)
    case None
    have "recover_sender E InvalidBlock (block_fields E b) (Inl AttributeError) v r s = Inr (c # a)"
      using recover_signed [OF assms(1-3), where flds = "block_fields E b" and e = InvalidBlock
          and nid = "Inl AttributeError"] sig a h None by (simp add: sign_hash_def)
    with None ok flds show ?thesis by (simp add: signer_def bindM_def sign_v_def)
  next
    case (Some n)
    have "recover_sender E InvalidBlock (block_fields E b) (Inl AttributeError) (v + 8 + n * 2) r s =
        Inl AttributeError"
      using ok assms(4) Some by (auto simp: recover_sender_def)
    with Some ok flds show ?thesis by (simp add: signer_def bindM_def sign_v_def)
  qed
  ultimately show ?thesis
    using block_sign_run [OF h assms(3) sig a] a by blast
qed

abbreviation sample_header :: header where
  "sample_header \<equiv> \<lparr>h_prevhash = replicate 32 (CHR 0x00), h_timestamp = 5, h_extra_data = [], h_state_root = [],
     h_tx_root = [], h_number = 1, h_coinbase = [], h_random_number = replicate 32 (CHR 0x01),
     h_group_pubkey = [], h_group_sig = [], h_count = 1\<rparr>"

theorem signer_of_signed_witness:
  "\<exists>b' a. block_sign ext_ref (PyStr (replicate 31 (CHR 0x00) @ [CHR 0x05])) None
      (block_init sample_header [sample_tx] 0 0 0) = (Inr (), b') \<and>
    fst (signer ext_ref (b'\<lparr>b_signer := None\<rparr>)) = Inr a"
  using signer_of_signed [OF ext_ref_ok ext_ref_ec_ok valid_key_ref, of None
      "block_init sample_header [sample_tx] 0 0 0"] by auto

end
