(* ===== verification/Balance.thy ===== *)
theory Balance
  imports Pyutils "HOL-Library.AList"
begin

text \<open>
  \<open>balance.py\<close>: the class \<open>Balance\<close>, the IP prefixes an account owns, has delegated and has received,
  and its map servers or locators. The sets of addresses are \<open>netaddr.IPSet\<close> objects, the record
  \<open>ipset_ops\<close> of the operations the class uses; dictionaries are association lists.
  The state hands out a fresh copy of a balance each time, so the methods are functions from the
  balance to the balance as it is afterwards.
\<close>

section \<open>Sets of addresses\<close>

record 'i ipset_ops =
  is_empty :: 'i
  is_net :: "ipnet \<Rightarrow> 'i"
  is_add :: "ipnet \<Rightarrow> 'i \<Rightarrow> 'i"
  is_remove :: "ipnet \<Rightarrow> 'i \<Rightarrow> 'i"
  is_diff :: "'i \<Rightarrow> 'i \<Rightarrow> 'i"
  is_and :: "'i \<Rightarrow> 'i \<Rightarrow> 'i"
  is_contains :: "'i \<Rightarrow> ipnet \<Rightarrow> bool"
  is_len :: "'i \<Rightarrow> nat res"

text \<open>The addresses of a prefix, tagged with the version.\<close>

definition net_size :: "ipnet \<Rightarrow> nat" where
  "net_size n = 2 ^ ((if net_version n = 4 then 32 else 128) - net_prefixlen n)"

definition net_first :: "ipnet \<Rightarrow> nat" where
  "net_first n = net_value n div net_size n * net_size n"

definition net_addrs :: "ipnet \<Rightarrow> (nat \<times> nat) set" where
  "net_addrs n = {net_version n} \<times> {net_first n ..< net_first n + net_size n}"

text \<open>What is documented of \<open>IPSet\<close>: its operations are those of finite sets of addresses, and
  \<open>len\<close> raises IndexError for more than \<open>sys.maxint\<close> addresses.\<close>

definition ipset_ok :: "'i ipset_ops \<Rightarrow> ('i \<Rightarrow> (nat \<times> nat) set) \<Rightarrow> bool" where
  "ipset_ok I addrs \<longleftrightarrow>
     addrs (is_empty I) = {} \<and> (\<forall>n. addrs (is_net I n) = net_addrs n) \<and>
     (\<forall>n s. addrs (is_add I n s) = addrs s \<union> net_addrs n) \<and>
     (\<forall>n s. addrs (is_remove I n s) = addrs s - net_addrs n) \<and>
     (\<forall>s t. addrs (is_diff I s t) = addrs s - addrs t) \<and>
     (\<forall>s t. addrs (is_and I s t) = addrs s \<inter> addrs t) \<and>
     (\<forall>s n. is_contains I s n \<longleftrightarrow> net_addrs n \<subseteq> addrs s) \<and>
     (\<forall>s. finite (addrs s)) \<and>
     (\<forall>s. is_len I s = (if card (addrs s) < 2 ^ 63 then Inr (card (addrs s)) else Inl IndexError))"

section \<open>The class Balance\<close>

record 'i balance =
  own_ips :: 'i
  delegated_ips :: "(string \<times> 'i) list"
  received_ips :: "(string \<times> 'i) list"
  map_server :: "(ipnet \<times> string) list"
  locator :: "(ipnet \<times> int \<times> int) list"

text \<open>\<open>Balance(IPSet())\<close>.\<close>

definition empty_balance :: "'i ipset_ops \<Rightarrow> 'i balance" where
  "empty_balance I = \<lparr>own_ips = is_empty I, delegated_ips = [], received_ips = [], map_server = [], locator = []\<rparr>"

definition add_own_ips :: "'i ipset_ops \<Rightarrow> ipnet \<Rightarrow> 'i balance \<Rightarrow> 'i balance" where
  "add_own_ips I ips b = b\<lparr>own_ips := is_add I ips (own_ips b)\<rparr>"

definition remove_own_ips :: "'i ipset_ops \<Rightarrow> ipnet \<Rightarrow> 'i balance \<Rightarrow> 'i balance" where
  "remove_own_ips I ips b = b\<lparr>own_ips := is_remove I ips (own_ips b)\<rparr>"

text \<open>Adding a prefix to the set of an address of a dictionary, and taking a set away from it; an
  address with no addresses left is dropped.\<close>

definition dict_add :: "'i ipset_ops \<Rightarrow> string \<Rightarrow> ipnet \<Rightarrow> (string \<times> 'i) list \<Rightarrow> (string \<times> 'i) list" where
  "dict_add I a ips d =
     (case map_of d a of Some s \<Rightarrow> AList.update a (is_add I ips s) d | None \<Rightarrow> AList.update a (is_net I ips) d)"

definition dict_remove :: "'i ipset_ops \<Rightarrow> string \<Rightarrow> 'i \<Rightarrow> (string \<times> 'i) list \<Rightarrow> (string \<times> 'i) list res" where
  "dict_remove I a ips d =
     (case map_of d a of
        None \<Rightarrow> Inl KeyError
      | Some s \<Rightarrow>
          let s' = is_diff I s ips in
          bindE (is_len I s') (\<lambda>n.
            Inr (if n = 0 then AList.delete a d else AList.update a s' d)))"

definition add_delegated_ips :: "ext \<Rightarrow> 'i ipset_ops \<Rightarrow> pyarg \<Rightarrow> ipnet \<Rightarrow> 'i balance \<Rightarrow> 'i balance res" where
  "add_delegated_ips E I address ips b =
     bindE (normalize_address E address False) (\<lambda>a.
       Inr (b\<lparr>delegated_ips := dict_add I a ips (delegated_ips b)\<rparr>))"

definition remove_delegated_ips :: "ext \<Rightarrow> 'i ipset_ops \<Rightarrow> pyarg \<Rightarrow> 'i \<Rightarrow> 'i balance \<Rightarrow> 'i balance res" where
  "remove_delegated_ips E I address ips b =
     bindE (normalize_address E address False) (\<lambda>a.
     bindE (dict_remove I a ips (delegated_ips b)) (\<lambda>d. Inr (b\<lparr>delegated_ips := d\<rparr>)))"

definition add_received_ips :: "ext \<Rightarrow> 'i ipset_ops \<Rightarrow> pyarg \<Rightarrow> ipnet \<Rightarrow> 'i balance \<Rightarrow> 'i balance res" where
  "add_received_ips E I address ips b =
     bindE (normalize_address E address False) (\<lambda>a.
       Inr (b\<lparr>received_ips := dict_add I a ips (received_ips b)\<rparr>))"

definition remove_received_ips :: "ext \<Rightarrow> 'i ipset_ops \<Rightarrow> pyarg \<Rightarrow> 'i \<Rightarrow> 'i balance \<Rightarrow> 'i balance res" where
  "remove_received_ips E I address ips b =
     bindE (normalize_address E address False) (\<lambda>a.
     bindE (dict_remove I a ips (received_ips b)) (\<lambda>d. Inr (b\<lparr>received_ips := d\<rparr>)))"

definition in_own_ips :: "'i ipset_ops \<Rightarrow> ipnet \<Rightarrow> 'i balance \<Rightarrow> bool" where
  "in_own_ips I ips b = is_contains I (own_ips b) ips"

text \<open>The delegations that overlap a prefix, by the hexadecimal address of the receiver.\<close>

fun affected_loop :: "'i ipset_ops \<Rightarrow> 'i \<Rightarrow> (string \<times> 'i) list \<Rightarrow> (string \<times> 'i) list res" where
  "affected_loop I ips [] = Inr []"
| "affected_loop I ips ((addr, st) # d) =
     (let joint = is_and I ips st in
      bindE (is_len I joint) (\<lambda>n.
      bindE (affected_loop I ips d) (\<lambda>r.
      Inr (if n > 0 then (hex_encode addr, joint) # r else r))))"

definition affected_delegated_ips :: "'i ipset_ops \<Rightarrow> ipnet \<Rightarrow> 'i balance \<Rightarrow> (string \<times> 'i) list res" where
  "affected_delegated_ips I ips b = affected_loop I (is_net I ips) (delegated_ips b)"

definition in_received_ips :: "'i ipset_ops \<Rightarrow> ipnet \<Rightarrow> 'i balance \<Rightarrow> bool" where
  "in_received_ips I ips b = (\<exists>p \<in> set (received_ips b). is_contains I (snd p) ips)"

fun map_server_loop :: "string list \<Rightarrow> (ipnet \<times> string) list \<Rightarrow> (ipnet \<times> string) list res" where
  "map_server_loop (a # ip # addr # r) d =
     bindE (bytes_to_int a) (\<lambda>afi.
     bindE (ipaddr_to_netaddr afi ip) (\<lambda>net. map_server_loop r (AList.update net addr d)))"
| "map_server_loop [] d = Inr d"
| "map_server_loop [a] d = bindE (bytes_to_int a) (\<lambda>afi. Inl IndexError)"
| "map_server_loop [a, ip] d =
     bindE (bytes_to_int a) (\<lambda>afi. bindE (ipaddr_to_netaddr afi ip) (\<lambda>net. Inl IndexError))"

definition set_map_server :: "string list \<Rightarrow> 'i balance \<Rightarrow> 'i balance res" where
  "set_map_server ms b =
     bindE (map_server_loop ms []) (\<lambda>d. Inr (b\<lparr>map_server := d, locator := []\<rparr>))"

text \<open>Every key is bound to the same list object \<open>l\<close>, so that after the loop all locators show what
  the last entry wrote to it.\<close>

fun locator_loop :: "string list \<Rightarrow> ipnet list \<Rightarrow> int \<times> int \<Rightarrow> (ipnet list \<times> int \<times> int) res" where
  "locator_loop (a # ip # p # w # r) keys l =
     bindE (bytes_to_int a) (\<lambda>afi.
     bindE (ipaddr_to_netaddr afi ip) (\<lambda>net.
     bindE (bytes_to_int p) (\<lambda>priority.
     bindE (bytes_to_int w) (\<lambda>weight.
     locator_loop r (keys @ [net]) (priority, weight)))))"
| "locator_loop [] keys l = Inr (keys, l)"
| "locator_loop [a] keys l = bindE (bytes_to_int a) (\<lambda>_. Inl IndexError)"
| "locator_loop [a, ip] keys l =
     bindE (bytes_to_int a) (\<lambda>afi. bindE (ipaddr_to_netaddr afi ip) (\<lambda>_. Inl IndexError))"
| "locator_loop [a, ip, p] keys l =
     bindE (bytes_to_int a) (\<lambda>afi. bindE (ipaddr_to_netaddr afi ip) (\<lambda>_.
     bindE (bytes_to_int p) (\<lambda>_. Inl IndexError)))"

definition set_locator :: "string list \<Rightarrow> 'i balance \<Rightarrow> 'i balance res" where
  "set_locator loc b =
     bindE (locator_loop loc [] (0, 0)) (\<lambda>(keys, l).
       Inr (b\<lparr>locator := fold (\<lambda>net. AList.update net l) keys [], map_server := []\<rparr>))"

section \<open>Properties\<close>

lemma map_of_update: "map_of (AList.update k v d) = (map_of d)(k \<mapsto> v)"
  by (rule update_conv')

lemma map_of_delete: "map_of (AList.delete k d) = (map_of d)(k := None)"
  by (rule delete_conv')

text \<open>The addresses that a dictionary of sets holds for an address.\<close>

definition held_for :: "('i \<Rightarrow> (nat \<times> nat) set) \<Rightarrow> (string \<times> 'i) list \<Rightarrow> string \<Rightarrow> (nat \<times> nat) set" where
  "held_for addrs d a = (case map_of d a of Some s \<Rightarrow> addrs s | None \<Rightarrow> {})"

lemma held_for_dict_add:
  "ipset_ok I addrs \<Longrightarrow> held_for addrs (dict_add I a ips d) a' =
     (if a' = a then held_for addrs d a \<union> net_addrs ips else held_for addrs d a')"
  by (auto simp: held_for_def dict_add_def ipset_ok_def map_of_update split: option.splits)

lemma held_for_dict_remove:
  "ipset_ok I addrs \<Longrightarrow> dict_remove I a ips d = Inr d' \<Longrightarrow> held_for addrs d' a' =
     (if a' = a then held_for addrs d a - addrs ips else held_for addrs d a')"
  by (auto simp: held_for_def dict_remove_def ipset_ok_def map_of_update map_of_delete Let_def
      split: option.splits if_splits)

text \<open>What \<open>affected_delegated_ips\<close> returns: exactly the receivers whose delegations overlap the
  prefix, each with the overlap.\<close>

lemma affected_loop_result:
  assumes I: "ipset_ok I addrs"
  shows "affected_loop I ips d = Inr r \<Longrightarrow>
    r = map (\<lambda>(a, s). (hex_encode a, is_and I ips s)) (filter (\<lambda>(a, s). addrs ips \<inter> addrs s \<noteq> {}) d)"
proof (induction d arbitrary: r)
  case (Cons x d)
  obtain a s where x: "x = (a, s)" by fastforce
  from Cons.prems(1) x obtain n r' where n: "is_len I (is_and I ips s) = Inr n"
    and r': "affected_loop I ips d = Inr r'"
    and r: "r = (if n > 0 then (hex_encode a, is_and I ips s) # r' else r')"
    by (auto simp: bindE_eq_Inr Let_def)
  have "n = card (addrs ips \<inter> addrs s)" "finite (addrs ips \<inter> addrs s)"
    using I n by (auto simp: ipset_ok_def split: if_splits)
  then have "n > 0 \<longleftrightarrow> addrs ips \<inter> addrs s \<noteq> {}" by (metis card_0_eq gr0I not_gr_zero)
  with Cons.IH [OF r'] x r show ?case by simp
qed simp

lemma affected_loop_error:
  assumes "ipset_ok I addrs" "(a, s) \<in> set d" "2 ^ 63 \<le> card (addrs ips \<inter> addrs s)"
  shows "affected_loop I ips d = Inl IndexError"
  using assms(2)
proof (induction d)
  case (Cons x d)
  obtain b u where x: "x = (b, u)" by fastforce
  have len: "is_len I t = (if card (addrs t) < 2 ^ 63 then Inr (card (addrs t)) else Inl IndexError)" for t
    using assms(1) by (simp add: ipset_ok_def)
  have conj: "addrs (is_and I ips u) = addrs ips \<inter> addrs u" for u
    using assms(1) by (simp add: ipset_ok_def)
  show ?case
  proof (cases "(a, s) \<in> set d")
    case True
    with Cons.IH x len show ?thesis by (simp add: Let_def)
  next
    case False
    with Cons.prems x have "b = a" "u = s" by auto
    with assms(3) x len conj show ?thesis by (simp add: Let_def)
  qed
qed simp

lemma card_net_addrs: "card (net_addrs n) = net_size n"
  by (simp add: net_addrs_def card_cartesian_product)

text \<open>Delegations of IPv6 prefixes of 65 bits or less cannot be looked up: \<open>affected_delegated_ips\<close>
  takes the length of the overlap, which \<open>netaddr\<close> refuses for \<open>2 ^ 63\<close> addresses or more. Once an
  account has delegated such a prefix, every later allocation or delegation of a prefix inside which
  it lies raises IndexError.\<close>

theorem affected_large_overlap:
  assumes "ipset_ok I addrs" "map_of (delegated_ips b) a = Some s" "net_addrs n \<subseteq> addrs s"
    and "net_addrs n \<subseteq> net_addrs ips" "net_version n = 6" "net_prefixlen n \<le> 65"
  shows "affected_delegated_ips I ips b = Inl IndexError"
proof -
  have fin: "finite (addrs t)" for t using assms(1) by (simp add: ipset_ok_def)
  have "(2 :: nat) ^ 63 \<le> 2 ^ (128 - net_prefixlen n)"
    using assms(6) by (intro power_increasing) auto
  then have "2 ^ 63 \<le> card (net_addrs n)"
    using assms(5) by (simp only: card_net_addrs net_size_def) simp
  also have "\<dots> \<le> card (addrs (is_net I ips) \<inter> addrs s)"
    using assms by (intro card_mono fin finite_Int) (auto simp: ipset_ok_def)
  finally show ?thesis
    unfolding affected_delegated_ips_def
    using affected_loop_error [OF assms(1) map_of_SomeD [OF assms(2)]] by blast
qed

text \<open>A reference implementation of the sets for the witnesses.\<close>

typedef addr_set = "{s :: (nat \<times> nat) set. finite s}"
  by (rule exI [of _ "{}"]) simp

definition ipset_ref :: "addr_set ipset_ops" where
  "ipset_ref = \<lparr>is_empty = Abs_addr_set {}, is_net = (\<lambda>n. Abs_addr_set (net_addrs n)),
     is_add = (\<lambda>n s. Abs_addr_set (Rep_addr_set s \<union> net_addrs n)),
     is_remove = (\<lambda>n s. Abs_addr_set (Rep_addr_set s - net_addrs n)),
     is_diff = (\<lambda>s t. Abs_addr_set (Rep_addr_set s - Rep_addr_set t)),
     is_and = (\<lambda>s t. Abs_addr_set (Rep_addr_set s \<inter> Rep_addr_set t)),
     is_contains = (\<lambda>s n. net_addrs n \<subseteq> Rep_addr_set s),
     is_len = (\<lambda>s. if card (Rep_addr_set s) < 2 ^ 63 then Inr (card (Rep_addr_set s)) else Inl IndexError)\<rparr>"

lemma finite_net_addrs [simp]: "finite (net_addrs n)"
  by (simp add: net_addrs_def)

lemma ipset_ref_ok: "ipset_ok ipset_ref Rep_addr_set"
  using Rep_addr_set by (simp add: ipset_ok_def ipset_ref_def Abs_addr_set_inverse)

theorem affected_large_overlap_witness:
  "affected_delegated_ips ipset_ref (IPNet 6 0 32)
     ((empty_balance ipset_ref)\<lparr>delegated_ips := [(''a'', is_net ipset_ref (IPNet 6 0 48))]\<rparr>) = Inl IndexError"
proof -
  have "net_addrs (IPNet 6 0 48) \<subseteq> net_addrs (IPNet 6 0 32)"
    by (auto simp: net_addrs_def net_first_def net_size_def)
  then show ?thesis
    using ipset_ref_ok
    by (intro affected_large_overlap [OF ipset_ref_ok, of _ "''a''" "is_net ipset_ref (IPNet 6 0 48)" "IPNet 6 0 48"])
      (simp_all add: ipset_ok_def)
qed

lemma locator_loop_run:
  "locator_loop (concat (map (\<lambda>(a, ip, p, w). [a, ip, p, w]) es)) keys l = Inr (keys', l') \<Longrightarrow>
     length keys' = length keys + length es \<and>
     (case rev es of [] \<Rightarrow> l' = l
      | (a, ip, p, w) # _ \<Rightarrow> bytes_to_int p = Inr (fst l') \<and> bytes_to_int w = Inr (snd l'))"
proof (induction es arbitrary: keys l)
  case (Cons e es)
  obtain a ip p w where e: "e = (a, ip, p, w)" by (metis prod_cases4)
  from Cons.prems e obtain afi net pr we where steps: "bytes_to_int p = Inr pr" "bytes_to_int w = Inr we"
    and rest: "locator_loop (concat (map (\<lambda>(a, ip, p, w). [a, ip, p, w]) es)) (keys @ [net]) (pr, we) = Inr (keys', l')"
    by (auto simp: bindE_eq_Inr)
  from Cons.IH [OF rest] steps e show ?case
    by (cases "rev es") (auto split: prod.splits)
qed simp

lemma fold_update_values:
  "\<forall>x \<in> ran (map_of d). x = l \<Longrightarrow> x \<in> ran (map_of (fold (\<lambda>net. AList.update net l) keys d)) \<Longrightarrow> x = l"
proof (induction keys arbitrary: d)
  case (Cons k keys)
  have "\<forall>x \<in> ran (map_of (AList.update k l d)). x = l"
    using Cons.prems(1) by (auto simp: map_of_update ran_def split: if_splits)
  from Cons.IH [OF this] Cons.prems(2) show ?case by simp
qed simp

text \<open>All locators of an account show the priority and the weight of the last one given, because
  \<open>set_locator\<close> binds one list object to every address.\<close>

theorem set_locator_shares_last:
  assumes "es \<noteq> []" "last es = (a, ip, p, w)"
    and "set_locator (concat (map (\<lambda>(a, ip, p, w). [a, ip, p, w]) es)) b = Inr b'"
    and "map_of (locator b') net = Some (priority, weight)"
  shows "bytes_to_int p = Inr priority \<and> bytes_to_int w = Inr weight"
proof -
  obtain keys l where loop: "locator_loop (concat (map (\<lambda>(a, ip, p, w). [a, ip, p, w]) es)) [] (0, 0) = Inr (keys, l)"
    and b': "locator b' = fold (\<lambda>net. AList.update net l) keys []"
    using assms(3) by (auto simp: set_locator_def bindE_eq_Inr)
  have "(priority, weight) \<in> ran (map_of (locator b'))" using assms(4) by (rule ranI)
  then have "(priority, weight) = l" using b' fold_update_values [of "[]" l] by auto
  moreover have "hd (rev es) = (a, ip, p, w)" using assms(1,2) by (simp add: hd_rev)
  ultimately show ?thesis
    using locator_loop_run [OF loop] assms(1) by (cases "rev es") auto
qed

theorem set_locator_shares_last_witness:
  "\<exists>b'. set_locator [[CHR 0x01], ''ABCD'', [CHR 0x01], [CHR 0x02], [CHR 0x01], ''EFGH'', [CHR 0x03], [CHR 0x04]]
      (empty_balance ipset_ref) = Inr b' \<and>
    map_of (locator b') (IPNet 4 (be_val ''ABCD'') 32) = Some (3, 4)"
proof -
  let ?es = "[([CHR 0x01], ''ABCD'', [CHR 0x01], [CHR 0x02]), ([CHR 0x01], ''EFGH'', [CHR 0x03], [CHR 0x04])]"
  have v: "be_val [c] = ord c" for c using be_val_simps(2) [of "[]" c] by simp
  obtain b' where b': "set_locator (concat (map (\<lambda>(a, ip, p, w). [a, ip, p, w]) ?es)) (empty_balance ipset_ref) = Inr b'"
    by (auto simp: set_locator_def bytes_to_int_eq v ipaddr_to_netaddr_def)
  then obtain pw where "map_of (locator b') (IPNet 4 (be_val ''ABCD'') 32) = Some pw"
    by (auto simp: set_locator_def bytes_to_int_eq v ipaddr_to_netaddr_def map_of_update split: if_splits)
  with set_locator_shares_last [OF _ _ b', of "[CHR 0x01]" "''EFGH''" "[CHR 0x03]" "[CHR 0x04]"] b'
  show ?thesis by (cases pw) (auto simp: bytes_to_int_eq v)
qed

end
