(* ===== verification/State.thy ===== *)
theory State
  imports TrieObject Block Balance
begin

text \<open>
  \<open>securetrie.py\<close>, \<open>account.py\<close> and \<open>state.py\<close>: the accounts of the chain. A state keeps the account
  trie over its database, a cache of the accounts that were read, a journal that undoes changes of
  cached accounts, and the variables of the block being applied.

  Accounts in the cache are objects; a journal entry is the closure that sets one attribute of one
  object back, here the address, the attribute and its old value. The storage trie and the code of
  an account, which nothing in the repository fills, are left out.
\<close>

section \<open>SecureTrie\<close>

text \<open>The trie under hashed keys; \<open>update\<close> also stores the key under its hash.\<close>

definition secure_update :: "'s trie_env \<Rightarrow> string \<Rightarrow> string \<Rightarrow> ('s trie, unit) M" where
  "secure_update T k v =
     (let h = sha3 (t_ext T) k
      in bindM (in_tdb (t_put T h k)) (\<lambda>_. update T h v))"

definition secure_get :: "'s trie_env \<Rightarrow> string \<Rightarrow> ('s trie, item) M" where
  "secure_get T k = Trie.get T (sha3 (t_ext T) k)"

definition secure_delete :: "'s trie_env \<Rightarrow> string \<Rightarrow> ('s trie, unit) M" where
  "secure_delete T k = delete T (sha3 (t_ext T) k)"

section \<open>Accounts\<close>

record account =
  a_nonce :: nat
  a_balance :: string
  a_touched :: bool
  a_deleted :: bool
  a_existent :: bool

text \<open>The environment of a state: the database class, and \<open>pickle\<close> for balances.\<close>

record ('b, 'i) senv =
  s_ext :: ext
  s_db :: "'b store_ops"
  s_ips :: "'i ipset_ops"
  s_pickle :: "'i balance \<Rightarrow> string"
  s_unpickle :: "string \<Rightarrow> 'i balance res"

definition object_to_bin :: "('b, 'i) senv \<Rightarrow> 'i balance \<Rightarrow> string" where
  "object_to_bin S b = hex_encode (s_pickle S b)"

definition bin_to_object :: "('b, 'i) senv \<Rightarrow> string \<Rightarrow> 'i balance res" where
  "bin_to_object S b = bindE (hex_decode b) (\<lambda>p. s_unpickle S p)"

definition account_rlp :: "ext \<Rightarrow> account \<Rightarrow> string" where
  "account_rlp E a = rlp_enc E (Lst [Str (be_ser E (a_nonce a)), Str (a_balance a)])"

text \<open>\<open>rlp.decode(data, Account, env, address)\<close>: the two fields, a number without leading zeros and
  bytes, handed to the constructor.\<close>

definition account_decode :: "ext \<Rightarrow> string \<Rightarrow> account res" where
  "account_decode E data =
     bindE (rlp_dec E data) (\<lambda>x.
     case x of
       Lst [Str n, Str b] \<Rightarrow>
         if take 1 n = [CHR 0x00] then Inl PyException
         else Inr \<lparr>a_nonce = be_deser E n, a_balance = b, a_touched = False, a_deleted = False, a_existent = True\<rparr>
     | _ \<Rightarrow> Inl PyException)"

definition ACCOUNT_INITIAL_NONCE :: nat where
  "ACCOUNT_INITIAL_NONCE = 0"

definition BLANK_HASH :: "ext \<Rightarrow> string" where
  "BLANK_HASH E = sha3 E []"

definition blank_account :: "('b, 'i) senv \<Rightarrow> nat \<Rightarrow> ('b, account) M" where
  "blank_account S nonce =
     bindM (so_put (s_db S) (BLANK_HASH (s_ext S)) []) (\<lambda>_.
     ret \<lparr>a_nonce = nonce, a_balance = object_to_bin S (empty_balance (s_ips S)), a_touched = False,
       a_deleted = False, a_existent = False\<rparr>)"

section \<open>The state\<close>

datatype journal_entry =
  JNonce string nat | JBalance string string | JTouched string bool

record 'b state =
  st_trie :: "'b trie"
  st_txindex :: nat
  st_block_number :: nat
  st_block_coinbase :: string
  st_timestamp :: nat
  st_prev_headers :: "past_header list"
  st_journal :: "journal_entry list"
  st_cache :: "(string \<times> account) list"
  st_changed :: "string list"
  st_executing_on_head :: bool

text \<open>The journal lists the newest entry first.\<close>

definition in_trie :: "('b trie, 'a) M \<Rightarrow> ('b state, 'a) M" where
  "in_trie m = zoomM st_trie (\<lambda>t st. st\<lparr>st_trie := t\<rparr>) m"

definition in_db :: "('b, 'a) M \<Rightarrow> ('b state, 'a) M" where
  "in_db m = in_trie (in_tdb m)"

abbreviation state_trie :: "('b, 'i) senv \<Rightarrow> 'b trie_env" where
  "state_trie S \<equiv> trie_methods (s_ext S) (refcount_get (s_db S)) (refcount_put (s_ext S) (s_db S))"

text \<open>\<open>State(root, env)\<close>; the trie is opened at \<open>root\<close>, the empty string for no root.\<close>

definition state_init :: "('b, 'i) senv \<Rightarrow> 'b \<Rightarrow> string \<Rightarrow> bool \<Rightarrow> 'b state res" where
  "state_init S db root on_head =
     (case set_root_hash (state_trie S) root \<lparr>tdb = db, root_node = BLANK_NODE, root_hash = []\<rparr> of
        (Inl e, _) \<Rightarrow> Inl e
      | (Inr u, tr) \<Rightarrow>
          Inr \<lparr>st_trie = tr, st_txindex = 0, st_block_number = 0, st_block_coinbase = replicate 20 (CHR 0x00),
            st_timestamp = 0, st_prev_headers = [], st_journal = [], st_cache = [], st_changed = [],
            st_executing_on_head = on_head\<rparr>)"

definition get_block_hash :: "ext \<Rightarrow> 'b state \<Rightarrow> nat \<Rightarrow> string res" where
  "get_block_hash E st n =
     (if st_block_number st < n \<or> n > 256 then Inr (replicate 32 (CHR 0x00))
      else bindE (py_nth (st_prev_headers st) n) (\<lambda>h. Inr (past_hash E h)))"

definition add_block_header :: "header \<Rightarrow> ('b state, unit) M" where
  "add_block_header h = modifyM (\<lambda>st. st\<lparr>st_prev_headers := RealHeader h # st_prev_headers st\<rparr>)"

definition get_and_cache_account :: "('b, 'i) senv \<Rightarrow> string \<Rightarrow> ('b state, account) M" where
  "get_and_cache_account S address =
     bindM (gets st_cache) (\<lambda>cache.
     case map_of cache address of
       Some a \<Rightarrow> ret a
     | None \<Rightarrow>
         bindM (in_trie (secure_get (state_trie S) address)) (\<lambda>rlpdata.
         bindM (if rlpdata \<noteq> BLANK_NODE
                then liftE (case rlpdata of Str d \<Rightarrow> account_decode (s_ext S) d | Lst _ \<Rightarrow> Inl TypeError)
                else in_db (blank_account S ACCOUNT_INITIAL_NONCE)) (\<lambda>a.
         bindM (modifyM (\<lambda>st. st\<lparr>st_cache := AList.update address a (st_cache st)\<rparr>)) (\<lambda>_. ret a))))"

definition get_balance :: "('b, 'i) senv \<Rightarrow> pyarg \<Rightarrow> ('b state, 'i balance) M" where
  "get_balance S address =
     bindM (liftE (normalize_address (s_ext S) address False)) (\<lambda>a.
     bindM (get_and_cache_account S a) (\<lambda>acct.
     liftE (bin_to_object S (a_balance acct))))"

definition get_nonce :: "('b, 'i) senv \<Rightarrow> pyarg \<Rightarrow> ('b state, nat) M" where
  "get_nonce S address =
     bindM (liftE (normalize_address (s_ext S) address False)) (\<lambda>a.
     bindM (get_and_cache_account S a) (\<lambda>acct. ret (a_nonce acct)))"

text \<open>\<open>setattr\<close> on the cached account object.\<close>

definition put_account :: "string \<Rightarrow> (account \<Rightarrow> account) \<Rightarrow> 'b state \<Rightarrow> 'b state" where
  "put_account a f st =
     (case map_of (st_cache st) a of
        Some acct \<Rightarrow> st\<lparr>st_cache := AList.update a (f acct) (st_cache st)\<rparr>
      | None \<Rightarrow> st)"

definition journal_undo :: "journal_entry \<Rightarrow> 'b state \<Rightarrow> 'b state" where
  "journal_undo j st =
     (case j of
        JNonce a n \<Rightarrow> put_account a (\<lambda>acct. acct\<lparr>a_nonce := n\<rparr>) st
      | JBalance a b \<Rightarrow> put_account a (\<lambda>acct. acct\<lparr>a_balance := b\<rparr>) st
      | JTouched a t \<Rightarrow> put_account a (\<lambda>acct. acct\<lparr>a_touched := t\<rparr>) st)"

definition set_and_journal :: "journal_entry \<Rightarrow> journal_entry \<Rightarrow> ('b state, unit) M" where
  "set_and_journal old new =
     modifyM (\<lambda>st. journal_undo new (st\<lparr>st_journal := old # st_journal st\<rparr>))"

definition touch :: "string \<Rightarrow> account \<Rightarrow> ('b state, unit) M" where
  "touch a acct = set_and_journal (JTouched a (a_touched acct)) (JTouched a True)"

definition set_balance :: "('b, 'i) senv \<Rightarrow> pyarg \<Rightarrow> 'i balance \<Rightarrow> ('b state, unit) M" where
  "set_balance S address b =
     bindM (liftE (normalize_address (s_ext S) address False)) (\<lambda>a.
     bindM (get_and_cache_account S a) (\<lambda>acct.
     bindM (set_and_journal (JBalance a (a_balance acct)) (JBalance a (object_to_bin S b))) (\<lambda>_.
     touch a acct)))"

definition set_nonce :: "('b, 'i) senv \<Rightarrow> pyarg \<Rightarrow> nat \<Rightarrow> ('b state, unit) M" where
  "set_nonce S address n =
     bindM (liftE (normalize_address (s_ext S) address False)) (\<lambda>a.
     bindM (get_and_cache_account S a) (\<lambda>acct.
     bindM (set_and_journal (JNonce a (a_nonce acct)) (JNonce a n)) (\<lambda>_.
     touch a acct)))"

definition increment_nonce :: "('b, 'i) senv \<Rightarrow> pyarg \<Rightarrow> ('b state, unit) M" where
  "increment_nonce S address =
     bindM (liftE (normalize_address (s_ext S) address False)) (\<lambda>a.
     bindM (get_and_cache_account S a) (\<lambda>acct.
     bindM (set_and_journal (JNonce a (a_nonce acct)) (JNonce a (a_nonce acct + 1))) (\<lambda>_.
     touch a acct)))"

definition account_exists :: "('b, 'i) senv \<Rightarrow> string \<Rightarrow> ('b state, bool) M" where
  "account_exists S address =
     bindM (get_and_cache_account S address) (\<lambda>a.
     ret (if a_deleted a \<and> \<not> a_touched a then False
          else if a_touched a then True else a_existent a))"

section \<open>Commit, snapshot, revert\<close>

definition commit_account :: "('b, 'i) senv \<Rightarrow> bool \<Rightarrow> string \<times> account \<Rightarrow> ('b state, unit) M" where
  "commit_account S allow_empties p =
     (case p of (addr, acct) \<Rightarrow>
        if a_touched acct \<or> a_deleted acct
        then bindM (modifyM (\<lambda>st. st\<lparr>st_changed := List.insert addr (st_changed st)\<rparr>)) (\<lambda>_.
             bindM (account_exists S addr) (\<lambda>ex.
             bindM (gets st_executing_on_head) (\<lambda>on_head.
             if ex \<or> allow_empties
             then bindM (in_trie (secure_update (state_trie S) addr (account_rlp (s_ext S) acct))) (\<lambda>_.
                  if on_head
                  then in_db (so_put (s_db S) (''address:'' @ addr) (account_rlp (s_ext S) acct))
                  else ret ())
             else bindM (in_trie (secure_delete (state_trie S) addr)) (\<lambda>_.
                  if on_head
                  then in_db (catchM (so_del (s_db S) (''address:'' @ addr)) (\<lambda>e. is_a e KeyError) (\<lambda>_. ret ()))
                  else ret ()))))
        else ret ())"

definition state_commit :: "('b, 'i) senv \<Rightarrow> bool \<Rightarrow> ('b state, unit) M" where
  "state_commit S allow_empties =
     bindM (gets st_cache) (\<lambda>cache.
     bindM (forM cache (commit_account S allow_empties)) (\<lambda>_.
     modifyM (\<lambda>st. st\<lparr>st_cache := [], st_journal := []\<rparr>)))"

text \<open>The variables of \<open>STATE_DEFAULTS\<close>.\<close>

record aux_vars =
  av_txindex :: nat
  av_block_number :: nat
  av_block_coinbase :: string
  av_timestamp :: nat
  av_prev_headers :: "past_header list"

definition get_aux :: "'b state \<Rightarrow> aux_vars" where
  "get_aux st = \<lparr>av_txindex = st_txindex st, av_block_number = st_block_number st,
     av_block_coinbase = st_block_coinbase st, av_timestamp = st_timestamp st,
     av_prev_headers = st_prev_headers st\<rparr>"

definition set_aux :: "aux_vars \<Rightarrow> 'b state \<Rightarrow> 'b state" where
  "set_aux v st = st\<lparr>st_txindex := av_txindex v, st_block_number := av_block_number v,
     st_block_coinbase := av_block_coinbase v, st_timestamp := av_timestamp v,
     st_prev_headers := av_prev_headers v\<rparr>"

definition snapshot :: "'b state \<Rightarrow> string \<times> nat \<times> aux_vars" where
  "snapshot st = (root_hash (st_trie st), length (st_journal st), get_aux st)"

fun undo_to :: "nat \<Rightarrow> 'b state \<Rightarrow> journal_entry list \<Rightarrow> 'b state" where
  "undo_to n st [] = st\<lparr>st_journal := []\<rparr>"
| "undo_to n st (j # js) =
     (if length (j # js) > n then undo_to n (journal_undo j st) js else st\<lparr>st_journal := j # js\<rparr>)"

definition revert :: "('b, 'i) senv \<Rightarrow> string \<times> nat \<times> aux_vars \<Rightarrow> ('b state, unit) M" where
  "revert S snap =
     (case snap of (h, n, aux) \<Rightarrow>
        bindM (modifyM (\<lambda>st. undo_to n st (st_journal st))) (\<lambda>_.
        bindM (gets (\<lambda>st. root_hash (st_trie st))) (\<lambda>root.
        bindM (if h \<noteq> root
               then bindM (assertM (n = 0)) (\<lambda>_.
                    bindM (in_trie (set_root_hash (state_trie S) h)) (\<lambda>_.
                    modifyM (\<lambda>st. st\<lparr>st_cache := []\<rparr>)))
               else ret ()) (\<lambda>_.
        modifyM (set_aux aux)))))"

text \<open>\<open>clone\<close> opens the same root over an \<open>OverlayDB\<close> of the database.\<close>

definition clone_env :: "('b, 'i) senv \<Rightarrow> ('b overlay, 'i) senv" where
  "clone_env S = \<lparr>s_ext = s_ext S, s_db = overlay_db (s_db S), s_ips = s_ips S, s_pickle = s_pickle S,
     s_unpickle = s_unpickle S\<rparr>"

definition clone :: "('b, 'i) senv \<Rightarrow> 'b state \<Rightarrow> 'b overlay state res" where
  "clone S st =
     (case set_root_hash (state_trie (clone_env S)) (root_hash (st_trie st))
            \<lparr>tdb = \<lparr>ov_db = tdb (st_trie st), ov_overlay = Map.empty\<rparr>, root_node = BLANK_NODE, root_hash = []\<rparr> of
        (Inl e, _) \<Rightarrow> Inl e
      | (Inr u, tr) \<Rightarrow>
          if \<exists>p \<in> set (st_cache st). a_touched (snd p) then Inl AssertionError
          else Inr \<lparr>st_trie = tr, st_txindex = st_txindex st, st_block_number = st_block_number st,
            st_block_coinbase = st_block_coinbase st, st_timestamp = st_timestamp st,
            st_prev_headers = st_prev_headers st, st_journal = st_journal st, st_cache = [],
            st_changed = [], st_executing_on_head = False\<rparr>)"

section \<open>Reverting what the journal recorded\<close>

lemma update_existing: "map_of d a = Some x \<Longrightarrow> AList.update a x (AList.update a y d) = d"
  by (induction d) auto

text \<open>The journal acts on the cache alone; as a function on the map of the cache.\<close>

definition undo_acct :: "journal_entry \<Rightarrow> (string \<rightharpoonup> account) \<Rightarrow> string \<rightharpoonup> account" where
  "undo_acct j m =
     (case j of
        JNonce a n \<Rightarrow> (case m a of Some x \<Rightarrow> m(a \<mapsto> x\<lparr>a_nonce := n\<rparr>) | None \<Rightarrow> m)
      | JBalance a b \<Rightarrow> (case m a of Some x \<Rightarrow> m(a \<mapsto> x\<lparr>a_balance := b\<rparr>) | None \<Rightarrow> m)
      | JTouched a t \<Rightarrow> (case m a of Some x \<Rightarrow> m(a \<mapsto> x\<lparr>a_touched := t\<rparr>) | None \<Rightarrow> m))"

fun entry_addr :: "journal_entry \<Rightarrow> string" where
  "entry_addr (JNonce a n) = a"
| "entry_addr (JBalance a b) = a"
| "entry_addr (JTouched a t) = a"

lemma journal_undo_cache: "map_of (st_cache (journal_undo j st)) = undo_acct j (map_of (st_cache st))"
  by (cases j) (auto simp: journal_undo_def undo_acct_def put_account_def map_of_update split: option.splits)

lemma journal_undo_rest [simp]:
  "st_trie (journal_undo j st) = st_trie st" "st_journal (journal_undo j st) = st_journal st"
  "get_aux (journal_undo j st) = get_aux st"
  by (cases j; simp add: journal_undo_def put_account_def get_aux_def split: option.splits)+

lemma undo_acct_dom [simp]: "dom (undo_acct j m) = dom m"
  by (cases j) (auto simp: undo_acct_def split: option.splits)

lemma undo_acct_other: "a \<noteq> entry_addr j \<Longrightarrow> undo_acct j m a = m a"
  by (cases j) (auto simp: undo_acct_def split: option.splits)

lemma undo_acct_fresh: "a \<noteq> entry_addr j \<Longrightarrow> undo_acct j (m(a \<mapsto> x)) = (undo_acct j m)(a \<mapsto> x)"
  by (cases j) (auto simp: undo_acct_def split: option.splits)

lemma fold_undo_fresh:
  "a \<notin> entry_addr ` set js \<Longrightarrow> fold undo_acct js (m(a \<mapsto> x)) = (fold undo_acct js m)(a \<mapsto> x)"
  by (induction js arbitrary: m) (auto simp: undo_acct_fresh)

lemma undo_to_run:
  "st_journal (undo_to (length J) st (js @ J)) = J \<and> st_trie (undo_to (length J) st (js @ J)) = st_trie st \<and>
   get_aux (undo_to (length J) st (js @ J)) = get_aux st \<and>
   map_of (st_cache (undo_to (length J) st (js @ J))) = fold undo_acct js (map_of (st_cache st))"
proof (induction js arbitrary: st)
  case Nil
  then show ?case by (cases J) (simp_all add: get_aux_def)
next
  case (Cons j js)
  from Cons.IH [of "journal_undo j st"] show ?case by (simp add: journal_undo_cache)
qed

text \<open>What a transaction may do to a state before it is committed.\<close>

inductive acct_step :: "('b, 'i) senv \<Rightarrow> 'b state \<Rightarrow> 'b state \<Rightarrow> bool" for S where
  read: "get_and_cache_account S a st = (r, st') \<Longrightarrow> acct_step S st st'"
| bal: "set_balance S x b st = (r, st') \<Longrightarrow> acct_step S st st'"
| nonce: "set_nonce S x n st = (r, st') \<Longrightarrow> acct_step S st st'"
| increment: "increment_nonce S x st = (r, st') \<Longrightarrow> acct_step S st st'"
| header: "add_block_header h st = (r, st') \<Longrightarrow> acct_step S st st'"
| vars: "acct_step S st (set_aux v st)"

inductive_cases acct_stepE: "acct_step S st st'"

text \<open>The state \<open>st\<close> comes from \<open>st0\<close> by journaled changes: undoing the entries since \<open>st0\<close> gives the
  accounts that \<open>st0\<close> had, and for the accounts read since then what was read.\<close>

definition loaded :: "('b, 'i) senv \<Rightarrow> 'b state \<Rightarrow> string \<Rightarrow> account \<Rightarrow> bool" where
  "loaded S st0 a acct \<longleftrightarrow> (\<exists>st. (acct_step S)\<^sup>*\<^sup>* st0 st \<and> map_of (st_cache st) a = None \<and>
     fst (get_and_cache_account S a st) = Inr acct)"

definition undoable :: "('b, 'i) senv \<Rightarrow> 'b state \<Rightarrow> 'b state \<Rightarrow> bool" where
  "undoable S st0 st \<longleftrightarrow> (\<exists>js. st_journal st = js @ st_journal st0 \<and>
     entry_addr ` set js \<subseteq> dom (map_of (st_cache st)) \<and>
     root_hash (st_trie st) = root_hash (st_trie st0) \<and>
     map_of (st_cache st0) \<subseteq>\<^sub>m fold undo_acct js (map_of (st_cache st)) \<and>
     (\<forall>a acct. fold undo_acct js (map_of (st_cache st)) a = Some acct \<longrightarrow>
        map_of (st_cache st0) a = Some acct \<or> loaded S st0 a acct))"

lemma in_tdb_keeps: "in_tdb p tr = (r, tr') \<Longrightarrow> root_hash tr' = root_hash tr \<and> root_node tr' = root_node tr"
  by (auto simp: in_tdb_def zoomM_def split: prod.splits)

lemma secure_get_keeps: "secure_get T k tr = (r, tr') \<Longrightarrow> root_hash tr' = root_hash tr"
  using in_tdb_keeps by (fastforce simp: secure_get_def Trie.get_def bindM_def split: prod.splits sum.splits)

lemma in_trie_run: "in_trie p st = (r, st') \<Longrightarrow> \<exists>tr'. p (st_trie st) = (r, tr') \<and> st' = st\<lparr>st_trie := tr'\<rparr>"
  by (auto simp: in_trie_def zoomM_def split: prod.splits)

lemma in_db_run: "in_db p st = (r, st') \<Longrightarrow> \<exists>d. p (tdb (st_trie st)) = (r, d) \<and>
    st' = st\<lparr>st_trie := (st_trie st)\<lparr>tdb := d\<rparr>\<rparr>"
  by (auto simp: in_db_def in_trie_def in_tdb_def zoomM_def split: prod.splits)

lemma get_and_cache_effect:
  assumes "get_and_cache_account S a st = (r, st')"
  shows "st_journal st' = st_journal st \<and> root_hash (st_trie st') = root_hash (st_trie st) \<and> get_aux st' = get_aux st \<and>
    (map_of (st_cache st') = map_of (st_cache st) \<and> (\<forall>x. r = Inr x \<longrightarrow> map_of (st_cache st) a = Some x) \<or>
     (\<exists>x. r = Inr x \<and> map_of (st_cache st) a = None \<and> map_of (st_cache st') = (map_of (st_cache st))(a \<mapsto> x)))"
proof (cases "map_of (st_cache st) a")
  case (Some x)
  with assms show ?thesis by (auto simp: get_and_cache_account_def bindM_def)
next
  case None
  obtain q st1 where q: "in_trie (secure_get (state_trie S) a) st = (q, st1)" by fastforce
  from in_trie_run [OF q] secure_get_keeps [of "state_trie S" a]
  have st1: "st_journal st1 = st_journal st" "root_hash (st_trie st1) = root_hash (st_trie st)"
      "get_aux st1 = get_aux st" "st_cache st1 = st_cache st"
    by (auto simp: get_aux_def)
  show ?thesis
  proof (cases q)
    case (Inl e)
    with None q assms st1 show ?thesis by (auto simp: get_and_cache_account_def bindM_def)
  next
    case (Inr d)
    let ?load = "if d \<noteq> BLANK_NODE
                then liftE (case d of Str d \<Rightarrow> account_decode (s_ext S) d | Lst _ \<Rightarrow> Inl TypeError)
                else in_db (blank_account S ACCOUNT_INITIAL_NONCE)"
    obtain u st2 where u: "?load st1 = (u, st2)" by fastforce
    then have st2: "st_journal st2 = st_journal st1" "root_hash (st_trie st2) = root_hash (st_trie st1)"
      "get_aux st2 = get_aux st1" "st_cache st2 = st_cache st1"
      using in_db_run [of "blank_account S ACCOUNT_INITIAL_NONCE" st1 u st2]
      by (auto simp: get_aux_def split: if_splits)
    have run: "get_and_cache_account S a st =
        (case u of Inl e \<Rightarrow> (Inl e, st2) | Inr x \<Rightarrow> (Inr x, st2\<lparr>st_cache := AList.update a x (st_cache st2)\<rparr>))"
      using None q Inr u by (simp add: get_and_cache_account_def bindM_def split: sum.splits if_splits)
    show ?thesis
    proof (cases u)
      case (Inl e)
      with run assms st1 st2 show ?thesis by auto
    next
      case (Inr x)
      with run assms st1 st2 None show ?thesis by (auto simp: map_of_update get_aux_def)
    qed
  qed
qed

lemma undoable_refl: "undoable S st st"
  by (auto simp: undoable_def intro!: exI [of _ "[]"])

lemma undoable_read:
  assumes u: "undoable S st0 st" and steps: "(acct_step S)\<^sup>*\<^sup>* st0 st"
    and get: "get_and_cache_account S a st = (r, st')"
  shows "undoable S st0 st' \<and> (\<forall>x. r = Inr x \<longrightarrow> map_of (st_cache st') a = Some x)"
proof -
  note eff = get_and_cache_effect [OF get]
  obtain js where js: "st_journal st = js @ st_journal st0" "entry_addr ` set js \<subseteq> dom (map_of (st_cache st))"
      "root_hash (st_trie st) = root_hash (st_trie st0)"
      "map_of (st_cache st0) \<subseteq>\<^sub>m fold undo_acct js (map_of (st_cache st))"
      "\<forall>a acct. fold undo_acct js (map_of (st_cache st)) a = Some acct \<longrightarrow>
        map_of (st_cache st0) a = Some acct \<or> loaded S st0 a acct"
    using u by (auto simp: undoable_def)
  from eff show ?thesis
  proof (elim conjE disjE exE)
    assume "map_of (st_cache st') = map_of (st_cache st)" "\<forall>x. r = Inr x \<longrightarrow> map_of (st_cache st) a = Some x"
    with js eff show ?thesis by (auto simp: undoable_def intro!: exI [of _ js])
  next
    fix x assume x: "r = Inr x" "map_of (st_cache st) a = None" "map_of (st_cache st') = (map_of (st_cache st))(a \<mapsto> x)"
    then have "a \<notin> entry_addr ` set js" using js(2) by auto
    then have fold: "fold undo_acct js (map_of (st_cache st')) = (fold undo_acct js (map_of (st_cache st)))(a \<mapsto> x)"
      using x(3) by (simp add: fold_undo_fresh)
    have none: "fold undo_acct js (map_of (st_cache st)) a = None"
    proof -
      have "dom (fold undo_acct js m) = dom m" for m by (induction js arbitrary: m) simp_all
      with x(2) show ?thesis by (metis domIff)
    qed
    have "loaded S st0 a x"
      using steps x(1,2) get by (auto simp: loaded_def)
    moreover have "map_of (st_cache st0) \<subseteq>\<^sub>m fold undo_acct js (map_of (st_cache st'))"
      using js(4) fold none by (auto simp: map_le_def dom_def)
    ultimately show ?thesis
      using js fold eff x by (auto simp: undoable_def intro!: exI [of _ js])
  qed
qed

lemma undoable_journal:
  assumes u: "undoable S st0 st" and dom: "entry_addr old \<in> dom (map_of (st_cache st))"
    and inv: "undo_acct old (undo_acct new (map_of (st_cache st))) = map_of (st_cache st)"
    and run: "set_and_journal old new st = (r, st')"
  shows "undoable S st0 st' \<and> map_of (st_cache st') = undo_acct new (map_of (st_cache st)) \<and> r = Inr ()"
proof -
  obtain js where js: "st_journal st = js @ st_journal st0" "entry_addr ` set js \<subseteq> dom (map_of (st_cache st))"
      "root_hash (st_trie st) = root_hash (st_trie st0)"
      "map_of (st_cache st0) \<subseteq>\<^sub>m fold undo_acct js (map_of (st_cache st))"
      "\<forall>a acct. fold undo_acct js (map_of (st_cache st)) a = Some acct \<longrightarrow>
        map_of (st_cache st0) a = Some acct \<or> loaded S st0 a acct"
    using u by (auto simp: undoable_def)
  have st': "st' = journal_undo new (st\<lparr>st_journal := old # st_journal st\<rparr>)" "r = Inr ()"
    using run by (simp_all add: set_and_journal_def)
  have cache: "map_of (st_cache st') = undo_acct new (map_of (st_cache st))"
    by (simp add: st' journal_undo_cache)
  have "fold undo_acct (old # js) (map_of (st_cache st')) = fold undo_acct js (map_of (st_cache st))"
    using inv cache by simp
  with js dom cache st' show ?thesis
    unfolding undoable_def by (intro conjI exI [of _ "old # js"]) (simp_all del: fold.simps)
qed

text \<open>A read followed by setting one attribute and the mark \<open>touched\<close>, the shape of the setters.\<close>

lemma undoable_setter:
  assumes u: "undoable S st0 st" and steps: "(acct_step S)\<^sup>*\<^sup>* st0 st"
    and run: "bindM (get_and_cache_account S a) (\<lambda>acct. bindM (set_and_journal (old acct) (new acct)) (\<lambda>_. touch a acct)) st = (r, st')"
    and addr: "\<And>x. entry_addr (old x) = a"
    and inv: "\<And>m x. m a = Some x \<Longrightarrow> undo_acct (old x) (undo_acct (new x) m) = m \<and>
      (\<exists>y. undo_acct (new x) m a = Some y \<and> a_touched y = a_touched x)"
  shows "undoable S st0 st'"
proof -
  obtain q st1 where q: "get_and_cache_account S a st = (q, st1)" by fastforce
  note r1 = undoable_read [OF u steps q]
  show ?thesis
  proof (cases q)
    case (Inl e)
    with q run r1 show ?thesis by (simp add: bindM_def)
  next
    case (Inr x)
    with r1 have x: "map_of (st_cache st1) a = Some x" by simp
    obtain v st2 where v: "set_and_journal (old x) (new x) st1 = (v, st2)" by fastforce
    have r2: "undoable S st0 st2 \<and> map_of (st_cache st2) = undo_acct (new x) (map_of (st_cache st1)) \<and> v = Inr ()"
    proof (rule undoable_journal [OF _ _ _ v])
      show "undoable S st0 st1" using r1 by simp
      show "entry_addr (old x) \<in> dom (map_of (st_cache st1))" using addr x by auto
      show "undo_acct (old x) (undo_acct (new x) (map_of (st_cache st1))) = map_of (st_cache st1)"
        using inv [of "map_of (st_cache st1)" x] x by simp
    qed
    have run2: "touch a x st2 = (r, st')"
      using run q Inr v r2 by (simp add: bindM_def)
    obtain y where y: "map_of (st_cache st2) a = Some y" "a_touched y = a_touched x"
      using inv [of "map_of (st_cache st1)" x] x r2 by auto
    have touch: "set_and_journal (JTouched a (a_touched x)) (JTouched a True) st2 = (r, st')"
      using run2 by (simp add: touch_def)
    have "undoable S st0 st' \<and> map_of (st_cache st') = undo_acct (JTouched a True) (map_of (st_cache st2)) \<and> r = Inr ()"
    proof (rule undoable_journal [OF _ _ _ touch])
      show "undoable S st0 st2" using r2 by simp
      show "entry_addr (JTouched a (a_touched x)) \<in> dom (map_of (st_cache st2))" using y(1) by (simp add: domI)
      show "undo_acct (JTouched a (a_touched x)) (undo_acct (JTouched a True) (map_of (st_cache st2))) = map_of (st_cache st2)"
        using y by (auto simp: undo_acct_def)
    qed
    then show ?thesis by simp
  qed
qed

lemma undoable_step:
  assumes "(acct_step S)\<^sup>*\<^sup>* st0 st" "undoable S st0 st" "acct_step S st st'"
  shows "undoable S st0 st'"
  using assms(3)
proof cases
  case (read a r)
  with undoable_read [OF assms(2,1)] show ?thesis by blast
next
  case (bal x b r)
  show ?thesis
  proof (cases "normalize_address (s_ext S) x False")
    case (Inl e)
    with bal assms(2) show ?thesis by (simp add: set_balance_def bindM_def)
  next
    case (Inr a)
    with bal have "bindM (get_and_cache_account S a) (\<lambda>acct. bindM (set_and_journal (JBalance a (a_balance acct))
        (JBalance a (object_to_bin S b))) (\<lambda>_. touch a acct)) st = (r, st')"
      by (simp add: set_balance_def bindM_def)
    from undoable_setter [OF assms(2,1) this] show ?thesis by (simp add: undo_acct_def map_upd_triv)
  qed
next
  case (nonce x n r)
  show ?thesis
  proof (cases "normalize_address (s_ext S) x False")
    case (Inl e)
    with nonce assms(2) show ?thesis by (simp add: set_nonce_def bindM_def)
  next
    case (Inr a)
    with nonce have "bindM (get_and_cache_account S a) (\<lambda>acct. bindM (set_and_journal (JNonce a (a_nonce acct))
        (JNonce a n)) (\<lambda>_. touch a acct)) st = (r, st')"
      by (simp add: set_nonce_def bindM_def)
    from undoable_setter [OF assms(2,1) this] show ?thesis by (simp add: undo_acct_def map_upd_triv)
  qed
next
  case (increment x r)
  show ?thesis
  proof (cases "normalize_address (s_ext S) x False")
    case (Inl e)
    with increment assms(2) show ?thesis by (simp add: increment_nonce_def bindM_def)
  next
    case (Inr a)
    with increment have "bindM (get_and_cache_account S a) (\<lambda>acct. bindM (set_and_journal (JNonce a (a_nonce acct))
        (JNonce a (a_nonce acct + 1))) (\<lambda>_. touch a acct)) st = (r, st')"
      by (simp add: increment_nonce_def bindM_def)
    from undoable_setter [OF assms(2,1) this] show ?thesis by (simp add: undo_acct_def map_upd_triv)
  qed
next
  case (header h r)
  with assms(2) show ?thesis by (auto simp: add_block_header_def undoable_def)
next
  case (vars v)
  with assms(2) show ?thesis by (auto simp: set_aux_def undoable_def)
qed


text \<open>A state with one cached account, for the witnesses.\<close>

definition senv_ref :: "(level, addr_set) senv" where
  "senv_ref = \<lparr>s_ext = ext_ref, s_db = level_db, s_ips = ipset_ref, s_pickle = (\<lambda>b. []),
     s_unpickle = (\<lambda>_. Inr (empty_balance ipset_ref))\<rparr>"

abbreviation sample_addr :: string where
  "sample_addr \<equiv> replicate 20 (CHR 0x07)"

definition sample_state :: "level state" where
  "sample_state = \<lparr>st_trie = blank_trie ext_ref level_empty, st_txindex = 0, st_block_number = 3,
     st_block_coinbase = [], st_timestamp = 0, st_prev_headers = [], st_journal = [],
     st_cache = [(sample_addr, \<lparr>a_nonce = 4, a_balance = [], a_touched = False, a_deleted = False, a_existent = True\<rparr>)],
     st_changed = [], st_executing_on_head = False\<rparr>"


end
