(* ===== verification/Patricia.thy ===== *)
theory Patricia
  imports Balance
begin

text \<open>
  \<open>patricia_state.py\<close>: the index from IP prefixes to the address that holds them, the class
  \<open>PatriciaState\<close> over a tree of the package \<open>py-radix\<close>. The tree is the parameter \<open>radix_ops\<close>; a
  node is a prefix with the address in its data.
\<close>

section \<open>The radix tree\<close>

text \<open>\<open>rx_set\<close> is \<open>add\<close> followed by writing \<open>data['address']\<close>; \<open>rx_best\<close> is the address in the data of
  \<open>search_best\<close>; \<open>rx_nodes\<close> lists the prefixes of \<open>nodes()\<close>.\<close>

record 'p radix_ops =
  rx_empty :: 'p
  rx_set :: "ipnet \<Rightarrow> string \<Rightarrow> 'p \<Rightarrow> 'p"
  rx_best :: "ipnet \<Rightarrow> 'p \<Rightarrow> string option"
  rx_nodes :: "'p \<Rightarrow> ipnet list"

text \<open>A prefix without host bits, and the prefixes that contain another.\<close>

definition net_mask :: "ipnet \<Rightarrow> ipnet" where
  "net_mask n = IPNet (net_version n) (net_first n) (net_prefixlen n)"

definition covers :: "ipnet \<Rightarrow> ipnet \<Rightarrow> bool" where
  "covers q n \<longleftrightarrow> net_version q = net_version n \<and> net_prefixlen q \<le> net_prefixlen n \<and>
     net_value q div net_size q = net_value n div net_size q"

text \<open>What is documented of \<open>py-radix\<close>: the tree holds one node for every prefix added, host bits
  ignored, and \<open>search_best\<close> finds the longest prefix that contains the one asked for.\<close>

definition longest :: "(ipnet \<rightharpoonup> string) \<Rightarrow> ipnet \<Rightarrow> ipnet \<Rightarrow> bool" where
  "longest m n q \<longleftrightarrow> q \<in> dom m \<and> covers q n \<and>
     (\<forall>q' \<in> dom m. covers q' n \<longrightarrow> net_prefixlen q' \<le> net_prefixlen q)"

definition radix_ok :: "'p radix_ops \<Rightarrow> ('p \<Rightarrow> ipnet \<rightharpoonup> string) \<Rightarrow> bool" where
  "radix_ok R view \<longleftrightarrow>
     view (rx_empty R) = Map.empty \<and>
     (\<forall>n v p. view (rx_set R n v p) = (view p)(net_mask n \<mapsto> v)) \<and>
     (\<forall>n p. case rx_best R n p of
        None \<Rightarrow> \<forall>q \<in> dom (view p). \<not> covers q n
      | Some v \<Rightarrow> \<exists>q. longest (view p) n q \<and> view p q = Some v) \<and>
     (\<forall>p. set (rx_nodes R p) = dom (view p))"

section \<open>The class PatriciaState\<close>

record 'p patricia =
  pt_tree :: 'p
  pt_dic :: "(ipnet \<times> string) list"

definition patricia_init :: "'p radix_ops \<Rightarrow> 'p patricia" where
  "patricia_init R = \<lparr>pt_tree = rx_empty R, pt_dic = []\<rparr>"

definition set_value :: "'p radix_ops \<Rightarrow> ipnet \<Rightarrow> string \<Rightarrow> 'p patricia \<Rightarrow> 'p patricia" where
  "set_value R key v p = p\<lparr>pt_tree := rx_set R key v (pt_tree p)\<rparr>"

text \<open>\<open>search_best\<close> returns None when no prefix matches.\<close>

definition get_value :: "'p radix_ops \<Rightarrow> ipnet \<Rightarrow> 'p patricia \<Rightarrow> string res" where
  "get_value R key p =
     (case rx_best R key (pt_tree p) of Some v \<Rightarrow> Inr v | None \<Rightarrow> Inl AttributeError)"

text \<open>\<open>to_db\<close> pickles the dictionary, \<open>from_db\<close> loads it, keeping the current one when there is no
  file.\<close>

fun to_db_loop :: "'p radix_ops \<Rightarrow> ipnet list \<Rightarrow> 'p patricia \<Rightarrow> 'p patricia res" where
  "to_db_loop R [] p = Inr p"
| "to_db_loop R (n # ns) p =
     bindE (get_value R n p) (\<lambda>v. to_db_loop R ns (p\<lparr>pt_dic := AList.update n v (pt_dic p)\<rparr>))"

definition to_db :: "'p radix_ops \<Rightarrow> 'p patricia \<Rightarrow> 'p patricia res" where
  "to_db R p = to_db_loop R (rx_nodes R (pt_tree p)) p"

definition from_db :: "'p radix_ops \<Rightarrow> (ipnet \<times> string) list option \<Rightarrow> 'p patricia \<Rightarrow> 'p patricia" where
  "from_db R file p =
     (let p1 = (case file of Some d \<Rightarrow> p\<lparr>pt_dic := d\<rparr> | None \<Rightarrow> p)
      in fold (\<lambda>(key, v) p. set_value R key v p) (pt_dic p1) p1)"

section \<open>Properties\<close>

text \<open>A node of the tree: its prefix has no host bits.\<close>

definition masked :: "(ipnet \<rightharpoonup> string) \<Rightarrow> bool" where
  "masked m \<longleftrightarrow> (\<forall>q \<in> dom m. net_mask q = q)"

lemma net_size_pos [simp]: "0 < net_size n"
  by (simp add: net_size_def)

lemma net_size_mask [simp]: "net_size (net_mask n) = net_size n"
  by (simp add: net_size_def net_mask_def)

lemma net_mask_idem [simp]: "net_mask (net_mask n) = net_mask n"
  by (simp add: net_mask_def net_first_def net_size_def)

lemma covers_refl [simp]: "covers n n"
  by (simp add: covers_def)

lemma covers_same_length:
  assumes "covers q n" "covers r n" "net_prefixlen q = net_prefixlen r" "net_mask q = q" "net_mask r = r"
  shows "q = r"
proof -
  have size: "net_size q = net_size r"
    using assms(1-3) by (simp add: covers_def net_size_def)
  then have "net_value q div net_size q = net_value r div net_size r"
    using assms(1,2) by (simp add: covers_def)
  then have "net_mask q = net_mask r"
    using assms(1-3) size by (simp add: net_mask_def net_first_def covers_def)
  with assms(4,5) show ?thesis by metis
qed

lemma longest_unique:
  assumes "masked m" "longest m n q" "longest m n r"
  shows "q = r"
proof -
  have "net_prefixlen q = net_prefixlen r"
  proof (rule le_antisym)
    show "net_prefixlen q \<le> net_prefixlen r" "net_prefixlen r \<le> net_prefixlen q"
      using assms(2,3) unfolding longest_def by blast+
  qed
  moreover have "net_mask q = q" "net_mask r = r"
    using assms by (auto simp: longest_def masked_def)
  ultimately show ?thesis
    using assms(2,3) covers_same_length [of q n r] by (simp add: longest_def)
qed

text \<open>The lookup is a function of the nodes.\<close>

lemma best_spec:
  assumes "radix_ok R view" "masked (view p)"
  shows "rx_best R n p = Some v \<longleftrightarrow> (\<exists>q. longest (view p) n q \<and> view p q = Some v)"
proof -
  have spec: "case rx_best R n p of None \<Rightarrow> \<forall>q \<in> dom (view p). \<not> covers q n
      | Some v \<Rightarrow> \<exists>q. longest (view p) n q \<and> view p q = Some v"
    using assms(1) by (simp add: radix_ok_def)
  show ?thesis
  proof (cases "rx_best R n p")
    case None
    with spec show ?thesis by (auto simp: longest_def)
  next
    case (Some w)
    with spec obtain r where "longest (view p) n r" "view p r = Some w" by auto
    with Some longest_unique [OF assms(2)] show ?thesis by (metis option.inject)
  qed
qed

lemma best_unique:
  assumes "radix_ok R view" "masked (view p)" "view p = view p'"
  shows "rx_best R n p = rx_best R n p'"
proof -
  have "rx_best R n p = Some v \<longleftrightarrow> rx_best R n p' = Some v" for v
    using best_spec [OF assms(1,2), of n v] best_spec [OF assms(1), of p' n v] assms(2,3) by metis
  then show ?thesis by (metis not_Some_eq)
qed

lemma best_node:
  assumes "radix_ok R view" "masked (view p)" "view p q = Some v"
  shows "rx_best R q p = Some v"
proof -
  have "longest (view p) q q"
    using assms(3) by (simp add: longest_def domI) (simp add: covers_def)
  with assms(3) show ?thesis
    by (simp add: best_spec [OF assms(1,2)]) blast
qed

lemma fold_set_value:
  assumes "radix_ok R view"
  shows "view (pt_tree (fold (\<lambda>(key, v) p. set_value R key v p) d p)) =
    fold (\<lambda>(key, v) m. m(net_mask key \<mapsto> v)) d (view (pt_tree p))"
  using assms by (induction d arbitrary: p) (auto simp: set_value_def radix_ok_def)

lemma fold_masked_updates:
  "distinct (map fst d) \<Longrightarrow> \<forall>(q, v) \<in> set d. net_mask q = q \<Longrightarrow>
     fold (\<lambda>(key, v) m. m(net_mask key \<mapsto> v)) d m = m ++ map_of d"
proof (induction d arbitrary: m)
  case (Cons e d)
  obtain q v where e: "e = (q, v)" by fastforce
  have "map_of d q = None" using Cons.prems(1) e by (auto simp: map_of_eq_None_iff)
  with Cons e show ?case by (auto simp: map_add_def fun_eq_iff split: option.splits)
qed simp

lemma map_add_dom: "dom m \<subseteq> dom m' \<Longrightarrow> m ++ m' = m'"
  by (force simp: map_add_def fun_eq_iff dom_def split: option.splits)

lemma restrict_all: "m |` dom m = m"
  by (rule ext) (simp add: restrict_map_def domIff)

lemma to_db_loop_run:
  assumes R: "radix_ok R view" and m: "masked (view (pt_tree p))"
  shows "set ns \<subseteq> dom (view (pt_tree p)) \<Longrightarrow> \<exists>p'. to_db_loop R ns p = Inr p' \<and> pt_tree p' = pt_tree p \<and>
    map_of (pt_dic p') = map_of (pt_dic p) ++ (view (pt_tree p) |` set ns) \<and>
    (distinct (map fst (pt_dic p)) \<longrightarrow> distinct (map fst (pt_dic p')))"
  using m
proof (induction ns arbitrary: p)
  case Nil
  then show ?case by simp
next
  case (Cons n ns)
  then obtain v where v: "view (pt_tree p) n = Some v" by auto
  have get: "get_value R n p = Inr v"
    using best_node [OF R Cons.prems(2) v] by (simp add: get_value_def)
  let ?p = "p\<lparr>pt_dic := AList.update n v (pt_dic p)\<rparr>"
  obtain p' where p': "to_db_loop R ns ?p = Inr p'" "pt_tree p' = pt_tree p"
      "map_of (pt_dic p') = (map_of (pt_dic p))(n \<mapsto> v) ++ (view (pt_tree p) |` set ns)"
      "distinct (map fst (AList.update n v (pt_dic p))) \<longrightarrow> distinct (map fst (pt_dic p'))"
    using Cons.IH [of ?p] Cons.prems by (auto simp: update_conv' simp del: fun_upd_apply)
  have "(map_of (pt_dic p))(n \<mapsto> v) ++ (view (pt_tree p) |` set ns) =
      map_of (pt_dic p) ++ (view (pt_tree p) |` set (n # ns))"
    using v by (auto simp: fun_eq_iff map_add_def restrict_map_def split: option.splits)
  with p' get distinct_update [of "pt_dic p" n v] show ?case by auto
qed

text \<open>C22. The index survives a restart: what \<open>to_db\<close> writes, loaded by \<open>from_db\<close> into a fresh
  \<open>PatriciaState\<close>, answers every lookup as the index that was written.\<close>

theorem patricia_roundtrip:
  assumes "radix_ok R view" "masked (view (pt_tree p))" "distinct (map fst (pt_dic p))"
    and "dom (map_of (pt_dic p)) \<subseteq> dom (view (pt_tree p))"
  shows "\<exists>p'. to_db R p = Inr p' \<and>
    (\<forall>n. get_value R n (from_db R (Some (pt_dic p')) (patricia_init R)) = get_value R n p)"
proof -
  have nodes: "set (rx_nodes R (pt_tree p)) = dom (view (pt_tree p))"
    using assms(1) by (simp add: radix_ok_def)
  obtain p' where p': "to_db R p = Inr p'"
      "map_of (pt_dic p') = view (pt_tree p)" "distinct (map fst (pt_dic p'))"
    using to_db_loop_run [OF assms(1,2), of "rx_nodes R (pt_tree p)"] nodes assms(3)
      map_add_dom [OF assms(4)] by (auto simp: to_db_def restrict_all)
  have mask: "\<forall>(q, v) \<in> set (pt_dic p'). net_mask q = q"
    
    
  proof (clarify)
    fix q v assume "(q, v) \<in> set (pt_dic p')"
    then have "q \<in> dom (view (pt_tree p))"
      using map_of_is_SomeI [OF p'(3)] p'(2) by auto
    with assms(2) show "net_mask q = q" by (simp add: masked_def)
  qed
  have "view (pt_tree (from_db R (Some (pt_dic p')) (patricia_init R))) = view (pt_tree p)"
    using fold_set_value [OF assms(1), of "pt_dic p'"] fold_masked_updates [OF p'(3) mask] assms(1) p'(2)
    by (simp add: from_db_def patricia_init_def radix_ok_def)
  from best_unique [OF assms(1,2) this [symmetric]] p'(1) show ?thesis
    by (simp add: get_value_def)
qed

text \<open>A reference tree for the witnesses: a list of nodes.\<close>

fun best_of :: "ipnet \<Rightarrow> (ipnet \<times> string) list \<Rightarrow> (ipnet \<times> string) option" where
  "best_of n [] = None"
| "best_of n ((q, v) # d) =
     (case best_of n d of
        None \<Rightarrow> if covers q n then Some (q, v) else None
      | Some (r, w) \<Rightarrow> if covers q n \<and> net_prefixlen r \<le> net_prefixlen q then Some (q, v) else Some (r, w))"

definition radix_ref :: "(ipnet \<times> string) list radix_ops" where
  "radix_ref = \<lparr>rx_empty = [], rx_set = (\<lambda>n v d. AList.update (net_mask n) v d),
     rx_best = (\<lambda>n d. map_option snd (best_of n (AList.clearjunk d))),
     rx_nodes = (\<lambda>d. map fst d)\<rparr>"

lemma best_of_spec:
  "distinct (map fst d) \<Longrightarrow> (case best_of n d of None \<Rightarrow> \<forall>q \<in> fst ` set d. \<not> covers q n
     | Some (q, v) \<Rightarrow> (q, v) \<in> set d \<and> covers q n \<and>
         (\<forall>q' \<in> fst ` set d. covers q' n \<longrightarrow> net_prefixlen q' \<le> net_prefixlen q))"
  by (induction d) (fastforce split: option.splits if_splits)+

lemma radix_ref_ok: "radix_ok radix_ref map_of"
  unfolding radix_ok_def
proof (intro conjI allI)
  fix n and d :: "(ipnet \<times> string) list"
  show "case rx_best radix_ref n d of None \<Rightarrow> \<forall>q \<in> dom (map_of d). \<not> covers q n
      | Some v \<Rightarrow> \<exists>q. longest (map_of d) n q \<and> map_of d q = Some v"
  proof (cases "best_of n (AList.clearjunk d)")
    case None
    with best_of_spec [of "AList.clearjunk d" n] show ?thesis
      by (auto simp: radix_ref_def dom_map_of_conv_image_fst [symmetric] map_of_clearjunk distinct_clearjunk
          simp flip: dom_map_of_conv_image_fst)
  next
    case (Some x)
    obtain q v where x: "x = (q, v)" by fastforce
    have "fst ` set (AList.clearjunk d) = dom (map_of d)"
      by (metis dom_map_of_conv_image_fst map_of_clearjunk)
    then have spec: "(q, v) \<in> set (AList.clearjunk d)" "covers q n"
        "\<forall>q' \<in> dom (map_of d). covers q' n \<longrightarrow> net_prefixlen q' \<le> net_prefixlen q"
      using best_of_spec [OF distinct_clearjunk, of d n] Some x by simp_all
    then have "map_of d q = Some v"
      by (metis distinct_clearjunk map_of_clearjunk map_of_is_SomeI)
    with spec Some x show ?thesis
      by (auto simp: radix_ref_def longest_def)
  qed
qed (auto simp: radix_ref_def map_of_update dom_map_of_conv_image_fst)

theorem patricia_roundtrip_witness:
  "\<exists>p'. to_db radix_ref (set_value radix_ref (IPNet 4 256 24) ''a'' (patricia_init radix_ref)) = Inr p' \<and>
     get_value radix_ref (IPNet 4 300 32) (from_db radix_ref (Some (pt_dic p')) (patricia_init radix_ref)) = Inr ''a''"
proof -
  let ?p = "set_value radix_ref (IPNet 4 256 24) ''a'' (patricia_init radix_ref)"
  have "masked (map_of (pt_tree ?p))" "distinct (map fst (pt_dic ?p))"
    "dom (map_of (pt_dic ?p)) \<subseteq> dom (map_of (pt_tree ?p))"
    by (simp_all add: set_value_def patricia_init_def radix_ref_def masked_def)
  from patricia_roundtrip [OF radix_ref_ok this]
  obtain p' where "to_db radix_ref ?p = Inr p'"
      "get_value radix_ref (IPNet 4 300 32) (from_db radix_ref (Some (pt_dic p')) (patricia_init radix_ref)) =
       get_value radix_ref (IPNet 4 300 32) ?p" by blast
  then show ?thesis
    by (auto simp: get_value_def set_value_def patricia_init_def radix_ref_def covers_def net_mask_def
        net_first_def net_size_def)
qed

end
