(* ===== verification/Ledger.thy ===== *)
theory Ledger
  imports Transactions Balance
begin

text \<open>
  The abstract specification of the state transition: a ledger maps every address to its nonce and
  balance, and a transaction is a partial function on ledgers. Nothing of the cache, the journal,
  the trie, the database or the pickled form of a balance appears here. The theory
  \<open>ApplyRefine\<close> shows that \<open>apply_transaction\<close> implements it.

  On the ledger stand the properties that make the system a registry of IP prefixes: no address
  belongs to two accounts, delegations are recorded on both sides, are disjoint and lie inside what
  the delegating account owns.
\<close>

section \<open>The specification\<close>

type_synonym 'i ledger = "string \<Rightarrow> nat \<times> 'i balance"

definition put_balance :: "string \<Rightarrow> 'i balance \<Rightarrow> 'i ledger \<Rightarrow> 'i ledger" where
  "put_balance a b L = L(a := (fst (L a), b))"

definition bump_nonce :: "string \<Rightarrow> 'i ledger \<Rightarrow> 'i ledger" where
  "bump_nonce a L = L(a := (Suc (fst (L a)), snd (L a)))"

fun release_spec ::
  "ext \<Rightarrow> 'i ipset_ops \<Rightarrow> string \<Rightarrow> 'i balance \<Rightarrow> (string \<times> 'i) list \<Rightarrow> 'i ledger \<Rightarrow> ('i balance \<times> 'i ledger) res"
where
  "release_spec E I snder sb [] L = Inr (sb, L)"
| "release_spec E I snder sb ((add, ips) # affected) L =
     bindE (remove_delegated_ips E I (PyStr add) ips sb) (\<lambda>sb'.
     bindE (normalize_address E (PyStr add) False) (\<lambda>a.
     bindE (remove_received_ips E I (PyStr snder) ips (snd (L a))) (\<lambda>rb.
     release_spec E I snder sb' affected (put_balance a rb L))))"

definition allocate_spec ::
  "ext \<Rightarrow> 'i ipset_ops \<Rightarrow> string \<Rightarrow> string \<Rightarrow> ipnet \<Rightarrow> 'i ledger \<Rightarrow> 'i ledger res" where
  "allocate_spec E I snder to net L =
     bindE (affected_delegated_ips I net (snd (L snder))) (\<lambda>affected.
     bindE (release_spec E I snder (snd (L snder)) affected L) (\<lambda>(sb, L1).
     let L2 = put_balance to (add_own_ips I net (snd (L1 to))) L1
     in Inr (bump_nonce snder (put_balance snder (remove_own_ips I net sb) L2))))"

definition delegate_spec ::
  "ext \<Rightarrow> 'i ipset_ops \<Rightarrow> string \<Rightarrow> string \<Rightarrow> ipnet \<Rightarrow> 'i ledger \<Rightarrow> 'i ledger res" where
  "delegate_spec E I snder to net L =
     bindE (affected_delegated_ips I net (snd (L snder))) (\<lambda>affected.
     bindE (release_spec E I snder (snd (L snder)) affected L) (\<lambda>(sb, L1).
     bindE (add_received_ips E I (PyStr snder) net (snd (L1 to))) (\<lambda>tb.
     bindE (add_delegated_ips E I (PyStr to) net sb) (\<lambda>sb'.
     Inr (bump_nonce snder (put_balance snder sb' (put_balance to tb L1)))))))"

definition metadata_spec :: "string \<Rightarrow> ('i balance \<Rightarrow> 'i balance res) \<Rightarrow> 'i ledger \<Rightarrow> 'i ledger res" where
  "metadata_spec snder setter L =
     bindE (setter (snd (L snder))) (\<lambda>b. Inr (bump_nonce snder (put_balance snder b L)))"

text \<open>The metadata of the last two categories: the constructor leaves a list of strings.\<close>

definition metadata_strings :: "item \<Rightarrow> string list" where
  "metadata_strings m =
     (case m of
        Str s \<Rightarrow> map (\<lambda>c. [c]) s
      | Lst xs \<Rightarrow> map (\<lambda>x. case x of Str s \<Rightarrow> s | Lst _ \<Rightarrow> []) xs)"

text \<open>What a transaction has to satisfy before it is applied, the sender being known.\<close>

definition valid_spec :: "'i ipset_ops \<Rightarrow> string \<Rightarrow> tx \<Rightarrow> 'i ledger \<Rightarrow> unit res" where
  "valid_spec I snder t L =
     (if snder = [] \<or> snder = null_address then Inl UnsignedTransaction
      else if fst (L snder) \<noteq> tx_nonce t then Inl InvalidNonce
      else if tx_category t > 3 then Inl InvalidCategory
      else bindE (ip_network t) (\<lambda>net.
           if (tx_category t = 0 \<or> tx_category t = 1) \<and> \<not> in_own_ips I net (snd (L snder))
           then Inl InsufficientBalance else Inr ()))"

definition effect_spec :: "ext \<Rightarrow> 'i ipset_ops \<Rightarrow> string \<Rightarrow> tx \<Rightarrow> 'i ledger \<Rightarrow> 'i ledger res" where
  "effect_spec E I snder t L =
     (if tx_category t = 0 \<or> tx_category t = 1
      then bindE (ip_network t) (\<lambda>net.
           bindE (normalize_address E (PyStr (tx_to t)) False) (\<lambda>to.
           if tx_category t = 0 then allocate_spec E I snder to net L else delegate_spec E I snder to net L))
      else if tx_category t = 2 then metadata_spec snder (set_map_server (metadata_strings (tx_metadata t))) L
      else metadata_spec snder (set_locator (metadata_strings (tx_metadata t))) L)"

definition tx_spec :: "ext \<Rightarrow> 'i ipset_ops \<Rightarrow> tx \<Rightarrow> 'i ledger \<Rightarrow> 'i ledger res" where
  "tx_spec E I t L =
     bindE (fst (sender E t)) (\<lambda>snder.
     bindE (valid_spec I snder t L) (\<lambda>_. effect_spec E I snder t L))"

section \<open>Ownership and delegation as sets of addresses\<close>

definition owns :: "('i \<Rightarrow> (nat \<times> nat) set) \<Rightarrow> 'i ledger \<Rightarrow> string \<Rightarrow> (nat \<times> nat) set" where
  "owns addrs L a = addrs (own_ips (snd (L a)))"

definition delegated :: "('i \<Rightarrow> (nat \<times> nat) set) \<Rightarrow> 'i ledger \<Rightarrow> string \<Rightarrow> string \<Rightarrow> (nat \<times> nat) set" where
  "delegated addrs L a b = held_for addrs (delegated_ips (snd (L a))) b"

definition received :: "('i \<Rightarrow> (nat \<times> nat) set) \<Rightarrow> 'i ledger \<Rightarrow> string \<Rightarrow> string \<Rightarrow> (nat \<times> nat) set" where
  "received addrs L a b = held_for addrs (received_ips (snd (L a))) b"

lemmas ledger_views = owns_def delegated_def received_def

definition ledger_ok :: "('i \<Rightarrow> (nat \<times> nat) set) \<Rightarrow> 'i ledger \<Rightarrow> bool" where
  "ledger_ok addrs L \<longleftrightarrow>
     (\<forall>a b. a \<noteq> b \<longrightarrow> owns addrs L a \<inter> owns addrs L b = {}) \<and>
     (\<forall>a b. delegated addrs L a b = received addrs L b a) \<and>
     (\<forall>a b. delegated addrs L a b \<subseteq> owns addrs L a) \<and>
     (\<forall>a b c. b \<noteq> c \<longrightarrow> delegated addrs L a b \<inter> delegated addrs L a c = {}) \<and>
     (\<forall>a. delegated addrs L a a = {})"

lemma ledger_okD:
  assumes "ledger_ok addrs L"
  shows "a \<noteq> b \<Longrightarrow> owns addrs L a \<inter> owns addrs L b = {}"
    "delegated addrs L a b = received addrs L b a" "delegated addrs L a b \<subseteq> owns addrs L a"
    "b \<noteq> c \<Longrightarrow> delegated addrs L a b \<inter> delegated addrs L a c = {}" "delegated addrs L a a = {}"
  using assms [unfolded ledger_ok_def, THEN conjunct1]
    assms [unfolded ledger_ok_def, THEN conjunct2, THEN conjunct1]
    assms [unfolded ledger_ok_def, THEN conjunct2, THEN conjunct2, THEN conjunct1]
    assms [unfolded ledger_ok_def, THEN conjunct2, THEN conjunct2, THEN conjunct2]
  by (simp, simp, fast, simp_all)

text \<open>The dictionary of delegations is well formed: its keys are distinct and 20 bytes long.\<close>

definition dict_ok :: "(string \<times> 'i) list \<Rightarrow> bool" where
  "dict_ok d \<longleftrightarrow> distinct (map fst d) \<and> (\<forall>a \<in> dom (map_of d). length a = 20)"

definition ledger_wf :: "'i ledger \<Rightarrow> bool" where
  "ledger_wf L \<longleftrightarrow> (\<forall>a. dict_ok (delegated_ips (snd (L a))))"

lemma dict_ok_add: "dict_ok d \<Longrightarrow> length a = 20 \<Longrightarrow> dict_ok (dict_add I a n d)"
  using distinct_update [of d a]
  by (auto simp: dict_ok_def dict_add_def map_of_update simp del: map_of_eq_Some_iff split: option.splits if_splits)

lemma dict_ok_remove: "dict_ok d \<Longrightarrow> dict_remove I a s d = Inr d' \<Longrightarrow> dict_ok d'"
  using distinct_update [of d a] distinct_delete [of d a]
  by (auto simp: dict_ok_def dict_remove_def bindE_eq_Inr Let_def map_of_update map_of_delete
      simp del: map_of_eq_Some_iff split: option.splits if_splits)

section \<open>Ending delegations\<close>

lemma remove_delegated_effect:
  assumes "ipset_ok I addrs" "remove_delegated_ips E I (PyStr x) s b = Inr b'"
  shows "\<exists>a. normalize_address E (PyStr x) False = Inr a \<and> own_ips b' = own_ips b \<and>
    received_ips b' = received_ips b \<and> (dict_ok (delegated_ips b) \<longrightarrow> dict_ok (delegated_ips b')) \<and>
    (\<forall>c. held_for addrs (delegated_ips b') c =
       (if c = a then held_for addrs (delegated_ips b) a - addrs s else held_for addrs (delegated_ips b) c))"
  using assms(2) held_for_dict_remove [OF assms(1)] dict_ok_remove
  by (fastforce simp: remove_delegated_ips_def bindE_eq_Inr)

lemma remove_received_effect:
  assumes "ipset_ok I addrs" "remove_received_ips E I (PyStr x) s b = Inr b'"
  shows "\<exists>a. normalize_address E (PyStr x) False = Inr a \<and> own_ips b' = own_ips b \<and>
    delegated_ips b' = delegated_ips b \<and>
    (\<forall>c. held_for addrs (received_ips b') c =
       (if c = a then held_for addrs (received_ips b) a - addrs s else held_for addrs (received_ips b) c))"
  using assms(2) held_for_dict_remove [OF assms(1)]
  by (fastforce simp: remove_received_ips_def bindE_eq_Inr)

text \<open>\<open>release_spec\<close> takes every listed overlap away on both sides and changes nothing else.\<close>

lemma release_effect:
  assumes I: "ipset_ok I addrs" and snder: "length snder = 20"
  shows "release_spec E I snder sb (map (\<lambda>(b, s). (hex_encode b, s)) xs) L = Inr (sb', L') \<Longrightarrow>
    dict_ok xs \<Longrightarrow>
    own_ips sb' = own_ips sb \<and> received_ips sb' = received_ips sb \<and>
    (dict_ok (delegated_ips sb) \<longrightarrow> dict_ok (delegated_ips sb')) \<and>
    (\<forall>b. held_for addrs (delegated_ips sb') b = held_for addrs (delegated_ips sb) b - held_for addrs xs b) \<and>
    (\<forall>b. fst (L' b) = fst (L b) \<and> own_ips (snd (L' b)) = own_ips (snd (L b)) \<and>
       delegated_ips (snd (L' b)) = delegated_ips (snd (L b)) \<and>
       (b \<notin> dom (map_of xs) \<longrightarrow> L' b = L b) \<and>
       (\<forall>a. received addrs L' b a = received addrs L b a - (if a = snder then held_for addrs xs b else {})))"
proof (induction xs arbitrary: sb L)
  case Nil
  then show ?case by (simp add: held_for_def)
next
  case (Cons x xs)
  obtain b s where x: "x = (b, s)" by fastforce
  have len: "length b = 20" "dict_ok xs" "map_of xs b = None"
    using Cons.prems(2) x by (auto simp: dict_ok_def map_of_eq_None_iff)
  obtain sb1 rb where sb1: "remove_delegated_ips E I (PyStr (hex_encode b)) s sb = Inr sb1"
    and rb: "remove_received_ips E I (PyStr snder) s (snd (L b)) = Inr rb"
    and rest: "release_spec E I snder sb1 (map (\<lambda>(b, s). (hex_encode b, s)) xs) (put_balance b rb L) = Inr (sb', L')"
    using Cons.prems(1) x len by (auto simp: bindE_eq_Inr)
  note IH = Cons.IH [OF rest len(2)]
  have e1: "own_ips sb1 = own_ips sb" "received_ips sb1 = received_ips sb"
      "dict_ok (delegated_ips sb) \<longrightarrow> dict_ok (delegated_ips sb1)"
      "\<And>c. held_for addrs (delegated_ips sb1) c =
        (if c = b then held_for addrs (delegated_ips sb) b - addrs s else held_for addrs (delegated_ips sb) c)"
    using remove_delegated_effect [OF I sb1] len(1) by auto
  have e2: "own_ips rb = own_ips (snd (L b))" "delegated_ips rb = delegated_ips (snd (L b))"
      "\<And>c. held_for addrs (received_ips rb) c = (if c = snder then held_for addrs (received_ips (snd (L b))) snder - addrs s
        else held_for addrs (received_ips (snd (L b))) c)"
    using remove_received_effect [OF I rb] snder by auto
  have xs: "held_for addrs (x # xs) c = (if c = b then addrs s else held_for addrs xs c)" "held_for addrs xs b = {}" for c
    using x len(3) by (auto simp: held_for_def)
  show ?case
    unfolding xs(1)
  proof (intro conjI allI)
    show "own_ips sb' = own_ips sb" "received_ips sb' = received_ips sb"
      "dict_ok (delegated_ips sb) \<longrightarrow> dict_ok (delegated_ips sb')"
      using IH e1(1-3) by auto
    fix c
    show "held_for addrs (delegated_ips sb') c =
        held_for addrs (delegated_ips sb) c - (if c = b then addrs s else held_for addrs xs c)"
      using IH e1(4) xs(2) by auto
    show "fst (L' c) = fst (L c)" "own_ips (snd (L' c)) = own_ips (snd (L c))"
      "delegated_ips (snd (L' c)) = delegated_ips (snd (L c))"
      using IH e2(1,2) by (simp_all add: put_balance_def)
    show "c \<notin> dom (map_of (x # xs)) \<longrightarrow> L' c = L c"
      using IH x by (simp add: put_balance_def domIff)
    fix a
    show "received addrs L' c a = received addrs L c a - (if a = snder then if c = b then addrs s else held_for addrs xs c else {})"
      using IH e2(3) xs(2) by (auto simp: put_balance_def received_def)
  qed
qed

text \<open>The overlaps that \<open>affected_delegated_ips\<close> lists, by address.\<close>

definition overlaps :: "'i ipset_ops \<Rightarrow> ('i \<Rightarrow> (nat \<times> nat) set) \<Rightarrow> 'i \<Rightarrow> (string \<times> 'i) list \<Rightarrow> (string \<times> 'i) list" where
  "overlaps I addrs ips d = map (\<lambda>(a, s). (a, is_and I ips s)) (filter (\<lambda>(a, s). addrs ips \<inter> addrs s \<noteq> {}) d)"

lemma map_of_overlaps:
  "distinct (map fst d) \<Longrightarrow> map_of (overlaps I addrs ips d) a =
     (case map_of d a of None \<Rightarrow> None | Some s \<Rightarrow> if addrs ips \<inter> addrs s = {} then None else Some (is_and I ips s))"
proof (induction d)
  case (Cons y d)
  obtain c s where y: "y = (c, s)" by fastforce
  with Cons.prems have "map_of d c = None" by (auto simp: map_of_eq_None_iff)
  with Cons y show ?case by (auto simp: overlaps_def split: option.splits)
qed (simp add: overlaps_def)

lemma dict_ok_overlaps: "dict_ok d \<Longrightarrow> dict_ok (overlaps I addrs ips d)"
proof -
  assume d: "dict_ok d"
  have "map fst (overlaps I addrs ips d) = map fst (filter (\<lambda>(a, s). addrs ips \<inter> addrs s \<noteq> {}) d)"
    by (simp add: overlaps_def comp_def case_prod_beta)
  with d show ?thesis
    unfolding dict_ok_def by (auto simp: map_of_overlaps distinct_map_filter
      simp del: map_of_eq_Some_iff split: option.splits if_splits)
qed

lemma affected_dict:
  assumes I: "ipset_ok I addrs" and run: "affected_delegated_ips I net b = Inr r" and d: "dict_ok (delegated_ips b)"
  shows "\<exists>xs. r = map (\<lambda>(b, s). (hex_encode b, s)) xs \<and> dict_ok xs \<and>
    (\<forall>a. held_for addrs xs a = net_addrs net \<inter> held_for addrs (delegated_ips b) a) \<and>
    (\<forall>(a, s) \<in> set xs. addrs s \<noteq> {})"
proof -
  have net: "addrs (is_net I net) = net_addrs net" "addrs (is_and I s t) = addrs s \<inter> addrs t" for s t
    using I by (simp_all add: ipset_ok_def)
  have "r = map (\<lambda>(b, s). (hex_encode b, s)) (overlaps I addrs (is_net I net) (delegated_ips b))"
    using affected_loop_result [OF I run [unfolded affected_delegated_ips_def]]
    by (simp add: overlaps_def comp_def case_prod_beta)
  moreover have "held_for addrs (overlaps I addrs (is_net I net) (delegated_ips b)) a =
      net_addrs net \<inter> held_for addrs (delegated_ips b) a" for a
    using d net by (auto simp: held_for_def dict_ok_def map_of_overlaps split: option.splits)
  moreover have "\<forall>(a, s) \<in> set (overlaps I addrs (is_net I net) (delegated_ips b)). addrs s \<noteq> {}"
    using net by (auto simp: overlaps_def)
  ultimately show ?thesis using dict_ok_overlaps [OF d, of I addrs "is_net I net"] by blast
qed

lemma released:
  assumes I: "ipset_ok I addrs" and L: "ledger_ok addrs L" "ledger_wf L" and s: "length s = 20"
    and aff: "affected_delegated_ips I net (snd (L s)) = Inr affected"
    and run: "release_spec E I s (snd (L s)) affected L = Inr (sb, L1)"
  shows "own_ips sb = own_ips (snd (L s))" "received_ips sb = received_ips (snd (L s))"
    "dict_ok (delegated_ips sb)"
    "held_for addrs (delegated_ips sb) b = delegated addrs L s b - net_addrs net"
    "fst (L1 b) = fst (L b)" "own_ips (snd (L1 b)) = own_ips (snd (L b))"
    "delegated_ips (snd (L1 b)) = delegated_ips (snd (L b))"
    "received addrs L1 b a = received addrs L b a - (if a = s then net_addrs net else {})"
proof -
  have wf: "dict_ok (delegated_ips (snd (L s)))" using L(2) by (simp add: ledger_wf_def)
  obtain xs where xs: "affected = map (\<lambda>(b, s). (hex_encode b, s)) xs" "dict_ok xs"
      "\<And>a. held_for addrs xs a = net_addrs net \<inter> delegated addrs L s a"
    using affected_dict [OF I aff wf] by (auto simp: delegated_def)
  note eff = release_effect [OF I s run [unfolded xs(1)] xs(2)]
  note cons = ledger_okD(2) [OF L(1)]
  show "own_ips sb = own_ips (snd (L s))" "received_ips sb = received_ips (snd (L s))"
      "dict_ok (delegated_ips sb)" "fst (L1 b) = fst (L b)" "own_ips (snd (L1 b)) = own_ips (snd (L b))"
      "delegated_ips (snd (L1 b)) = delegated_ips (snd (L b))"
    using eff wf by simp_all
  show "held_for addrs (delegated_ips sb) b = delegated addrs L s b - net_addrs net"
    using eff xs(3) by (auto simp: delegated_def)
  show "received addrs L1 b a = received addrs L b a - (if a = s then net_addrs net else {})"
    using eff xs(3) cons by auto
qed

section \<open>The effect of a transaction\<close>

lemma allocate_effect:
  assumes I: "ipset_ok I addrs" and L: "ledger_ok addrs L" "ledger_wf L" and s: "length s = 20" "s \<noteq> to"
    and run: "allocate_spec E I s to net L = Inr L'"
  shows "owns addrs L' a = (if a = to then owns addrs L to \<union> net_addrs net
      else if a = s then owns addrs L s - net_addrs net else owns addrs L a)"
    "delegated addrs L' a b = (if a = s then delegated addrs L s b - net_addrs net else delegated addrs L a b)"
    "received addrs L' a b = (if b = s then received addrs L a s - net_addrs net else received addrs L a b)"
    "ledger_wf L'" "fst (L' a) = (if a = s then Suc (fst (L s)) else fst (L a))"
proof -
  obtain affected sb L1 where aff: "affected_delegated_ips I net (snd (L s)) = Inr affected"
    and rel: "release_spec E I s (snd (L s)) affected L = Inr (sb, L1)"
    and L': "L' = bump_nonce s (put_balance s (remove_own_ips I net sb)
      (put_balance to (add_own_ips I net (snd (L1 to))) L1))"
    using run by (auto simp: allocate_spec_def bindE_eq_Inr Let_def)
  note r = released [OF I L s(1) aff rel]
  have I': "addrs (is_add I net t) = addrs t \<union> net_addrs net" "addrs (is_remove I net t) = addrs t - net_addrs net" for t
    using I by (simp_all add: ipset_ok_def)
  have self: "received addrs L s s = {}" using ledger_okD(2,5) [OF L(1)] by metis
  show "owns addrs L' a = (if a = to then owns addrs L to \<union> net_addrs net
      else if a = s then owns addrs L s - net_addrs net else owns addrs L a)"
    using r I' s(2) by (simp add: L' owns_def bump_nonce_def put_balance_def add_own_ips_def remove_own_ips_def)
  show "delegated addrs L' a b = (if a = s then delegated addrs L s b - net_addrs net else delegated addrs L a b)"
    using r s(2) by (simp add: L' delegated_def bump_nonce_def put_balance_def add_own_ips_def remove_own_ips_def)
  show "received addrs L' a b = (if b = s then received addrs L a s - net_addrs net else received addrs L a b)"
    using r(2,8) s(2) self
    by (simp add: L' received_def bump_nonce_def put_balance_def add_own_ips_def remove_own_ips_def)
  show "ledger_wf L'" "fst (L' a) = (if a = s then Suc (fst (L s)) else fst (L a))"
    using r L(2) s(2)
    by (simp_all add: L' ledger_wf_def bump_nonce_def put_balance_def add_own_ips_def remove_own_ips_def)
qed

lemma delegate_effect:
  assumes I: "ipset_ok I addrs" and L: "ledger_ok addrs L" "ledger_wf L"
    and s: "length s = 20" "s \<noteq> to" "length to = 20"
    and run: "delegate_spec E I s to net L = Inr L'"
  shows "owns addrs L' a = owns addrs L a"
    "delegated addrs L' a b = (if a = s then delegated addrs L s b - net_addrs net \<union> (if b = to then net_addrs net else {})
      else delegated addrs L a b)"
    "received addrs L' a b = (if b = s then received addrs L a s - net_addrs net \<union> (if a = to then net_addrs net else {})
      else received addrs L a b)"
    "ledger_wf L'" "fst (L' a) = (if a = s then Suc (fst (L s)) else fst (L a))"
proof -
  obtain affected sb L1 where aff: "affected_delegated_ips I net (snd (L s)) = Inr affected"
    and rel: "release_spec E I s (snd (L s)) affected L = Inr (sb, L1)"
    and L': "L' = bump_nonce s (put_balance s (sb\<lparr>delegated_ips := dict_add I to net (delegated_ips sb)\<rparr>)
      (put_balance to ((snd (L1 to))\<lparr>received_ips := dict_add I s net (received_ips (snd (L1 to)))\<rparr>) L1))"
    using run s by (auto simp: delegate_spec_def bindE_eq_Inr add_received_ips_def add_delegated_ips_def)
  note r = released [OF I L s(1) aff rel]
  note add = held_for_dict_add [OF I]
  have self: "received addrs L s s = {}" using ledger_okD(2,5) [OF L(1)] by metis
  show "owns addrs L' a = owns addrs L a"
    using r s(2) by (simp add: L' owns_def bump_nonce_def put_balance_def)
  show "delegated addrs L' a b = (if a = s then delegated addrs L s b - net_addrs net \<union> (if b = to then net_addrs net else {})
      else delegated addrs L a b)"
    using r(4,7) s(2) by (simp add: L' delegated_def bump_nonce_def put_balance_def add)
  show "received addrs L' a b = (if b = s then received addrs L a s - net_addrs net \<union> (if a = to then net_addrs net else {})
      else received addrs L a b)"
    using r(2,8) s(2) self by (simp add: L' received_def bump_nonce_def put_balance_def add)
  show "ledger_wf L'" "fst (L' a) = (if a = s then Suc (fst (L s)) else fst (L a))"
    using r L(2) s dict_ok_add by (simp_all add: L' ledger_wf_def bump_nonce_def put_balance_def)
qed

lemma metadata_effect:
  assumes "metadata_spec s setter L = Inr L'"
    and "\<And>b b'. setter b = Inr b' \<Longrightarrow> own_ips b' = own_ips b \<and> delegated_ips b' = delegated_ips b \<and>
      received_ips b' = received_ips b"
  shows "owns addrs L' a = owns addrs L a" "delegated addrs L' a b = delegated addrs L a b"
    "received addrs L' a b = received addrs L a b" "ledger_wf L \<Longrightarrow> ledger_wf L'"
    "fst (L' a) = (if a = s then Suc (fst (L s)) else fst (L a))"
proof -
  obtain b where b: "setter (snd (L s)) = Inr b" "L' = bump_nonce s (put_balance s b L)"
    using assms(1) by (auto simp: metadata_spec_def bindE_eq_Inr)
  note keep = assms(2) [OF b(1)]
  show "owns addrs L' a = owns addrs L a" "delegated addrs L' a b = delegated addrs L a b"
    "received addrs L' a b = received addrs L a b" "ledger_wf L \<Longrightarrow> ledger_wf L'"
    "fst (L' a) = (if a = s then Suc (fst (L s)) else fst (L a))" for b
    using keep by (simp_all add: b(2) ledger_views ledger_wf_def bump_nonce_def put_balance_def)
qed

text \<open>What a transaction does to ownership and delegations, as relations between the ledgers before
  and after.\<close>

definition moves_prefix :: "('i \<Rightarrow> (nat \<times> nat) set) \<Rightarrow> string \<Rightarrow> string \<Rightarrow> ipnet \<Rightarrow> 'i ledger \<Rightarrow> 'i ledger \<Rightarrow> bool" where
  "moves_prefix addrs s to net L L' \<longleftrightarrow>
     (\<forall>a. owns addrs L' a = (if a = to then owns addrs L to \<union> net_addrs net
        else if a = s then owns addrs L s - net_addrs net else owns addrs L a)) \<and>
     (\<forall>a b. delegated addrs L' a b = (if a = s then delegated addrs L s b - net_addrs net else delegated addrs L a b)) \<and>
     (\<forall>a b. received addrs L' a b = (if b = s then received addrs L a s - net_addrs net else received addrs L a b))"

definition delegates_prefix :: "('i \<Rightarrow> (nat \<times> nat) set) \<Rightarrow> string \<Rightarrow> string \<Rightarrow> ipnet \<Rightarrow> 'i ledger \<Rightarrow> 'i ledger \<Rightarrow> bool" where
  "delegates_prefix addrs s to net L L' \<longleftrightarrow>
     (\<forall>a. owns addrs L' a = owns addrs L a) \<and>
     (\<forall>a b. delegated addrs L' a b = (if a = s
        then delegated addrs L s b - net_addrs net \<union> (if b = to then net_addrs net else {})
        else delegated addrs L a b)) \<and>
     (\<forall>a b. received addrs L' a b = (if b = s
        then received addrs L a s - net_addrs net \<union> (if a = to then net_addrs net else {})
        else received addrs L a b))"

definition keeps_prefixes :: "('i \<Rightarrow> (nat \<times> nat) set) \<Rightarrow> 'i ledger \<Rightarrow> 'i ledger \<Rightarrow> bool" where
  "keeps_prefixes addrs L L' \<longleftrightarrow> (\<forall>a. owns addrs L' a = owns addrs L a) \<and>
     (\<forall>a b. delegated addrs L' a b = delegated addrs L a b \<and> received addrs L' a b = received addrs L a b)"

lemma moves_prefix_ok:
  assumes "ledger_ok addrs L" "moves_prefix addrs s to net L L'" "s \<noteq> to" "net_addrs net \<subseteq> owns addrs L s"
  shows "ledger_ok addrs L'"
  unfolding ledger_ok_def
proof (intro conjI allI impI)
  note m = assms(2) [unfolded moves_prefix_def]
  note ok = ledger_okD [OF assms(1)]
  fix a b c
  show "owns addrs L' a \<inter> owns addrs L' b = {}" if "a \<noteq> b"
    using m ok(1) [OF that] ok(1) [of s a] ok(1) [of s b] that assms(3,4) by auto
  show "delegated addrs L' a b = received addrs L' b a" using m ok(2) by simp
  show "delegated addrs L' a b \<subseteq> owns addrs L' a" using m ok(3) [of a b] ok(3) [of s b] by auto
  show "delegated addrs L' a b \<inter> delegated addrs L' a c = {}" if "b \<noteq> c"
    using m ok(4) [OF that, of a] ok(4) [OF that, of s] by auto
  show "delegated addrs L' a a = {}" using m ok(5) by simp
qed

lemma delegates_prefix_ok:
  assumes "ledger_ok addrs L" "delegates_prefix addrs s to net L L'" "s \<noteq> to" "net_addrs net \<subseteq> owns addrs L s"
  shows "ledger_ok addrs L'"
  unfolding ledger_ok_def
proof (intro conjI allI impI)
  note m = assms(2) [unfolded delegates_prefix_def]
  note ok = ledger_okD [OF assms(1)]
  fix a b c
  show "owns addrs L' a \<inter> owns addrs L' b = {}" if "a \<noteq> b" using m ok(1) [OF that] by simp
  show "delegated addrs L' a b = received addrs L' b a" using m ok(2) by simp
  show "delegated addrs L' a b \<subseteq> owns addrs L' a" using m ok(3) [of a b] ok(3) [of s b] assms(4) by auto
  show "delegated addrs L' a b \<inter> delegated addrs L' a c = {}" if "b \<noteq> c"
    using m ok(4) [OF that, of a] ok(4) [OF that, of s] that by auto
  show "delegated addrs L' a a = {}" using m ok(5) assms(3) by simp
qed

lemma keeps_prefixes_ok: "ledger_ok addrs L \<Longrightarrow> keeps_prefixes addrs L L' \<Longrightarrow> ledger_ok addrs L'"
proof -
  assume L: "ledger_ok addrs L" and "keeps_prefixes addrs L L'"
  then have eq: "owns addrs L' = owns addrs L" "delegated addrs L' = delegated addrs L" "received addrs L' = received addrs L"
    by (auto simp: keeps_prefixes_def fun_eq_iff)
  have "ledger_ok addrs L' = ledger_ok addrs L"
    unfolding ledger_ok_def eq by (rule refl)
  with L show ?thesis by simp
qed

lemma set_metadata_keeps:
  "set_map_server ms b = Inr b' \<Longrightarrow> own_ips b' = own_ips b \<and> delegated_ips b' = delegated_ips b \<and> received_ips b' = received_ips b"
  "set_locator ls b = Inr b' \<Longrightarrow> own_ips b' = own_ips b \<and> delegated_ips b' = delegated_ips b \<and> received_ips b' = received_ips b"
  by (auto simp: set_map_server_def set_locator_def bindE_eq_Inr)

section \<open>Progress\<close>

text \<open>No delegation is too large for \<open>len\<close>.\<close>

definition narrow :: "('i \<Rightarrow> (nat \<times> nat) set) \<Rightarrow> 'i ledger \<Rightarrow> bool" where
  "narrow addrs L \<longleftrightarrow> (\<forall>a b. card (delegated addrs L a b) < 2 ^ 63)"

lemma ipset_len:
  "ipset_ok I addrs \<Longrightarrow> card (addrs s) < 2 ^ 63 \<Longrightarrow> is_len I s = Inr (card (addrs s))"
  "ipset_ok I addrs \<Longrightarrow> card (addrs s) < 2 ^ 63 \<Longrightarrow> is_len I (is_diff I s t) = Inr (card (addrs s - addrs t))"
  "ipset_ok I addrs \<Longrightarrow> card (addrs s) < 2 ^ 63 \<Longrightarrow> is_len I (is_and I t s) = Inr (card (addrs t \<inter> addrs s))"
proof -
  assume I: "ipset_ok I addrs" and s: "card (addrs s) < 2 ^ 63"
  have fin: "finite (addrs s)" using I by (simp add: ipset_ok_def)
  have "card (addrs s - addrs t) \<le> card (addrs s)" "card (addrs t \<inter> addrs s) \<le> card (addrs s)"
    using fin by (auto intro: card_mono)
  with I s show "is_len I s = Inr (card (addrs s))" "is_len I (is_diff I s t) = Inr (card (addrs s - addrs t))"
    "is_len I (is_and I t s) = Inr (card (addrs t \<inter> addrs s))"
    by (simp_all add: ipset_ok_def)
qed

lemma affected_ok:
  assumes "ipset_ok I addrs" "\<And>a s. (a, s) \<in> set d \<Longrightarrow> card (addrs s) < 2 ^ 63"
  shows "\<exists>r. affected_loop I ips d = Inr r"
  using assms(2)
proof (induction d)
  case (Cons x d)
  obtain a s where x: "x = (a, s)" by fastforce
  have "card (addrs s) < 2 ^ 63" using Cons.prems x by auto
  then have len: "is_len I (is_and I ips s) = Inr (card (addrs ips \<inter> addrs s))"
    using ipset_len(3) [OF assms(1)] by blast
  have "\<exists>r. affected_loop I ips d = Inr r" using Cons by auto
  with len show ?case by (auto simp: x Let_def)
qed simp

lemma dict_remove_ok:
  assumes "ipset_ok I addrs" "map_of d a = Some s" "card (addrs s) < 2 ^ 63"
  shows "\<exists>d'. dict_remove I a t d = Inr d' \<and> (\<forall>b. b \<noteq> a \<longrightarrow> map_of d' b = map_of d b)"
  using ipset_len(2) [OF assms(1,3), of t] assms(2)
  by (simp add: dict_remove_def Let_def map_of_update map_of_delete)

lemma release_ok:
  assumes I: "ipset_ok I addrs" and snder: "length snder = 20"
  shows "dict_ok xs \<Longrightarrow>
    (\<And>b s. (b, s) \<in> set xs \<Longrightarrow> \<exists>d r. map_of (delegated_ips sb) b = Some d \<and> card (addrs d) < 2 ^ 63 \<and>
       map_of (received_ips (snd (L b))) snder = Some r \<and> card (addrs r) < 2 ^ 63) \<Longrightarrow>
    \<exists>sb' L'. release_spec E I snder sb (map (\<lambda>(b, s). (hex_encode b, s)) xs) L = Inr (sb', L')"
proof (induction xs arbitrary: sb L)
  case (Cons x xs)
  obtain b s where x: "x = (b, s)" by fastforce
  have len: "length b = 20" "dict_ok xs" "map_of xs b = None"
    using Cons.prems(1) x by (auto simp: dict_ok_def map_of_eq_None_iff)
  obtain d r where d: "map_of (delegated_ips sb) b = Some d" "card (addrs d) < 2 ^ 63"
      "map_of (received_ips (snd (L b))) snder = Some r" "card (addrs r) < 2 ^ 63"
    using Cons.prems(2) [of b s] x by auto
  obtain d' where d': "dict_remove I b s (delegated_ips sb) = Inr d'"
      "\<And>c. c \<noteq> b \<Longrightarrow> map_of d' c = map_of (delegated_ips sb) c"
    using dict_remove_ok [OF I d(1,2)] by blast
  obtain r' where r': "dict_remove I snder s (received_ips (snd (L b))) = Inr r'"
    using dict_remove_ok [OF I d(3,4)] by blast
  let ?sb = "sb\<lparr>delegated_ips := d'\<rparr>" and ?L = "put_balance b ((snd (L b))\<lparr>received_ips := r'\<rparr>) L"
  have "\<exists>sb' L'. release_spec E I snder ?sb (map (\<lambda>(b, s). (hex_encode b, s)) xs) ?L = Inr (sb', L')"
  proof (rule Cons.IH [OF len(2)])
    fix c u assume c: "(c, u) \<in> set xs"
    then have ne: "c \<noteq> b" using len(3) by (auto simp: map_of_eq_None_iff image_iff)
    with d'(2) Cons.prems(2) [of c u] c x
    show "\<exists>d r. map_of (delegated_ips ?sb) c = Some d \<and> card (addrs d) < 2 ^ 63 \<and>
        map_of (received_ips (snd (?L c))) snder = Some r \<and> card (addrs r) < 2 ^ 63"
      by (simp add: put_balance_def)
  qed
  with x len(1) snder d'(1) r' show ?case
    by (simp add: remove_delegated_ips_def remove_received_ips_def)
qed simp

lemma release_progress:
  assumes I: "ipset_ok I addrs" and L: "ledger_ok addrs L" "ledger_wf L" "narrow addrs L" and s: "length s = 20"
  obtains affected sb L1 where "affected_delegated_ips I net (snd (L s)) = Inr affected"
    "release_spec E I s (snd (L s)) affected L = Inr (sb, L1)"
proof -
  have wf: "dict_ok (delegated_ips (snd (L s)))" using L(2) by (simp add: ledger_wf_def)
  have entry: "card (addrs d) < 2 ^ 63" if "map_of (delegated_ips (snd (L s))) b = Some d" for b d
    using L(3) that unfolding narrow_def delegated_def held_for_def by (metis option.simps(5))
  have "\<exists>r. affected_loop I (is_net I net) (delegated_ips (snd (L s))) = Inr r"
    using affected_ok [OF I, of "delegated_ips (snd (L s))" "is_net I net"] entry wf
    by (simp add: dict_ok_def)
  then obtain affected where aff: "affected_delegated_ips I net (snd (L s)) = Inr affected"
    by (auto simp: affected_delegated_ips_def)
  obtain xs where xs: "affected = map (\<lambda>(b, s). (hex_encode b, s)) xs" "dict_ok xs"
      "\<forall>a. held_for addrs xs a = net_addrs net \<inter> held_for addrs (delegated_ips (snd (L s))) a"
      "\<forall>(a, s) \<in> set xs. addrs s \<noteq> {}"
    using affected_dict [OF I aff wf] by blast
  have "\<exists>sb' L'. release_spec E I s (snd (L s)) (map (\<lambda>(b, s). (hex_encode b, s)) xs) L = Inr (sb', L')"
  proof (rule release_ok [OF I s xs(2)])
    fix b u assume b: "(b, u) \<in> set xs"
    then have "map_of xs b = Some u" using xs(2) by (simp add: dict_ok_def)
    with xs(3,4) b have ne: "delegated addrs L s b \<noteq> {}"
      by (fastforce simp: held_for_def delegated_def split: option.splits)
    then obtain d where d: "map_of (delegated_ips (snd (L s))) b = Some d"
      by (auto simp: delegated_def held_for_def split: option.splits)
    have "received addrs L b s \<noteq> {}" using ne ledger_okD(2) [OF L(1)] by metis
    then obtain r where r: "map_of (received_ips (snd (L b))) s = Some r"
      by (auto simp: received_def held_for_def split: option.splits)
    have "addrs r = delegated addrs L s b"
      using ledger_okD(2) [OF L(1), of s b] r by (simp add: received_def held_for_def)
    then have "card (addrs r) < 2 ^ 63" using L(3) by (simp add: narrow_def)
    with d r entry [OF d] show "\<exists>d r. map_of (delegated_ips (snd (L s))) b = Some d \<and> card (addrs d) < 2 ^ 63 \<and>
        map_of (received_ips (snd (L b))) s = Some r \<and> card (addrs r) < 2 ^ 63" by blast
  qed
  with aff xs(1) that show thesis by blast
qed

lemma allocate_progress:
  assumes "ipset_ok I addrs" "ledger_ok addrs L" "ledger_wf L" "narrow addrs L" "length s = 20"
  shows "\<exists>L'. allocate_spec E I s to net L = Inr L'"
  using release_progress [OF assms, of net E] by (metis (no_types, lifting) allocate_spec_def bindE_Inr case_prod_conv)

lemma delegate_progress:
  assumes "ipset_ok I addrs" "ledger_ok addrs L" "ledger_wf L" "narrow addrs L" "length s = 20" "length to = 20"
  shows "\<exists>L'. delegate_spec E I s to net L = Inr L'"
proof -
  obtain affected sb L1 where "affected_delegated_ips I net (snd (L s)) = Inr affected"
      "release_spec E I s (snd (L s)) affected L = Inr (sb, L1)"
    by (rule release_progress [OF assms(1-5)])
  with assms(5,6) show ?thesis
    by (simp add: delegate_spec_def add_received_ips_def add_delegated_ips_def)
qed

end
