(* ===== verification/Apply.thy ===== *)
theory Apply
  imports State Patricia Ledger
begin

text \<open>
  \<open>apply.py\<close>: validation of transactions, headers and blocks, and the state transition of a
  transaction and of a block.

  A transaction or block object caches its sender or signer, which changes nothing that can be
  observed (\<open>sender\<close> and \<open>signer\<close> are applied to the object as it is). The attributes
  \<open>tx.hash\<close> and \<open>tx.time\<close> that are only logged are left out.
\<close>

section \<open>Validation\<close>

abbreviation tx_sender_of :: "ext \<Rightarrow> tx \<Rightarrow> string res" where
  "tx_sender_of E t \<equiv> fst (sender E t)"

text \<open>\<open>ip\<close> is an IP address, a prefix of full length. A missing attribute while the signer is
  computed counts as an unsigned block.\<close>

definition verify_block_signature :: "('b, 'i) senv \<Rightarrow> block \<Rightarrow> ipnet \<Rightarrow> ('b state, bool) M" where
  "verify_block_signature S b ip =
     (case fst (signer (s_ext S) b) of
        Inl e \<Rightarrow> raise (if is_a e AttributeError then UnsignedBlock else e)
      | Inr a \<Rightarrow>
          if a = [] then raise UnsignedBlock
          else bindM (get_balance S (PyStr a)) (\<lambda>bal.
               if in_own_ips (s_ips S) ip bal then ret True else raise InvalidBlockSigner))"

definition validate_transaction :: "('b, 'i) senv \<Rightarrow> tx \<Rightarrow> ('b state, bool) M" where
  "validate_transaction S t =
     bindM (liftE (tx_sender_of (s_ext S) t)) (\<lambda>snder.
     if snder = [] \<or> snder = null_address then raise UnsignedTransaction
     else
       bindM (get_nonce S (PyStr snder)) (\<lambda>req_nonce.
       if req_nonce \<noteq> tx_nonce t then raise InvalidNonce
       else if tx_category t > 3 then raise InvalidCategory
       else
         bindM (get_balance S (PyStr snder)) (\<lambda>balance.
         bindM (liftE (ip_network t)) (\<lambda>val.
         if (tx_category t = 0 \<or> tx_category t = 1) \<and> \<not> in_own_ips (s_ips S) val balance
         then raise InsufficientBalance
         else ret True))))"

section \<open>Transactions\<close>

text \<open>The delegations that overlap the prefix end, on both sides:
  \<open>for add, ips in affected.iteritems()\<close>, with the balance of the sender as the accumulator.\<close>

fun release_loop ::
  "('b, 'i) senv \<Rightarrow> string \<Rightarrow> 'i balance \<Rightarrow> (string \<times> 'i) list \<Rightarrow> ('b state, 'i balance) M" where
  "release_loop S snder sb [] = ret sb"
| "release_loop S snder sb ((add, ips) # affected) =
     bindM (liftE (remove_delegated_ips (s_ext S) (s_ips S) (PyStr add) ips sb)) (\<lambda>sb'.
     bindM (get_balance S (PyStr add)) (\<lambda>rb.
     bindM (liftE (remove_received_ips (s_ext S) (s_ips S) (PyStr snder) ips rb)) (\<lambda>rb'.
     bindM (set_balance S (PyStr add) rb') (\<lambda>_.
     release_loop S snder sb' affected))))"

text \<open>The changes of the index, collected until the whole block has been applied.\<close>

type_synonym cached = "(ipnet \<times> string) list"

text \<open>\<open>cached[str(value)] = normalize_address(to)\<close>.\<close>

definition cache_holder :: "ext \<Rightarrow> tx \<Rightarrow> ipnet \<Rightarrow> cached \<Rightarrow> cached res" where
  "cache_holder E t val cached =
     bindE (normalize_address E (PyStr (tx_to t)) False) (\<lambda>a. Inr (AList.update val a cached))"

definition apply_allocate :: "('b, 'i) senv \<Rightarrow> string \<Rightarrow> tx \<Rightarrow> cached \<Rightarrow> ('b state, cached) M" where
  "apply_allocate S snder t cached =
     bindM (liftE (ip_network t)) (\<lambda>val.
     bindM (liftE (cache_holder (s_ext S) t val cached)) (\<lambda>cached'.
     bindM (get_balance S (PyStr snder)) (\<lambda>sb.
     bindM (liftE (affected_delegated_ips (s_ips S) val sb)) (\<lambda>affected.
     bindM (release_loop S snder sb affected) (\<lambda>sb'.
     bindM (get_balance S (PyStr (tx_to t))) (\<lambda>tb.
     bindM (set_balance S (PyStr (tx_to t)) (add_own_ips (s_ips S) val tb)) (\<lambda>_.
     bindM (set_balance S (PyStr snder) (remove_own_ips (s_ips S) val sb')) (\<lambda>_.
     bindM (increment_nonce S (PyStr snder)) (\<lambda>_. ret cached')))))))))"

definition apply_delegate :: "('b, 'i) senv \<Rightarrow> string \<Rightarrow> tx \<Rightarrow> cached \<Rightarrow> ('b state, cached) M" where
  "apply_delegate S snder t cached =
     bindM (liftE (ip_network t)) (\<lambda>val.
     bindM (liftE (cache_holder (s_ext S) t val cached)) (\<lambda>cached'.
     bindM (get_balance S (PyStr snder)) (\<lambda>sb.
     bindM (liftE (affected_delegated_ips (s_ips S) val sb)) (\<lambda>affected.
     bindM (release_loop S snder sb affected) (\<lambda>sb'.
     bindM (get_balance S (PyStr (tx_to t))) (\<lambda>tb.
     bindM (liftE (add_received_ips (s_ext S) (s_ips S) (PyStr snder) val tb)) (\<lambda>tb'.
     bindM (liftE (add_delegated_ips (s_ext S) (s_ips S) (PyStr (tx_to t)) val sb')) (\<lambda>sb''.
     bindM (set_balance S (PyStr (tx_to t)) tb') (\<lambda>_.
     bindM (set_balance S (PyStr snder) sb'') (\<lambda>_.
     bindM (increment_nonce S (PyStr snder)) (\<lambda>_. ret cached')))))))))))"

definition apply_metadata ::
  "('b, 'i) senv \<Rightarrow> string \<Rightarrow> ('i balance \<Rightarrow> 'i balance res) \<Rightarrow> ('b state, unit) M" where
  "apply_metadata S snder setter =
     bindM (get_balance S (PyStr snder)) (\<lambda>sb.
     bindM (liftE (setter sb)) (\<lambda>sb'.
     bindM (set_balance S (PyStr snder) sb') (\<lambda>_.
     increment_nonce S (PyStr snder))))"

definition apply_transaction :: "('b, 'i) senv \<Rightarrow> tx \<Rightarrow> cached \<Rightarrow> ('b state, cached) M" where
  "apply_transaction S t cached =
     bindM (validate_transaction S t) (\<lambda>_.
     bindM (liftE (tx_sender_of (s_ext S) t)) (\<lambda>snder.
     bindM (if tx_category t = 0 then apply_allocate S snder t cached
            else if tx_category t = 1 then apply_delegate S snder t cached
            else if tx_category t = 2
            then bindM (apply_metadata S snder (set_map_server (metadata_strings (tx_metadata t)))) (\<lambda>_. ret cached)
            else if tx_category t = 3
            then bindM (apply_metadata S snder (set_locator (metadata_strings (tx_metadata t)))) (\<lambda>_. ret cached)
            else ret cached) (\<lambda>cached'.
     bindM (state_commit S False) (\<lambda>_. ret cached'))))"

section \<open>Blocks\<close>

definition update_block_env_variables :: "block \<Rightarrow> ('b state, unit) M" where
  "update_block_env_variables b =
     modifyM (\<lambda>st. st\<lparr>st_timestamp := h_timestamp (b_header b), st_block_number := h_number (b_header b),
       st_block_coinbase := h_coinbase (b_header b)\<rparr>)"

text \<open>The root of a trie in memory from the serialised indices to the serialised transactions.\<close>

abbreviation ephem_trie :: "ext \<Rightarrow> ephem trie_env" where
  "ephem_trie E \<equiv> trie_methods E (so_get ephem_db) (so_put ephem_db)"

definition mk_transaction_sha :: "ext \<Rightarrow> item list \<Rightarrow> string res" where
  "mk_transaction_sha E receipts =
     (case forM (enumerate 0 receipts) (\<lambda>(i, receipt).
              update (ephem_trie E) (rlp_enc E (Str (be_ser E i))) (rlp_enc E receipt))
            (blank_trie E Map.empty) of
        (Inl e, _) \<Rightarrow> Inl e
      | (Inr _, t) \<Rightarrow> Inr (root_hash t))"

definition validate_transaction_tree :: "ext \<Rightarrow> block \<Rightarrow> bool res" where
  "validate_transaction_tree E b =
     bindE (mk_transaction_sha E (map (tx_item E) (b_transactions b))) (\<lambda>root.
     if h_tx_root (b_header b) \<noteq> root then Inl ValueError else Inr True)"

definition validate_header :: "ext \<Rightarrow> 'b state \<Rightarrow> header \<Rightarrow> bool res" where
  "validate_header E st h =
     bindE (py_nth (st_prev_headers st) 0) (\<lambda>parent.
     if h_prevhash h \<noteq> past_hash E parent then Inl ValueError
     else if h_number h \<noteq> past_number parent + 1 then Inl ValueError
     else if h_timestamp h \<le> past_timestamp parent then Inl ValueError
     else if h_timestamp h \<ge> 2 ^ 256 then Inl ValueError
     else Inr True)"

fun validate_transactions :: "('b, 'i) senv \<Rightarrow> tx list \<Rightarrow> ('b state, bool) M" where
  "validate_transactions S [] = ret True"
| "validate_transactions S (t # ts) =
     bindM (validate_transaction S t) (\<lambda>ok. if \<not> ok then ret False else validate_transactions S ts)"

definition validate_block :: "('b, 'i) senv \<Rightarrow> block \<Rightarrow> ('b state, bool) M" where
  "validate_block S b =
     bindM (liftE (fst (signer (s_ext S) b))) (\<lambda>a.
     if a = [] then raise UnsignedBlock
     else if a = null_address then raise UnsignedTransaction
     else
       bindM (gets (\<lambda>st. st)) (\<lambda>st.
       bindM (liftE (validate_header (s_ext S) st (b_header b))) (\<lambda>ok.
       bindM (assertM ok) (\<lambda>_.
       bindM (liftE (validate_transaction_tree (s_ext S) b)) (\<lambda>ok.
       bindM (assertM ok) (\<lambda>_.
       validate_transactions S (b_transactions b)))))))"

fun apply_transactions :: "('b, 'i) senv \<Rightarrow> tx list \<Rightarrow> cached \<Rightarrow> ('b state, cached) M" where
  "apply_transactions S [] cached = ret cached"
| "apply_transactions S (t # ts) cached =
     bindM (apply_transaction S t cached) (\<lambda>cached'. apply_transactions S ts cached')"

text \<open>Only ValueError and AssertionError revert the state. The result is the index with the new
  holders.\<close>

definition apply_block ::
  "('b, 'i) senv \<Rightarrow> 'p radix_ops \<Rightarrow> block \<Rightarrow> 'p patricia \<Rightarrow> ('b state, 'p patricia) M" where
  "apply_block S R b patricia =
     bindM (gets snapshot) (\<lambda>snap.
     catchM
       (bindM (gets (\<lambda>st. st)) (\<lambda>st.
        bindM (liftE (validate_header (s_ext S) st (b_header b))) (\<lambda>ok.
        bindM (assertM ok) (\<lambda>_.
        bindM (liftE (validate_transaction_tree (s_ext S) b)) (\<lambda>ok.
        bindM (assertM ok) (\<lambda>_.
        bindM (apply_transactions S (b_transactions b) []) (\<lambda>cached.
        bindM (add_block_header (b_header b)) (\<lambda>_.
        ret (fold (\<lambda>(key, a) p. set_value R key a p) cached patricia)))))))))
       (\<lambda>e. is_a e ValueError \<or> is_a e AssertionError)
       (\<lambda>e. bindM (revert S snap) (\<lambda>_. raise e)))"

end
