(* ===== verification/StateRefine.thy ===== *)
theory StateRefine
  imports State Ledger
begin

text \<open>
  The state object as a ledger. \<open>chain_rep S n st L\<close>: the state \<open>st\<close> over the database of the chain
  shows the ledger \<open>L\<close>, from its cache where an account has been read and from its trie otherwise,
  and \<open>n\<close> more writes fit the reference counters. The interface \<open>account_store\<close> says what the
  operations of a state do to the ledger it shows; a commit writes the cache to the trie and leaves
  the ledger as it was. The methods of \<open>State\<close> over \<open>LevelDB\<close> provide it.
\<close>

section \<open>Accounts as bytes\<close>

text \<open>What the code relies on: pickled balances load again, and no two addresses have the same
  hash.\<close>

definition env_ok :: "('b, 'i) senv \<Rightarrow> bool" where
  "env_ok S \<longleftrightarrow> ext_ok (s_ext S) \<and> rlp_ok (s_ext S) \<and> inj_on (sha3 (s_ext S)) {a. length a = 20} \<and>
     (\<forall>b. s_unpickle S (s_pickle S b) = Inr b)"

lemma env_okD:
  assumes "env_ok S"
  shows "ext_ok (s_ext S)" "rlp_ok (s_ext S)" "s_unpickle S (s_pickle S b) = Inr b"
    "length a = 20 \<Longrightarrow> length a' = 20 \<Longrightarrow> sha3 (s_ext S) a = sha3 (s_ext S) a' \<longleftrightarrow> a = a'"
  using assms by (auto simp: env_ok_def inj_on_def)

definition account_bytes :: "('b, 'i) senv \<Rightarrow> nat \<times> 'i balance \<Rightarrow> string" where
  "account_bytes S e = rlp_enc (s_ext S) (Lst [Str (be_ser (s_ext S) (fst e)), Str (object_to_bin S (snd e))])"

definition small_entry :: "('b, 'i) senv \<Rightarrow> nat \<times> 'i balance \<Rightarrow> bool" where
  "small_entry S e \<longleftrightarrow> fst e < 2 ^ 64 \<and> length (s_pickle S (snd e)) < 2 ^ 40"

definition account_shows :: "('b, 'i) senv \<Rightarrow> account \<Rightarrow> nat \<times> 'i balance \<Rightarrow> bool" where
  "account_shows S x e \<longleftrightarrow> a_nonce x = fst e \<and> a_balance x = object_to_bin S (snd e) \<and> \<not> a_deleted x"

lemma bin_to_object_to_bin: "env_ok S \<Longrightarrow> bin_to_object S (object_to_bin S b) = Inr b"
  by (simp add: bin_to_object_def object_to_bin_def env_okD)

lemma account_item_small:
  assumes S: "env_ok S" and e: "small_entry S e"
  defines "x \<equiv> Lst [Str (be_ser (s_ext S) (fst e)), Str (object_to_bin S (snd e))]"
  shows "sized (s_ext S) x" "length (encode_optimized (s_ext S) x) < 2 ^ 50" "encode_optimized (s_ext S) x \<noteq> []"
proof -
  let ?E = "s_ext S"
  let ?p = "concat (map (encode_optimized ?E) [Str (be_ser ?E (fst e)), Str (object_to_bin S (snd e))])"
  have E: "ext_ok ?E" using S by (rule env_okD)
  have n: "length (be_ser ?E (fst e)) \<le> 8"
    using e E length_be_bytes_le [of "fst e" 8] by (simp add: small_entry_def ext_okD)
  have b: "length (object_to_bin S (snd e)) < 2 ^ 41"
    using e by (simp add: object_to_bin_def small_entry_def)
  have p: "length ?p < 2 ^ 42"
    using n b encode_Str_le [OF E, of "be_ser ?E (fst e)"] encode_Str_le [OF E, of "object_to_bin S (snd e)"]
    by (simp del: encode_optimized.simps)
  have "length (encode_optimized ?E x) \<le> length ?p + 9"
    using p length_prefix_le [OF E, of "length ?p" 192] by (auto simp: x_def Let_def)
  with p show "length (encode_optimized ?E x) < 2 ^ 50" by simp
  then show "sized ?E x" by (simp add: sized_def)
  show "encode_optimized ?E x \<noteq> []" by (simp add: x_def Let_def)
qed

lemma account_bytes_facts:
  assumes S: "env_ok S" and e: "small_entry S e"
  shows "account_bytes S e \<noteq> []" "length (account_bytes S e) < 2 ^ 50"
    "account_decode (s_ext S) (account_bytes S e) =
       Inr \<lparr>a_nonce = fst e, a_balance = object_to_bin S (snd e), a_touched = False, a_deleted = False, a_existent = True\<rparr>"
proof -
  let ?E = "s_ext S"
  have rlp: "rlp_enc ?E x = encode_optimized ?E x" for x
    using env_okD(2) [OF S] by (simp add: rlp_ok_def fun_eq_iff)
  note item = account_item_small [OF S e]
  show "account_bytes S e \<noteq> []" "length (account_bytes S e) < 2 ^ 50"
    using item(2,3) by (simp_all add: account_bytes_def rlp)
  have dec: "rlp_dec ?E (account_bytes S e) = Inr (Lst [Str (be_ser ?E (fst e)), Str (object_to_bin S (snd e))])"
    using env_okD(2) [OF S] item(1) by (simp add: account_bytes_def rlp_ok_def del: encode_optimized.simps)
  have ser: "be_ser ?E (fst e) = be_bytes (fst e)" using env_okD(1) [OF S] by (rule ext_okD)
  have lead: "take 1 (be_bytes (fst e)) \<noteq> [CHR 0x00]"
    using be_bytes_no_leading_zero [of "fst e"] by (cases "be_bytes (fst e)") auto
  show "account_decode ?E (account_bytes S e) =
      Inr \<lparr>a_nonce = fst e, a_balance = object_to_bin S (snd e), a_touched = False, a_deleted = False, a_existent = True\<rparr>"
    using dec ser lead ext_okD(3) [OF env_okD(1) [OF S] lead] by (simp add: account_decode_def)
qed

lemma account_rlp_bytes: "account_shows S x e \<Longrightarrow> account_rlp (s_ext S) x = account_bytes S e"
  by (simp add: account_shows_def account_rlp_def account_bytes_def)

section \<open>The ledger a state shows\<close>

definition trie_shows :: "('b, 'i) senv \<Rightarrow> contents \<Rightarrow> string \<Rightarrow> nat \<times> 'i balance \<Rightarrow> bool" where
  "trie_shows S m a e \<longleftrightarrow>
     (m (sha3 (s_ext S) a) = account_bytes S e \<and> small_entry S e) \<or>
     (m (sha3 (s_ext S) a) = [] \<and> e = (0, empty_balance (s_ips S)))"

definition cache_shows :: "('b, 'i) senv \<Rightarrow> contents \<Rightarrow> (string \<times> account) list \<Rightarrow> 'i ledger \<Rightarrow> bool" where
  "cache_shows S m cache L \<longleftrightarrow>
     (\<forall>a. length a = 20 \<longrightarrow>
        (case map_of cache a of
           None \<Rightarrow> trie_shows S m a (L a)
         | Some x \<Rightarrow> account_shows S x (L a) \<and> (a_touched x \<or> trie_shows S m a (L a)))) \<and>
     distinct (map fst cache) \<and> (\<forall>a x. map_of cache a = Some x \<longrightarrow> length a = 20)"

text \<open>Once an account has been missing from the trie, the database holds the empty string under its
  hash; before that the trie is empty.\<close>

definition chain_rep :: "(level, 'i) senv \<Rightarrow> nat \<Rightarrow> level state \<Rightarrow> 'i ledger \<Rightarrow> bool" where
  "chain_rep S n st L \<longleftrightarrow> env_ok S \<and> s_db S = level_db \<and>
     refcount_inv level_view (n + 200 * length (st_cache st)) (tdb (st_trie st)) \<and>
     (\<exists>m. represents (s_ext S) chain_view (st_trie st) m \<and> cache_shows S m (st_cache st) L \<and>
        (chain_view (tdb (st_trie st)) (BLANK_HASH (s_ext S)) = Some [] \<or> (\<forall>k. m k = []) \<and> st_cache st = []))"

lemma refcount_inv_le: "refcount_inv v n s \<Longrightarrow> k \<le> n \<Longrightarrow> refcount_inv v k s"
  by (fastforce simp: refcount_inv_def)

lemma chain_rep_le: "chain_rep S n st L \<Longrightarrow> k \<le> n \<Longrightarrow> chain_rep S k st L"
  using refcount_inv_le by (fastforce simp: chain_rep_def)

lemma raw_put_other:
  assumes "length k \<noteq> 32"
  shows "\<exists>s'. so_put level_db k v s = (Inr (), s') \<and> chain_view s' = chain_view s \<and>
    (\<forall>n. refcount_inv level_view n s' = refcount_inv level_view n s)"
proof -
  obtain s' where s': "so_put level_db k v s = (Inr (), s')" "level_view s' = (level_view s)(k \<mapsto> v)"
    using lvl.put_law by blast
  with assms show ?thesis
    by (intro exI [of _ s']) (auto simp: refcount_view_def refcount_inv_def fun_eq_iff)
qed

lemma blank_put:
  assumes E: "ext_ok E"
  shows "\<exists>s'. so_put level_db (BLANK_HASH E) [] s = (Inr (), s') \<and>
    chain_view s' = (chain_view s)(BLANK_HASH E \<mapsto> []) \<and>
    (\<forall>n. refcount_inv level_view n s \<longrightarrow> refcount_inv level_view n s')"
proof -
  obtain s' where s': "so_put level_db (BLANK_HASH E) [] s = (Inr (), s')"
      "level_view s' = (level_view s)(BLANK_HASH E \<mapsto> [])"
    using lvl.put_law by blast
  moreover have "length (BLANK_HASH E) = 32"
    using E by (simp add: BLANK_HASH_def length_sha3)
  ultimately show ?thesis
    by (intro exI [of _ s']) (auto simp: refcount_view_def refcount_inv_def fun_eq_iff)
qed

section \<open>Reading\<close>

lemma cache_shows_read:
  assumes "cache_shows S m cache L" "map_of cache a = None" "length a = 20" "account_shows S x (L a)"
    "trie_shows S m a (L a)"
  shows "cache_shows S m (AList.update a x cache) L"
  using assms distinct_update [of cache a x]
  by (auto simp: cache_shows_def map_of_update simp del: map_of_eq_Some_iff split: if_splits option.splits)

lemma length_update_new: "map_of c a = None \<Longrightarrow> length (AList.update a x c) = Suc (length c)"
  by (induction c) (auto split: if_splits)

lemma read_run:
  assumes rep: "chain_rep S (n + 200) st L" and a: "length a = 20"
  shows "\<exists>x st'. get_and_cache_account S a st = (Inr x, st') \<and> map_of (st_cache st') a = Some x \<and>
    account_shows S x (L a) \<and> chain_rep S n st' L"
proof (cases "map_of (st_cache st) a")
  case (Some x)
  have "account_shows S x (L a)"
    using rep Some a by (fastforce simp: chain_rep_def cache_shows_def)
  with Some chain_rep_le [OF rep, of n] show ?thesis
    by (simp add: get_and_cache_account_def bindM_def)
next
  case None
  let ?E = "s_ext S" let ?tr = "st_trie st"
  have S: "env_ok S" "s_db S = level_db" using rep by (auto simp: chain_rep_def)
  note E = env_okD(1,2) [OF S(1)]
  obtain m where inv: "refcount_inv level_view ((n + 200) + 200 * length (st_cache st)) (tdb ?tr)"
    and m: "represents ?E chain_view ?tr m" "cache_shows S m (st_cache st) L"
    and mark: "chain_view (tdb ?tr) (BLANK_HASH ?E) = Some [] \<or> (\<forall>k. m k = []) \<and> st_cache st = []"
    using rep by (auto simp: chain_rep_def)
  let ?N = "n + 200 * Suc (length (st_cache st))"
  have inv: "refcount_inv level_view ?N (tdb ?tr)" using inv by (simp add: ac_simps)
  have entry: "trie_shows S m a (L a)" using m(2) None a by (auto simp: cache_shows_def)
  obtain s1 where s1: "Trie.get (chain_trie ?E) (sha3 ?E a) ?tr = (Inr (Str (m (sha3 ?E a))), ?tr\<lparr>tdb := s1\<rparr>)"
      "refcount_inv level_view ?N s1" "chain_view (tdb ?tr) \<subseteq>\<^sub>m chain_view s1"
      "represents ?E chain_view (?tr\<lparr>tdb := s1\<rparr>) m"
    using lvl.rc.get_run [OF E m(1), where n = ?N and key = "sha3 ?E a"] inv E(1) by auto
  let ?st1 = "st\<lparr>st_trie := ?tr\<lparr>tdb := s1\<rparr>\<rparr>"
  have run1: "in_trie (secure_get (state_trie S) a) st = (Inr (Str (m (sha3 ?E a))), ?st1)"
    using s1(1) S(2) by (simp add: in_trie_def zoomM_def secure_get_def)
  have mark1: "chain_view s1 (BLANK_HASH ?E) = Some [] \<or> (\<forall>k. m k = []) \<and> st_cache st = []"
    using mark s1(3) by (auto simp: map_le_def dom_def)
  show ?thesis
  proof (cases "m (sha3 ?E a) = []")
    case False
    then have d: "m (sha3 ?E a) = account_bytes S (L a)" "small_entry S (L a)"
      using entry by (auto simp: trie_shows_def)
    let ?x = "\<lparr>a_nonce = fst (L a), a_balance = object_to_bin S (snd (L a)), a_touched = False, a_deleted = False, a_existent = True\<rparr>"
    let ?st2 = "?st1\<lparr>st_cache := AList.update a ?x (st_cache st)\<rparr>"
    have "get_and_cache_account S a st = (Inr ?x, ?st2)"
      using None run1 d account_bytes_facts [OF S(1) d(2)] False
      by (simp add: get_and_cache_account_def bindM_def BLANK_NODE_def)
    moreover have "account_shows S ?x (L a)" by (simp add: account_shows_def)
    moreover from this have "cache_shows S m (AList.update a ?x (st_cache st)) L"
      using cache_shows_read [OF m(2) None a _ entry] by blast
    then have "chain_rep S n ?st2 L"
      unfolding chain_rep_def
      using S s1 mark1 False by (auto simp: length_update_new [OF None] intro!: exI [of _ m])
    ultimately show ?thesis
      by (intro exI [of _ ?x] exI [of _ ?st2]) (simp add: map_of_update)
  next
    case True
    let ?x = "\<lparr>a_nonce = 0, a_balance = object_to_bin S (empty_balance (s_ips S)), a_touched = False,
      a_deleted = False, a_existent = False\<rparr>"
    have La: "L a = (0, empty_balance (s_ips S))"
      using entry True account_bytes_facts(1) [OF S(1), of "L a"] by (auto simp: trie_shows_def)
    obtain s2 where s2: "so_put level_db (BLANK_HASH ?E) [] s1 = (Inr (), s2)"
        "chain_view s2 = (chain_view s1)(BLANK_HASH ?E \<mapsto> [])" "refcount_inv level_view ?N s2"
      using blank_put [OF E(1), of s1] s1(2) by blast
    let ?st2 = "?st1\<lparr>st_trie := ?tr\<lparr>tdb := s2\<rparr>, st_cache := AList.update a ?x (st_cache st)\<rparr>"
    have "get_and_cache_account S a st = (Inr ?x, ?st2)"
      using None run1 True s2(1) S(2)
      by (simp add: get_and_cache_account_def bindM_def BLANK_NODE_def blank_account_def in_db_def in_trie_def
          in_tdb_def zoomM_def ACCOUNT_INITIAL_NONCE_def)
    moreover have "account_shows S ?x (L a)" by (simp add: account_shows_def La)
    moreover from this have "cache_shows S m (AList.update a ?x (st_cache st)) L"
      using cache_shows_read [OF m(2) None a _ entry] by blast
    moreover have "represents ?E chain_view (?tr\<lparr>tdb := s2\<rparr>) m"
    proof (cases "chain_view s1 (BLANK_HASH ?E) = Some []")
      case True
      then have "chain_view s2 = chain_view s1" using s2(2) by (auto simp: fun_eq_iff)
      with s1(4) show ?thesis by (simp add: represents_def)
    next
      case False
      with mark1 have "m = (\<lambda>_. [])" by auto
      moreover obtain t where t: "tree_for t m" "root_node ?tr = nodeof ?E t" "root_hash ?tr = root_of ?E t"
        using s1(4) by (auto simp: represents_def)
      ultimately show ?thesis
        using tree_for_blank_iff [OF t(1)] by (auto simp: represents_def in_store_def intro!: exI [of _ t])
    qed
    ultimately have "chain_rep S n ?st2 L"
      unfolding chain_rep_def
      using S s2 by (auto simp: length_update_new [OF None] intro!: exI [of _ m])
    with \<open>get_and_cache_account S a st = (Inr ?x, ?st2)\<close> \<open>account_shows S ?x (L a)\<close> show ?thesis
      by (intro exI [of _ ?x] exI [of _ ?st2]) (simp add: map_of_update)
  qed
qed

section \<open>Writing\<close>

lemma put_account_keys: "map fst (st_cache (put_account a f st)) = map fst (st_cache st)"
  by (auto simp: put_account_def update_keys map_of_eq_None_iff [symmetric] split: option.splits)

lemma journal_undo_keys: "map fst (st_cache (journal_undo j st)) = map fst (st_cache st)"
  by (cases j) (simp_all add: journal_undo_def put_account_keys)

lemma cache_shows_write:
  assumes "cache_shows S m c L" "length a = 20" "account_shows S y e" "a_touched y"
    and "map_of c' = (map_of c)(a \<mapsto> y)" "map fst c' = map fst c"
  shows "cache_shows S m c' (L(a := e))"
  using assms by (auto simp: cache_shows_def simp del: map_of_eq_Some_iff split: option.splits)

text \<open>A setter: the attribute is set and the account is marked as touched.\<close>

lemma setter_run:
  assumes rep: "chain_rep S n st L" and a: "length a = 20" "map_of (st_cache st) a = Some x"
    and new: "\<And>m. m a = Some x \<Longrightarrow> undo_acct new m = m(a \<mapsto> y)" and y: "account_shows S (y\<lparr>a_touched := True\<rparr>) e"
  shows "\<exists>st'. bindM (set_and_journal old new) (\<lambda>_. touch a x) st = (Inr (), st') \<and> chain_rep S n st' (L(a := e))"
proof -
  let ?st1 = "journal_undo new (st\<lparr>st_journal := old # st_journal st\<rparr>)"
  let ?st2 = "journal_undo (JTouched a True) (?st1\<lparr>st_journal := JTouched a (a_touched x) # st_journal ?st1\<rparr>)"
  have run: "bindM (set_and_journal old new) (\<lambda>_. touch a x) st = (Inr (), ?st2)"
    by (simp add: bindM_def set_and_journal_def touch_def)
  have keys: "map fst (st_cache ?st2) = map fst (st_cache st)"
    by (simp add: journal_undo_keys)
  then have len: "length (st_cache ?st2) = length (st_cache st)"
    by (metis length_map)
  have cache: "map_of (st_cache ?st2) = (map_of (st_cache st))(a \<mapsto> y\<lparr>a_touched := True\<rparr>)"
    using new [of "map_of (st_cache st)"] a(2) by (simp add: journal_undo_cache undo_acct_def)
  have trie: "st_trie ?st2 = st_trie st" by simp
  have ne: "st_cache st \<noteq> []" using a(2) by auto
  obtain m where m: "represents (s_ext S) chain_view (st_trie st) m" "cache_shows S m (st_cache st) L"
      "chain_view (tdb (st_trie st)) (BLANK_HASH (s_ext S)) = Some []"
    using rep ne by (auto simp: chain_rep_def)
  have "cache_shows S m (st_cache ?st2) (L(a := e))"
    by (rule cache_shows_write [OF m(2) a(1) y _ cache keys]) simp
  with rep m have "chain_rep S n ?st2 (L(a := e))"
    unfolding chain_rep_def trie len by blast
  with run show ?thesis by blast
qed

lemma get_balance_run:
  assumes "chain_rep S (n + 200) st L" "normalize_address (s_ext S) x False = Inr a"
  shows "\<exists>st'. get_balance S x st = (Inr (snd (L a)), st') \<and> chain_rep S n st' L"
proof -
  have S: "env_ok S" using assms(1) by (simp add: chain_rep_def)
  obtain y st' where "get_and_cache_account S a st = (Inr y, st')" "account_shows S y (L a)" "chain_rep S n st' L"
    using read_run [OF assms(1)] normalize_address_length [OF assms(2)] by blast
  with assms(2) bin_to_object_to_bin [OF S] show ?thesis
    by (simp add: get_balance_def bindM_def account_shows_def)
qed

lemma get_nonce_run:
  assumes "chain_rep S (n + 200) st L" "normalize_address (s_ext S) x False = Inr a"
  shows "\<exists>st'. get_nonce S x st = (Inr (fst (L a)), st') \<and> chain_rep S n st' L"
proof -
  obtain y st' where "get_and_cache_account S a st = (Inr y, st')" "account_shows S y (L a)" "chain_rep S n st' L"
    using read_run [OF assms(1)] normalize_address_length [OF assms(2)] by blast
  with assms(2) show ?thesis
    by (simp add: get_nonce_def bindM_def account_shows_def)
qed

lemma set_balance_run:
  assumes "chain_rep S (n + 200) st L" "normalize_address (s_ext S) x False = Inr a"
  shows "\<exists>st'. set_balance S x b st = (Inr (), st') \<and> chain_rep S n st' (L(a := (fst (L a), b)))"
proof -
  have a: "length a = 20" using normalize_address_length [OF assms(2)] by simp
  obtain y st1 where y: "get_and_cache_account S a st = (Inr y, st1)" "map_of (st_cache st1) a = Some y"
      "account_shows S y (L a)" and rep: "chain_rep S n st1 L"
    using read_run [OF assms(1) a] by blast
  let ?b = "object_to_bin S b"
  obtain st2 where "bindM (set_and_journal (JBalance a (a_balance y)) (JBalance a ?b)) (\<lambda>_. touch a y) st1 = (Inr (), st2)"
      "chain_rep S n st2 (L(a := (fst (L a), b)))"
    using setter_run [OF rep a y(2), of "JBalance a ?b" "y\<lparr>a_balance := ?b\<rparr>" "(fst (L a), b)"] y(3)
    by (auto simp: undo_acct_def account_shows_def)
  with y(1) assms(2) show ?thesis by (simp add: set_balance_def bindM_def)
qed

lemma increment_nonce_run:
  assumes "chain_rep S (n + 200) st L" "normalize_address (s_ext S) x False = Inr a"
  shows "\<exists>st'. increment_nonce S x st = (Inr (), st') \<and> chain_rep S n st' (L(a := (Suc (fst (L a)), snd (L a))))"
proof -
  have a: "length a = 20" using normalize_address_length [OF assms(2)] by simp
  obtain y st1 where y: "get_and_cache_account S a st = (Inr y, st1)" "map_of (st_cache st1) a = Some y"
      "account_shows S y (L a)" and rep: "chain_rep S n st1 L"
    using read_run [OF assms(1) a] by blast
  let ?n = "a_nonce y + 1"
  obtain st2 where "bindM (set_and_journal (JNonce a (a_nonce y)) (JNonce a ?n)) (\<lambda>_. touch a y) st1 = (Inr (), st2)"
      "chain_rep S n st2 (L(a := (Suc (fst (L a)), snd (L a))))"
    using setter_run [OF rep a y(2), of "JNonce a ?n" "y\<lparr>a_nonce := ?n\<rparr>" "(Suc (fst (L a)), snd (L a))"] y(3)
    by (auto simp: undo_acct_def account_shows_def)
  with y(1) assms(2) show ?thesis by (simp add: increment_nonce_def bindM_def)
qed

section \<open>Committing\<close>

lemma represents_mono:
  "represents E view tr m \<Longrightarrow> view (tdb tr) \<subseteq>\<^sub>m view s' \<Longrightarrow> represents E view (tr\<lparr>tdb := s'\<rparr>) m"
  using in_store_mono by (fastforce simp: represents_def)

text \<open>The database holds other bytes under the hash of the key, or under the hash of a node of the
  new trie.\<close>

definition update_clash :: "ext \<Rightarrow> contents \<Rightarrow> string \<Rightarrow> string \<Rightarrow> (string \<rightharpoonup> string) \<Rightarrow> bool" where
  "update_clash E m k v d \<longleftrightarrow> (\<exists>w. d (sha3 E k) = Some w \<and> w \<noteq> k) \<or>
     (\<exists>t. tree_for t (m(sha3 E k := v)) \<and> clash E (subtrees t) d)"

lemma secure_update_run:
  assumes E: "ext_ok E" "rlp_ok E" and tr: "represents E chain_view tr m"
    and inv: "refcount_inv level_view (n + 197) (tdb tr)" and v: "v \<noteq> []" "length v < 2 ^ 50"
  shows "\<exists>r tr'. secure_update (chain_trie E) k v tr = (r, tr') \<and> refcount_inv level_view n (tdb tr') \<and>
    chain_view (tdb tr) \<subseteq>\<^sub>m chain_view (tdb tr') \<and>
    (case r of Inl e \<Rightarrow> e = AssertionError \<and> update_clash E m k v (chain_view (tdb tr'))
     | Inr u \<Rightarrow> represents E chain_view tr' (m(sha3 E k := v)))"
proof -
  let ?h = "sha3 E k"
  have len: "length ?h = 32" using E(1) by (rule length_sha3)
  have inv: "ext_ok E \<and> refcount_inv level_view (Suc (n + 196)) (tdb tr)"
    using E(1) refcount_inv_le [OF inv, of "Suc (n + 196)"] by simp
  obtain s1 where s1: "refcount_inv level_view (n + 196) s1"
      "if chain_view (tdb tr) ?h = None \<or> chain_view (tdb tr) ?h = Some k
       then refcount_put E level_db ?h k (tdb tr) = (Inr (), s1) \<and> chain_view s1 = (chain_view (tdb tr))(?h \<mapsto> k)
       else refcount_put E level_db ?h k (tdb tr) = (Inl AssertionError, s1) \<and> chain_view s1 = chain_view (tdb tr)"
    using lvl.rc.put_spec [OF inv len, of k] by blast
  show ?thesis
  proof (cases "chain_view (tdb tr) ?h = None \<or> chain_view (tdb tr) ?h = Some k")
    case True
    with s1 have put: "refcount_put E level_db ?h k (tdb tr) = (Inr (), s1)"
      and le: "chain_view (tdb tr) \<subseteq>\<^sub>m chain_view s1"
      by (auto simp: map_le_def dom_def)
    have rep: "represents E chain_view (tr\<lparr>tdb := s1\<rparr>) m"
      using tr le by (rule represents_mono)
    have inv1: "ext_ok E \<and> refcount_inv level_view (n + (6 * length ?h + 4)) (tdb (tr\<lparr>tdb := s1\<rparr>))"
      using E(1) s1(1) len by simp
    obtain r tr' where "update (chain_trie E) ?h v (tr\<lparr>tdb := s1\<rparr>) = (r, tr')" "refcount_inv level_view n (tdb tr')"
        "chain_view s1 \<subseteq>\<^sub>m chain_view (tdb tr')"
        "case r of Inl e \<Rightarrow> e = AssertionError \<and> (\<exists>t. tree_for t (m(?h := v)) \<and> clash E (subtrees t) (chain_view (tdb tr')))
         | Inr u \<Rightarrow> represents E chain_view tr' (m(?h := v))"
      using lvl.rc.update_run [OF E rep inv1 _ v] len by auto
    with put map_le_trans [OF le] show ?thesis
      by (intro exI [of _ r] exI [of _ tr'])
        (auto simp: secure_update_def Let_def bindM_def in_tdb_def zoomM_def update_clash_def split: sum.splits)
  next
    case False
    then have "update_clash E m k v (chain_view (tdb tr))" by (auto simp: update_clash_def)
    with False s1 refcount_inv_le [OF s1(1), of n] show ?thesis
      by (intro exI [of _ "Inl AssertionError"] exI [of _ "tr\<lparr>tdb := s1\<rparr>"])
        (simp add: secure_update_def Let_def bindM_def in_tdb_def zoomM_def)
  qed
qed

definition committing :: "(level, 'i) senv \<Rightarrow> nat \<Rightarrow> (string \<times> account) list \<Rightarrow> contents \<Rightarrow> level state \<Rightarrow> bool" where
  "committing S n c m st \<longleftrightarrow> env_ok S \<and> s_db S = level_db \<and> st_cache st = c \<and>
     refcount_inv level_view n (tdb (st_trie st)) \<and> represents (s_ext S) chain_view (st_trie st) m \<and>
     chain_view (tdb (st_trie st)) (BLANK_HASH (s_ext S)) = Some []"

lemma commit_account_run:
  assumes com: "committing S (n + 200) c m st" and a: "map_of c a = Some x" "length a = 20"
    and e: "account_shows S x e" "small_entry S e"
  shows "\<exists>r st'. commit_account S False (a, x) st = (r, st') \<and>
    (case r of
       Inl er \<Rightarrow> er = AssertionError \<and> update_clash (s_ext S) m a (account_bytes S e) (chain_view (tdb (st_trie st')))
     | Inr u \<Rightarrow> committing S n c (if a_touched x then m(sha3 (s_ext S) a := account_bytes S e) else m) st')"
proof (cases "a_touched x")
  case False
  with com e show ?thesis
    by (simp add: commit_account_def account_shows_def committing_def refcount_inv_le [of _ "n + 200"])
next
  case True
  let ?E = "s_ext S"
  let ?st1 = "st\<lparr>st_changed := List.insert a (st_changed st)\<rparr>"
  let ?v = "account_bytes S e"
  have S: "env_ok S" "s_db S = level_db" "st_cache st = c"
    and inv: "refcount_inv level_view (n + 200) (tdb (st_trie st))"
    and rep: "represents ?E chain_view (st_trie st) m" "chain_view (tdb (st_trie st)) (BLANK_HASH ?E) = Some []"
    using com by (auto simp: committing_def)
  have ex: "account_exists S a ?st1 = (Inr True, ?st1)"
    using a(1) S(3) True by (simp add: account_exists_def get_and_cache_account_def bindM_def)
  have data: "account_rlp ?E x = ?v" using e(1) by (rule account_rlp_bytes)
  obtain r tr' where upd: "secure_update (chain_trie ?E) a ?v (st_trie st) = (r, tr')"
      "refcount_inv level_view n (tdb tr')" "chain_view (tdb (st_trie st)) \<subseteq>\<^sub>m chain_view (tdb tr')"
      "case r of Inl er \<Rightarrow> er = AssertionError \<and> update_clash ?E m a ?v (chain_view (tdb tr'))
       | Inr u \<Rightarrow> represents ?E chain_view tr' (m(sha3 ?E a := ?v))"
    using secure_update_run [OF env_okD(1,2) [OF S(1)] rep(1) _ account_bytes_facts(1,2) [OF S(1) e(2)], of n a]
      refcount_inv_le [OF inv, of "n + 197"] by auto
  have mark: "chain_view (tdb tr') (BLANK_HASH ?E) = Some []"
    using upd(3) rep(2) by (auto simp: map_le_def dom_def)
  have run: "commit_account S False (a, x) st = bindM (\<lambda>st. case secure_update (chain_trie ?E) a ?v (st_trie st) of
        (r, tr) \<Rightarrow> (r, st\<lparr>st_trie := tr\<rparr>)) (\<lambda>_. if st_executing_on_head st
        then in_db (so_put level_db (''address:'' @ a) ?v) else ret ()) ?st1"
    using True ex data S(2) unfolding commit_account_def
    by (simp add: bindM_def in_trie_def zoomM_def split: prod.split sum.split)
  show ?thesis
  proof (cases r)
    case (Inl er)
    with run upd show ?thesis by (simp add: bindM_def)
  next
    case (Inr u)
    let ?st2 = "?st1\<lparr>st_trie := tr'\<rparr>"
    have rep2: "represents ?E chain_view tr' (m(sha3 ?E a := ?v))" using upd(4) Inr by simp
    show ?thesis
    proof (cases "st_executing_on_head st")
      case False
      with run upd Inr S mark True rep2 show ?thesis by (simp add: bindM_def committing_def)
    next
      case head: True
      have "length (''address:'' @ a) \<noteq> 32" using a(2) by simp
      from raw_put_other [OF this] obtain s' where s': "so_put level_db (''address:'' @ a) ?v (tdb tr') = (Inr (), s')"
          "chain_view s' = chain_view (tdb tr')" "refcount_inv level_view n s'"
        using upd(2) by metis
      have "represents ?E chain_view (tr'\<lparr>tdb := s'\<rparr>) (m(sha3 ?E a := ?v))"
        using rep2 by (rule represents_mono) (simp add: s')
      with run upd Inr S mark True head s' show ?thesis
        by (simp add: bindM_def committing_def in_db_def in_trie_def in_tdb_def zoomM_def)
    qed
  qed
qed

text \<open>The loop over the cache: \<open>ps\<close> are the accounts still to be written.\<close>

definition shows_but :: "('b, 'i) senv \<Rightarrow> contents \<Rightarrow> (string \<times> account) list \<Rightarrow> 'i ledger \<Rightarrow> bool" where
  "shows_but S m ps L \<longleftrightarrow>
     (\<forall>a. length a = 20 \<longrightarrow> (\<exists>x. (a, x) \<in> set ps \<and> a_touched x) \<or> trie_shows S m a (L a))"

text \<open>The commit of \<open>st\<close> met a clash at one of the cached accounts, with the trie as the accounts
  before it had left it.\<close>

definition commit_broken :: "(level, 'i) senv \<Rightarrow> level state \<Rightarrow> level state \<Rightarrow> bool" where
  "commit_broken S st st' \<longleftrightarrow> (\<exists>m0 m. represents (s_ext S) chain_view (st_trie st) m0 \<and>
     (\<forall>k. m k = m0 k \<or> (\<exists>a x. (a, x) \<in> set (st_cache st) \<and> k = sha3 (s_ext S) a \<and> m k = account_rlp (s_ext S) x)) \<and>
     (\<exists>a x. (a, x) \<in> set (st_cache st) \<and> update_clash (s_ext S) m a (account_rlp (s_ext S) x) (chain_view (tdb (st_trie st')))))"

lemma commit_loop:
  assumes c: "distinct (map fst c)" "\<And>a x. (a, x) \<in> set c \<Longrightarrow> length a = 20 \<and> account_shows S x (L a)"
    and small: "\<And>a. small_entry S (L a)"
    and m0: "represents (s_ext S) chain_view (st_trie st0) m0" "st_cache st0 = c"
  shows "set ps \<subseteq> set c \<Longrightarrow> committing S (n + 200 * length ps) c m st \<Longrightarrow> shows_but S m ps L \<Longrightarrow>
    (\<forall>k. m k = m0 k \<or> (\<exists>a x. (a, x) \<in> set c \<and> k = sha3 (s_ext S) a \<and> m k = account_rlp (s_ext S) x)) \<Longrightarrow>
    \<exists>r st'. forM ps (commit_account S False) st = (r, st') \<and>
      (case r of Inl e \<Rightarrow> e = AssertionError \<and> commit_broken S st0 st'
       | Inr u \<Rightarrow> \<exists>m'. committing S n c m' st' \<and> shows_but S m' [] L)"
proof (induction ps arbitrary: m st)
  case Nil
  then show ?case by auto
next
  case (Cons p ps)
  obtain a x where p: "p = (a, x)" by fastforce
  with Cons.prems(1) have ax: "(a, x) \<in> set c" by auto
  note x = c(2) [OF ax]
  have map: "map_of c a = Some x" using ax c(1) by simp
  have S: "env_ok S" using Cons.prems(2) by (simp add: committing_def)
  have com: "committing S ((n + 200 * length ps) + 200) c m st" using Cons.prems(2) by (simp add: ac_simps)
  let ?v = "account_bytes S (L a)"
  have v: "account_rlp (s_ext S) x = ?v" using x account_rlp_bytes by blast
  obtain r st1 where st1: "commit_account S False (a, x) st = (r, st1)"
      "case r of Inl er \<Rightarrow> er = AssertionError \<and> update_clash (s_ext S) m a ?v (chain_view (tdb (st_trie st1)))
       | Inr u \<Rightarrow> committing S (n + 200 * length ps) c (if a_touched x then m(sha3 (s_ext S) a := ?v) else m) st1"
    using commit_account_run [OF com map _ _ small] x by blast
  show ?case
  proof (cases r)
    case (Inl er)
    have "commit_broken S st0 st1"
      unfolding commit_broken_def
      by (rule exI [where x = m0], rule exI [where x = m]) (use Inl st1(2) m0 Cons.prems(4) ax v in force)
    with st1 Inl p show ?thesis by (simp add: bindM_def)
  next
    case (Inr u)
    let ?m = "if a_touched x then m(sha3 (s_ext S) a := ?v) else m"
    have "shows_but S ?m ps L"
      unfolding shows_but_def
    proof (intro allI impI)
      fix a' :: string assume a': "length a' = 20"
      show "(\<exists>y. (a', y) \<in> set ps \<and> a_touched y) \<or> trie_shows S ?m a' (L a')"
      proof (cases "a' = a")
        case True
        show ?thesis
        proof (cases "a_touched x")
          case True
          with \<open>a' = a\<close> show ?thesis by (simp add: trie_shows_def small)
        next
          case False
          have "y = x" if "(a, y) \<in> set (p # ps)" for y
            using that Cons.prems(1) map map_of_is_SomeI [OF c(1)] by fastforce
          with False have "\<not> (\<exists>y. (a, y) \<in> set (p # ps) \<and> a_touched y)" by blast
          with Cons.prems(3) a' True have "trie_shows S m a (L a)" by (auto simp: shows_but_def)
          with False True show ?thesis by simp
        qed
      next
        case False
        then have "sha3 (s_ext S) a' \<noteq> sha3 (s_ext S) a"
          using env_okD(4) [OF S a'] x by blast
        with Cons.prems(3) p False a' show ?thesis
          by (auto simp: shows_but_def trie_shows_def)
      qed
    qed
    moreover have "\<forall>k. ?m k = m0 k \<or> (\<exists>a x. (a, x) \<in> set c \<and> k = sha3 (s_ext S) a \<and> ?m k = account_rlp (s_ext S) x)"
    proof (intro allI)
      fix k
      show "?m k = m0 k \<or> (\<exists>a x. (a, x) \<in> set c \<and> k = sha3 (s_ext S) a \<and> ?m k = account_rlp (s_ext S) x)"
      proof (cases "a_touched x \<and> k = sha3 (s_ext S) a")
        case True
        with ax v show ?thesis by (intro disjI2 exI [of _ a] exI [of _ x]) simp
      next
        case False
        then have "?m k = m k" by auto
        with Cons.prems(4) show ?thesis by simp
      qed
    qed
    moreover have "committing S (n + 200 * length ps) c ?m st1" using st1(2) Inr by simp
    ultimately obtain r' st2 where "forM ps (commit_account S False) st1 = (r', st2)"
        "case r' of Inl e \<Rightarrow> e = AssertionError \<and> commit_broken S st0 st2
         | Inr u \<Rightarrow> \<exists>m'. committing S n c m' st2 \<and> shows_but S m' [] L"
      using Cons.IH [of ?m st1] Cons.prems(1) by auto
    with st1(1) Inr p show ?thesis by (simp add: bindM_def)
  qed
qed

lemma commit_run:
  assumes rep: "chain_rep S n st L" and small: "\<And>a. small_entry S (L a)"
  shows "\<exists>r st'. state_commit S False st = (r, st') \<and>
    (case r of Inl e \<Rightarrow> e = AssertionError \<and> commit_broken S st st' | Inr u \<Rightarrow> chain_rep S n st' L)"
proof (cases "st_cache st = []")
  case True
  have "state_commit S False st = (Inr (), st\<lparr>st_cache := [], st_journal := []\<rparr>)"
    using True by (simp add: state_commit_def bindM_def)
  with rep True show ?thesis by (auto simp: chain_rep_def)
next
  case False
  let ?c = "st_cache st"
  obtain m where m: "represents (s_ext S) chain_view (st_trie st) m" "cache_shows S m ?c L"
      "chain_view (tdb (st_trie st)) (BLANK_HASH (s_ext S)) = Some []"
    using rep False by (auto simp: chain_rep_def)
  have c: "distinct (map fst ?c)" using m(2) by (simp add: cache_shows_def)
  have cache: "length a = 20 \<and> account_shows S x (L a) \<and> (a_touched x \<or> trie_shows S m a (L a))"
    if "(a, x) \<in> set ?c" for a x
  proof -
    have "map_of ?c a = Some x" using that c by simp
    with m(2) show ?thesis unfolding cache_shows_def by (metis (no_types, lifting) option.simps(5))
  qed
  have com: "committing S (n + 200 * length ?c) ?c m st"
    using rep m by (simp add: chain_rep_def committing_def)
  have "shows_but S m ?c L"
    unfolding shows_but_def
  proof (intro allI impI)
    fix a :: string assume a: "length a = 20"
    show "(\<exists>x. (a, x) \<in> set ?c \<and> a_touched x) \<or> trie_shows S m a (L a)"
    proof (cases "map_of ?c a")
      case None
      with m(2) a show ?thesis unfolding cache_shows_def by (metis (no_types, lifting) option.simps(4))
    next
      case (Some x)
      then have "(a, x) \<in> set ?c" by (rule map_of_SomeD)
      with cache show ?thesis by blast
    qed
  qed
  note start = this
  have len: "length a = 20 \<and> account_shows S x (L a)" if "(a, x) \<in> set ?c" for a x
    using cache [OF that] by blast
  obtain r st1 where st1: "forM ?c (commit_account S False) st = (r, st1)"
      "case r of Inl e \<Rightarrow> e = AssertionError \<and> commit_broken S st st1
       | Inr u \<Rightarrow> \<exists>m'. committing S n ?c m' st1 \<and> shows_but S m' [] L"
    using commit_loop [OF c len small m(1) refl subset_refl com start] by blast
  show ?thesis
  proof (cases r)
    case (Inl e)
    with st1 show ?thesis by (simp add: state_commit_def bindM_def)
  next
    case (Inr u)
    then obtain m' where m': "committing S n ?c m' st1" "shows_but S m' [] L" using st1(2) by auto
    then have "chain_rep S n (st1\<lparr>st_cache := [], st_journal := []\<rparr>) L"
      by (auto simp: chain_rep_def committing_def cache_shows_def shows_but_def intro!: exI [of _ m'])
    with st1(1) Inr show ?thesis by (simp add: state_commit_def bindM_def)
  qed
qed

section \<open>The interface\<close>

locale account_store =
  fixes S :: "('b, 'i) senv" and rep :: "nat \<Rightarrow> 'b state \<Rightarrow> 'i ledger \<Rightarrow> bool"
    and broken :: "'b state \<Rightarrow> 'b state \<Rightarrow> bool"
  assumes rep_le: "rep n st L \<Longrightarrow> k \<le> n \<Longrightarrow> rep k st L"
    and balance_law: "rep (n + 200) st L \<Longrightarrow> normalize_address (s_ext S) x False = Inr a \<Longrightarrow>
      \<exists>st'. get_balance S x st = (Inr (snd (L a)), st') \<and> rep n st' L"
    and nonce_law: "rep (n + 200) st L \<Longrightarrow> normalize_address (s_ext S) x False = Inr a \<Longrightarrow>
      \<exists>st'. get_nonce S x st = (Inr (fst (L a)), st') \<and> rep n st' L"
    and set_law: "rep (n + 200) st L \<Longrightarrow> normalize_address (s_ext S) x False = Inr a \<Longrightarrow>
      \<exists>st'. set_balance S x b st = (Inr (), st') \<and> rep n st' (put_balance a b L)"
    and increment_law: "rep (n + 200) st L \<Longrightarrow> normalize_address (s_ext S) x False = Inr a \<Longrightarrow>
      \<exists>st'. increment_nonce S x st = (Inr (), st') \<and> rep n st' (bump_nonce a L)"
    and commit_law: "rep n st L \<Longrightarrow> (\<And>a. small_entry S (L a)) \<Longrightarrow>
      \<exists>r st'. state_commit S False st = (r, st') \<and>
        (case r of Inl e \<Rightarrow> e = AssertionError \<and> broken st st' | Inr u \<Rightarrow> rep n st' L)"

interpretation chain: account_store S "chain_rep S" "commit_broken S" for S
proof
  fix n k st L x a b
  show "chain_rep S n st L \<Longrightarrow> k \<le> n \<Longrightarrow> chain_rep S k st L" by (rule chain_rep_le)
  show "chain_rep S (n + 200) st L \<Longrightarrow> normalize_address (s_ext S) x False = Inr a \<Longrightarrow>
      \<exists>st'. get_balance S x st = (Inr (snd (L a)), st') \<and> chain_rep S n st' L"
    by (rule get_balance_run)
  show "chain_rep S (n + 200) st L \<Longrightarrow> normalize_address (s_ext S) x False = Inr a \<Longrightarrow>
      \<exists>st'. get_nonce S x st = (Inr (fst (L a)), st') \<and> chain_rep S n st' L"
    by (rule get_nonce_run)
  show "chain_rep S (n + 200) st L \<Longrightarrow> normalize_address (s_ext S) x False = Inr a \<Longrightarrow>
      \<exists>st'. set_balance S x b st = (Inr (), st') \<and> chain_rep S n st' (put_balance a b L)"
    unfolding put_balance_def by (rule set_balance_run)
  show "chain_rep S (n + 200) st L \<Longrightarrow> normalize_address (s_ext S) x False = Inr a \<Longrightarrow>
      \<exists>st'. increment_nonce S x st = (Inr (), st') \<and> chain_rep S n st' (bump_nonce a L)"
    unfolding bump_nonce_def by (rule increment_nonce_run)
  show "chain_rep S n st L \<Longrightarrow> (\<And>a. small_entry S (L a)) \<Longrightarrow> \<exists>r st'. state_commit S False st = (r, st') \<and>
        (case r of Inl e \<Rightarrow> e = AssertionError \<and> commit_broken S st st' | Inr u \<Rightarrow> chain_rep S n st' L)"
    by (rule commit_run)
qed

end
