(* ===== verification/ApplyRefine.thy ===== *)
theory ApplyRefine
  imports Apply StateRefine
begin

text \<open>
  \<open>apply_transaction\<close> implements the ledger transition \<open>tx_spec\<close>. The client side of the interface
  \<open>account_store\<close>: every handler is followed call by call, each call a step on the ledger, and the
  budget of writes is added up.
\<close>

section \<open>Running against a ledger\<close>

text \<open>\<open>impl rep L c p R\<close>: started in any state that shows \<open>L\<close> with a budget of at least \<open>c\<close>, the
  program \<open>p\<close> gives the result and the ledger \<open>R\<close>, or raises what \<open>R\<close> says, in a state that shows
  some ledger.\<close>

definition impl ::
  "(nat \<Rightarrow> 's \<Rightarrow> 'i ledger \<Rightarrow> bool) \<Rightarrow> 'i ledger \<Rightarrow> nat \<Rightarrow> ('s, 'a) M \<Rightarrow> ('a \<times> 'i ledger) res \<Rightarrow> bool" where
  "impl rep L c p R \<longleftrightarrow> (\<forall>n st. rep (n + c) st L \<longrightarrow>
     (\<exists>r st'. p st = (r, st') \<and>
        (case R of Inl e \<Rightarrow> r = Inl e \<and> (\<exists>L'. rep n st' L') | Inr (x, L') \<Rightarrow> r = Inr x \<and> rep n st' L')))"

text \<open>The number of accounts a transaction may read or change: the sender, the receiver, and the
  receivers of the delegations it ends.\<close>

definition tx_budget :: "ext \<Rightarrow> tx \<Rightarrow> 'i ledger \<Rightarrow> nat" where
  "tx_budget E t L =
     (case fst (sender E t) of
        Inl e \<Rightarrow> 0
      | Inr s \<Rightarrow> 400 * length (delegated_ips (snd (L s))) + 1600)"

text \<open>The new entries of the index that a transaction asks for.\<close>

abbreviation tx_holder :: "ext \<Rightarrow> tx \<Rightarrow> cached \<Rightarrow> cached res" where
  "tx_holder E t c \<equiv> (if tx_category t = 0 \<or> tx_category t = 1
     then bindE (ip_network t) (\<lambda>net. cache_holder E t net c) else Inr c)"

context account_store begin

lemma rep_drop: "rep (n + c) st L \<Longrightarrow> rep n st L"
  using rep_le by simp

lemma impl_ret: "impl rep L c (ret x) (Inr (x, L))"
  by (auto simp: impl_def intro: rep_drop)

lemma impl_raise: "impl rep L c (raise e) (Inl e)"
  by (auto simp: impl_def intro: rep_drop)

lemma impl_Inl: "(\<And>st. p st = (Inl e, st)) \<Longrightarrow> impl rep L c p (Inl e)"
  by (auto simp: impl_def intro: rep_drop)

lemma impl_lift: "impl rep L c (liftE r) (bindE r (\<lambda>x. Inr (x, L)))"
  by (cases r) (auto simp: impl_def intro: rep_drop)

lemma impl_bind:
  assumes "impl rep L c p R" "\<And>x L'. R = Inr (x, L') \<Longrightarrow> impl rep L' d (q x) (R' x L')"
  shows "impl rep L (c + d) (bindM p q) (bindE R (\<lambda>(x, L'). R' x L'))"
  unfolding impl_def
proof (intro allI impI)
  fix n st assume "rep (n + (c + d)) st L"
  then have "rep ((n + d) + c) st L" by (simp add: ac_simps)
  then obtain r st1 where p: "p st = (r, st1)"
      "case R of Inl e \<Rightarrow> r = Inl e \<and> (\<exists>L'. rep (n + d) st1 L') | Inr (x, L') \<Rightarrow> r = Inr x \<and> rep (n + d) st1 L'"
    using assms(1) unfolding impl_def by blast
  show "\<exists>r st'. bindM p q st = (r, st') \<and> (case bindE R (\<lambda>(x, L'). R' x L') of
      Inl e \<Rightarrow> r = Inl e \<and> (\<exists>L'. rep n st' L') | Inr (x, L') \<Rightarrow> r = Inr x \<and> rep n st' L')"
  proof (cases R)
    case (Inl e)
    with p rep_le [of "n + d" st1 _ n] show ?thesis by (auto simp: bindM_def)
  next
    case (Inr y)
    then obtain x L1 where y: "R = Inr (x, L1)" by (cases y) auto
    with p have "r = Inr x" "rep (n + d) st1 L1" by auto
    with assms(2) [OF y] p(1) show ?thesis
      by (auto simp: impl_def y bindM_def)
  qed
qed

lemma impl_lift_bind:
  assumes "\<And>x. r = Inr x \<Longrightarrow> impl rep L d (q x) (R' x)"
  shows "impl rep L d (bindM (liftE r) q) (bindE r R')"
proof (cases r)
  case (Inl e)
  have "bindM (liftE (Inl e)) q = raise e" by (rule ext) (simp add: bindM_def)
  with Inl impl_raise show ?thesis by simp
next
  case (Inr x)
  with assms show ?thesis by simp
qed

text \<open>The calls of the interface, the address given in any form.\<close>

lemma impl_op:
  assumes "\<And>n st a. r = Inr a \<Longrightarrow> rep (n + 200) st L \<Longrightarrow> \<exists>st'. p st = (Inr (v a), st') \<and> rep n st' (L' a)"
    and "\<And>e st. r = Inl e \<Longrightarrow> p st = (Inl e, st)"
  shows "impl rep L 200 p (bindE r (\<lambda>a. Inr (v a, L' a)))"
proof (cases r)
  case (Inl e)
  with assms(2) show ?thesis by (simp add: impl_Inl)
next
  case (Inr a)
  from assms(1) [OF this] show ?thesis by (fastforce simp: impl_def Inr)
qed

lemma impl_balance: "impl rep L 200 (get_balance S x) (bindE (normalize_address (s_ext S) x False) (\<lambda>a. Inr (snd (L a), L)))"
  by (rule impl_op) (use balance_law in \<open>simp_all add: get_balance_def bindM_def\<close>)

lemma impl_nonce: "impl rep L 200 (get_nonce S x) (bindE (normalize_address (s_ext S) x False) (\<lambda>a. Inr (fst (L a), L)))"
  by (rule impl_op) (use nonce_law in \<open>simp_all add: get_nonce_def bindM_def\<close>)

lemma impl_set: "impl rep L 200 (set_balance S x b) (bindE (normalize_address (s_ext S) x False) (\<lambda>a. Inr ((), put_balance a b L)))"
  by (rule impl_op) (use set_law in \<open>simp_all add: set_balance_def bindM_def\<close>)

lemma impl_increment: "impl rep L 200 (increment_nonce S x) (bindE (normalize_address (s_ext S) x False) (\<lambda>a. Inr ((), bump_nonce a L)))"
  by (rule impl_op) (use increment_law in \<open>simp_all add: increment_nonce_def bindM_def\<close>)

text \<open>The calls with an address that is known to be one, followed by the rest of the program.\<close>

lemma impl_step:
  assumes "impl rep L c p (Inr (x, L2))" "impl rep L2 d (q x) R'"
  shows "impl rep L (c + d) (bindM p q) R'"
  using impl_bind [of L c p "Inr (x, L2)" d q "\<lambda>_ _. R'"] assms by simp

lemma impl_balance_then:
  assumes "normalize_address (s_ext S) x False = Inr a" "impl rep L d (q (snd (L a))) R'"
  shows "impl rep L (200 + d) (bindM (get_balance S x) q) R'"
  using impl_step [of L 200 "get_balance S x" "snd (L a)" "L" d q R'] impl_balance [of L x] assms by simp

lemma impl_nonce_then:
  assumes "normalize_address (s_ext S) x False = Inr a" "impl rep L d (q (fst (L a))) R'"
  shows "impl rep L (200 + d) (bindM (get_nonce S x) q) R'"
  using impl_step [of L 200 "get_nonce S x" "fst (L a)" "L" d q R'] impl_nonce [of L x] assms by simp

lemma impl_set_then:
  assumes "normalize_address (s_ext S) x False = Inr a" "impl rep (put_balance a b L) d (q ()) R'"
  shows "impl rep L (200 + d) (bindM (set_balance S x b) q) R'"
  using impl_step [of L 200 "set_balance S x b" "()" "put_balance a b L" d q R'] impl_set [of L x b] assms by simp

lemma impl_increment_then:
  assumes "normalize_address (s_ext S) x False = Inr a" "impl rep (bump_nonce a L) d (q ()) R'"
  shows "impl rep L (200 + d) (bindM (increment_nonce S x) q) R'"
  using impl_step [of L 200 "increment_nonce S x" "()" "bump_nonce a L" d q R'] impl_increment [of L x] assms by simp

lemma impl_le: "impl rep L c p R \<Longrightarrow> c \<le> d \<Longrightarrow> impl rep L d p R"
  unfolding impl_def by (intro allI impI) (simp add: rep_le)

section \<open>The handlers\<close>

lemma impl_release:
  "impl rep L (400 * length xs) (release_loop S snder sb xs) (release_spec (s_ext S) (s_ips S) snder sb xs L)"
proof (induction xs arbitrary: sb L)
  case Nil
  then show ?case by (simp add: impl_ret del: ret_run)
next
  case (Cons x xs)
  obtain add ips where x: "x = (add, ips)" by fastforce
  let ?E = "s_ext S" and ?I = "s_ips S"
  have "impl rep L (400 + 400 * length xs) (release_loop S snder sb ((add, ips) # xs))
      (release_spec ?E ?I snder sb ((add, ips) # xs) L)"
    unfolding release_loop.simps release_spec.simps
  proof (rule impl_lift_bind)
    fix sb' assume sb': "remove_delegated_ips ?E ?I (PyStr add) ips sb = Inr sb'"
    then obtain a where a: "normalize_address ?E (PyStr add) False = Inr a"
      by (auto simp: remove_delegated_ips_def bindE_eq_Inr)
    have "impl rep L (200 + (200 + 400 * length xs)) (bindM (get_balance S (PyStr add))
        (\<lambda>rb. bindM (liftE (remove_received_ips ?E ?I (PyStr snder) ips rb))
        (\<lambda>rb'. bindM (set_balance S (PyStr add) rb') (\<lambda>_. release_loop S snder sb' xs))))
      (bindE (remove_received_ips ?E ?I (PyStr snder) ips (snd (L a)))
        (\<lambda>rb. release_spec ?E ?I snder sb' xs (put_balance a rb L)))"
      by (intro impl_balance_then [OF a] impl_lift_bind impl_set_then [OF a] Cons.IH)
    then show "impl rep L (400 + 400 * length xs) (bindM (get_balance S (PyStr add))
        (\<lambda>rb. bindM (liftE (remove_received_ips ?E ?I (PyStr snder) ips rb))
        (\<lambda>rb'. bindM (set_balance S (PyStr add) rb') (\<lambda>_. release_loop S snder sb' xs))))
      (bindE (normalize_address ?E (PyStr add) False) (\<lambda>a. bindE (remove_received_ips ?E ?I (PyStr snder) ips (snd (L a)))
        (\<lambda>rb. release_spec ?E ?I snder sb' xs (put_balance a rb L))))"
      using a by simp
  qed
  then show ?case by (simp add: x del: release_loop.simps release_spec.simps)
qed

lemma impl_validate:
  assumes "tx_sender_of (s_ext S) t = Inr s" "length s = 20"
  shows "impl rep L 400 (validate_transaction S t) (bindE (valid_spec (s_ips S) s t L) (\<lambda>_. Inr (True, L)))"
proof -
  have s: "normalize_address (s_ext S) (PyStr s) False = Inr s" using assms(2) by simp
  let ?I = "s_ips S"
  let ?rest = "\<lambda>net. if (tx_category t = 0 \<or> tx_category t = 1) \<and> \<not> in_own_ips ?I net (snd (L s))
    then Inl InsufficientBalance else Inr (True, L)"
  have last: "impl rep L 0 (bindM (liftE (ip_network t)) (\<lambda>net. if (tx_category t = 0 \<or> tx_category t = 1) \<and>
      \<not> in_own_ips ?I net (snd (L s)) then raise InsufficientBalance else ret True)) (bindE (ip_network t) ?rest)"
    by (intro impl_lift_bind) (simp add: impl_ret impl_raise del: ret_run raise_run)
  have last2: "impl rep L (200 + 0) (bindM (get_balance S (PyStr s)) (\<lambda>balance. bindM (liftE (ip_network t)) (\<lambda>val.
      if (tx_category t = 0 \<or> tx_category t = 1) \<and> \<not> in_own_ips ?I val balance
      then raise InsufficientBalance else ret True))) (bindE (ip_network t) ?rest)"
    by (rule impl_balance_then [OF s]) (rule last)
  let ?R = "if fst (L s) \<noteq> tx_nonce t then Inl InvalidNonce else if tx_category t > 3 then Inl InvalidCategory
    else bindE (ip_network t) ?rest"
  have "impl rep L (200 + (200 + 0)) (bindM (get_nonce S (PyStr s)) (\<lambda>req_nonce.
       if req_nonce \<noteq> tx_nonce t then raise InvalidNonce
       else if tx_category t > 3 then raise InvalidCategory
       else bindM (get_balance S (PyStr s)) (\<lambda>balance. bindM (liftE (ip_network t)) (\<lambda>val.
         if (tx_category t = 0 \<or> tx_category t = 1) \<and> \<not> in_own_ips ?I val balance
         then raise InsufficientBalance else ret True)))) ?R"
    using last2 by (intro impl_nonce_then [OF s]) (auto simp: impl_raise simp del: raise_run ret_run)
  moreover have "bindE (valid_spec ?I s t L) (\<lambda>_. Inr (True, L)) =
      (if s = [] \<or> s = null_address then Inl UnsignedTransaction else ?R)"
    by (cases "ip_network t") (simp_all add: valid_spec_def)
  ultimately show ?thesis
    using assms(1) by (simp add: validate_transaction_def impl_raise del: raise_run ret_run)
qed

lemma length_affected: "affected_loop I ips d = Inr r \<Longrightarrow> length r \<le> length d"
  by (induction d arbitrary: r) (force simp: Let_def bindE_eq_Inr split: if_splits)+

lemma impl_allocate:
  assumes "length s = 20" "ip_network t = Inr net" "normalize_address (s_ext S) (PyStr (tx_to t)) False = Inr to"
  shows "impl rep L (400 * length (delegated_ips (snd (L s))) + 1000) (apply_allocate S s t c)
    (bindE (allocate_spec (s_ext S) (s_ips S) s to net L) (\<lambda>L'. Inr (AList.update net to c, L')))"
proof -
  let ?E = "s_ext S" and ?I = "s_ips S" and ?n = "length (delegated_ips (snd (L s)))"
  let ?c = "AList.update net to c"
  have s: "normalize_address ?E (PyStr s) False = Inr s" using assms(1) by simp
  note norm = s assms(3)
  let ?L2 = "\<lambda>sb L1. bump_nonce s (put_balance s (remove_own_ips ?I net sb) (put_balance to (add_own_ips ?I net (snd (L1 to))) L1))"
  let ?prog = "\<lambda>sb'. bindM (get_balance S (PyStr (tx_to t))) (\<lambda>tb.
     bindM (set_balance S (PyStr (tx_to t)) (add_own_ips ?I net tb)) (\<lambda>_.
     bindM (set_balance S (PyStr s) (remove_own_ips ?I net sb')) (\<lambda>_.
     bindM (increment_nonce S (PyStr s)) (\<lambda>_. ret ?c))))"
  have tail: "impl rep L1 (200 + (200 + (200 + (200 + 0)))) (?prog sb) (Inr (?c, ?L2 sb L1))" for sb L1
    by (intro impl_balance_then [OF assms(3)] impl_set_then [OF assms(3)] impl_set_then [OF s]
        impl_increment_then [OF s] impl_ret)
  have "impl rep L (200 + (400 * ?n + 800)) (bindM (get_balance S (PyStr s)) (\<lambda>sb.
     bindM (liftE (affected_delegated_ips ?I net sb)) (\<lambda>affected. bindM (release_loop S s sb affected) ?prog)))
     (bindE (affected_delegated_ips ?I net (snd (L s))) (\<lambda>affected.
      bindE (release_spec ?E ?I s (snd (L s)) affected L) (\<lambda>(sb, L1). Inr (?c, ?L2 sb L1))))"
  proof (intro impl_balance_then [OF s] impl_lift_bind)
    fix affected assume "affected_delegated_ips ?I net (snd (L s)) = Inr affected"
    then have le: "length affected \<le> ?n" by (simp add: affected_delegated_ips_def length_affected)
    have "impl rep L (400 * length affected + 800) (bindM (release_loop S s (snd (L s)) affected) ?prog)
        (bindE (release_spec ?E ?I s (snd (L s)) affected L) (\<lambda>(sb, L1). Inr (?c, ?L2 sb L1)))"
      using tail by (intro impl_bind impl_release) simp
    then show "impl rep L (400 * ?n + 800) (bindM (release_loop S s (snd (L s)) affected) ?prog)
        (bindE (release_spec ?E ?I s (snd (L s)) affected L) (\<lambda>(sb, L1). Inr (?c, ?L2 sb L1)))"
      by (rule impl_le) (use le in simp)
  qed
  moreover have "bindE (allocate_spec ?E ?I s to net L) (\<lambda>L'. Inr (?c, L')) =
      bindE (affected_delegated_ips ?I net (snd (L s))) (\<lambda>affected.
      bindE (release_spec ?E ?I s (snd (L s)) affected L) (\<lambda>(sb, L1). Inr (?c, ?L2 sb L1)))"
    by (simp add: allocate_spec_def bindE_def Let_def split: sum.split prod.split)
  ultimately show ?thesis
    using assms(2,3) by (simp add: apply_allocate_def cache_holder_def ac_simps)
qed

lemma impl_delegate:
  assumes "length s = 20" "ip_network t = Inr net" "normalize_address (s_ext S) (PyStr (tx_to t)) False = Inr to"
  shows "impl rep L (400 * length (delegated_ips (snd (L s))) + 1000) (apply_delegate S s t c)
    (bindE (delegate_spec (s_ext S) (s_ips S) s to net L) (\<lambda>L'. Inr (AList.update net to c, L')))"
proof -
  let ?E = "s_ext S" and ?I = "s_ips S" and ?n = "length (delegated_ips (snd (L s)))"
  let ?c = "AList.update net to c"
  have s: "normalize_address ?E (PyStr s) False = Inr s" using assms(1) by simp
  have to: "length to = 20" using normalize_address_length [OF assms(3)] by simp
  have add: "add_delegated_ips ?E ?I (PyStr (tx_to t)) net sb = add_delegated_ips ?E ?I (PyStr to) net sb" for sb
    using assms(3) to by (simp add: add_delegated_ips_def)
  let ?prog = "\<lambda>sb'. bindM (get_balance S (PyStr (tx_to t))) (\<lambda>tb.
     bindM (liftE (add_received_ips ?E ?I (PyStr s) net tb)) (\<lambda>tb'.
     bindM (liftE (add_delegated_ips ?E ?I (PyStr (tx_to t)) net sb')) (\<lambda>sb''.
     bindM (set_balance S (PyStr (tx_to t)) tb') (\<lambda>_.
     bindM (set_balance S (PyStr s) sb'') (\<lambda>_.
     bindM (increment_nonce S (PyStr s)) (\<lambda>_. ret ?c))))))"
  let ?R = "\<lambda>sb L1. bindE (add_received_ips ?E ?I (PyStr s) net (snd (L1 to))) (\<lambda>tb.
     bindE (add_delegated_ips ?E ?I (PyStr to) net sb) (\<lambda>sb'.
     Inr (?c, bump_nonce s (put_balance s sb' (put_balance to tb L1)))))"
  have tail: "impl rep L1 (200 + (200 + (200 + (200 + 0)))) (?prog sb) (?R sb L1)" for sb L1
    unfolding add
    by (intro impl_balance_then [OF assms(3)] impl_lift_bind impl_set_then [OF assms(3)] impl_set_then [OF s]
        impl_increment_then [OF s] impl_ret)
  have "impl rep L (200 + (400 * ?n + 800)) (bindM (get_balance S (PyStr s)) (\<lambda>sb.
     bindM (liftE (affected_delegated_ips ?I net sb)) (\<lambda>affected. bindM (release_loop S s sb affected) ?prog)))
     (bindE (affected_delegated_ips ?I net (snd (L s))) (\<lambda>affected.
      bindE (release_spec ?E ?I s (snd (L s)) affected L) (\<lambda>(sb, L1). ?R sb L1)))"
  proof (intro impl_balance_then [OF s] impl_lift_bind)
    fix affected assume "affected_delegated_ips ?I net (snd (L s)) = Inr affected"
    then have le: "length affected \<le> ?n" by (simp add: affected_delegated_ips_def length_affected)
    have "impl rep L (400 * length affected + 800) (bindM (release_loop S s (snd (L s)) affected) ?prog)
        (bindE (release_spec ?E ?I s (snd (L s)) affected L) (\<lambda>(sb, L1). ?R sb L1))"
      using tail by (intro impl_bind impl_release) simp
    then show "impl rep L (400 * ?n + 800) (bindM (release_loop S s (snd (L s)) affected) ?prog)
        (bindE (release_spec ?E ?I s (snd (L s)) affected L) (\<lambda>(sb, L1). ?R sb L1))"
      by (rule impl_le) (use le in simp)
  qed
  moreover have "bindE (delegate_spec ?E ?I s to net L) (\<lambda>L'. Inr (?c, L')) =
      bindE (affected_delegated_ips ?I net (snd (L s))) (\<lambda>affected.
      bindE (release_spec ?E ?I s (snd (L s)) affected L) (\<lambda>(sb, L1). ?R sb L1))"
    by (simp add: delegate_spec_def bindE_def split: sum.split prod.split)
  ultimately show ?thesis
    using assms(2,3) by (simp add: apply_delegate_def cache_holder_def ac_simps)
qed

lemma impl_metadata:
  assumes "length s = 20"
  shows "impl rep L 600 (apply_metadata S s setter) (bindE (metadata_spec s setter L) (\<lambda>L'. Inr ((), L')))"
proof -
  have s: "normalize_address (s_ext S) (PyStr s) False = Inr s" using assms by simp
  have inc: "impl rep L1 200 (increment_nonce S (PyStr s)) (Inr ((), bump_nonce s L1))" for L1
    using impl_increment [of L1 "PyStr s"] s by simp
  have "impl rep L (200 + (200 + 200)) (apply_metadata S s setter)
      (bindE (setter (snd (L s))) (\<lambda>b. Inr ((), bump_nonce s (put_balance s b L))))"
    unfolding apply_metadata_def
    by (intro impl_balance_then [OF s] impl_lift_bind impl_set_then [OF s] inc)
  moreover have "bindE (metadata_spec s setter L) (\<lambda>L'. Inr ((), L')) =
      bindE (setter (snd (L s))) (\<lambda>b. Inr ((), bump_nonce s (put_balance s b L)))"
    by (simp add: metadata_spec_def bindE_def split: sum.split)
  ultimately show ?thesis by simp
qed

lemma impl_effect:
  assumes "length s = 20" "tx_category t \<le> 3"
  shows "impl rep L (400 * length (delegated_ips (snd (L s))) + 1000)
    (if tx_category t = 0 then apply_allocate S s t c
     else if tx_category t = 1 then apply_delegate S s t c
     else if tx_category t = 2
     then bindM (apply_metadata S s (set_map_server (metadata_strings (tx_metadata t)))) (\<lambda>_. ret c)
     else if tx_category t = 3
     then bindM (apply_metadata S s (set_locator (metadata_strings (tx_metadata t)))) (\<lambda>_. ret c)
     else ret c)
    (bindE (tx_holder (s_ext S) t c) (\<lambda>c'. bindE (effect_spec (s_ext S) (s_ips S) s t L) (\<lambda>L'. Inr (c', L'))))"
proof -
  let ?E = "s_ext S" and ?n = "400 * length (delegated_ips (snd (L s))) + 1000"
  have prefix: "impl rep L ?n (if tx_category t = 0 then apply_allocate S s t c else apply_delegate S s t c)
      (bindE (tx_holder (s_ext S) t c) (\<lambda>c'. bindE (effect_spec ?E (s_ips S) s t L) (\<lambda>L'. Inr (c', L'))))"
    if cat: "tx_category t = 0 \<or> tx_category t = 1"
  proof (cases "ip_network t")
    case (Inl e)
    have "apply_allocate S s t c = raise e" "apply_delegate S s t c = raise e"
      by (rule ext, simp add: apply_allocate_def apply_delegate_def bindM_def Inl)+
    with Inl cat show ?thesis by (simp add: impl_raise del: raise_run)
  next
    case net: (Inr net)
    show ?thesis
    proof (cases "normalize_address ?E (PyStr (tx_to t)) False")
      case (Inl e)
      have "apply_allocate S s t c = raise e" "apply_delegate S s t c = raise e"
        by (rule ext, simp add: apply_allocate_def apply_delegate_def cache_holder_def bindM_def Inl net)+
      with Inl net cat show ?thesis by (simp add: impl_raise cache_holder_def del: raise_run)
    next
      case (Inr to)
      from cat show ?thesis
        using impl_allocate [OF assms(1) net Inr, of L c] impl_delegate [OF assms(1) net Inr, of L c] net Inr
        by (auto simp: effect_spec_def cache_holder_def)
    qed
  qed
  have meta: "impl rep L ?n (bindM (apply_metadata S s setter) (\<lambda>_. ret c))
      (bindE (metadata_spec s setter L) (\<lambda>L'. Inr (c, L')))" for setter
  proof -
    have "impl rep L (600 + 0) (bindM (apply_metadata S s setter) (\<lambda>_. ret c))
        (bindE (bindE (metadata_spec s setter L) (\<lambda>L'. Inr ((), L'))) (\<lambda>(_, L'). Inr (c, L')))"
      by (intro impl_bind impl_metadata impl_ret assms(1))
    then have "impl rep L 600 (bindM (apply_metadata S s setter) (\<lambda>_. ret c))
        (bindE (metadata_spec s setter L) (\<lambda>L'. Inr (c, L')))"
      by (cases "metadata_spec s setter L") simp_all
    then show ?thesis by (rule impl_le) simp
  qed
  from assms(2) consider "tx_category t = 0 \<or> tx_category t = 1" | "tx_category t = 2" | "tx_category t = 3"
    by linarith
  then show ?thesis
  proof cases
    case 1
    with prefix show ?thesis by auto
  next
    case 2
    with meta show ?thesis by (simp add: effect_spec_def)
  next
    case 3
    with meta show ?thesis by (simp add: effect_spec_def)
  qed
qed

text \<open>The whole transaction. A ledger too large to be stored is excluded; the commit may fail on a
  clash in the database, and then the state shows the new ledger before the commit.\<close>

lemma apply_transaction_run:
  assumes rep: "rep (n + tx_budget (s_ext S) t L) st L"
    and s: "\<And>s. tx_sender_of (s_ext S) t = Inr s \<Longrightarrow> length s = 20"
    and small: "\<And>L' a. tx_spec (s_ext S) (s_ips S) t L = Inr L' \<Longrightarrow> small_entry S (L' a)"
  shows "case tx_spec (s_ext S) (s_ips S) t L of
      Inl e \<Rightarrow> \<exists>st' L'. apply_transaction S t c st = (Inl e, st') \<and> rep n st' L'
    | Inr L' \<Rightarrow> \<exists>c'. tx_holder (s_ext S) t c = Inr c' \<and>
        (\<exists>r st'. apply_transaction S t c st = (r, st') \<and>
          (case r of Inl e \<Rightarrow> e = AssertionError \<and> (\<exists>st1. rep n st1 L' \<and> broken st1 st')
           | Inr x \<Rightarrow> x = c' \<and> rep n st' L'))"
proof (cases "tx_sender_of (s_ext S) t")
  case (Inl e)
  have "validate_transaction S t st = (Inl e, st)"
    by (simp add: validate_transaction_def bindM_def Inl)
  then have "apply_transaction S t c st = (Inl e, st)"
    by (simp add: apply_transaction_def bindM_def)
  with Inl rep show ?thesis by (auto simp: tx_spec_def tx_budget_def)
next
  case (Inr s)
  note len = s [OF Inr]
  let ?E = "s_ext S" and ?I = "s_ips S" let ?n = "400 * length (delegated_ips (snd (L s))) + 1000"
  have rep: "rep ((n + ?n) + 400) st L"
    using rep rep_le [OF rep, of "n + ?n + 400"] by (simp add: tx_budget_def Inr)
  obtain r st1 where v: "validate_transaction S t st = (r, st1)"
      "case bindE (valid_spec ?I s t L) (\<lambda>_. Inr (True, L)) of
        Inl e \<Rightarrow> r = Inl e \<and> (\<exists>L'. rep (n + ?n) st1 L') | Inr (x, L') \<Rightarrow> r = Inr x \<and> rep (n + ?n) st1 L'"
    using impl_validate [OF Inr len, of L] rep unfolding impl_def by blast
  show ?thesis
  proof (cases "valid_spec ?I s t L")
    case bad: (Inl e)
    with v have "apply_transaction S t c st = (Inl e, st1)" "\<exists>L'. rep n st1 L'"
      by (auto simp: apply_transaction_def bindM_def intro: rep_drop)
    with bad Inr show ?thesis by (auto simp: tx_spec_def)
  next
    case ok: (Inr u)
    then have cat: "tx_category t \<le> 3" by (auto simp: valid_spec_def split: if_splits)
    from ok v have r: "r = Inr True" "rep (n + ?n) st1 L" by auto
    define prog where "prog = (if tx_category t = 0 then apply_allocate S s t c
      else if tx_category t = 1 then apply_delegate S s t c
      else if tx_category t = 2
      then bindM (apply_metadata S s (set_map_server (metadata_strings (tx_metadata t)))) (\<lambda>_. ret c)
      else if tx_category t = 3
      then bindM (apply_metadata S s (set_locator (metadata_strings (tx_metadata t)))) (\<lambda>_. ret c)
      else ret c)"
    have run: "apply_transaction S t c st = bindM prog (\<lambda>c'. bindM (state_commit S False) (\<lambda>_. ret c')) st1"
      using v(1) r(1) Inr unfolding apply_transaction_def prog_def
      by (simp add: bindM_def split: prod.split sum.split)
    obtain q st2 where q: "prog st1 = (q, st2)"
        "case bindE (tx_holder (s_ext S) t c) (\<lambda>c'. bindE (effect_spec ?E ?I s t L) (\<lambda>L'. Inr (c', L'))) of
          Inl e \<Rightarrow> q = Inl e \<and> (\<exists>L'. rep n st2 L') | Inr (x, L') \<Rightarrow> q = Inr x \<and> rep n st2 L'"
      using impl_effect [OF len cat, of L c, folded prog_def] r(2) unfolding impl_def by blast
    have spec: "tx_spec ?E ?I t L = effect_spec ?E ?I s t L"
      by (simp add: tx_spec_def Inr ok)
    show ?thesis
    proof (cases "effect_spec ?E ?I s t L")
      case eff: (Inl e)
      moreover have "tx_holder (s_ext S) t c = Inl e' \<Longrightarrow> effect_spec ?E ?I s t L = Inl e'" for e'
        by (cases "ip_network t"; cases "normalize_address ?E (PyStr (tx_to t)) False")
          (auto simp: effect_spec_def cache_holder_def split: if_splits)
      ultimately obtain L' where "q = Inl e" "rep n st2 L'"
        using q(2) by (cases "tx_holder (s_ext S) t c") auto
      moreover from this run q(1) have "apply_transaction S t c st = (Inl e, st2)" by (simp add: bindM_def)
      ultimately show ?thesis using spec eff by auto
    next
      case eff: (Inr L')
      then obtain c' where c': "tx_holder (s_ext S) t c = Inr c'"
        by (cases "tx_holder (s_ext S) t c") (auto simp: effect_spec_def cache_holder_def bindE_eq_Inr split: if_splits)
      with eff q have q': "q = Inr c'" "rep n st2 L'" by auto
      obtain w st3 where com: "state_commit S False st2 = (w, st3)"
          "case w of Inl e \<Rightarrow> e = AssertionError \<and> broken st2 st3 | Inr u \<Rightarrow> rep n st3 L'"
        using commit_law [OF q'(2) small [unfolded spec, OF eff]] by blast
      from run q(1) q'(1) com(1) have "apply_transaction S t c st = (case w of Inl e \<Rightarrow> (Inl e, st3) | Inr u \<Rightarrow> (Inr c', st3))"
        by (simp add: bindM_def split: sum.split)
      with com(2) q'(2) c' spec eff show ?thesis
        by (cases w) auto
    qed
  qed
qed

end

end
