(* ===== verification/Samples.thy ===== *)
theory Samples
  imports StateRefine "HOL-Library.Countable"
begin

text \<open>
  Concrete states for the witnesses: an environment with a reference \<open>pickle\<close>, a state in which one
  account owns a prefix, and transactions that this account sends.
\<close>

section \<open>A reference pickle\<close>

text \<open>Balances are countable, so there is a pickle that loads what it dumped; the balances of a given
  list get short codes.\<close>

instance ipnet :: countable
  by countable_datatype

instance addr_set :: countable
proof
  let ?f = "\<lambda>s. to_nat (SOME xs. set xs = Rep_addr_set s)"
  have "inj ?f"
  proof (rule injI)
    fix s t assume "?f s = ?f t"
    then have eq: "(SOME xs. set xs = Rep_addr_set s) = (SOME xs. set xs = Rep_addr_set t)" by simp
    have "set (SOME xs. set xs = Rep_addr_set u) = Rep_addr_set u" for u
    proof (rule someI_ex)
      show "\<exists>xs. set xs = Rep_addr_set u" using Rep_addr_set [of u] finite_list by auto
    qed
    with eq have "Rep_addr_set s = Rep_addr_set t" by metis
    then show "s = t" by (simp add: Rep_addr_set_inject)
  qed
  then show "\<exists>f :: addr_set \<Rightarrow> nat. inj f" by blast
qed

definition balance_code :: "addr_set balance \<Rightarrow> nat" where
  "balance_code b = to_nat (own_ips b, delegated_ips b, received_ips b, map_server b, locator b)"

definition balance_of_code :: "nat \<Rightarrow> addr_set balance" where
  "balance_of_code n = (case from_nat n of (ow, d, r, m, l) \<Rightarrow>
     \<lparr>own_ips = ow, delegated_ips = d, received_ips = r, map_server = m, locator = l\<rparr>)"

lemma balance_of_code_code: "balance_of_code (balance_code b) = b"
  by (simp add: balance_of_code_def balance_code_def)

definition pickle_ref :: "addr_set balance list \<Rightarrow> addr_set balance \<Rightarrow> string" where
  "pickle_ref bs b = be_bytes (case map_of (zip bs [0 ..< length bs]) b of
     Some i \<Rightarrow> i | None \<Rightarrow> length bs + balance_code b)"

definition unpickle_ref :: "addr_set balance list \<Rightarrow> string \<Rightarrow> addr_set balance res" where
  "unpickle_ref bs s = (let n = be_val s in
     Inr (if n < length bs then bs ! n else balance_of_code (n - length bs)))"

lemma map_of_zip_upt: "map_of (zip bs [0 ..< length bs]) b = Some i \<Longrightarrow> i < length bs \<and> bs ! i = b"
  by (drule map_of_SomeD) (auto simp: set_zip)

lemma pickle_ref_unpickle: "unpickle_ref bs (pickle_ref bs b) = Inr b"
  using map_of_zip_upt [of bs b]
  by (auto simp: unpickle_ref_def pickle_ref_def balance_of_code_code split: option.splits)

lemma pickle_ref_short:
  assumes "b \<in> set bs" "length bs < 256"
  shows "length (pickle_ref bs b) \<le> 1"
proof -
  have "b \<in> dom (map_of (zip bs [0 ..< length bs]))"
    using assms(1) by (simp add: dom_map_of_zip)
  then obtain i where i: "map_of (zip bs [0 ..< length bs]) b = Some i" by blast
  then have "i < 256" using map_of_zip_upt [OF i] assms(2) by simp
  with i length_be_bytes_le [of i 1] show ?thesis by (simp add: pickle_ref_def)
qed

section \<open>A state in which one account owns a prefix\<close>

definition senv_for :: "addr_set balance list \<Rightarrow> (level, addr_set) senv" where
  "senv_for bs = \<lparr>s_ext = ext_ref, s_db = level_db, s_ips = ipset_ref, s_pickle = pickle_ref bs,
     s_unpickle = unpickle_ref bs\<rparr>"

lemma senv_for_simps [simp]:
  "s_ext (senv_for bs) = ext_ref" "s_db (senv_for bs) = level_db" "s_ips (senv_for bs) = ipset_ref"
  "s_pickle (senv_for bs) = pickle_ref bs" "s_unpickle (senv_for bs) = unpickle_ref bs"
  by (simp_all add: senv_for_def)

lemma hash_ref_inj: "inj_on (sha3 ext_ref) {a. length a = 20}"
proof (rule inj_onI)
  fix a b :: string
  assume "a \<in> {a. length a = 20}" "b \<in> {a. length a = 20}" "sha3 ext_ref a = sha3 ext_ref b"
  then show "a = b" by (simp add: sha3_def ext_ref_def hash_ref_def)
qed

lemma senv_for_ok: "env_ok (senv_for bs)"
  by (simp add: env_ok_def ext_ref_ok ext_ref_rlp_ok hash_ref_inj pickle_ref_unpickle)

text \<open>The account \<open>a\<close> has been read and changed, everything else is blank.\<close>

definition owner_ledger :: "string \<Rightarrow> nat \<times> addr_set balance \<Rightarrow> addr_set ledger" where
  "owner_ledger a e = (\<lambda>_. (0, empty_balance ipset_ref))(a := e)"

definition owner_state :: "addr_set balance list \<Rightarrow> string \<Rightarrow> nat \<times> addr_set balance \<Rightarrow> level state" where
  "owner_state bs a e = \<lparr>st_trie = blank_trie ext_ref \<lparr>uncommitted = Map.empty, disk = [BLANK_HASH ext_ref \<mapsto> []]\<rparr>,
     st_txindex = 0, st_block_number = 0, st_block_coinbase = [], st_timestamp = 0, st_prev_headers = [],
     st_journal = [], st_cache = [(a, \<lparr>a_nonce = fst e, a_balance = object_to_bin (senv_for bs) (snd e),
       a_touched = True, a_deleted = False, a_existent = True\<rparr>)],
     st_changed = [], st_executing_on_head = False\<rparr>"

lemma owner_state_rep:
  assumes "length a = 20" "n < 2 ^ 31"
  shows "chain_rep (senv_for bs) n (owner_state bs a e) (owner_ledger a e)"
proof -
  have len: "length (BLANK_HASH ext_ref) = 32" using ext_ref_ok by (simp add: BLANK_HASH_def length_sha3)
  let ?d = "\<lparr>uncommitted = Map.empty, disk = [BLANK_HASH ext_ref \<mapsto> []]\<rparr>"
  have inv: "refcount_inv level_view (n + 200) ?d"
    using assms(2) by (simp add: refcount_inv_def level_view_def)
  have mark: "chain_view ?d (BLANK_HASH ext_ref) = Some []"
    using len by (simp add: refcount_view_def level_view_def)
  have "cache_shows (senv_for bs) (\<lambda>_. []) (st_cache (owner_state bs a e)) (owner_ledger a e)"
    using assms(1) by (simp add: cache_shows_def owner_state_def owner_ledger_def account_shows_def trie_shows_def)
  with inv mark senv_for_ok [of bs] represents_blank [of ext_ref chain_view ?d] show ?thesis
    unfolding chain_rep_def by (auto simp: owner_state_def)
qed

section \<open>Transactions\<close>

abbreviation owner :: string where
  "owner \<equiv> replicate 20 (CHR 0x07)"

abbreviation receiver :: string where
  "receiver \<equiv> replicate 20 (CHR 0x09)"

text \<open>The prefix 10.0.0.0/8.\<close>

abbreviation ten_net :: ipnet where
  "ten_net \<equiv> IPNet 4 167772160 8"

definition prefix_tx :: "nat \<Rightarrow> string \<Rightarrow> tx" where
  "prefix_tx category to = \<lparr>tx_nonce = 4, tx_category = category, tx_to = to, tx_afi = 1,
     tx_value = [CHR 0x0A, CHR 0x00, CHR 0x00, CHR 0x00, CHR 0x08], tx_metadata = Str [], tx_time = 0,
     tx_v = 27, tx_r = 1, tx_s = 1, tx_sender = Some owner\<rparr>"

lemma prefix_tx_simps [simp]:
  "tx_nonce (prefix_tx c to) = 4" "tx_category (prefix_tx c to) = c" "tx_to (prefix_tx c to) = to"
  "fst (sender E (prefix_tx c to)) = Inr owner"
  by (simp_all add: prefix_tx_def sender_def bindM_def numeral_eq_Suc)

lemma ip_network_prefix_tx [simp]: "ip_network (prefix_tx c to) = Inr ten_net"
proof -
  have "be_val [CHR 0x0A, CHR 0x00, CHR 0x00, CHR 0x00] = 167772160"
    by (simp add: be_val_def)
  then show ?thesis
    by (simp add: ip_network_def prefix_tx_def ip_packed_def ip_bytes_def py_nth_def bytes_to_int_eq net_of_def ip_bits_def)
qed

definition owner_entry :: "nat \<times> addr_set balance" where
  "owner_entry = (4, add_own_ips ipset_ref ten_net (empty_balance ipset_ref))"

end
