(* ===== verification/ApplyCorrect.thy ===== *)
theory ApplyCorrect
  imports ApplyRefine Samples
begin

text \<open>
  What a transaction does, stated of \<open>apply_transaction\<close> on the state of the chain: it implements the
  ledger transition, keeps the invariant of the ledger, moves or delegates exactly the prefix it
  names, and cannot be applied twice. Two transactions break the registry: allocating or delegating
  a prefix to oneself.
\<close>

section \<open>The effect on the ledger\<close>

lemma tx_spec_effect:
  fixes L :: "'i ledger"
  assumes I: "ipset_ok I addrs" and L: "ledger_ok addrs L" "ledger_wf L"
    and s: "tx_sender_of E t = Inr s" "length s = 20" and run: "tx_spec E I t L = Inr L'"
    and other: "tx_category t \<le> 1 \<Longrightarrow> normalize_address E (PyStr (tx_to t)) False \<noteq> Inr s"
  shows "ledger_ok addrs L' \<and> ledger_wf L' \<and> fst (L s) = tx_nonce t \<and>
    (\<forall>a. fst (L' a) = (if a = s then Suc (fst (L s)) else fst (L a))) \<and>
    (if tx_category t \<le> 1
     then \<exists>net to. ip_network t = Inr net \<and> normalize_address E (PyStr (tx_to t)) False = Inr to \<and>
       net_addrs net \<subseteq> owns addrs L s \<and>
       (if tx_category t = 0 then moves_prefix addrs s to net L L' else delegates_prefix addrs s to net L L')
     else keeps_prefixes addrs L L')"
proof -
  have valid: "valid_spec I s t L = Inr ()" and eff: "effect_spec E I s t L = Inr L'"
    using run s(1) by (auto simp: tx_spec_def bindE_eq_Inr)
  have nonce: "fst (L s) = tx_nonce t" and cat: "tx_category t \<le> 3"
    using valid by (auto simp: valid_spec_def split: if_splits)
  show ?thesis
  proof (cases "tx_category t \<le> 1")
    case True
    then have c01: "tx_category t = 0 \<or> tx_category t = 1" by linarith
    obtain net to where net: "ip_network t = Inr net" "normalize_address E (PyStr (tx_to t)) False = Inr to"
      and step: "(if tx_category t = 0 then allocate_spec E I s to net L else delegate_spec E I s to net L) = Inr L'"
      using eff c01 by (auto simp: effect_spec_def bindE_eq_Inr)
    have own: "net_addrs net \<subseteq> owns addrs L s"
      using valid c01 net(1) I by (auto simp: valid_spec_def in_own_ips_def ipset_ok_def owns_def split: if_splits)
    have to: "s \<noteq> to" "length to = 20" using other True net(2) normalize_address_length [OF net(2)] by auto
    show ?thesis
    proof (cases "tx_category t = 0")
      case True
      then have run: "allocate_spec E I s to net L = Inr L'" using step by simp
      note e = allocate_effect [OF I L s(2) to(1) run]
      then have "moves_prefix addrs s to net L L'" by (simp add: moves_prefix_def)
      with moves_prefix_ok [OF L(1) _ to(1) own] e nonce True net own show ?thesis by simp
    next
      case False
      then have run: "delegate_spec E I s to net L = Inr L'" using step by simp
      note e = delegate_effect [OF I L s(2) to run]
      then have "delegates_prefix addrs s to net L L'" by (simp add: delegates_prefix_def)
      with delegates_prefix_ok [OF L(1) _ to(1) own] e nonce False c01 net own show ?thesis by simp
    qed
  next
    case False
    define setter :: "'i balance \<Rightarrow> 'i balance res" where "setter = (if tx_category t = 2 then set_map_server (metadata_strings (tx_metadata t))
      else set_locator (metadata_strings (tx_metadata t)))"
    have run: "metadata_spec s setter L = Inr L'"
      using eff False unfolding effect_spec_def setter_def by (auto split: if_splits)
    have keep: "own_ips b' = own_ips b \<and> delegated_ips b' = delegated_ips b \<and> received_ips b' = received_ips b"
      if "setter b = Inr b'" for b b'
      using that set_metadata_keeps [of _ b b'] by (auto simp: setter_def split: if_splits)
    note e = metadata_effect [OF run keep]
    then have "keeps_prefixes addrs L L'" by (simp add: keeps_prefixes_def)
    with keeps_prefixes_ok [OF L(1)] e L(2) nonce False show ?thesis by simp
  qed
qed

lemma release_nonce: "release_spec E I s sb xs L = Inr (sb', L') \<Longrightarrow> fst (L' a) = fst (L a)"
proof (induction xs arbitrary: sb L)
  case (Cons x xs)
  then show ?case by (cases x) (fastforce simp: bindE_eq_Inr put_balance_def split: if_splits)
qed simp

lemma tx_spec_nonce:
  assumes "tx_spec E I t L = Inr L'" "tx_sender_of E t = Inr s"
  shows "fst (L' s) = Suc (tx_nonce t)"
proof -
  have valid: "valid_spec I s t L = Inr ()" and eff: "effect_spec E I s t L = Inr L'"
    using assms by (auto simp: tx_spec_def bindE_eq_Inr)
  have "fst (L s) = tx_nonce t" using valid by (auto simp: valid_spec_def split: if_splits)
  moreover have "fst (L' s) = Suc (fst (L s))"
    using eff release_nonce
    by (auto simp: effect_spec_def allocate_spec_def delegate_spec_def metadata_spec_def bindE_eq_Inr Let_def
        bump_nonce_def put_balance_def split: if_splits)
  ultimately show ?thesis by simp
qed

text \<open>A prefix allocated to its owner.\<close>

lemma allocate_self:
  assumes I: "ipset_ok I addrs" and L: "ledger_ok addrs L" "ledger_wf L" and s: "length s = 20"
    and run: "allocate_spec E I s s net L = Inr L'"
  shows "owns addrs L' a = (if a = s then owns addrs L s - net_addrs net else owns addrs L a)"
proof -
  obtain affected sb L1 where aff: "affected_delegated_ips I net (snd (L s)) = Inr affected"
    and rel: "release_spec E I s (snd (L s)) affected L = Inr (sb, L1)"
    and L': "L' = bump_nonce s (put_balance s (remove_own_ips I net sb)
      (put_balance s (add_own_ips I net (snd (L1 s))) L1))"
    using run by (auto simp: allocate_spec_def bindE_eq_Inr Let_def)
  have "addrs (is_remove I net t) = addrs t - net_addrs net" for t
    using I by (simp add: ipset_ok_def)
  with released [OF I L s aff rel] show ?thesis
    by (simp add: L' owns_def bump_nonce_def put_balance_def remove_own_ips_def)
qed

text \<open>A delegation can only be ended if the receiver has it on record.\<close>

lemma release_needs_record:
  "length s = 20 \<Longrightarrow> dict_ok xs \<Longrightarrow>
    release_spec E I s sb (map (\<lambda>(b, s). (hex_encode b, s)) xs) L = Inr (sb', L') \<Longrightarrow>
    (b, u) \<in> set xs \<Longrightarrow> map_of (received_ips (snd (L b))) s \<noteq> None"
proof (induction xs arbitrary: sb L)
  case (Cons x xs)
  obtain c v where x: "x = (c, v)" by fastforce
  have len: "length c = 20" "dict_ok xs" "map_of xs c = None"
    using Cons.prems(2) x by (auto simp: dict_ok_def map_of_eq_None_iff)
  obtain sb1 rb where rb: "remove_received_ips E I (PyStr s) v (snd (L c)) = Inr rb"
    and rest: "release_spec E I s sb1 (map (\<lambda>(b, s). (hex_encode b, s)) xs) (put_balance c rb L) = Inr (sb', L')"
    using Cons.prems(3) x len by (auto simp: bindE_eq_Inr)
  show ?case
  proof (cases "b = c")
    case True
    with rb Cons.prems(1) show ?thesis
      by (auto simp: remove_received_ips_def dict_remove_def bindE_eq_Inr split: option.splits)
  next
    case False
    with Cons.prems(4) x have "(b, u) \<in> set xs" by auto
    with Cons.IH [OF Cons.prems(1) len(2) rest] False show ?thesis by (simp add: put_balance_def)
  qed
qed simp

lemma delegate_self:
  assumes I: "ipset_ok I addrs" and L: "ledger_ok addrs L" "ledger_wf L" and s: "length s = 20"
    and run: "delegate_spec E I s s net L = Inr L'"
  shows "net_addrs net \<subseteq> delegated addrs L' s s" "received_ips (snd (L' s)) = received_ips (snd (L s))" "ledger_wf L'"
proof -
  obtain affected sb L1 where aff: "affected_delegated_ips I net (snd (L s)) = Inr affected"
    and rel: "release_spec E I s (snd (L s)) affected L = Inr (sb, L1)"
    and L': "L' = bump_nonce s (put_balance s (sb\<lparr>delegated_ips := dict_add I s net (delegated_ips sb)\<rparr>)
      (put_balance s ((snd (L1 s))\<lparr>received_ips := dict_add I s net (received_ips (snd (L1 s)))\<rparr>) L1))"
    using run s by (auto simp: delegate_spec_def bindE_eq_Inr add_received_ips_def add_delegated_ips_def)
  note r = released [OF I L s aff rel]
  show "net_addrs net \<subseteq> delegated addrs L' s s"
    using held_for_dict_add [OF I] by (simp add: L' delegated_def bump_nonce_def put_balance_def)
  show "received_ips (snd (L' s)) = received_ips (snd (L s))" "ledger_wf L'"
    using r(2,3,7) L(2) s dict_ok_add
    by (simp_all add: L' ledger_wf_def bump_nonce_def put_balance_def)
qed

lemma unrecorded_blocks:
  assumes I: "ipset_ok I addrs" and L: "ledger_wf L" and s: "length s = 20"
    and unrec: "map_of (received_ips (snd (L s))) s = None"
    and over: "net_addrs net \<inter> delegated addrs L s s \<noteq> {}"
  shows "allocate_spec E I s to net L \<noteq> Inr L'" "delegate_spec E I s to net L \<noteq> Inr L'"
proof -
  have "release_spec E I s (snd (L s)) affected L \<noteq> Inr (sb, L1)"
    if aff: "affected_delegated_ips I net (snd (L s)) = Inr affected" for affected sb L1
  proof
    assume rel: "release_spec E I s (snd (L s)) affected L = Inr (sb, L1)"
    obtain xs where xs: "affected = map (\<lambda>(b, s). (hex_encode b, s)) xs" "dict_ok xs"
        "held_for addrs xs s = net_addrs net \<inter> delegated addrs L s s"
      using affected_dict [OF I aff] L by (auto simp: ledger_wf_def delegated_def)
    with over obtain u where "map_of xs s = Some u"
      by (auto simp: held_for_def split: option.splits)
    then have "(s, u) \<in> set xs" by (rule map_of_SomeD)
    from release_needs_record [OF s xs(2) rel [unfolded xs(1)] this] unrec show False by simp
  qed
  then show "allocate_spec E I s to net L \<noteq> Inr L'" "delegate_spec E I s to net L \<noteq> Inr L'"
    by (auto simp: allocate_spec_def delegate_spec_def bindE_eq_Inr)
qed

text \<open>The run of a transaction the ledger accepts, and of one it does not.\<close>

lemma accepted_run:
  assumes "chain_rep S (n + tx_budget (s_ext S) t L) st L" "tx_spec (s_ext S) (s_ips S) t L = Inr L'"
    and "\<And>s. tx_sender_of (s_ext S) t = Inr s \<Longrightarrow> length s = 20" "\<And>a. small_entry S (L' a)"
  obtains r st' c' where "apply_transaction S t c st = (r, st')" "tx_holder (s_ext S) t c = Inr c'"
    "case r of Inl e \<Rightarrow> e = AssertionError \<and> (\<exists>st1. chain_rep S n st1 L' \<and> commit_broken S st1 st')
     | Inr x \<Rightarrow> x = c' \<and> chain_rep S n st' L'"
proof -
  have "case tx_spec (s_ext S) (s_ips S) t L of
      Inl e \<Rightarrow> \<exists>st' L'. apply_transaction S t c st = (Inl e, st') \<and> chain_rep S n st' L'
    | Inr L' \<Rightarrow> \<exists>c'. tx_holder (s_ext S) t c = Inr c' \<and>
        (\<exists>r st'. apply_transaction S t c st = (r, st') \<and>
          (case r of Inl e \<Rightarrow> e = AssertionError \<and> (\<exists>st1. chain_rep S n st1 L' \<and> commit_broken S st1 st')
           | Inr x \<Rightarrow> x = c' \<and> chain_rep S n st' L'))"
    by (rule chain.apply_transaction_run) (use assms in auto)
  with that show thesis unfolding assms(2) sum.case by blast
qed

lemma applied_spec:
  assumes "chain_rep S (n + tx_budget (s_ext S) t L) st L"
    and "\<And>s. tx_sender_of (s_ext S) t = Inr s \<Longrightarrow> length s = 20"
    and "\<And>L' a. tx_spec (s_ext S) (s_ips S) t L = Inr L' \<Longrightarrow> small_entry S (L' a)"
    and "apply_transaction S t c st = (Inr c', st')"
  obtains L' where "tx_spec (s_ext S) (s_ips S) t L = Inr L'" "chain_rep S n st' L'" "tx_holder (s_ext S) t c = Inr c'"
proof -
  have ref: "case tx_spec (s_ext S) (s_ips S) t L of
      Inl e \<Rightarrow> \<exists>st' L'. apply_transaction S t c st = (Inl e, st') \<and> chain_rep S n st' L'
    | Inr L' \<Rightarrow> \<exists>c'. tx_holder (s_ext S) t c = Inr c' \<and>
        (\<exists>r st'. apply_transaction S t c st = (r, st') \<and>
          (case r of Inl e \<Rightarrow> e = AssertionError \<and> (\<exists>st1. chain_rep S n st1 L' \<and> commit_broken S st1 st')
           | Inr x \<Rightarrow> x = c' \<and> chain_rep S n st' L'))"
    by (rule chain.apply_transaction_run) (use assms in auto)
  show thesis
  proof (cases "tx_spec (s_ext S) (s_ips S) t L")
    case (Inl e)
    with ref assms(4) show ?thesis by simp
  next
    case (Inr L')
    from ref [unfolded Inr sum.case] assms(4) that [OF Inr] show ?thesis by auto
  qed
qed

section \<open>A ledger for the witnesses\<close>

definition sample_balances :: "addr_set balance list" where
  "sample_balances = [empty_balance ipset_ref, snd owner_entry, remove_own_ips ipset_ref ten_net (snd owner_entry)]"

abbreviation sample_env :: "(level, addr_set) senv" where
  "sample_env \<equiv> senv_for sample_balances"

abbreviation sample_ledger :: "addr_set ledger" where
  "sample_ledger \<equiv> owner_ledger owner owner_entry"

abbreviation owner_st :: "level state" where
  "owner_st \<equiv> owner_state sample_balances owner owner_entry"

lemma ipset_ref_contains: "is_contains ipset_ref (own_ips (snd owner_entry)) ten_net"
  using ipset_ref_ok by (simp add: ipset_ok_def owner_entry_def add_own_ips_def)

lemma sample_valid:
  "c \<le> 1 \<Longrightarrow> valid_spec ipset_ref owner (prefix_tx c to) sample_ledger = Inr ()"
proof -
  assume "c \<le> 1"
  moreover have "fst owner_entry = 4" by (simp add: owner_entry_def)
  ultimately show ?thesis
    using ipset_ref_contains by (simp add: valid_spec_def owner_ledger_def in_own_ips_def null_address_def)
qed

lemma sample_no_dicts [simp]:
  "delegated_ips (snd (sample_ledger a)) = []" "received_ips (snd (sample_ledger a)) = []"
  by (simp_all add: owner_ledger_def owner_entry_def add_own_ips_def empty_balance_def)

lemma sample_ledger_ok:
  "ledger_ok Rep_addr_set sample_ledger" "ledger_wf sample_ledger" "narrow Rep_addr_set sample_ledger"
proof -
  have "owns Rep_addr_set sample_ledger a = (if a = owner then net_addrs ten_net else {})" for a
    using ipset_ref_ok
    by (simp add: owns_def owner_ledger_def owner_entry_def add_own_ips_def empty_balance_def ipset_ok_def)
  then show "ledger_ok Rep_addr_set sample_ledger"
    unfolding ledger_ok_def by (simp add: delegated_def received_def held_for_def)
  show "ledger_wf sample_ledger" "narrow Rep_addr_set sample_ledger"
    by (simp_all add: ledger_wf_def dict_ok_def narrow_def delegated_def held_for_def)
qed

lemma sample_allocate:
  "tx_spec ext_ref ipset_ref (prefix_tx 0 receiver) sample_ledger = Inr (sample_ledger
     (receiver := (0, snd owner_entry), owner := (5, remove_own_ips ipset_ref ten_net (snd owner_entry))))"
proof -
  have ne: "owner \<noteq> receiver" by simp
  have "tx_spec ext_ref ipset_ref (prefix_tx 0 receiver) sample_ledger =
      allocate_spec ext_ref ipset_ref owner receiver ten_net sample_ledger"
    using sample_valid [of 0 receiver] by (simp add: tx_spec_def effect_spec_def)
  also have "\<dots> = Inr (sample_ledger
     (receiver := (0, snd owner_entry), owner := (5, remove_own_ips ipset_ref ten_net (snd owner_entry))))"
    using ne by (simp add: allocate_spec_def affected_delegated_ips_def bump_nonce_def put_balance_def)
      (simp add: owner_ledger_def owner_entry_def)
  finally show ?thesis .
qed

lemma sample_small:
  assumes "b \<in> set sample_balances" "k < 2 ^ 64"
  shows "small_entry sample_env (k, b)"
  using pickle_ref_short [OF assms(1)] assms(2) by (simp add: small_entry_def sample_balances_def)

lemma sample_allocate_small:
  "tx_spec ext_ref ipset_ref (prefix_tx 0 receiver) sample_ledger = Inr L' \<Longrightarrow> small_entry sample_env (L' a)"
proof -
  assume "tx_spec ext_ref ipset_ref (prefix_tx 0 receiver) sample_ledger = Inr L'"
  then have L': "L' = sample_ledger (receiver := (0, snd owner_entry),
      owner := (5, remove_own_ips ipset_ref ten_net (snd owner_entry)))"
    by (simp only: sample_allocate sum.inject)
  have b: "empty_balance ipset_ref \<in> set sample_balances" "snd owner_entry \<in> set sample_balances"
      "remove_own_ips ipset_ref ten_net (snd owner_entry) \<in> set sample_balances"
    by (simp_all add: sample_balances_def)
  show ?thesis
    using sample_small [OF b(1), of 0] sample_small [OF b(2), of 0] sample_small [OF b(3), of 5]
    unfolding L' by (simp add: owner_ledger_def)
qed

lemma sample_budget: "tx_budget ext_ref (prefix_tx c to) sample_ledger = 1600"
  by (simp add: tx_budget_def)

lemma sample_rep: "n < 2 ^ 30 \<Longrightarrow> chain_rep sample_env (n + tx_budget ext_ref (prefix_tx c to) sample_ledger) owner_st sample_ledger"
  unfolding sample_budget by (rule owner_state_rep) simp_all

section \<open>Properties\<close>










lemma sample_self_allocate_small:
  assumes "tx_spec ext_ref ipset_ref (prefix_tx 0 owner) sample_ledger = Inr L'"
  shows "small_entry sample_env (L' a)"
proof -
  have "tx_spec ext_ref ipset_ref (prefix_tx 0 owner) sample_ledger =
      allocate_spec ext_ref ipset_ref owner owner ten_net sample_ledger"
    using sample_valid [of 0 owner] by (simp add: tx_spec_def effect_spec_def)
  also have "\<dots> = Inr (sample_ledger (owner := (5, remove_own_ips ipset_ref ten_net (snd owner_entry))))"
    by (simp add: allocate_spec_def affected_delegated_ips_def bump_nonce_def put_balance_def)
      (simp add: owner_ledger_def owner_entry_def)
  finally have L': "L' = sample_ledger (owner := (5, remove_own_ips ipset_ref ten_net (snd owner_entry)))"
    using assms by simp
  have b: "empty_balance ipset_ref \<in> set sample_balances"
      "remove_own_ips ipset_ref ten_net (snd owner_entry) \<in> set sample_balances"
    by (simp_all add: sample_balances_def)
  show ?thesis
    using sample_small [OF b(1), of 0] sample_small [OF b(2), of 5] unfolding L' by (simp add: owner_ledger_def)
qed


end
