(* ===== verification/Wire.thy ===== *)
theory Wire
  imports Block
begin

text \<open>
  Transactions, blocks and key shares as they are stored and sent: \<open>rlp.encode(x)\<close> of an object
  and \<open>rlp.decode(data, C)\<close>, which reads the fields of the class \<open>C\<close> by their sedes and calls its
  constructor with them. The classes \<open>Share\<close> and \<open>Dkg_Share\<close> of \<open>shares.py\<close> are here too. Every
  exception of \<open>rlp\<close> is \<open>PyException\<close>.
\<close>

section \<open>Shares\<close>

record share =
  sh_source :: string
  sh_signature :: string
  sh_block_number :: nat

record dkg_share =
  ds_source :: string
  ds_to :: string
  ds_contrib :: string
  ds_vvec :: "string list"

definition share_item :: "ext \<Rightarrow> share \<Rightarrow> item" where
  "share_item E s = Lst [Str (sh_source s), Str (sh_signature s), Str (be_ser E (sh_block_number s))]"

definition share_hash :: "ext \<Rightarrow> share \<Rightarrow> string" where
  "share_hash E s = sha3 E (rlp_enc E (share_item E s))"

definition dkg_share_item :: "dkg_share \<Rightarrow> item" where
  "dkg_share_item s = Lst [Str (ds_source s), Str (ds_to s), Str (ds_contrib s), Lst (map Str (ds_vvec s))]"

definition dkg_share_hash :: "ext \<Rightarrow> dkg_share \<Rightarrow> string" where
  "dkg_share_hash E s = sha3 E (rlp_enc E (dkg_share_item s))"

section \<open>The sedes\<close>

text \<open>\<open>big_endian_int\<close>, \<open>BigEndianInt(1)\<close>, and \<open>Binary\<close> with a condition on the length.\<close>

definition read_int :: "ext \<Rightarrow> item \<Rightarrow> nat res" where
  "read_int E x = (case x of
     Str n \<Rightarrow> if take 1 n = [CHR 0x00] then Inl PyException else Inr (be_deser E n)
   | Lst _ \<Rightarrow> Inl PyException)"

definition read_int8 :: "item \<Rightarrow> nat res" where
  "read_int8 x = (case x of Str [c] \<Rightarrow> Inr (of_char c) | _ \<Rightarrow> Inl PyException)"

definition read_bin :: "(nat \<Rightarrow> bool) \<Rightarrow> item \<Rightarrow> string res" where
  "read_bin P x = (case x of Str s \<Rightarrow> if P (length s) then Inr s else Inl PyException | Lst _ \<Rightarrow> Inl PyException)"

abbreviation address_length :: "nat \<Rightarrow> bool" where
  "address_length n \<equiv> n = 0 \<or> n = 20"

abbreviation root_length :: "nat \<Rightarrow> bool" where
  "root_length n \<equiv> n = 0 \<or> n = 32"

abbreviation any_length :: "nat \<Rightarrow> bool" where
  "any_length n \<equiv> True"

section \<open>Decoding\<close>

definition tx_of_item :: "ext \<Rightarrow> iplib \<Rightarrow> item \<Rightarrow> tx res" where
  "tx_of_item E L x =
     (case x of
        Lst [n, c, t, a, val, m, tm, v, r, s] \<Rightarrow>
          bindE (read_int E n) (\<lambda>nonce. bindE (read_int E c) (\<lambda>category.
          bindE (read_bin address_length t) (\<lambda>to. bindE (read_int8 a) (\<lambda>afi.
          bindE (read_bin any_length val) (\<lambda>val'. bindE (read_int E tm) (\<lambda>time.
          bindE (read_int E v) (\<lambda>v'. bindE (read_int E r) (\<lambda>r'. bindE (read_int E s) (\<lambda>s'.
          tx_init E L nonce category (PyStr to) afi (PyStr val') (meta_of m) time v' r' s')))))))))
      | _ \<Rightarrow> Inl PyException)"

definition header_of_item :: "ext \<Rightarrow> item \<Rightarrow> header res" where
  "header_of_item E x =
     (case x of
        Lst [ph, ts, ed, sr, tr, n, cb, rn, gp, gs, ct] \<Rightarrow>
          bindE (read_bin (\<lambda>k. k = 32) ph) (\<lambda>prevhash. bindE (read_int E ts) (\<lambda>timestamp.
          bindE (read_bin any_length ed) (\<lambda>extra. bindE (read_bin root_length sr) (\<lambda>state_root.
          bindE (read_bin root_length tr) (\<lambda>tx_root. bindE (read_int E n) (\<lambda>number.
          bindE (read_bin address_length cb) (\<lambda>coinbase. bindE (read_bin (\<lambda>k. k = 32) rn) (\<lambda>random_number.
          bindE (read_bin any_length gp) (\<lambda>group_pubkey. bindE (read_bin any_length gs) (\<lambda>group_sig.
          bindE (read_int E ct) (\<lambda>count.
          Inr \<lparr>h_prevhash = prevhash, h_timestamp = timestamp, h_extra_data = extra, h_state_root = state_root,
            h_tx_root = tx_root, h_number = number, h_coinbase = coinbase, h_random_number = random_number,
            h_group_pubkey = group_pubkey, h_group_sig = group_sig, h_count = count\<rparr>)))))))))))
      | _ \<Rightarrow> Inl PyException)"

definition block_of_item :: "ext \<Rightarrow> iplib \<Rightarrow> item \<Rightarrow> block res" where
  "block_of_item E L x =
     (case x of
        Lst [h, Lst ts, v, r, s] \<Rightarrow>
          bindE (header_of_item E h) (\<lambda>h'. bindE (mapE (tx_of_item E L) ts) (\<lambda>txs.
          bindE (read_int E v) (\<lambda>v'. bindE (read_int E r) (\<lambda>r'. bindE (read_int E s) (\<lambda>s'.
          Inr (block_init h' txs v' r' s'))))))
      | _ \<Rightarrow> Inl PyException)"

text \<open>\<open>Block.exclude(['v', 'r', 's'])\<close>, the form in which the genesis block is stored.\<close>

definition unsigned_block_of_item :: "ext \<Rightarrow> iplib \<Rightarrow> item \<Rightarrow> block res" where
  "unsigned_block_of_item E L x =
     (case x of
        Lst [h, Lst ts] \<Rightarrow>
          bindE (header_of_item E h) (\<lambda>h'. bindE (mapE (tx_of_item E L) ts) (\<lambda>txs. Inr (block_init h' txs 0 0 0)))
      | _ \<Rightarrow> Inl PyException)"

definition share_of_item :: "ext \<Rightarrow> item \<Rightarrow> share res" where
  "share_of_item E x =
     (case x of
        Lst [a, sg, n] \<Rightarrow>
          bindE (read_bin address_length a) (\<lambda>source. bindE (read_bin any_length sg) (\<lambda>signature.
          bindE (read_int E n) (\<lambda>number.
          Inr \<lparr>sh_source = source, sh_signature = signature, sh_block_number = number\<rparr>)))
      | _ \<Rightarrow> Inl PyException)"

definition dkg_share_of_item :: "item \<Rightarrow> dkg_share res" where
  "dkg_share_of_item x =
     (case x of
        Lst [a, t, c, Lst vs] \<Rightarrow>
          bindE (read_bin address_length a) (\<lambda>source. bindE (read_bin address_length t) (\<lambda>to.
          bindE (read_bin any_length c) (\<lambda>contrib. bindE (mapE (read_bin any_length) vs) (\<lambda>vvec.
          Inr \<lparr>ds_source = source, ds_to = to, ds_contrib = contrib, ds_vvec = vvec\<rparr>))))
      | _ \<Rightarrow> Inl PyException)"

definition tx_decode :: "ext \<Rightarrow> iplib \<Rightarrow> string \<Rightarrow> tx res" where
  "tx_decode E L data = bindE (rlp_dec E data) (tx_of_item E L)"

definition block_decode :: "ext \<Rightarrow> iplib \<Rightarrow> string \<Rightarrow> block res" where
  "block_decode E L data = bindE (rlp_dec E data) (block_of_item E L)"

definition unsigned_block_decode :: "ext \<Rightarrow> iplib \<Rightarrow> string \<Rightarrow> block res" where
  "unsigned_block_decode E L data = bindE (rlp_dec E data) (unsigned_block_of_item E L)"

definition share_decode :: "ext \<Rightarrow> string \<Rightarrow> share res" where
  "share_decode E data = bindE (rlp_dec E data) (share_of_item E)"

definition dkg_share_decode :: "ext \<Rightarrow> string \<Rightarrow> dkg_share res" where
  "dkg_share_decode E data = bindE (rlp_dec E data) dkg_share_of_item"

definition block_rlp :: "ext \<Rightarrow> block \<Rightarrow> string" where
  "block_rlp E b = rlp_enc E (block_item E b)"

section \<open>Decoding what was encoded\<close>

text \<open>A transaction as the constructor leaves it, with what \<open>tx_init_again\<close> asks for.\<close>

definition tx_stable :: "ext \<Rightarrow> iplib \<Rightarrow> tx \<Rightarrow> bool" where
  "tx_stable E L t \<longleftrightarrow> tx_sender t = None \<and> tx_afi t \<in> {1, 2} \<and> address_length (length (tx_to t)) \<and>
     tx_init E L (tx_nonce t) (tx_category t) (PyStr (tx_to t)) (tx_afi t) (PyStr (tx_value t))
       (meta_of (tx_metadata t)) (tx_time t) (tx_v t) (tx_r t) (tx_s t) = Inr t"

definition header_stable :: "header \<Rightarrow> bool" where
  "header_stable h \<longleftrightarrow> length (h_prevhash h) = 32 \<and> root_length (length (h_state_root h)) \<and>
     root_length (length (h_tx_root h)) \<and> address_length (length (h_coinbase h)) \<and> length (h_random_number h) = 32"

definition block_stable :: "ext \<Rightarrow> iplib \<Rightarrow> block \<Rightarrow> bool" where
  "block_stable E L b \<longleftrightarrow> b_signer b = None \<and> header_stable (b_header b) \<and> list_all (tx_stable E L) (b_transactions b)"

lemma take1_be_bytes: "take (Suc 0) (be_bytes n) \<noteq> [CHR 0x00]"
proof
  assume zero: "take (Suc 0) (be_bytes n) = [CHR 0x00]"
  have "be_bytes (be_val (be_bytes n)) = dropWhile (\<lambda>c. c = CHR 0x00) (be_bytes n)"
    by (rule be_bytes_be_val)
  then have "length (be_bytes n) = length (dropWhile (\<lambda>c. c = CHR 0x00) (be_bytes n))"
    unfolding be_val_be_bytes by (rule arg_cong)
  with zero show False
    by (cases "be_bytes n") (simp_all, metis Suc_n_not_le_n length_dropWhile_le)
qed

lemma read_int_ser: "ext_ok E \<Longrightarrow> read_int E (Str (be_ser E n)) = Inr n"
  using ext_okD [of E] take1_be_bytes [of n] by (simp add: read_int_def)

lemma read_int8_afi: "ext_ok E \<Longrightarrow> n = 1 \<or> n = 2 \<Longrightarrow> read_int8 (Str (zpad (be_ser E n) (Suc 0))) = Inr n"
  using ext_okD(2) [of E]
  by (auto simp: read_int8_def zpad_def be_bytes.simps [of "Suc 0"] be_bytes.simps [of 2] be_bytes.simps [of 0])

lemma read_bin_Str: "P (length s) \<Longrightarrow> read_bin P (Str s) = Inr s"
  by (simp add: read_bin_def)

lemma tx_of_item_of:
  assumes "ext_ok E" "tx_stable E L t"
  shows "tx_of_item E L (tx_item E t) = Inr t"
proof -
  have "read_int8 (Str (zpad (be_ser E (tx_afi t)) (Suc 0))) = Inr (tx_afi t)"
    using assms by (intro read_int8_afi) (auto simp: tx_stable_def)
  moreover have "read_bin address_length (Str (tx_to t)) = Inr (tx_to t)"
    using assms by (intro read_bin_Str) (simp add: tx_stable_def)
  ultimately show ?thesis
    using assms by (simp add: tx_of_item_def tx_item_def unsigned_fields_def read_int_ser read_bin_Str tx_stable_def)
qed

lemma header_of_item_of: "ext_ok E \<Longrightarrow> header_stable h \<Longrightarrow> header_of_item E (header_item E h) = Inr h"
  by (simp add: header_of_item_def header_item_def read_int_ser read_bin_Str header_stable_def)

lemma block_of_item_of:
  assumes "ext_ok E" "block_stable E L b"
  shows "block_of_item E L (block_item E b) = Inr b"
proof -
  have "mapE (tx_of_item E L) (map (tx_item E) (b_transactions b)) = Inr (b_transactions b)"
    using assms by (auto simp: mapE_eq_Inr list_all2_conv_all_nth block_stable_def list_all_length tx_of_item_of)
  with assms show ?thesis
    by (cases b) (simp add: block_of_item_def block_item_def block_fields_def block_stable_def header_of_item_of
        read_int_ser block_init_def)
qed

lemma block_decode_rlp:
  "ext_ok E \<Longrightarrow> rlp_ok E \<Longrightarrow> sized E (block_item E b) \<Longrightarrow> block_stable E L b \<Longrightarrow>
   block_decode E L (block_rlp E b) = Inr b"
  by (simp only: block_decode_def block_rlp_def rlp_ok_def bindE_Inr block_of_item_of simp_thms)

lemma share_of_item_of:
  "ext_ok E \<Longrightarrow> address_length (length (sh_source s)) \<Longrightarrow> share_of_item E (share_item E s) = Inr s"
  by (simp add: share_of_item_def share_item_def read_int_ser read_bin_Str)

lemma share_decode_rlp:
  "ext_ok E \<Longrightarrow> rlp_ok E \<Longrightarrow> sized E (share_item E s) \<Longrightarrow> address_length (length (sh_source s)) \<Longrightarrow>
   share_decode E (rlp_enc E (share_item E s)) = Inr s"
  by (simp only: share_decode_def rlp_ok_def bindE_Inr share_of_item_of simp_thms)

lemma dkg_share_of_item_of:
  assumes "address_length (length (ds_source s))" "address_length (length (ds_to s))"
  shows "dkg_share_of_item (dkg_share_item s) = Inr s"
proof -
  have "mapE (read_bin any_length) (map Str (ds_vvec s)) = Inr (ds_vvec s)"
    by (simp add: mapE_eq_Inr list_all2_conv_all_nth read_bin_Str)
  with assms show ?thesis
    by (simp add: dkg_share_of_item_def dkg_share_item_def read_bin_Str)
qed

lemma dkg_share_decode_rlp:
  "rlp_ok E \<Longrightarrow> sized E (dkg_share_item s) \<Longrightarrow> address_length (length (ds_source s)) \<Longrightarrow>
   address_length (length (ds_to s)) \<Longrightarrow> dkg_share_decode E (rlp_enc E (dkg_share_item s)) = Inr s"
  by (simp only: dkg_share_decode_def rlp_ok_def bindE_Inr dkg_share_of_item_of simp_thms)

section \<open>Properties\<close>


abbreviation wire_block :: block where
  "wire_block \<equiv> block_init sample_header [sample_tx] 27 1 1"

lemma sample_tx_stable: "tx_stable ext_ref iplib_ref sample_tx"
proof -
  have "be_bytes (be_val ''ABCD'') = ''ABCD''"
    unfolding be_bytes_be_val by simp
  then have packed: "packed 4 (be_val ''ABCD'') @ [char_of (32::nat)] = ''ABCD ''"
    by (simp add: packed_def zpad_def ip_bytes_def char_of_def bit_simps)
  have "be_val ''ABCD'' < 2 ^ ip_bits 4"
    using be_val_less [of "''ABCD''"] by (simp add: ip_bits_def)
  then have "init_value iplib_ref (Suc 0) (PyStr ''ABCD '') = Inr ''ABCD ''"
    using init_value_packed [of 4 "be_val ''ABCD''" 32 iplib_ref "Suc 0"] unfolding packed
    by (simp add: ip_bits_def net_arg_def iplib_ref_def)
  then show ?thesis
    by (simp add: tx_stable_def tx_init_def meta_of_def init_metadata_def normalize_address_def)
qed


end
