(* ===== verification/Selection.thy ===== *)
theory Selection
  imports Transactions
begin

text \<open>
  The choice of the signer of the next block, the last part of \<open>consensus.py\<close>: the random number
  of the head block, as a string of 256 bits, is cut in as many groups as an address has bits; the
  exclusive or over a group gives a bit of the address. \<open>netaddr.IPAddress\<close> of a number is a
  parameter; its documentation takes a number below \<open>2 ^ 32\<close> for an IPv4 address.
\<close>

definition IPv4_PREFIX_LENGTH :: nat where
  "IPv4_PREFIX_LENGTH = 32"

definition IPv6_PREFIX_LENGTH :: nat where
  "IPv6_PREFIX_LENGTH = 128"

type_synonym ip = "nat \<times> nat"

definition ipaddress_ok :: "(int \<Rightarrow> ip res) \<Rightarrow> bool" where
  "ipaddress_ok A \<longleftrightarrow> (\<forall>n. 0 \<le> n \<longrightarrow> n < 2 ^ 128 \<longrightarrow> A n = Inr (if n < 2 ^ 32 then 4 else 6, nat n))"

section \<open>Strings of bits\<close>

text \<open>\<open>bin(n)\<close>, \<open>s.zfill(w)\<close>, and \<open>range(0, m, n)\<close>.\<close>

fun bin_digits :: "nat \<Rightarrow> string" where
  "bin_digits n = (if n < 2 then [] else bin_digits (n div 2)) @ [if odd n then CHR ''1'' else CHR ''0'']"

declare bin_digits.simps [simp del]

definition py_bin :: "int \<Rightarrow> string" where
  "py_bin n = (if n < 0 then ''-0b'' @ bin_digits (nat (- n)) else ''0b'' @ bin_digits (nat n))"

definition zfill :: "nat \<Rightarrow> string \<Rightarrow> string" where
  "zfill w s =
     (let z = replicate (w - length s) (CHR ''0'')
      in if take 1 s = ''-'' \<or> take 1 s = ''+'' then take 1 s @ z @ drop 1 s else z @ s)"

definition range_step :: "nat \<Rightarrow> nat \<Rightarrow> nat list" where
  "range_step m n = map (\<lambda>k. k * n) [0..<(m + n - 1) div n]"

section \<open>The selection\<close>

definition formalize_IP :: "(int \<Rightarrow> ip res) \<Rightarrow> string \<Rightarrow> ip res" where
  "formalize_IP A IP_bit_list = bindE (py_int 2 IP_bit_list) A"

definition bit_at :: "string \<Rightarrow> nat \<Rightarrow> int res" where
  "bit_at hash i = bindE (py_nth hash i) (\<lambda>c. py_int 2 [c])"

fun xor_bits :: "string \<Rightarrow> nat list \<Rightarrow> int \<Rightarrow> int res" where
  "xor_bits hash [] ini_xor = Inr ini_xor"
| "xor_bits hash (j # js) ini_xor = bindE (bit_at hash j) (\<lambda>v. xor_bits hash js (ini_xor XOR v))"

definition consensus_for_IPv6 :: "string \<Rightarrow> string res" where
  "consensus_for_IPv6 hash =
     (let ngroup = length hash div IPv6_PREFIX_LENGTH
      in if ngroup = 0 then Inl ValueError
         else bindE (mapE (\<lambda>i. bindE (bit_at hash i) (\<lambda>ini_xor.
                bindE (xor_bits hash [i + 1..<i + ngroup] ini_xor) (\<lambda>v. Inr (py_str_int v))))
                (range_step (length hash) ngroup))
              (\<lambda>parts. Inr (concat parts)))"

definition consensus_for_IPv4 :: "string \<Rightarrow> string res" where
  "consensus_for_IPv4 hash =
     (let ngroup = length hash div IPv4_PREFIX_LENGTH
      in if ngroup = 0 then Inl ValueError
         else bindE (mapE (\<lambda>i. bindE (bit_at hash i) (\<lambda>ini_xor.
                bindE (xor_bits hash [i..<i + ngroup] ini_xor) (\<lambda>v. Inr (py_str_int v))))
                (range_step (length hash) ngroup))
              (\<lambda>parts. Inr (concat parts)))"

text \<open>The signer that \<open>calculate_next_signer\<close> stores.\<close>

definition select_signer :: "(int \<Rightarrow> ip res) \<Rightarrow> string \<Rightarrow> nat \<Rightarrow> ip res" where
  "select_signer A current_random_no block_number =
     bindE (py_int 16 current_random_no) (\<lambda>n.
     let random_no_in_bits = zfill 256 (drop 2 (py_bin n))
     in bindE (if block_number mod 2 \<noteq> 0 then consensus_for_IPv4 random_no_in_bits
               else consensus_for_IPv6 random_no_in_bits) (formalize_IP A))"

section \<open>How it computes\<close>

definition bits_str :: "bool list \<Rightarrow> string" where
  "bits_str bs = map (\<lambda>b. if b then CHR ''1'' else CHR ''0'') bs"

definition parity :: "bool list \<Rightarrow> bool" where
  "parity bs = odd (length (filter id bs))"

lemma parity_simps [simp]: "parity [] = False" "parity (b # bs) = (b \<noteq> parity bs)"
  by (auto simp: parity_def)

lemma length_bits_str [simp]: "length (bits_str bs) = length bs"
  by (simp add: bits_str_def)

lemma bin_digits_padded:
  "0 < w \<Longrightarrow> n < 2 ^ w \<Longrightarrow>
   length (bin_digits n) \<le> w \<and> replicate (w - length (bin_digits n)) (CHR ''0'') @ bin_digits n = bits_str (be_bits w n)"
proof (induction w arbitrary: n)
  case (Suc w)
  show ?case
  proof (cases "n < 2")
    case True
    have "be_bits w 0 = replicate w False" for w
      by (induction w) (simp_all, metis replicate_append_same)
    moreover have "bin_digits 0 = ''0''" "bin_digits (Suc 0) = ''1''"
      by (simp_all add: bin_digits.simps)
    ultimately show ?thesis
      using True by (cases n) (auto simp: bits_str_def replicate_append_same)
  next
    case False
    with Suc.prems have w: "0 < w" "n div 2 < 2 ^ w" by (cases w; auto)+
    from Suc.IH [OF this] False show ?thesis
      by (auto simp: bin_digits.simps [of n] bits_str_def)
  qed
qed simp

lemma bin_digits_head: "bin_digits n \<noteq> [] \<and> hd (bin_digits n) \<in> {CHR ''0'', CHR ''1''}"
  by (induction n rule: bin_digits.induct) (auto simp: bin_digits.simps hd_append)

lemma zfill_bin: "n < 2 ^ 256 \<Longrightarrow> zfill 256 (drop 2 (py_bin (int n))) = bits_str (be_bits 256 n)"
  using bin_digits_padded [of 256 n] bin_digits_head [of n]
  by (cases "bin_digits n") (auto simp: zfill_def py_bin_def)

lemma py_int_bit: "py_int 2 [if b then CHR ''1'' else CHR ''0''] = Inr (of_bool b)"
  by (cases b) (simp_all, code_simp+)

lemma bit_at_bits_str: "i < length bs \<Longrightarrow> bit_at (bits_str bs) i = Inr (of_bool (bs ! i))"
  using py_int_bit [of "bs ! i"] by (simp add: bit_at_def py_nth_def bits_str_def)

lemma digits_value_bits_str:
  "digits_value 2 acc (bits_str bs) = Some (foldl (\<lambda>a b. 2 * a + of_bool b) acc bs)"
proof (induction bs arbitrary: acc)
  case (Cons b bs)
  have "digit_val (CHR ''0'') = Some 0" "digit_val (CHR ''1'') = Some 1" by (simp_all add: digit_val_def)
  with Cons show ?case by (simp add: bits_str_def mult.commute)
qed (simp add: bits_str_def)

lemma py_int_bits_str:
  assumes "bs \<noteq> []"
  shows "py_int 2 (bits_str bs) = Inr (int (bits_val bs))"
proof -
  have "py_strip (bits_str bs) = bits_str bs"
    by (rule py_strip_no_space) (auto simp: bits_str_def is_space_def)
  moreover obtain c cs where "bits_str bs = c # cs" "c = CHR ''0'' \<or> c = CHR ''1''"
    using assms by (cases bs) (auto simp: bits_str_def)
  ultimately show ?thesis
    using digits_value_bits_str [of 0 bs] unfolding py_int_def bits_val_def by (auto simp: Let_def simp del: digits_value.simps)
qed

lemma xor_bits_bits_str:
  "list_all (\<lambda>j. j < length bs) js \<Longrightarrow>
   xor_bits (bits_str bs) js (of_bool b) = Inr (of_bool (b \<noteq> parity (map ((!) bs) js)))"
proof (induction js arbitrary: b)
  case (Cons j js)
  have "(of_bool b :: int) XOR of_bool c = of_bool (b \<noteq> c)" for c
    by (cases b; cases c) simp_all
  with Cons show ?case
    by (auto simp: bit_at_bits_str)
qed simp

lemma py_str_int_bit: "py_str_int (of_bool b) = bits_str [b]"
  by (cases b) (simp_all add: py_str_int_def dec_digits.simps bits_str_def char_of_def bit_0)

lemma map_nth_range: "i + n \<le> length bs \<Longrightarrow> map ((!) bs) [i..<i + n] = take n (drop i bs)"
  by (rule nth_equalityI) auto

text \<open>One group: the bit at its start against the bits of the inner loop.\<close>

lemma group_run:
  assumes "i < length bs" "list_all (\<lambda>j. j < length bs) js"
  shows "bindE (bit_at (bits_str bs) i) (\<lambda>ini_xor. bindE (xor_bits (bits_str bs) js ini_xor) (\<lambda>v. Inr (py_str_int v))) =
    Inr (bits_str [bs ! i \<noteq> parity (map ((!) bs) js)])"
  by (simp add: bit_at_bits_str [OF assms(1)] xor_bits_bits_str [OF assms(2)] py_str_int_bit del: of_bool_eq_iff)

lemma concat_bits_str: "concat (map (\<lambda>k. bits_str [f k]) ks) = bits_str (map f ks)"
  by (induction ks) (simp_all add: bits_str_def)

lemma consensus_v4:
  assumes "length bs = 256"
  shows "consensus_for_IPv4 (bits_str bs) = Inr (bits_str (map (\<lambda>k. parity (take 7 (drop (8 * k + 1) bs))) [0..<32]))"
proof -
  have grp: "bindE (bit_at (bits_str bs) i) (\<lambda>ini_xor. bindE (xor_bits (bits_str bs) [i..<i + 8] ini_xor) (\<lambda>v. Inr (py_str_int v)))
      = Inr (bits_str [parity (take 7 (drop (i + 1) bs))])" if "i + 8 \<le> 256" for i
  proof -
    have "drop i bs = bs ! i # drop (i + 1) bs"
      using Cons_nth_drop_Suc [of i bs] assms that by simp
    moreover have "take 8 (bs ! i # drop (i + 1) bs) = bs ! i # take 7 (drop (i + 1) bs)"
      by simp
    ultimately have "map ((!) bs) [i..<i + 8] = bs ! i # take 7 (drop (i + 1) bs)"
      using map_nth_range [of i 8 bs] assms that by (simp only:)
    with group_run [of i bs "[i..<i + 8]"] show ?thesis
      using assms that by (auto simp: list_all_iff)
  qed
  have "range_step 256 8 = map (\<lambda>k. 8 * k) [0..<32]" by (simp add: range_step_def mult.commute)
  moreover have "mapE (\<lambda>i. bindE (bit_at (bits_str bs) i) (\<lambda>ini_xor. bindE (xor_bits (bits_str bs) [i..<i + 8] ini_xor)
        (\<lambda>v. Inr (py_str_int v)))) (map (\<lambda>k. 8 * k) [0..<32]) =
      Inr (map (\<lambda>i. bits_str [parity (take 7 (drop (i + 1) bs))]) (map (\<lambda>k. 8 * k) [0..<32]))"
    by (rule mapE_Inr_map, rule grp) auto
  ultimately show ?thesis
    using concat_bits_str [of "\<lambda>k. parity (take 7 (drop (8 * k + 1) bs))" "[0..<32]"] assms
    by (simp add: consensus_for_IPv4_def IPv4_PREFIX_LENGTH_def Let_def comp_def del: upt_rec_numeral)
qed

lemma consensus_v6:
  assumes "length bs = 256"
  shows "consensus_for_IPv6 (bits_str bs) = Inr (bits_str (map (\<lambda>k. bs ! (2 * k) \<noteq> bs ! (2 * k + 1)) [0..<128]))"
proof -
  have grp: "bindE (bit_at (bits_str bs) i) (\<lambda>ini_xor. bindE (xor_bits (bits_str bs) [i + 1..<i + 2] ini_xor) (\<lambda>v. Inr (py_str_int v)))
      = Inr (bits_str [bs ! i \<noteq> bs ! (i + 1)])" if "i + 2 \<le> 256" for i
    using group_run [of i bs "[i + 1..<i + 2]"] assms that by (auto simp: list_all_iff)
  have "range_step 256 2 = map (\<lambda>k. 2 * k) [0..<128]" by (simp add: range_step_def mult.commute)
  moreover have "mapE (\<lambda>i. bindE (bit_at (bits_str bs) i) (\<lambda>ini_xor. bindE (xor_bits (bits_str bs) [i + 1..<i + 2] ini_xor)
        (\<lambda>v. Inr (py_str_int v)))) (map (\<lambda>k. 2 * k) [0..<128]) =
      Inr (map (\<lambda>i. bits_str [bs ! i \<noteq> bs ! (i + 1)]) (map (\<lambda>k. 2 * k) [0..<128]))"
    by (rule mapE_Inr_map, rule grp) auto
  ultimately show ?thesis
    using concat_bits_str [of "\<lambda>k. bs ! (2 * k) \<noteq> bs ! (2 * k + 1)" "[0..<128]"] assms
    by (simp add: consensus_for_IPv6_def IPv6_PREFIX_LENGTH_def Let_def comp_def del: upt_rec_numeral)
qed

lemma select_run:
  assumes "ipaddress_ok A" "length random_no = 32" "length ip \<le> 128" "ip \<noteq> []"
    and "(if block_number mod 2 \<noteq> 0 then consensus_for_IPv4 (bits_str (be_bits 256 (be_val random_no)))
          else consensus_for_IPv6 (bits_str (be_bits 256 (be_val random_no)))) = Inr (bits_str ip)"
  shows "select_signer A (hex_encode random_no) block_number = Inr (if bits_val ip < 2 ^ 32 then 4 else 6, bits_val ip)"
proof -
  have "be_val random_no < 2 ^ 256"
    using be_val_less [of random_no] assms(2) by simp
  moreover have "py_int 16 (hex_encode random_no) = Inr (int (be_val random_no))"
    using bytes_to_int_eq [of random_no] assms(2) by (cases random_no) (auto simp: bytes_to_int_def)
  ultimately have "select_signer A (hex_encode random_no) block_number = A (int (bits_val ip))"
    using assms(5) py_int_bits_str [OF assms(4)]
    by (simp add: select_signer_def zfill_bin formalize_IP_def del: be_bits.simps)
  moreover have "bits_val ip < 2 ^ 128"
    using bits_val_bound [of ip] power_increasing [OF assms(3), of "2::nat"] by linarith
  then have "A (int (bits_val ip)) = Inr (if int (bits_val ip) < 2 ^ 32 then 4 else 6, bits_val ip)"
    using assms(1) unfolding ipaddress_ok_def by (metis nat_int of_nat_0_le_iff of_nat_less_numeral_power_cancel_iff)
  ultimately show ?thesis by simp
qed

text \<open>The bits of the random number, byte by byte.\<close>

lemma be_bits_append: "b < 2 ^ w \<Longrightarrow> be_bits (v + w) (a * 2 ^ w + b) = be_bits v a @ be_bits w b"
proof (induction w arbitrary: b)
  case (Suc w)
  then have "b div 2 < 2 ^ w" by auto
  moreover have "(a * 2 ^ Suc w + b) div 2 = a * 2 ^ w + b div 2" "odd (a * 2 ^ Suc w + b) = odd b"
    by (simp_all add: mult.left_commute)
  ultimately show ?case using Suc.IH [of "b div 2"] by (simp del: power_Suc)
qed simp

lemma be_bits_be_val: "be_bits (8 * length s) (be_val s) = concat (map (\<lambda>c. be_bits 8 (ord c)) s)"
proof (induction s rule: rev_induct)
  case (snoc c s)
  then show ?case
    using be_bits_append [of "ord c" 8 "8 * length s" "be_val s"] by (simp add: mult.commute add.commute del: be_bits.simps)
qed simp

lemma drop1_be_bits: "drop (Suc 0) (be_bits (Suc w) n) = be_bits w n"
proof (induction w arbitrary: n)
  case (Suc w)
  have "drop (Suc 0) (be_bits (Suc w) (n div 2) @ [odd n]) = drop (Suc 0) (be_bits (Suc w) (n div 2)) @ [odd n]"
    by (simp del: be_bits.simps)
  with Suc.IH [of "n div 2"] show ?case by simp
qed simp

lemma be_bits_numeral: "be_bits (numeral k) n = be_bits (pred_numeral k) (n div 2) @ [odd n]"
  by (simp add: numeral_eq_Suc)

lemma bits_val_zero: "set bs \<subseteq> {False} \<Longrightarrow> bits_val bs = 0"
  by (induction bs rule: rev_induct) (auto simp: bits_val_append bits_val_def)

lemma concat_piece:
  "(\<forall>x \<in> set xs. length x = n) \<Longrightarrow> k < length xs \<Longrightarrow> take n (drop (n * k) (concat xs)) = xs ! k"
proof (induction xs arbitrary: k)
  case (Cons x xs)
  then show ?case by (cases k) simp_all
qed simp

lemma low_bits:
  assumes "k < length s"
  shows "take 7 (drop (8 * k + 1) (be_bits (8 * length s) (be_val s))) = be_bits 7 (ord (s ! k))"
proof -
  let ?l = "be_bits (8 * length s) (be_val s)"
  have "take 8 (drop (8 * k) ?l) = be_bits 8 (ord (s ! k))"
    using concat_piece [of "map (\<lambda>c. be_bits 8 (ord c)) s" 8 k] assms by (simp add: be_bits_be_val del: be_bits.simps)
  moreover have "take 7 (drop (8 * k + 1) ?l) = drop (Suc 0) (take 8 (drop (8 * k) ?l))"
    by (simp add: drop_take)
  ultimately show ?thesis
    using drop1_be_bits [of 7 "ord (s ! k)"] by simp
qed

fun pair_xor :: "bool list \<Rightarrow> bool list" where
  "pair_xor (a # b # r) = (a \<noteq> b) # pair_xor r"
| "pair_xor _ = []"

lemma pair_xor_nth: "even (length l) \<Longrightarrow> map (\<lambda>k. l ! (2 * k) \<noteq> l ! (2 * k + 1)) [0..<length l div 2] = pair_xor l"
proof (induction l rule: pair_xor.induct)
  case (1 a b r)
  have "[0..<length (a # b # r) div 2] = 0 # map Suc [0..<length r div 2]"
    by (simp add: upt_conv_Cons map_Suc_upt del: upt_Suc)
  with 1 show ?case by (simp add: comp_def)
qed simp_all

lemma pair_xor_append: "even (length l) \<Longrightarrow> pair_xor (l @ m) = pair_xor l @ pair_xor m"
  by (induction l rule: pair_xor.induct) simp_all

lemma pair_xor_concat: "pair_xor (concat (map (\<lambda>c. be_bits 8 (ord c)) s)) = concat (map (\<lambda>c. pair_xor (be_bits 8 (ord c))) s)"
  by (induction s) (simp_all add: pair_xor_append del: be_bits.simps)

section \<open>Properties\<close>

text \<open>C27. The signer of the block after an odd one is the IPv4 address whose bit \<open>k\<close> is the parity of the
  seven low bits of byte \<open>k\<close> of the random number: the inner loop starts at the bit the accumulator
  was initialised with, so the high bit of each byte has no influence.\<close>

theorem ipv4_signer_ignores_high_bits:
  assumes "ipaddress_ok A" "length random_no = 32" "odd block_number"
  shows "select_signer A (hex_encode random_no) block_number =
    Inr (4, bits_val (map (\<lambda>c. parity (be_bits 7 (ord c))) random_no))"
proof -
  let ?bs = "be_bits 256 (be_val random_no)" and ?ip = "map (\<lambda>c. parity (be_bits 7 (ord c))) random_no"
  have "map (\<lambda>k. parity (take 7 (drop (8 * k + 1) ?bs))) [0..<32] = ?ip"
    using low_bits [of _ random_no] assms(2) by (intro nth_equalityI) simp_all
  then have "consensus_for_IPv4 (bits_str ?bs) = Inr (bits_str ?ip)"
    using consensus_v4 [of ?bs] by simp
  moreover have "block_number mod 2 \<noteq> 0" using assms(3) by presburger
  moreover have "?ip \<noteq> []" using assms(2) by auto
  ultimately show ?thesis
    using select_run [OF assms(1,2), of ?ip block_number] bits_val_bound [of ?ip] assms(2) by simp
qed

definition ipaddress_ref :: "int \<Rightarrow> ip res" where
  "ipaddress_ref n = (if 0 \<le> n \<and> n < 2 ^ 128 then Inr (if n < 2 ^ 32 then 4 else 6, nat n) else Inl ValueError)"

lemma ipaddress_ref_ok: "ipaddress_ok ipaddress_ref"
  by (simp add: ipaddress_ok_def ipaddress_ref_def)

theorem ipv4_signer_ignores_high_bits_witness:
  "select_signer ipaddress_ref (hex_encode (replicate 31 (CHR 0x80) @ [CHR 0x01])) 7 = Inr (4, 1)"
proof -
  have "be_bits 7 128 = [False, False, False, False, False, False, False]"
      "be_bits 7 1 = [False, False, False, False, False, False, True]"
    by (simp_all add: be_bits_numeral)
  then have "map (\<lambda>c. parity (be_bits 7 (ord c))) (replicate 31 (CHR 0x80) @ [CHR 0x01]) = replicate 31 False @ [True]"
    by (simp add: parity_def)
  then have "bits_val (map (\<lambda>c. parity (be_bits 7 (ord c))) (replicate 31 (CHR 0x80) @ [CHR 0x01])) = 1"
    using bits_val_append [of "replicate 31 False" True] bits_val_zero [of "replicate 31 False"] by simp
  then show ?thesis
    using ipv4_signer_ignores_high_bits [OF ipaddress_ref_ok, of "replicate 31 (CHR 0x80) @ [CHR 0x01]" 7] by simp
qed

lemma ipv6_select:
  assumes "ipaddress_ok A" "length random_no = 32" "even block_number"
    and "n = bits_val (concat (map (\<lambda>c. pair_xor (be_bits 8 (ord c))) random_no))"
  shows "select_signer A (hex_encode random_no) block_number = Inr (if n < 2 ^ 32 then 4 else 6, n)"
proof -
  let ?bs = "be_bits 256 (be_val random_no)" and ?ip = "concat (map (\<lambda>c. pair_xor (be_bits 8 (ord c))) random_no)"
  have "map (\<lambda>k. ?bs ! (2 * k) \<noteq> ?bs ! (2 * k + 1)) [0..<128] = ?ip"
    using pair_xor_nth [of ?bs] be_bits_be_val [of random_no] pair_xor_concat [of random_no] assms(2) by simp
  then have c: "consensus_for_IPv6 (bits_str ?bs) = Inr (bits_str ?ip)" and len: "length ?ip = 128"
    using consensus_v6 [of ?bs] length_map [of "\<lambda>k. ?bs ! (2 * k) \<noteq> ?bs ! (2 * k + 1)" "[0..<128]"] by simp_all
  then have "?ip \<noteq> []" by (metis list.size(3) zero_neq_numeral)
  with c len show ?thesis
    using select_run [OF assms(1,2), of ?ip block_number] assms(3,4) by simp
qed

text \<open>The signer of the block after an even one is the address whose bits are the exclusive ors of the
  pairs of bits of the random number. The number alone decides the version: when its high 96 bits
  are zero the result is an IPv4 address, although an IPv6 block is to be signed.\<close>

theorem ipv6_signer_selected:
  assumes "ipaddress_ok A" "length random_no = 32" "even block_number"
    and "n = bits_val (concat (map (\<lambda>c. pair_xor (be_bits 8 (ord c))) random_no))"
  shows "select_signer A (hex_encode random_no) block_number = Inr (if n < 2 ^ 32 then 4 else 6, n)"
  by (rule ipv6_select) (fact assms)+

theorem ipv6_signer_selected_witness:
  "select_signer ipaddress_ref (hex_encode (replicate 31 (CHR 0xFF) @ [CHR 0xFD])) 8 = Inr (4, 1)"
proof -
  have "pair_xor (be_bits 8 255) = [False, False, False, False]" "pair_xor (be_bits 8 253) = [False, False, False, True]"
    by (simp_all add: be_bits_numeral)
  then have "concat (map (\<lambda>c. pair_xor (be_bits 8 (ord c))) (replicate 31 (CHR 0xFF) @ [CHR 0xFD])) =
      (concat (replicate 31 [False, False, False, False]) @ [False, False, False]) @ [True]"
    by simp
  moreover have "bits_val (concat (replicate 31 [False, False, False, False]) @ [False, False, False]) = 0"
    by (rule bits_val_zero) auto
  ultimately have "1 = bits_val (concat (map (\<lambda>c. pair_xor (be_bits 8 (ord c))) (replicate 31 (CHR 0xFF) @ [CHR 0xFD])))"
    by (simp only: bits_val_append) simp
  from ipv6_signer_selected [OF ipaddress_ref_ok _ _ this, of 8] show ?thesis
    by simp
qed

end
