(* ===== verification/Dkg.thy ===== *)
theory Dkg
  imports Wire Selection "HOL-Library.AList"
begin

text \<open>
  Distributed key generation: the arithmetic of \<open>Consensus/dkg.py\<close> over the BLS program. That
  program, \<open>bls.exe\<close>, is called through \<open>Consensus/libs/bls_wrapper.py\<close>; its commands are the
  fields of the record \<open>bls\<close>, with the empty string where the wrapper reports a failure. What a key
  generation draws at random is an argument of the definitions.

  \<open>bls_ok\<close> states what the scheme promises: keys are numbers modulo the order \<open>r\<close>, written by \<open>K\<close>,
  with public keys \<open>P\<close> and signatures \<open>Sg\<close>; a share is the value of a polynomial at an identifier; and
  signatures made with the shares of \<open>t\<close> distinct identifiers combine to the one of the value at 0.
\<close>

record bls =
  bls_id_keys :: "int \<Rightarrow> string \<times> string"
  bls_secret_share :: "string \<Rightarrow> string list \<Rightarrow> string"
  bls_public_share :: "string \<Rightarrow> string list \<Rightarrow> string"
  bls_get_public :: "string \<Rightarrow> string"
  bls_eq_public :: "string \<Rightarrow> string \<Rightarrow> bool"
  bls_secret_add :: "string \<Rightarrow> string \<Rightarrow> string"
  bls_public_add :: "string \<Rightarrow> string \<Rightarrow> string"
  bls_sign :: "string \<Rightarrow> string \<Rightarrow> string"
  bls_verify :: "string \<Rightarrow> string \<Rightarrow> string \<Rightarrow> bool"
  bls_recover :: "string list \<Rightarrow> string list \<Rightarrow> string"

section \<open>The functions of dkg.py\<close>

text \<open>\<open>drawn\<close> are the pairs that \<open>threshold\<close> calls of \<open>genKeys()\<close> give.\<close>

definition generateContribution :: "bls \<Rightarrow> (string \<times> string) list \<Rightarrow> string list \<Rightarrow> string list \<times> string list" where
  "generateContribution B drawn ids =
     (map snd drawn, map (\<lambda>i. bls_secret_share B i (map fst drawn)) ids)"

definition verifyContributionShare :: "bls \<Rightarrow> string \<Rightarrow> string \<Rightarrow> string list \<Rightarrow> bool" where
  "verifyContributionShare B i contribution vVec =
     bls_eq_public B (bls_public_share B i vVec) (bls_get_public B contribution)"

definition addContributionShares :: "bls \<Rightarrow> string list \<Rightarrow> string res" where
  "addContributionShares B secretKeyShares =
     (if secretKeyShares = [] then Inl IndexError
      else Inr (foldl (bls_secret_add B) (last secretKeyShares) (butlast secretKeyShares)))"

text \<open>One vector is added to \<open>groupsvVec\<close>, from position \<open>i\<close> on; an unset or empty entry is replaced.\<close>

fun add_vector :: "bls \<Rightarrow> nat \<Rightarrow> string list \<Rightarrow> string option list \<Rightarrow> string option list res" where
  "add_vector B i [] g = Inr g"
| "add_vector B i (pk2 # vVec) g =
     bindE (py_nth g i) (\<lambda>pk1.
     add_vector B (Suc i) vVec (g[i := Some (if pk1 = None \<or> pk1 = Some [] then pk2 else bls_public_add B (the pk1) pk2)]))"

fun add_vectors :: "bls \<Rightarrow> string list list \<Rightarrow> string option list \<Rightarrow> string option list res" where
  "add_vectors B [] g = Inr g"
| "add_vectors B (vVec # vVecs) g = bindE (add_vector B 0 vVec g) (add_vectors B vVecs)"

definition addVerificationVectors :: "bls \<Rightarrow> string list list \<Rightarrow> string option list res" where
  "addVerificationVectors B vVecs =
     bindE (py_nth vVecs 0) (\<lambda>v. add_vectors B vVecs (replicate (length v) None))"

section \<open>What the scheme promises\<close>

text \<open>The value of a polynomial modulo \<open>r\<close>, its coefficients given from the constant one on.\<close>

fun poly :: "nat \<Rightarrow> nat list \<Rightarrow> nat \<Rightarrow> nat" where
  "poly r [] x = 0"
| "poly r (c # cs) x = (c + x * poly r cs x) mod r"

definition bls_ok :: "bls \<Rightarrow> nat \<Rightarrow> nat \<Rightarrow> (nat \<Rightarrow> string) \<Rightarrow> (nat \<Rightarrow> string) \<Rightarrow> (string \<Rightarrow> nat \<Rightarrow> string) \<Rightarrow> bool" where
  "bls_ok B r t K P Sg \<longleftrightarrow> 1 < r \<and> 0 < t \<and>
     (\<forall>n. bls_id_keys B n = (K (nat (n mod int r)), P (nat (n mod int r)))) \<and>
     (\<forall>a. K a \<noteq> [] \<and> P a \<noteq> [] \<and> (\<forall>m. Sg m a \<noteq> [])) \<and>
     (\<forall>a b. a < r \<longrightarrow> b < r \<longrightarrow> K a = K b \<longrightarrow> a = b) \<and>
     (\<forall>x cs. bls_secret_share B (K x) (map K cs) = K (poly r cs x)) \<and>
     (\<forall>x cs. bls_public_share B (K x) (map P cs) = P (poly r cs x)) \<and>
     (\<forall>a. bls_get_public B (K a) = P a) \<and>
     (\<forall>a b. a < r \<longrightarrow> b < r \<longrightarrow> bls_eq_public B (P a) (P b) = (a = b)) \<and>
     (\<forall>a b. bls_secret_add B (K a) (K b) = K ((a + b) mod r)) \<and>
     (\<forall>a b. bls_public_add B (P a) (P b) = P ((a + b) mod r)) \<and>
     (\<forall>m a. bls_sign B m (K a) = Sg m a) \<and>
     (\<forall>m a b. a < r \<longrightarrow> b < r \<longrightarrow> bls_verify B m (Sg m a) (P b) = (a = b)) \<and>
     (\<forall>xs cs m. length xs = t \<longrightarrow> distinct xs \<longrightarrow> (\<forall>x \<in> set xs. 0 < x \<and> x < r) \<longrightarrow> length cs = t \<longrightarrow>
        bls_recover B (map K xs) (map (\<lambda>x. Sg m (poly r cs x)) xs) = Sg m (poly r cs 0))"

lemma bls_okD:
  assumes "bls_ok B r t K P Sg"
  shows "1 < r" "0 < t" "bls_id_keys B n = (K (nat (n mod int r)), P (nat (n mod int r)))"
    "K a \<noteq> []" "P a \<noteq> []" "Sg m a \<noteq> []"
    "a < r \<Longrightarrow> b < r \<Longrightarrow> K a = K b \<longleftrightarrow> a = b"
    "bls_secret_share B (K x) (map K cs) = K (poly r cs x)"
    "bls_public_share B (K x) (map P cs) = P (poly r cs x)"
    "bls_get_public B (K a) = P a"
    "a < r \<Longrightarrow> b < r \<Longrightarrow> bls_eq_public B (P a) (P b) = (a = b)"
    "bls_secret_add B (K a) (K b) = K ((a + b) mod r)"
    "bls_public_add B (P a) (P b) = P ((a + b) mod r)"
    "bls_sign B m (K a) = Sg m a"
    "a < r \<Longrightarrow> b < r \<Longrightarrow> bls_verify B m (Sg m a) (P b) = (a = b)"
    "length xs = t \<Longrightarrow> distinct xs \<Longrightarrow> (\<forall>x \<in> set xs. 0 < x \<and> x < r) \<Longrightarrow> length cs = t \<Longrightarrow>
       bls_recover B (map K xs) (map (\<lambda>x. Sg m (poly r cs x)) xs) = Sg m (poly r cs 0)"
  using assms by (auto simp: bls_ok_def)

lemma poly_less: "0 < r \<Longrightarrow> poly r cs x < r"
  by (cases cs) simp_all

lemma poly_0 [simp]: "poly r (c # cs) 0 = c mod r"
  by simp

text \<open>The sum of polynomials of the same degree, coefficient by coefficient.\<close>

definition padd :: "nat list \<Rightarrow> nat list \<Rightarrow> nat list" where
  "padd cs ds = map2 (+) cs ds"

fun psum :: "nat \<Rightarrow> nat list list \<Rightarrow> nat list" where
  "psum t [] = replicate t 0"
| "psum t (f # fs) = padd f (psum t fs)"

lemma length_psum: "\<forall>f \<in> set fs. length f = t \<Longrightarrow> length (psum t fs) = t"
  by (induction fs) (simp_all add: padd_def)

lemma poly_padd: "length cs = length ds \<Longrightarrow> poly r (padd cs ds) x = (poly r cs x + poly r ds x) mod r"
proof (induction cs ds rule: list_induct2)
  case (Cons c cs d ds)
  have "poly r (padd (c # cs) (d # ds)) x = (c + d + x * ((poly r cs x + poly r ds x) mod r)) mod r"
    using Cons by (simp add: padd_def)
  also have "\<dots> = (c + d + x * (poly r cs x + poly r ds x)) mod r"
    by (metis mod_add_right_eq mod_mult_right_eq)
  also have "\<dots> = ((c + x * poly r cs x) + (d + x * poly r ds x)) mod r"
    by (simp add: algebra_simps)
  finally show ?case by (simp add: mod_add_eq)
qed (simp add: padd_def)

lemma poly_zeros: "poly r (replicate n 0) x = 0"
  by (induction n) simp_all

lemma poly_psum: "\<forall>f \<in> set fs. length f = t \<Longrightarrow> poly r (psum t fs) x = sum_list (map (\<lambda>f. poly r f x) fs) mod r"
proof (induction fs)
  case (Cons f fs)
  then show ?case
    using poly_padd [of f "psum t fs" r x] length_psum [of fs t] by (simp add: mod_add_right_eq)
qed (simp add: poly_zeros)

section \<open>Adding shares and vectors\<close>

lemma foldl_secret_add:
  assumes "bls_ok B r t K P Sg"
  shows "foldl (bls_secret_add B) (K (a mod r)) (map K ns) = K ((a + sum_list ns) mod r)"
proof (induction ns arbitrary: a)
  case (Cons n ns)
  have "bls_secret_add B (K (a mod r)) (K n) = K ((a + n) mod r)"
    by (simp add: bls_okD(12) [OF assms] mod_add_left_eq)
  with Cons [of "a + n"] show ?case by (simp add: add.assoc)
qed simp

lemma add_shares:
  assumes ok: "bls_ok B r t K P Sg" and "ns \<noteq> []" "\<forall>n \<in> set ns. n < r"
  shows "addContributionShares B (map K ns) = Inr (K (sum_list ns mod r))"
proof -
  have "sum_list (butlast ns @ [last ns]) = last ns + sum_list (butlast ns)" by simp
  then have "sum_list ns = last ns + sum_list (butlast ns)"
    using append_butlast_last_id [OF assms(2)] by metis
  moreover have "last ns mod r = last ns" using assms(2,3) by simp
  ultimately show ?thesis
    using foldl_secret_add [OF ok, of "last ns" "butlast ns"] assms(2)
    by (simp add: addContributionShares_def last_map map_butlast [symmetric])
qed

text \<open>Vectors of public keys: the first fills the sum, the others are added position by position.\<close>

abbreviation keys_of :: "(nat \<Rightarrow> string) \<Rightarrow> nat list \<Rightarrow> string option list" where
  "keys_of P \<equiv> map (\<lambda>a. Some (P a))"

definition vadd :: "nat \<Rightarrow> nat list \<Rightarrow> nat list \<Rightarrow> nat list" where
  "vadd r as ds = map2 (\<lambda>a d. (a + d) mod r) as ds"

lemma vadd_Nil [simp]: "vadd r [] [] = []"
  by (simp add: vadd_def)

lemma vadd_Cons [simp]: "vadd r (a # as) (d # ds) = (a + d) mod r # vadd r as ds"
  by (simp add: vadd_def)

lemma length_vadd [simp]: "length f = length as \<Longrightarrow> length (vadd r as f) = length as"
  by (simp add: vadd_def)

lemma add_vector_first:
  assumes "bls_ok B r t K P Sg"
  shows "add_vector B (length pre) (map P ds) (keys_of P pre @ replicate (length ds) None) = Inr (keys_of P (pre @ ds))"
proof (induction ds arbitrary: pre)
  case (Cons d ds)
  have "(keys_of P pre @ replicate (length (d # ds)) None)[length pre := Some (P d)] =
      keys_of P (pre @ [d]) @ replicate (length ds) None"
    by (simp add: list_update_append)
  with Cons [of "pre @ [d]"] show ?case
    by (simp add: py_nth_def nth_append)
qed simp

lemma add_vector_next:
  assumes "bls_ok B r t K P Sg" "length as = length ds"
  shows "add_vector B (length pre) (map P ds) (keys_of P (pre @ as)) =
    Inr (keys_of P (pre @ vadd r as ds))"
  using assms(2)
proof (induction as ds arbitrary: pre rule: list_induct2)
  case (Cons a as d ds)
  have "(keys_of P (pre @ a # as))[length pre := Some (P ((a + d) mod r))] = keys_of P ((pre @ [(a + d) mod r]) @ as)"
    by (simp add: list_update_append)
  with Cons.IH [of "pre @ [(a + d) mod r]"] show ?case
    by (simp add: py_nth_def nth_append bls_okD(5,13) [OF assms(1)])
qed simp

lemma add_vectors_next:
  assumes "bls_ok B r t K P Sg" "length as = n" "\<forall>f \<in> set fs. length f = n"
  shows "add_vectors B (map (map P) fs) (keys_of P as) = Inr (keys_of P (foldl (vadd r) as fs))"
  using assms(2,3)
proof (induction fs arbitrary: as)
  case (Cons f fs)
  then have "add_vector B 0 (map P f) (keys_of P as) = Inr (keys_of P (vadd r as f))"
    using add_vector_next [OF assms(1), of as f "[]"] by simp
  moreover have "add_vectors B (map (map P) fs) (keys_of P (vadd r as f)) = Inr (keys_of P (foldl (vadd r) (vadd r as f) fs))"
    using Cons.prems by (intro Cons.IH) simp_all
  ultimately show ?case by simp
qed simp

lemma hd_foldl_add:
  assumes "length as = n" "0 < n" "\<forall>f \<in> set fs. length f = n" "hd as < r"
  shows "foldl (vadd r) as fs \<noteq> [] \<and> hd (foldl (vadd r) as fs) = (hd as + sum_list (map hd fs)) mod r"
  using assms
proof (induction fs arbitrary: as)
  case (Cons f fs)
  then obtain a as' d f' where form: "as = a # as'" "f = d # f'" by (cases as; cases f) auto
  have "foldl (vadd r) (vadd r as f) fs \<noteq> [] \<and>
      hd (foldl (vadd r) (vadd r as f) fs) = (hd (vadd r as f) + sum_list (map hd fs)) mod r"
    using Cons.prems form by (intro Cons.IH) auto
  then show ?case by (simp add: form mod_add_left_eq add.assoc)
qed auto

lemma add_verification_vectors:
  assumes ok: "bls_ok B r t K P Sg" and fs: "fs \<noteq> []" "\<forall>f \<in> set fs. length f = t" "\<forall>f \<in> set fs. hd f < r"
  shows "\<exists>g. addVerificationVectors B (map (map P) fs) = Inr g \<and> py_nth g 0 = Inr (Some (P (sum_list (map hd fs) mod r)))"
proof -
  obtain f fs' where f: "fs = f # fs'" using fs(1) by (cases fs) auto
  have "add_vector B 0 (map P f) (replicate (length f) None) = Inr (keys_of P f)"
    using add_vector_first [OF ok, of "[]" f] by simp
  then have "addVerificationVectors B (map (map P) fs) = Inr (keys_of P (foldl (vadd r) f fs'))"
    using add_vectors_next [OF ok, of f t fs'] fs f by (simp add: addVerificationVectors_def py_nth_def)
  then show ?thesis
    using hd_foldl_add [of f t fs' r] fs f bls_okD(2) [OF ok] by (auto simp: py_nth_def hd_conv_nth)
qed

text \<open>An honest contribution verifies, and only the right one does.\<close>

lemma verify_contribution:
  assumes "bls_ok B r t K P Sg" "c < r"
  shows "verifyContributionShare B (K x) (K c) (map P f) \<longleftrightarrow> c = poly r f x"
  using assms poly_less [of r f x] bls_okD(1) [OF assms(1)]
  by (auto simp: verifyContributionShare_def bls_okD(9-11) [OF assms(1)])

end
