(* ===== verification/Consensus.thy ===== *)
theory Consensus
  imports Dkg
begin

text \<open>
  The random beacon and the key generation of a node, the class \<open>Consensus\<close> of \<open>consensus.py\<close>. Per
  identity of the node that is in the group, a table holds what each member contributed; when it is
  complete the node has its secret share and the public key of the group. With it the node signs the
  message of each block; \<open>THRESHOLD\<close> signature shares combine to the group signature, whose hash is
  the next random number. What the module imports is in the record \<open>cparams\<close>: the BLS program,
  \<open>hashlib.sha256(x).hexdigest()\<close>, the threshold of the configuration and \<open>netaddr.IPAddress\<close>.
  \<open>cs_members\<close> is \<open>None\<close> while the attribute has not been assigned.
\<close>

section \<open>The state\<close>

record cparams =
  cp_bls :: bls
  cp_sha :: "string \<Rightarrow> string"
  cp_threshold :: nat
  cp_ipaddress :: "int \<Rightarrow> ip res"

record member =
  m_id :: string
  m_share :: "string option"
  m_vvec :: "string list option"

type_synonym table = "(string \<times> member) list"

record consensus =
  cs_dkg_group :: "string list"
  cs_own_ids :: "string list"
  cs_random_no :: string
  cs_secret_keys :: "(string \<times> string) list"
  cs_group_key :: string
  cs_group_sig :: string
  cs_shares :: "string list"
  cs_shares_ids :: "string list"
  cs_msg :: string
  cs_verified :: bool
  cs_next_signer :: "ip option"
  cs_previous_group_key :: string
  cs_members :: "(string \<times> table) list option"

text \<open>\<open>zlib.adler32\<close> of Python 2, a signed number of 32 bits.\<close>

definition adler32 :: "string \<Rightarrow> int" where
  "adler32 s =
     (case foldl (\<lambda>(a, b) c. ((a + of_char c) mod 65521, (b + a + of_char c) mod 65521)) (1, 0) s of
        (a, b) \<Rightarrow> let n = b * 65536 + a :: int in if n \<ge> 2 ^ 31 then n - 2 ^ 32 else n)"

definition lookupE :: "('k \<times> 'v) list \<Rightarrow> 'k \<Rightarrow> 'v res" where
  "lookupE d k = (case map_of d k of Some v \<Rightarrow> Inr v | None \<Rightarrow> Inl KeyError)"

definition members_of :: "consensus \<Rightarrow> (string \<times> table) list res" where
  "members_of c = (case cs_members c of Some m \<Rightarrow> Inr m | None \<Rightarrow> Inl AttributeError)"

definition table_of :: "string \<Rightarrow> consensus \<Rightarrow> table res" where
  "table_of node c = bindE (members_of c) (\<lambda>ms. lookupE ms node)"

definition member_of :: "string \<Rightarrow> string \<Rightarrow> consensus \<Rightarrow> member res" where
  "member_of node oid c = bindE (table_of node c) (\<lambda>t. lookupE t oid)"

section \<open>Getters and the next signer\<close>

definition calculate_next_signer :: "cparams \<Rightarrow> nat \<Rightarrow> (consensus, unit) M" where
  "calculate_next_signer C block_number =
     bindM (gets cs_random_no) (\<lambda>rn.
     bindM (liftE (select_signer (cp_ipaddress C) rn block_number)) (\<lambda>a.
     modifyM (\<lambda>c. c\<lparr>cs_next_signer := Some a\<rparr>)))"

definition consensus_init ::
  "cparams \<Rightarrow> string list \<Rightarrow> string list \<Rightarrow> string \<Rightarrow> string \<Rightarrow> nat \<Rightarrow> string \<Rightarrow> string \<Rightarrow> consensus res" where
  "consensus_init C dkg_group node_ids randno group_key block_no group_signature prev_gp_key =
     (case calculate_next_signer C block_no
        \<lparr>cs_dkg_group = dkg_group, cs_own_ids = node_ids, cs_random_no = randno, cs_secret_keys = [],
         cs_group_key = group_key, cs_group_sig = group_signature, cs_shares = [], cs_shares_ids = [],
         cs_msg = [], cs_verified = True, cs_next_signer = None, cs_previous_group_key = prev_gp_key,
         cs_members = None\<rparr> of
        (Inl e, _) \<Rightarrow> Inl e
      | (Inr _, c) \<Rightarrow> Inr c)"

definition get_next_signer :: "nat \<Rightarrow> consensus \<Rightarrow> ip option" where
  "get_next_signer count c = cs_next_signer c"

definition shares_ready :: "consensus \<Rightarrow> bool" where
  "shares_ready c = cs_verified c"

definition set_current_group_key :: "string \<Rightarrow> consensus \<Rightarrow> consensus" where
  "set_current_group_key k c = c\<lparr>cs_group_key := k\<rparr>"

definition bootstrap_only_set_random_no_manual :: "string \<Rightarrow> consensus \<Rightarrow> consensus" where
  "bootstrap_only_set_random_no_manual r c = c\<lparr>cs_random_no := r\<rparr>"

definition bootstrap_only_set_group_sig_manual :: "string \<Rightarrow> consensus \<Rightarrow> consensus" where
  "bootstrap_only_set_group_sig_manual s c = c\<lparr>cs_group_sig := s\<rparr>"

section \<open>Signature shares\<close>

definition share_message :: "string \<Rightarrow> nat \<Rightarrow> nat \<Rightarrow> string" where
  "share_message last_random_no block_num count =
     last_random_no @ py_str_int (int block_num) @ py_str_int (int count)"

definition store_share :: "cparams \<Rightarrow> share \<Rightarrow> string \<Rightarrow> nat \<Rightarrow> (consensus, bool) M" where
  "store_share C sh expected_message block_no =
     bindM (gets members_of) (\<lambda>ms'. bindM (liftE ms') (\<lambda>ms.
     bindM (liftE (py_nth ms 0)) (\<lambda>first.
     bindM (liftE (lookupE (snd first) (sh_source sh))) (\<lambda>m.
     bindM (gets (\<lambda>c. m_id m \<notin> set (cs_shares_ids c) \<and> \<not> cs_verified c)) (\<lambda>new.
     if \<not> new then ret False
     else
       bindM (modifyM (\<lambda>c. c\<lparr>cs_shares_ids := cs_shares_ids c @ [m_id m], cs_shares := cs_shares c @ [sh_signature sh]\<rparr>)) (\<lambda>_.
       bindM (gets (\<lambda>c. c)) (\<lambda>c.
       if length (cs_shares_ids c) < cp_threshold C then ret False
       else
         let sig = bls_recover (cp_bls C) (cs_shares_ids c) (cs_shares c);
             ok = bls_verify (cp_bls C) (cp_sha C expected_message) sig (cs_group_key c)
         in bindM (modifyM (\<lambda>c. c\<lparr>cs_group_sig := sig\<rparr>)) (\<lambda>_.
            if sig = [] then raise BlsRecoverError
            else bindM (modifyM (\<lambda>c. c\<lparr>cs_verified := ok\<rparr>)) (\<lambda>_.
                 if ok then bindM (modifyM (\<lambda>c. c\<lparr>cs_random_no := cp_sha C sig\<rparr>)) (\<lambda>_. ret True)
                 else raise BlsInvalidGroupSignature)))))))))"

text \<open>The identities without a secret key are skipped.\<close>

fun signed_shares :: "bls \<Rightarrow> string \<Rightarrow> nat \<Rightarrow> (string \<times> string) list \<Rightarrow> string list \<Rightarrow> share list res" where
  "signed_shares B digest block_num keys [] = Inr []"
| "signed_shares B digest block_num keys (oid # ids) =
     (case map_of keys oid of
        None \<Rightarrow> signed_shares B digest block_num keys ids
      | Some k \<Rightarrow>
          let sig = bls_sign B digest k
          in if sig = [] then Inl BlsSignError
             else bindE (signed_shares B digest block_num keys ids) (\<lambda>shs.
                  Inr (\<lparr>sh_source = oid, sh_signature = sig, sh_block_number = block_num\<rparr> # shs)))"

text \<open>Shares that arrive one after the other.\<close>

definition collect_shares :: "cparams \<Rightarrow> share list \<Rightarrow> string \<Rightarrow> nat \<Rightarrow> (consensus, unit) M" where
  "collect_shares C shs msg block_no = forM shs (\<lambda>sh. bindM (store_share C sh msg block_no) (\<lambda>_. ret ()))"

definition create_shares :: "cparams \<Rightarrow> string \<Rightarrow> nat \<Rightarrow> nat \<Rightarrow> (consensus, share list) M" where
  "create_shares C last_random_no block_num count =
     bindM (modifyM (\<lambda>c. c\<lparr>cs_msg := share_message last_random_no block_num count\<rparr>)) (\<lambda>_.
     bindM (gets (\<lambda>c. c)) (\<lambda>c.
     bindM (liftE (signed_shares (cp_bls C) (cp_sha C (cs_msg c)) block_num (cs_secret_keys c) (cs_own_ids c))) (\<lambda>new_shares.
     bindM (collect_shares C new_shares (cs_msg c) block_num) (\<lambda>_.
     ret new_shares))))"

definition verify_group_sig :: "cparams \<Rightarrow> string \<Rightarrow> string \<Rightarrow> bool \<Rightarrow> consensus \<Rightarrow> bool" where
  "verify_group_sig C expected_message block_group_sig usePrevGroupKey c =
     bls_verify (cp_bls C) (cp_sha C expected_message) block_group_sig
       (if usePrevGroupKey then cs_previous_group_key c else cs_group_key c)"

definition reset_bls :: "consensus \<Rightarrow> consensus" where
  "reset_bls c = c\<lparr>cs_shares := [], cs_shares_ids := [], cs_verified := False\<rparr>"

section \<open>Key generation\<close>

text \<open>The entry of a member before it contributed.\<close>

definition new_member :: "bls \<Rightarrow> string \<Rightarrow> member res" where
  "new_member B oid =
     (let secKey = fst (bls_id_keys B (adler32 oid))
      in if secKey = [] then Inl DkgGenKeysError
         else Inr \<lparr>m_id = secKey, m_share = None, m_vvec = None\<rparr>)"

definition set_table :: "string \<Rightarrow> (table \<Rightarrow> table) \<Rightarrow> consensus \<Rightarrow> consensus" where
  "set_table node f c =
     c\<lparr>cs_members := map_option (\<lambda>ms. AList.update node (f (case map_of ms node of Some t \<Rightarrow> t | None \<Rightarrow> [])) ms) (cs_members c)\<rparr>"

text \<open>\<open>self.members[node] = {}\<close> and the loop that fills it.\<close>

definition add_members :: "cparams \<Rightarrow> string list \<Rightarrow> string \<Rightarrow> (consensus, unit) M" where
  "add_members C grp node =
     bindM (modifyM (set_table node (\<lambda>_. []))) (\<lambda>_.
     forM grp (\<lambda>oid.
       bindM (liftE (new_member (cp_bls C) oid)) (\<lambda>m.
       modifyM (set_table node (AList.update oid m)))))"

definition store_ids :: "cparams \<Rightarrow> string list \<Rightarrow> (consensus, unit) M" where
  "store_ids C new_dkg_group =
     bindM (modifyM (\<lambda>c. c\<lparr>cs_previous_group_key := cs_group_key c, cs_dkg_group := new_dkg_group,
       cs_own_ids := [], cs_members := Some []\<rparr>)) (\<lambda>_.
     add_members C new_dkg_group ''no_asociated_dkg'')"

definition store_group_key :: "string \<Rightarrow> consensus \<Rightarrow> consensus" where
  "store_group_key k c = c\<lparr>cs_group_key := k\<rparr>"

definition received :: "member \<Rightarrow> bool" where
  "received m \<longleftrightarrow> m_share m \<noteq> None \<and> m_share m \<noteq> Some []"

definition allSharesReceived :: "string \<Rightarrow> consensus \<Rightarrow> bool res" where
  "allSharesReceived current_id c =
     bindE (table_of current_id c) (\<lambda>t. Inr (list_all (\<lambda>(_, m). received m) t))"

fun all_node_dkgs_finished_loop :: "string list \<Rightarrow> consensus \<Rightarrow> bool res" where
  "all_node_dkgs_finished_loop [] c = Inr True"
| "all_node_dkgs_finished_loop (oid # ids) c =
     bindE (allSharesReceived oid c) (\<lambda>b. if b then all_node_dkgs_finished_loop ids c else Inr False)"

definition all_node_dkgs_finished :: "consensus \<Rightarrow> bool res" where
  "all_node_dkgs_finished c = all_node_dkgs_finished_loop (cs_own_ids c) c"

text \<open>The end of a key generation: the secret share of the identity and the key of the group. A
  vector sum whose first entry was never set would fail where it is logged.\<close>

definition finish_dkg :: "cparams \<Rightarrow> string \<Rightarrow> (consensus, unit) M" where
  "finish_dkg C destination =
     bindM (gets (table_of destination)) (\<lambda>t'. bindM (liftE t') (\<lambda>t.
     bindM (liftE (addContributionShares (cp_bls C) (map (\<lambda>(_, m). the (m_share m)) t))) (\<lambda>sk.
     bindM (modifyM (\<lambda>c. c\<lparr>cs_secret_keys := AList.update destination sk (cs_secret_keys c)\<rparr>)) (\<lambda>_.
     if sk = [] then raise DkgAddContributionSharesError
     else
       bindM (liftE (addVerificationVectors (cp_bls C) (map (\<lambda>(_, m). the (m_vvec m)) t))) (\<lambda>g.
       bindM (liftE (py_nth g 0)) (\<lambda>k.
       case k of
         None \<Rightarrow> raise TypeError
       | Some key \<Rightarrow>
           bindM (modifyM (\<lambda>c. c\<lparr>cs_group_key := key\<rparr>)) (\<lambda>_.
           if key = [] then raise DkgAddVerificationVectorsError else ret ())))))))"

definition verify_dkg_contribution :: "cparams \<Rightarrow> dkg_share \<Rightarrow> (consensus, unit) M" where
  "verify_dkg_contribution C d =
     (let oid = ds_source d; destination = ds_to d
      in bindM (gets (member_of destination oid)) (\<lambda>m'. bindM (liftE m') (\<lambda>m.
         if m_share m \<noteq> None then ret ()
         else
           bindM (gets (member_of destination destination)) (\<lambda>s'. bindM (liftE s') (\<lambda>s.
           bindM (if verifyContributionShare (cp_bls C) (m_id s) (ds_contrib d) (ds_vvec d)
                  then modifyM (set_table destination
                         (AList.update oid (m\<lparr>m_share := Some (ds_contrib d), m_vvec := Some (ds_vvec d)\<rparr>)))
                  else ret ()) (\<lambda>_.
           bindM (gets (allSharesReceived destination)) (\<lambda>a'. bindM (liftE a') (\<lambda>complete.
           if complete then finish_dkg C destination else ret ()))))))))"

text \<open>The contributions of one identity: its own identities are served at once, the others are sent.
  \<open>data\<close> are the members of its table, \<open>contribs\<close> what was generated for them in the same order.\<close>

fun distribute :: "cparams \<Rightarrow> string \<Rightarrow> string list \<Rightarrow> table \<Rightarrow> string list \<Rightarrow> (consensus, dkg_share list) M" where
  "distribute C node vVec [] contribs = ret []"
| "distribute C node vVec ((oid, m) # data) contribs =
     bindM (liftE (py_nth contribs 0)) (\<lambda>contrib.
     bindM (gets (\<lambda>c. oid \<in> set (cs_own_ids c))) (\<lambda>own.
     let d = \<lparr>ds_source = node, ds_to = oid, ds_contrib = contrib, ds_vvec = vVec\<rparr>
     in bindM (if own then verify_dkg_contribution C d else ret ()) (\<lambda>_.
        bindM (distribute C node vVec data (drop 1 contribs)) (\<lambda>rest.
        ret (if own then rest else d # rest)))))"

fun contribute :: "cparams \<Rightarrow> (string \<Rightarrow> (string \<times> string) list) \<Rightarrow> (string \<times> table) list \<Rightarrow> (consensus, dkg_share list) M" where
  "contribute C drawn [] = ret []"
| "contribute C drawn ((node, data) # ms) =
     (case generateContribution (cp_bls C) (drawn node) (map (\<lambda>(_, m). m_id m) data) of (vVec, secretContribs) \<Rightarrow>
        if [] \<in> set secretContribs then raise DkgGenerateSecretKeyShareError
        else bindM (distribute C node vVec data secretContribs) (\<lambda>ds.
             bindM (contribute C drawn ms) (\<lambda>rest. ret (ds @ rest))))"

text \<open>\<open>drawn node\<close> are the \<open>THRESHOLD\<close> random key pairs of the polynomial of an identity.\<close>

definition new_dkg :: "cparams \<Rightarrow> (string \<Rightarrow> (string \<times> string) list) \<Rightarrow> string list \<Rightarrow> string list \<Rightarrow> (consensus, dkg_share list) M" where
  "new_dkg C drawn new_dkg_group new_node_ids =
     bindM (modifyM (\<lambda>c. c\<lparr>cs_previous_group_key := cs_group_key c, cs_members := Some [],
       cs_dkg_group := new_dkg_group, cs_own_ids := new_node_ids\<rparr>)) (\<lambda>_.
     bindM (forM new_node_ids (add_members C new_dkg_group)) (\<lambda>_.
     bindM (gets members_of) (\<lambda>ms'. bindM (liftE ms') (\<lambda>ms. contribute C drawn ms))))"

definition bootstrap_master_add_secret_keys_manual ::
  "cparams \<Rightarrow> (string \<times> string) list \<Rightarrow> string list \<Rightarrow> (consensus, unit) M" where
  "bootstrap_master_add_secret_keys_manual C manual_keys my_dkg_ids =
     bindM (gets cs_dkg_group) (\<lambda>g.
     bindM (store_ids C g) (\<lambda>_.
     bindM (modifyM (\<lambda>c. c\<lparr>cs_own_ids := my_dkg_ids, cs_verified := False\<rparr>)) (\<lambda>_.
     forM manual_keys (\<lambda>(oid, key). modifyM (\<lambda>c. c\<lparr>cs_secret_keys := AList.update oid key (cs_secret_keys c)\<rparr>)))))"

end
