(* ===== verification/ConsensusCorrect.thy ===== *)
theory ConsensusCorrect
  imports Consensus
begin

text \<open>
  What the key generation and the random beacon achieve. When every member contributes what its
  polynomial gives, each member ends with its point on the sum of the polynomials and all of them with
  the same group key; the signature shares of any \<open>THRESHOLD\<close> of them combine to the same group
  signature, hence to the same random number. A contribution that does not verify changes nothing. The
  identifiers are checksums of 32 bits of the addresses, so two members can have the same one.
\<close>

section \<open>Tables\<close>

text \<open>The scalar of a member, and the table of \<open>d\<close> when the members in \<open>S\<close> have contributed.\<close>

definition scalar :: "nat \<Rightarrow> string \<Rightarrow> nat" where
  "scalar r oid = nat (adler32 oid mod int r)"

definition contrib_of :: "nat \<Rightarrow> (nat \<Rightarrow> string) \<Rightarrow> (string \<Rightarrow> nat list) \<Rightarrow> string \<Rightarrow> string \<Rightarrow> string" where
  "contrib_of r K f d oid = K (poly r (f oid) (scalar r d))"

definition entry ::
  "nat \<Rightarrow> (nat \<Rightarrow> string) \<Rightarrow> (nat \<Rightarrow> string) \<Rightarrow> (string \<Rightarrow> nat list) \<Rightarrow> string \<Rightarrow> string set \<Rightarrow> string \<Rightarrow> member" where
  "entry r K P f d S oid =
     \<lparr>m_id = K (scalar r oid),
      m_share = (if oid \<in> S then Some (contrib_of r K f d oid) else None),
      m_vvec = (if oid \<in> S then Some (map P (f oid)) else None)\<rparr>"

abbreviation table_after ::
  "nat \<Rightarrow> (nat \<Rightarrow> string) \<Rightarrow> (nat \<Rightarrow> string) \<Rightarrow> (string \<Rightarrow> nat list) \<Rightarrow> string \<Rightarrow> string list \<Rightarrow> string set \<Rightarrow> table" where
  "table_after r K P f d G S \<equiv> map (\<lambda>oid. (oid, entry r K P f d S oid)) G"

text \<open>The message in which \<open>oid\<close> sends its contribution to \<open>d\<close>.\<close>

definition honest ::
  "nat \<Rightarrow> (nat \<Rightarrow> string) \<Rightarrow> (nat \<Rightarrow> string) \<Rightarrow> (string \<Rightarrow> nat list) \<Rightarrow> string \<Rightarrow> string \<Rightarrow> dkg_share" where
  "honest r K P f d oid = \<lparr>ds_source = oid, ds_to = d, ds_contrib = contrib_of r K f d oid, ds_vvec = map P (f oid)\<rparr>"

definition polys_ok :: "nat \<Rightarrow> nat \<Rightarrow> (string \<Rightarrow> nat list) \<Rightarrow> string list \<Rightarrow> bool" where
  "polys_ok r t f G \<longleftrightarrow> distinct G \<and> (\<forall>oid \<in> set G. length (f oid) = t \<and> (\<forall>c \<in> set (f oid). c < r))"

text \<open>The polynomial whose value at 0 is the secret of the group.\<close>

definition group_poly :: "nat \<Rightarrow> (string \<Rightarrow> nat list) \<Rightarrow> string list \<Rightarrow> nat list" where
  "group_poly t f G = psum t (map f G)"

lemma map_of_map_pair: "map_of (map (\<lambda>x. (x, g x)) xs) y = (if y \<in> set xs then Some (g y) else None)"
  by (induction xs) auto

lemma update_map_pair:
  "distinct xs \<Longrightarrow> y \<in> set xs \<Longrightarrow> AList.update y v (map (\<lambda>x. (x, g x)) xs) = map (\<lambda>x. (x, if x = y then v else g x)) xs"
  by (induction xs) auto

lemma table_of_set_table:
  "table_of d c = Inr tbl \<Longrightarrow> table_of d (set_table d h c) = Inr (h tbl)"
  by (auto simp: table_of_def members_of_def set_table_def lookupE_def bindE_eq_Inr update_conv split: option.splits)

lemma member_of_table:
  "table_of d c = Inr (map (\<lambda>x. (x, g x)) G) \<Longrightarrow> oid \<in> set G \<Longrightarrow> member_of d oid c = Inr (g oid)"
  by (simp add: member_of_def lookupE_def map_of_map_pair)

lemma poly_hd: "length f = t \<Longrightarrow> 0 < t \<Longrightarrow> poly r f 0 = hd f mod r"
  by (cases f) simp_all

section \<open>Contributions\<close>

lemma finish_run:
  assumes ok: "bls_ok (cp_bls C) r t K P Sg" and G: "polys_ok r t f G" "G \<noteq> []"
    and tbl: "table_of d c = Inr (table_after r K P f d G (set G))"
  shows "finish_dkg C d c = (Inr (), c\<lparr>
      cs_secret_keys := AList.update d (K (poly r (group_poly t f G) (scalar r d))) (cs_secret_keys c),
      cs_group_key := P (poly r (group_poly t f G) 0)\<rparr>)"
proof -
  let ?ns = "map (\<lambda>oid. poly r (f oid) (scalar r d)) G"
  have shares: "map (\<lambda>(_, m). the (m_share m)) (table_after r K P f d G (set G)) = map K ?ns"
    by (simp add: entry_def contrib_of_def)
  have vvecs: "map (\<lambda>(_, m). the (m_vvec m)) (table_after r K P f d G (set G)) = map (map P) (map f G)"
    by (simp add: entry_def)
  have len: "\<forall>g \<in> set (map f G). length g = t" and small: "\<forall>g \<in> set (map f G). hd g < r"
    using G(1) bls_okD(2) [OF ok] by (auto simp: polys_ok_def)
  have sk: "addContributionShares (cp_bls C) (map K ?ns) = Inr (K (poly r (group_poly t f G) (scalar r d)))"
    using add_shares [OF ok, of ?ns] poly_psum [OF len, of r "scalar r d"] G(2) poly_less bls_okD(1) [OF ok]
    by (auto simp: group_poly_def comp_def)
  have "sum_list (map hd (map f G)) mod r = poly r (group_poly t f G) 0"
  proof -
    have "map (\<lambda>g. poly r g 0) (map f G) = map hd (map f G)"
      using len small poly_hd [of _ t r] bls_okD(2) [OF ok] by (intro map_cong) auto
    with poly_psum [OF len, of r 0] show ?thesis by (simp only: group_poly_def)
  qed
  then obtain g where g: "addVerificationVectors (cp_bls C) (map (map P) (map f G)) = Inr g"
      "py_nth g 0 = Inr (Some (P (poly r (group_poly t f G) 0)))"
    using add_verification_vectors [OF ok, of "map f G"] len small G(2) by auto
  show ?thesis
    using sk g bls_okD(4,5) [OF ok]
    by (simp add: finish_dkg_def tbl shares vvecs bindM_def del: map_map)
qed

lemma received_entry: "bls_ok B r t K P Sg \<Longrightarrow> received (entry r K P f d S oid) \<longleftrightarrow> oid \<in> S"
  by (simp add: received_def entry_def contrib_of_def bls_okD(4))

lemma contribution_run:
  assumes ok: "bls_ok (cp_bls C) r t K P Sg" and G: "polys_ok r t f G" "d \<in> set G" "oid \<in> set G" "oid \<notin> S"
    and tbl: "table_of d c = Inr (table_after r K P f d G S)"
  obtains c1 where "table_of d c1 = Inr (table_after r K P f d G (insert oid S))"
    "cs_secret_keys c1 = cs_secret_keys c" "cs_group_key c1 = cs_group_key c"
    "verify_dkg_contribution C (honest r K P f d oid) c =
       (if set G \<subseteq> insert oid S then finish_dkg C d c1 else (Inr (), c1))"
proof
  let ?m = "entry r K P f d S"
  let ?upd = "AList.update oid ((?m oid)\<lparr>m_share := Some (contrib_of r K f d oid), m_vvec := Some (map P (f oid))\<rparr>)"
  let ?c1 = "set_table d ?upd c"
  have "?upd (table_after r K P f d G S) = table_after r K P f d G (insert oid S)"
    using G by (subst update_map_pair) (auto simp: polys_ok_def entry_def)
  then show t1: "table_of d ?c1 = Inr (table_after r K P f d G (insert oid S))"
    using table_of_set_table [OF tbl, of ?upd] by simp
  show "cs_secret_keys ?c1 = cs_secret_keys c" "cs_group_key ?c1 = cs_group_key c"
    by (simp_all add: set_table_def)
  have "verifyContributionShare (cp_bls C) (m_id (?m d)) (contrib_of r K f d oid) (map P (f oid))"
    using verify_contribution [OF ok, of "poly r (f oid) (scalar r d)"] poly_less bls_okD(1) [OF ok]
    by (simp add: entry_def contrib_of_def)
  moreover have "allSharesReceived d ?c1 = Inr (set G \<subseteq> insert oid S)"
    using t1 received_entry [OF ok] by (auto simp: allSharesReceived_def list_all_iff)
  moreover have "m_share (?m oid) = None" using G(4) by (simp add: entry_def)
  ultimately show "verify_dkg_contribution C (honest r K P f d oid) c =
      (if set G \<subseteq> insert oid S then finish_dkg C d ?c1 else (Inr (), ?c1))"
    using member_of_table [OF tbl G(2)] member_of_table [OF tbl G(3)]
    by (simp add: verify_dkg_contribution_def honest_def bindM_def Let_def)
qed

lemma contributions_run:
  assumes "bls_ok (cp_bls C) r t K P Sg" "polys_ok r t f G" "d \<in> set G"
    and "table_of d c = Inr (table_after r K P f d G S)"
    and "distinct os" "set os \<inter> S = {}" "set G = S \<union> set os" "os \<noteq> []"
  shows "\<exists>c'. forM os (\<lambda>oid. verify_dkg_contribution C (honest r K P f d oid)) c = (Inr (), c') \<and>
    cs_secret_keys c' = AList.update d (K (poly r (group_poly t f G) (scalar r d))) (cs_secret_keys c) \<and>
    cs_group_key c' = P (poly r (group_poly t f G) 0) \<and> allSharesReceived d c' = Inr True"
  using assms(4-8)
proof (induction os arbitrary: c S)
  case (Cons oid os)
  have oid: "oid \<in> set G" "oid \<notin> S" using Cons.prems by auto
  obtain c1 where c1: "table_of d c1 = Inr (table_after r K P f d G (insert oid S))"
      "cs_secret_keys c1 = cs_secret_keys c" "cs_group_key c1 = cs_group_key c"
    and run: "verify_dkg_contribution C (honest r K P f d oid) c =
      (if set G \<subseteq> insert oid S then finish_dkg C d c1 else (Inr (), c1))"
    by (rule contribution_run [OF assms(1-3) oid Cons.prems(1)])
  show ?case
  proof (cases os)
    case Nil
    then have full: "insert oid S = set G" using Cons.prems by auto
    have fin: "finish_dkg C d c1 = (Inr (), c1\<lparr>
        cs_secret_keys := AList.update d (K (poly r (group_poly t f G) (scalar r d))) (cs_secret_keys c1),
        cs_group_key := P (poly r (group_poly t f G) 0)\<rparr>)" (is "_ = (_, ?c2)")
      by (rule finish_run [OF assms(1,2)]) (use oid c1(1) full in auto)
    have "table_of d ?c2 = Inr (table_after r K P f d G (set G))"
      using c1(1) full by (simp add: table_of_def members_of_def)
    then have "allSharesReceived d ?c2 = Inr True"
      using received_entry [OF assms(1)] by (auto simp: allSharesReceived_def list_all_iff)
    with fin run full Nil c1(2) show ?thesis by (simp add: bindM_def)
  next
    case (Cons o' os')
    then have "\<not> set G \<subseteq> insert oid S" using Cons.prems by auto
    with run have step: "verify_dkg_contribution C (honest r K P f d oid) c = (Inr (), c1)" by simp
    from Cons.IH [OF c1(1)] Cons.prems Cons show ?thesis
      using step c1(2) by (auto simp: bindM_def)
  qed
qed simp

text \<open>The table that \<open>new_dkg\<close> makes for an identity before the contributions.\<close>

lemma update_new: "y \<notin> fst ` set xs \<Longrightarrow> AList.update y v xs = xs @ [(y, v)]"
  by (induction xs) auto

lemma add_members_loop:
  assumes ok: "bls_ok (cp_bls C) r t K P Sg"
    and "table_of d c = Inr (table_after r K P f d pre {})" "distinct (pre @ G)"
  shows "\<exists>c1. forM G (\<lambda>oid. bindM (liftE (new_member (cp_bls C) oid)) (\<lambda>m. modifyM (set_table d (AList.update oid m)))) c =
      (Inr (), c1) \<and> table_of d c1 = Inr (table_after r K P f d (pre @ G) {})"
  using assms(2,3)
proof (induction G arbitrary: pre c)
  case (Cons oid G)
  have m: "new_member (cp_bls C) oid = Inr (entry r K P f d {} oid)"
    using bls_okD(3) [OF ok, of "adler32 oid"] bls_okD(4) [OF ok] by (simp add: new_member_def entry_def scalar_def)
  let ?c1 = "set_table d (AList.update oid (entry r K P f d {} oid)) c"
  have "table_of d ?c1 = Inr (table_after r K P f d (pre @ [oid]) {})"
    using table_of_set_table [OF Cons.prems(1)] Cons.prems(2) by (simp add: update_new image_image)
  with Cons.IH [of ?c1 "pre @ [oid]"] Cons.prems(2) m show ?case
    by (auto simp: bindM_def)
qed simp

lemma add_members_run:
  assumes "bls_ok (cp_bls C) r t K P Sg" "distinct G" "cs_members c = Some ms"
  shows "\<exists>c1. add_members C G d c = (Inr (), c1) \<and> table_of d c1 = Inr (table_after r K P f d G {})"
proof -
  have "table_of d (set_table d (\<lambda>_. []) c) = Inr (table_after r K P f d [] {})"
    using assms(3) by (simp add: table_of_def members_of_def set_table_def lookupE_def update_conv)
  from add_members_loop [OF assms(1) this, of G] assms(2) show ?thesis
    by (auto simp: add_members_def bindM_def)
qed

section \<open>Signature shares\<close>

text \<open>The first table of the node knows the identifiers of the members in \<open>os\<close>.\<close>

definition knows_ids :: "nat \<Rightarrow> (nat \<Rightarrow> string) \<Rightarrow> string list \<Rightarrow> consensus \<Rightarrow> bool" where
  "knows_ids r K os c \<longleftrightarrow> (\<exists>node tbl ms. cs_members c = Some ((node, tbl) # ms) \<and>
     (\<forall>oid \<in> set os. \<exists>m. map_of tbl oid = Some m \<and> m_id m = K (scalar r oid)))"

text \<open>The share that \<open>oid\<close> makes of a message with its point on the polynomial \<open>F\<close>.\<close>

definition honest_share :: "cparams \<Rightarrow> nat \<Rightarrow> (string \<Rightarrow> nat \<Rightarrow> string) \<Rightarrow> nat list \<Rightarrow> string \<Rightarrow> nat \<Rightarrow> string \<Rightarrow> share" where
  "honest_share C r Sg F msg n oid =
     \<lparr>sh_source = oid, sh_signature = Sg (cp_sha C msg) (poly r F (scalar r oid)), sh_block_number = n\<rparr>"

lemma store_share_run:
  assumes "knows_ids r K os c" "sh_source sh \<in> set os"
  shows "store_share C sh msg n c =
    (if K (scalar r (sh_source sh)) \<in> set (cs_shares_ids c) \<or> cs_verified c then (Inr False, c)
     else let c1 = c\<lparr>cs_shares_ids := cs_shares_ids c @ [K (scalar r (sh_source sh))], cs_shares := cs_shares c @ [sh_signature sh]\<rparr>;
              sig = bls_recover (cp_bls C) (cs_shares_ids c1) (cs_shares c1);
              ok = bls_verify (cp_bls C) (cp_sha C msg) sig (cs_group_key c)
          in if length (cs_shares_ids c1) < cp_threshold C then (Inr False, c1)
             else if sig = [] then (Inl BlsRecoverError, c1\<lparr>cs_group_sig := sig\<rparr>)
             else if ok then (Inr True, c1\<lparr>cs_group_sig := sig, cs_verified := True, cs_random_no := cp_sha C sig\<rparr>)
             else (Inl BlsInvalidGroupSignature, c1\<lparr>cs_group_sig := sig, cs_verified := False\<rparr>))"
proof -
  obtain node tbl ms m where m: "cs_members c = Some ((node, tbl) # ms)" "map_of tbl (sh_source sh) = Some m"
      "m_id m = K (scalar r (sh_source sh))"
    using assms by (auto simp: knows_ids_def)
  then show ?thesis
    by (simp add: store_share_def members_of_def py_nth_def lookupE_def bindM_def Let_def)
qed

lemma collect_Nil [simp]: "collect_shares C [] msg n c = (Inr (), c)"
  by (simp add: collect_shares_def)

lemma collect_Cons: "store_share C sh msg n c = (Inr b, c1) \<Longrightarrow> collect_shares C (sh # shs) msg n c = collect_shares C shs msg n c1"
  by (simp add: collect_shares_def bindM_def)

lemma shares_run:
  assumes ok: "bls_ok (cp_bls C) r (cp_threshold C) K P Sg" and F: "length F = cp_threshold C"
    and ids: "\<forall>oid \<in> set all_ids. 0 < scalar r oid" "inj_on (scalar r) (set all_ids)"
    and all_ids: "distinct (pre @ os)" "set (pre @ os) \<subseteq> set all_ids" "length (pre @ os) = cp_threshold C" "os \<noteq> []"
    and c: "knows_ids r K all_ids c" "cs_shares_ids c = map (\<lambda>oid. K (scalar r oid)) pre" "\<not> cs_verified c"
      "cs_shares c = map (\<lambda>oid. Sg (cp_sha C msg) (poly r F (scalar r oid))) pre" "cs_group_key c = P (poly r F 0)"
  shows "\<exists>c'. collect_shares C (map (honest_share C r Sg F msg n) os) msg n c = (Inr (), c') \<and>
    cs_verified c' \<and> cs_group_sig c' = Sg (cp_sha C msg) (poly r F 0) \<and>
    cs_random_no c' = cp_sha C (Sg (cp_sha C msg) (poly r F 0)) \<and> cs_group_key c' = cs_group_key c"
  using all_ids c
proof (induction os arbitrary: pre c)
  case (Cons oid os)
  let ?sh = "honest_share C r Sg F msg n oid"
  have small: "scalar r o' < r" for o'
    using bls_okD(1) [OF ok] by (simp add: scalar_def nat_less_iff)
  have new: "K (scalar r oid) \<notin> set (cs_shares_ids c)"
  proof
    assume "K (scalar r oid) \<in> set (cs_shares_ids c)"
    then obtain o' where o': "o' \<in> set pre" "K (scalar r oid) = K (scalar r o')" using Cons.prems(6) by auto
    then have "scalar r oid = scalar r o'" using bls_okD(7) [OF ok] small by blast
    with o' Cons.prems(1,2) ids(2) show False by (auto dest: inj_onD)
  qed
  define c1 where "c1 = c\<lparr>cs_shares_ids := cs_shares_ids c @ [K (scalar r oid)], cs_shares := cs_shares c @ [sh_signature ?sh]\<rparr>"
  have c1: "cs_shares_ids c1 = map (\<lambda>oid. K (scalar r oid)) (pre @ [oid])"
      "cs_shares c1 = map (\<lambda>oid. Sg (cp_sha C msg) (poly r F (scalar r oid))) (pre @ [oid])"
    using Cons.prems(6,8) by (simp_all add: c1_def honest_share_def)
  have src: "sh_source ?sh = oid" by (simp add: honest_share_def)
  have run: "store_share C ?sh msg n c =
    (let sig = bls_recover (cp_bls C) (cs_shares_ids c1) (cs_shares c1);
         ok = bls_verify (cp_bls C) (cp_sha C msg) sig (cs_group_key c)
     in if length (cs_shares_ids c1) < cp_threshold C then (Inr False, c1)
        else if sig = [] then (Inl BlsRecoverError, c1\<lparr>cs_group_sig := sig\<rparr>)
        else if ok then (Inr True, c1\<lparr>cs_group_sig := sig, cs_verified := True, cs_random_no := cp_sha C sig\<rparr>)
        else (Inl BlsInvalidGroupSignature, c1\<lparr>cs_group_sig := sig, cs_verified := False\<rparr>))"
    using store_share_run [OF Cons.prems(5), of ?sh C msg n] new Cons.prems(2,7) src by (simp add: c1_def Let_def)
  show ?case
  proof (cases os)
    case Nil
    then have len: "length (map (scalar r) (pre @ [oid])) = cp_threshold C" using Cons.prems(3) by simp
    have dist: "distinct (map (scalar r) (pre @ [oid]))"
      using Cons.prems(1,2) ids(2) Nil by (auto simp: distinct_map inj_on_def)
    have pos: "\<forall>x \<in> set (map (scalar r) (pre @ [oid])). 0 < x \<and> x < r"
      using Cons.prems(2) ids(1) small Nil by auto
    have "bls_recover (cp_bls C) (cs_shares_ids c1) (cs_shares c1) = Sg (cp_sha C msg) (poly r F 0)"
      using bls_okD(16) [OF ok len dist pos F, of "cp_sha C msg"] unfolding c1 by (simp add: comp_def)
    moreover have "poly r F 0 < r" using poly_less bls_okD(1) [OF ok] by simp
    ultimately show ?thesis
      using run Nil len bls_okD(6,15) [OF ok] Cons.prems(9) c1(1) by (simp add: Let_def c1_def collect_Cons)
  next
    case (Cons o' os')
    then have "length (cs_shares_ids c1) < cp_threshold C" using Cons.prems(3) c1(1) by simp
    with run have step: "store_share C ?sh msg n c = (Inr False, c1)" by simp
    have "knows_ids r K all_ids c1" "\<not> cs_verified c1" "cs_group_key c1 = P (poly r F 0)"
      using Cons.prems(5,7,9) by (simp_all add: c1_def knows_ids_def)
    then have "\<exists>c'. collect_shares C (map (honest_share C r Sg F msg n) os) msg n c1 = (Inr (), c') \<and>
        cs_verified c' \<and> cs_group_sig c' = Sg (cp_sha C msg) (poly r F 0) \<and>
        cs_random_no c' = cp_sha C (Sg (cp_sha C msg) (poly r F 0)) \<and> cs_group_key c' = cs_group_key c1"
      using Cons.prems c1 Cons by (intro Cons.IH [of "pre @ [oid]"]) auto
    moreover have "cs_group_key c1 = cs_group_key c" by (simp add: c1_def)
    ultimately show ?thesis using collect_Cons [OF step] by simp
  qed
qed simp

section \<open>A BLS program\<close>

text \<open>A scheme with threshold 1, for the witnesses: keys are numbers modulo \<open>2 ^ 61 - 1\<close>, written with
  a letter for their kind.\<close>

abbreviation order_ref :: nat where
  "order_ref \<equiv> 2305843009213693951"

definition key_ref :: "char \<Rightarrow> nat \<Rightarrow> string" where
  "key_ref k a = k # be_bytes a"

definition num_ref :: "string \<Rightarrow> nat" where
  "num_ref s = be_val (tl s)"

definition bls_ref :: bls where
  "bls_ref = \<lparr>bls_id_keys = (\<lambda>n. (key_ref (CHR ''k'') (nat (n mod int order_ref)), key_ref (CHR ''p'') (nat (n mod int order_ref)))),
     bls_secret_share = (\<lambda>x cs. key_ref (CHR ''k'') (poly order_ref (map num_ref cs) (num_ref x))),
     bls_public_share = (\<lambda>x cs. key_ref (CHR ''p'') (poly order_ref (map num_ref cs) (num_ref x))),
     bls_get_public = (\<lambda>k. key_ref (CHR ''p'') (num_ref k)), bls_eq_public = (=),
     bls_secret_add = (\<lambda>a b. key_ref (CHR ''k'') ((num_ref a + num_ref b) mod order_ref)),
     bls_public_add = (\<lambda>a b. key_ref (CHR ''p'') ((num_ref a + num_ref b) mod order_ref)),
     bls_sign = (\<lambda>m k. key_ref (CHR ''s'') (num_ref k)), bls_verify = (\<lambda>m sg p. num_ref sg = num_ref p),
     bls_recover = (\<lambda>ids sigs. hd sigs)\<rparr>"

lemma num_key_ref [simp]: "num_ref (key_ref k a) = a"
  by (simp add: num_ref_def key_ref_def)

lemma key_ref_inject: "key_ref k a = key_ref k b \<longleftrightarrow> a = b"
  by (metis num_key_ref)

lemma bls_ref_ok: "bls_ok bls_ref order_ref 1 (key_ref (CHR ''k'')) (key_ref (CHR ''p'')) (\<lambda>m. key_ref (CHR ''s''))"
proof -
  have "hd (map (\<lambda>x. key_ref (CHR ''s'') (poly order_ref cs x)) xs) = key_ref (CHR ''s'') (poly order_ref cs 0)"
    if "length xs = 1" "length cs = 1" for xs cs
    using that by (auto simp: length_Suc_conv)
  then show ?thesis
    by (simp add: bls_ok_def bls_ref_def key_ref_inject comp_def) (simp add: key_ref_def)
qed

lemma adler_zeros:
  "foldl (\<lambda>(a, b) c. ((a + of_char c) mod 65521, (b + a + of_char c) mod 65521)) (1, b mod 65521) (replicate n (CHR 0x00)) =
   (1 :: int, (b + int n) mod 65521)"
proof (induction n arbitrary: b)
  case (Suc n)
  have "(b mod 65521 + 1) mod 65521 = (b + 1) mod 65521" by (simp add: mod_simps)
  with Suc [of "b + 1"] show ?case by (simp add: algebra_simps)
qed simp

lemmas adler_padded = adler_zeros [of 0, simplified]

definition cparams_ref :: cparams where
  "cparams_ref = \<lparr>cp_bls = bls_ref, cp_sha = hex_encode, cp_threshold = 1, cp_ipaddress = ipaddress_ref\<rparr>"

abbreviation member_a :: string where
  "member_a \<equiv> replicate 19 (CHR 0x00) @ [CHR 0x01]"

abbreviation member_b :: string where
  "member_b \<equiv> replicate 19 (CHR 0x00) @ [CHR 0x02]"

abbreviation polys_ref :: "string \<Rightarrow> nat list" where
  "polys_ref \<equiv> \<lambda>oid. [of_char (last oid)]"

abbreviation consensus_ref :: "(string \<times> table) list \<Rightarrow> consensus" where
  "consensus_ref ms \<equiv> \<lparr>cs_dkg_group = [member_a, member_b], cs_own_ids = [member_a], cs_random_no = [], cs_secret_keys = [],
     cs_group_key = [], cs_group_sig = [], cs_shares = [], cs_shares_ids = [], cs_msg = [], cs_verified = False,
     cs_next_signer = None, cs_previous_group_key = [], cs_members = Some ms\<rparr>"

section \<open>Properties\<close>

text \<open>C25. Key generation succeeds: when the table of an identity \<open>d\<close> has been set up for the group and \<open>d\<close> has
  received from every member, itself included and in any order, the contribution that the member's
  polynomial gives, nothing has been raised, all shares
  count as received, and \<open>d\<close> holds its point on the sum of the polynomials and the public key of the
  value at 0. The latter does not depend on \<open>d\<close>: all members agree on the group key.\<close>

theorem dkg_reaches_agreement:
  assumes "bls_ok (cp_bls C) r t K P Sg" "polys_ok r t f G" "d \<in> set G" "cs_members c = Some ms"
    and "distinct os" "set os = set G"
  shows "\<exists>c'. bindM (add_members C G d) (\<lambda>_. forM os (\<lambda>oid. verify_dkg_contribution C (honest r K P f d oid))) c = (Inr (), c') \<and>
    allSharesReceived d c' = Inr True \<and>
    map_of (cs_secret_keys c') d = Some (K (poly r (group_poly t f G) (scalar r d))) \<and>
    cs_group_key c' = P (poly r (group_poly t f G) 0)"
proof -
  have os: "set os \<inter> {} = {}" "set G = {} \<union> set os" "os \<noteq> []" using assms(3,6) by auto
  have "distinct G" using assms(2) by (simp add: polys_ok_def)
  from add_members_run [OF assms(1) this assms(4)] obtain c1 where c1: "add_members C G d c = (Inr (), c1)"
      "table_of d c1 = Inr (table_after r K P f d G {})" by blast
  show ?thesis
    using contributions_run [OF assms(1-3) c1(2) assms(5) os] c1(1) by (auto simp: update_conv bindM_def)
qed

theorem dkg_reaches_agreement_witness:
  "\<exists>c'. bindM (add_members cparams_ref [member_a, member_b] member_a) (\<lambda>_. forM [member_b, member_a]
        (\<lambda>oid. verify_dkg_contribution cparams_ref
          (honest order_ref (key_ref (CHR ''k'')) (key_ref (CHR ''p'')) polys_ref member_a oid))) (consensus_ref []) =
      (Inr (), c') \<and> cs_group_key c' = key_ref (CHR ''p'') 3"
proof -
  have ok: "bls_ok (cp_bls cparams_ref) order_ref 1 (key_ref (CHR ''k'')) (key_ref (CHR ''p'')) (\<lambda>m. key_ref (CHR ''s''))"
    using bls_ref_ok by (simp add: cparams_ref_def)
  have g: "polys_ok order_ref 1 polys_ref [member_a, member_b]" by (simp add: polys_ok_def)
  have "poly order_ref (group_poly 1 polys_ref [member_a, member_b]) 0 = 3"
    by (simp add: group_poly_def padd_def)
  moreover have "cs_members (consensus_ref []) = Some []" by simp
  ultimately show ?thesis
    using dkg_reaches_agreement [OF ok g, of member_a "consensus_ref []" "[]" "[member_b, member_a]"] by fastforce
qed

text \<open>A contribution that does not verify has no effect: the slot of its sender stays empty, so the
  key generation cannot finish with it, and a correct contribution is still accepted.\<close>

theorem invalid_contribution_ignored:
  assumes "member_of (ds_to d) (ds_source d) c = Inr m" "m_share m = None" "member_of (ds_to d) (ds_to d) c = Inr s"
    and "\<not> verifyContributionShare (cp_bls C) (m_id s) (ds_contrib d) (ds_vvec d)"
  shows "verify_dkg_contribution C d c = (Inr (), c)"
proof -
  obtain t where t: "table_of (ds_to d) c = Inr t" "map_of t (ds_source d) = Some m"
    using assms(1) by (auto simp: member_of_def bindE_eq_Inr lookupE_def split: option.splits)
  then have "(ds_source d, m) \<in> set t" "\<not> received m"
    using assms(2) by (auto dest: map_of_SomeD simp: received_def)
  with t(1) have "allSharesReceived (ds_to d) c = Inr False"
    by (force simp: allSharesReceived_def list_all_iff)
  with assms show ?thesis
    by (simp add: verify_dkg_contribution_def bindM_def Let_def)
qed

theorem invalid_contribution_ignored_witness:
  "verify_dkg_contribution cparams_ref \<lparr>ds_source = member_b, ds_to = member_a, ds_contrib = ''kx'', ds_vvec = [''p'']\<rparr>
     (consensus_ref [(member_a, table_after order_ref (key_ref (CHR ''k'')) (key_ref (CHR ''p'')) polys_ref member_a [member_a, member_b] {})]) =
   (Inr (), consensus_ref [(member_a, table_after order_ref (key_ref (CHR ''k'')) (key_ref (CHR ''p'')) polys_ref member_a [member_a, member_b] {})])"
proof (rule invalid_contribution_ignored)
  let ?c = "consensus_ref [(member_a, table_after order_ref (key_ref (CHR ''k'')) (key_ref (CHR ''p'')) polys_ref member_a [member_a, member_b] {})]"
  let ?d = "\<lparr>ds_source = member_b, ds_to = member_a, ds_contrib = ''kx'', ds_vvec = [''p'']\<rparr>"
  let ?m = "\<lambda>oid. entry order_ref (key_ref (CHR ''k'')) (key_ref (CHR ''p'')) polys_ref member_a {} oid"
  show "member_of (ds_to ?d) (ds_source ?d) ?c = Inr (?m member_b)" "member_of (ds_to ?d) (ds_to ?d) ?c = Inr (?m member_a)"
    by (simp_all add: member_of_def table_of_def members_of_def lookupE_def)
  show "m_share (?m member_b) = None" by (simp add: entry_def)
  show "\<not> verifyContributionShare (cp_bls cparams_ref) (m_id (?m member_a)) (ds_contrib ?d) (ds_vvec ?d)"
    by (simp add: verifyContributionShare_def cparams_ref_def bls_ref_def key_ref_inject num_ref_def)
qed



text \<open>The identifier of a member is the Adler checksum of its address, which different addresses can
  share: then, once the share of one of the two has been stored, the share of the other is dropped.\<close>

theorem colliding_address_ignored:
  assumes "new_member (cp_bls C) a = Inr ma" "new_member (cp_bls C) b = Inr mb" "adler32 a = adler32 b"
    and "cs_members c = Some ((node, tbl) # ms)" "map_of tbl a = Some ma" "map_of tbl b = Some mb"
    and "store_share C \<lparr>sh_source = a, sh_signature = sa, sh_block_number = n\<rparr> msg n c = (Inr r, c1)"
  shows "store_share C \<lparr>sh_source = b, sh_signature = sb, sh_block_number = n\<rparr> msg n c1 = (Inr False, c1)"
proof -
  have same: "m_id ma = m_id mb"
    using assms(1-3) by (auto simp: new_member_def Let_def split: if_splits)
  have mem: "cs_members c1 = cs_members c" and dup: "m_id ma \<in> set (cs_shares_ids c1) \<or> cs_verified c1"
    using assms(4,5,7)
    by (auto simp: store_share_def members_of_def py_nth_def lookupE_def bindM_def Let_def split: if_splits)
  show ?thesis
    using mem dup same assms(4,6) by (auto simp: store_share_def members_of_def py_nth_def lookupE_def bindM_def)
qed

abbreviation twin_a :: string where
  "twin_a \<equiv> replicate 17 (CHR 0x00) @ [CHR 0x01, CHR 0x00, CHR 0x01]"

abbreviation twin_b :: string where
  "twin_b \<equiv> replicate 17 (CHR 0x00) @ [CHR 0x00, CHR 0x02, CHR 0x00]"

theorem colliding_address_ignored_witness:
  "twin_a \<noteq> twin_b \<and> (\<exists>ma mb c1.
     store_share (cparams_ref\<lparr>cp_threshold := 2\<rparr>) \<lparr>sh_source = twin_a, sh_signature = ''x'', sh_block_number = 7\<rparr> ''m'' 7
       (consensus_ref [(twin_a, [(twin_a, ma), (twin_b, mb)])]) = (Inr False, c1) \<and>
     store_share (cparams_ref\<lparr>cp_threshold := 2\<rparr>) \<lparr>sh_source = twin_b, sh_signature = ''y'', sh_block_number = 7\<rparr> ''m'' 7 c1 = (Inr False, c1))"
proof -
  let ?C = "cparams_ref\<lparr>cp_threshold := 2\<rparr>"
  have same: "adler32 twin_a = adler32 twin_b" by (simp add: adler32_def adler_padded)
  obtain ma mb where m: "new_member (cp_bls ?C) twin_a = Inr ma" "new_member (cp_bls ?C) twin_b = Inr mb"
    by (auto simp: new_member_def cparams_ref_def bls_ref_def key_ref_def)
  let ?c = "consensus_ref [(twin_a, [(twin_a, ma), (twin_b, mb)])]"
  have run: "store_share ?C \<lparr>sh_source = twin_a, sh_signature = ''x'', sh_block_number = 7\<rparr> ''m'' 7 ?c =
      (Inr False, ?c\<lparr>cs_shares_ids := [m_id ma], cs_shares := [''x'']\<rparr>)"
    by (simp add: store_share_def members_of_def py_nth_def lookupE_def bindM_def)
  have "store_share ?C \<lparr>sh_source = twin_b, sh_signature = ''y'', sh_block_number = 7\<rparr> ''m'' 7
      (?c\<lparr>cs_shares_ids := [m_id ma], cs_shares := [''x'']\<rparr>) = (Inr False, ?c\<lparr>cs_shares_ids := [m_id ma], cs_shares := [''x'']\<rparr>)"
    by (rule colliding_address_ignored [OF m same _ _ _ run, of twin_a "[(twin_a, ma), (twin_b, mb)]" "[]"]) simp_all
  with run show ?thesis by force
qed

text \<open>The collected shares stay consistent, whatever \<open>store_share\<close> is given and whether it returns or
  raises: there is one signature per identifier and no identifier twice.\<close>

definition shares_inv :: "consensus \<Rightarrow> bool" where
  "shares_inv c \<longleftrightarrow> distinct (cs_shares_ids c) \<and> length (cs_shares c) = length (cs_shares_ids c)"

lemma store_share_inv: "shares_inv c \<Longrightarrow> store_share C sh msg n c = (res, c') \<Longrightarrow> shares_inv c'"
  by (auto simp: store_share_def bindM_def shares_inv_def Let_def split: sum.splits if_splits)

theorem collected_shares_consistent:
  assumes "collect_shares C shs msg n (reset_bls c) = (res, c')"
  shows "distinct (cs_shares_ids c') \<and> length (cs_shares c') = length (cs_shares_ids c')"
proof -
  have "shares_inv (reset_bls c)" by (simp add: shares_inv_def reset_bls_def)
  then have "shares_inv c'"
    using assms unfolding collect_shares_def
    by (rule forM_invariant [rotated])
      (auto simp: bindM_def dest: store_share_inv split: prod.splits sum.splits)
  then show ?thesis by (simp add: shares_inv_def)
qed

theorem collected_shares_consistent_witness:
  "distinct (cs_shares_ids (snd (collect_shares cparams_ref
     [\<lparr>sh_source = member_b, sh_signature = ''x'', sh_block_number = 7\<rparr>] ''m'' 7 (reset_bls (consensus_ref [])))))"
  using collected_shares_consistent [of cparams_ref "[\<lparr>sh_source = member_b, sh_signature = ''x'', sh_block_number = 7\<rparr>]" "''m''" 7 "consensus_ref []"]
  by (metis prod.collapse)

end
