(* ===== verification/ShareCache.thy ===== *)
theory ShareCache
  imports ConsensusCorrect
begin

text \<open>
  The cache of the shares a node has seen, \<open>share_cache.py\<close>, with the shares for blocks that have not
  arrived yet, and the loop of \<open>blockchaincba.py\<close> that hands them to the consensus when the block is
  there. The clock is an argument: \<open>now\<close> and \<open>now'\<close> are the two readings of \<open>time.time()\<close>.
\<close>

record share_cache =
  sc_dkg :: "string list"
  sc_bls :: "string list"
  sc_future :: "(nat \<times> share list) list"
  sc_last_clear :: int

definition clearing_interval :: int where
  "clearing_interval = 100000"

definition share_cache_init :: "int \<Rightarrow> share_cache" where
  "share_cache_init now = \<lparr>sc_dkg = [], sc_bls = [], sc_future = [], sc_last_clear = now\<rparr>"

definition in_dkg_cache :: "dkg_share \<Rightarrow> share_cache \<Rightarrow> bool" where
  "in_dkg_cache d k \<longleftrightarrow> ds_contrib d \<in> set (sc_dkg k)"

definition in_bls_cache :: "share \<Rightarrow> share_cache \<Rightarrow> bool" where
  "in_bls_cache s k \<longleftrightarrow> sh_signature s \<in> set (sc_bls k)"

definition clear_expired :: "int \<Rightarrow> int \<Rightarrow> share_cache \<Rightarrow> share_cache" where
  "clear_expired now now' k =
     (if now > sc_last_clear k + clearing_interval
      then k\<lparr>sc_bls := [], sc_dkg := [], sc_last_clear := now'\<rparr> else k)"

definition store_dkg :: "int \<Rightarrow> int \<Rightarrow> dkg_share \<Rightarrow> share_cache \<Rightarrow> share_cache" where
  "store_dkg now now' d k = (let k' = clear_expired now now' k in k'\<lparr>sc_dkg := sc_dkg k' @ [ds_contrib d]\<rparr>)"

definition store_bls :: "int \<Rightarrow> int \<Rightarrow> share \<Rightarrow> share_cache \<Rightarrow> share_cache" where
  "store_bls now now' s k = (let k' = clear_expired now now' k in k'\<lparr>sc_bls := sc_bls k' @ [sh_signature s]\<rparr>)"

definition store_future_bls :: "share \<Rightarrow> share_cache \<Rightarrow> share_cache" where
  "store_future_bls s k =
     (case map_of (sc_future k) (sh_block_number s) of
        Some shs \<Rightarrow> k\<lparr>sc_future := AList.update (sh_block_number s) (shs @ [s]) (sc_future k)\<rparr>
      | None \<Rightarrow> k\<lparr>sc_future := AList.update (sh_block_number s) [s] (sc_future k)\<rparr>)"

definition pending_future_bls :: "nat \<Rightarrow> share_cache \<Rightarrow> bool" where
  "pending_future_bls n k = (case map_of (sc_future k) n of Some shs \<Rightarrow> length shs > 0 | None \<Rightarrow> False)"

definition get_future_bls :: "nat \<Rightarrow> share_cache \<Rightarrow> (share \<times> share_cache) res" where
  "get_future_bls n k =
     (case map_of (sc_future k) n of
        None \<Rightarrow> Inl KeyError
      | Some shs \<Rightarrow> if shs = [] then Inl IndexError
          else Inr (last shs, k\<lparr>sc_future := AList.update n (butlast shs) (sc_future k)\<rparr>))"

text \<open>\<open>while cache.pending_future_bls(block_num): consensus.store_share(cache.get_future_bls(block_num), msg, block_num)\<close>.\<close>

definition future_of :: "nat \<Rightarrow> share_cache \<Rightarrow> share list" where
  "future_of n k = (case map_of (sc_future k) n of Some shs \<Rightarrow> shs | None \<Rightarrow> [])"

lemma get_future_shrinks: "get_future_bls n k = Inr (sh, k') \<Longrightarrow> length (future_of n k') < length (future_of n k)"
  by (auto simp: get_future_bls_def future_of_def update_conv split: option.splits if_splits)

function drain_future :: "cparams \<Rightarrow> string \<Rightarrow> nat \<Rightarrow> share_cache \<times> consensus \<Rightarrow> unit res \<times> share_cache \<times> consensus" where
  "drain_future C msg n (k, c) =
     (if pending_future_bls n k
      then (case get_future_bls n k of
              Inl e \<Rightarrow> (Inl e, k, c)
            | Inr (sh, k') \<Rightarrow>
                (case store_share C sh msg n c of
                   (Inl e, c') \<Rightarrow> (Inl e, k', c')
                 | (Inr _, c') \<Rightarrow> drain_future C msg n (k', c')))
      else (Inr (), k, c))"
  by pat_completeness auto
termination
  by (relation "measure (\<lambda>(C, msg, n, k, c). length (future_of n k))") (auto dest: get_future_shrinks)

declare drain_future.simps [simp del]

section \<open>Properties\<close>

lemma pending_future_of: "pending_future_bls n k \<longleftrightarrow> future_of n k \<noteq> []"
  by (simp add: pending_future_bls_def future_of_def split: option.split)

lemma get_future_of:
  "future_of n k = shs @ [sh] \<Longrightarrow>
   get_future_bls n k = Inr (sh, k\<lparr>sc_future := AList.update n shs (sc_future k)\<rparr>)"
  by (auto simp: get_future_bls_def future_of_def split: option.splits)

lemma drain_future_collect:
  "drain_future C msg n (k, c) = (r, k', c') \<Longrightarrow> collect_shares C (rev (future_of n k)) msg n c = (r, c') \<and>
     (r = Inr () \<longrightarrow> \<not> pending_future_bls n k')"
proof (induction C msg n "(k, c)" arbitrary: k c rule: drain_future.induct)
  case (1 C msg n k c)
  show ?case
  proof (cases "future_of n k" rule: rev_cases)
    case Nil
    with 1(2) show ?thesis
      by (simp add: drain_future.simps pending_future_of collect_shares_def)
  next
    case (snoc shs sh)
    let ?k = "k\<lparr>sc_future := AList.update n shs (sc_future k)\<rparr>"
    have fut: "future_of n ?k = shs" by (simp add: future_of_def update_conv)
    obtain res c1 where st: "store_share C sh msg n c = (res, c1)" by (cases "store_share C sh msg n c")
    show ?thesis
    proof (cases res)
      case (Inl e)
      with 1(2) snoc st show ?thesis
        by (auto simp: drain_future.simps [of C msg n k] pending_future_of get_future_of collect_shares_def bindM_def)
    next
      case (Inr b)
      with 1(2) snoc st have "drain_future C msg n (?k, c1) = (r, k', c')"
        by (simp add: drain_future.simps [of C msg n k] pending_future_of get_future_of)
      then have "collect_shares C (rev (future_of n ?k)) msg n c1 = (r, c') \<and> (r = Inr () \<longrightarrow> \<not> pending_future_bls n k')"
        by (rule 1(1) [rotated -1]) (use snoc st Inr in \<open>(simp add: pending_future_of get_future_of | rule sym)+\<close>)
      then have "collect_shares C (rev shs) msg n c1 = (r, c') \<and> (r = Inr () \<longrightarrow> \<not> pending_future_bls n k')"
        unfolding fut .
      with snoc st Inr show ?thesis
        by (simp add: collect_shares_def bindM_def)
    qed
  qed
qed

text \<open>C29. The loop over the saved shares ends, for every cache: it hands exactly the shares that were
  saved for the block to the consensus, the last saved first, until one of them raises; when none does
  nothing is left for that block.\<close>

theorem saved_shares_drained:
  "\<exists>k' c'. drain_future C msg n (k, c) = (fst (collect_shares C (rev (future_of n k)) msg n c), k', c') \<and>
     c' = snd (collect_shares C (rev (future_of n k)) msg n c) \<and>
     (fst (collect_shares C (rev (future_of n k)) msg n c) \<noteq> Inr () \<or> \<not> pending_future_bls n k')"
proof -
  obtain r k' c' where d: "drain_future C msg n (k, c) = (r, k', c')" by (cases "drain_future C msg n (k, c)") auto
  from drain_future_collect [OF d] show ?thesis by (auto simp: d)
qed

theorem saved_shares_drained_witness:
  "\<exists>k' c'. drain_future cparams_ref ''m'' 7
      (store_future_bls \<lparr>sh_source = member_b, sh_signature = ''x'', sh_block_number = 7\<rparr> (share_cache_init 0), consensus_ref []) =
      (Inl IndexError, k', c')"
  using saved_shares_drained [of cparams_ref "''m''" 7
      "store_future_bls \<lparr>sh_source = member_b, sh_signature = ''x'', sh_block_number = 7\<rparr> (share_cache_init 0)" "consensus_ref []"]
  by (auto simp: store_future_bls_def share_cache_init_def future_of_def collect_shares_def bindM_def store_share_def
      members_of_def py_nth_def)

end
