(* ===== verification/MapReply.thy ===== *)
theory MapReply
  imports Pyutils
begin

text \<open>
  The answers to map requests, \<open>map_reply.py\<close>: locator records, map-reply records, lists of map
  servers, and the response that carries one of the two behind a nonce. Each is written as a bit
  string, big-endian and at fixed widths, with the library \<open>bitstring\<close>; \<open>BitArray('uint:w=v')\<close>
  and \<open>.bytes\<close> are the two fields of a parameter record. Its \<open>CreationError\<close>, raised when a
  number does not fit its width, is a \<open>ValueError\<close>. The reader of the format (\<open>read_response\<close>)
  is the specification: a receiver that follows it finds the fields that were written.
\<close>

section \<open>The bit string library\<close>

record bitlib =
  bl_uint :: "nat \<Rightarrow> int \<Rightarrow> bool list res"
  bl_bytes :: "bool list \<Rightarrow> string res"

definition bits_to_bytes :: "bool list \<Rightarrow> string" where
  "bits_to_bytes bs = map (\<lambda>c. char_of (bits_val c)) (chunks 8 bs)"

definition bytes_to_bits :: "string \<Rightarrow> bool list" where
  "bytes_to_bits s = concat (map (\<lambda>c. be_bits 8 (of_char c)) s)"

text \<open>What the documentation of \<open>bitstring\<close> promises.\<close>

definition bitlib_ok :: "bitlib \<Rightarrow> bool" where
  "bitlib_ok B \<longleftrightarrow>
     (\<forall>w v. 0 < w \<longrightarrow> bl_uint B w v = (if 0 \<le> v \<and> v < 2 ^ w then Inr (be_bits w (nat v)) else Inl ValueError)) \<and>
     (\<forall>bs. length bs mod 8 = 0 \<longrightarrow> bl_bytes B bs = Inr (bits_to_bytes bs))"

section \<open>The records and their bit strings\<close>

text \<open>\<open>bitstream += piece\<close>, piece by piece; the first that cannot be built raises.\<close>

fun add_bits :: "bool list res list \<Rightarrow> bool list res" where
  "add_bits [] = Inr []"
| "add_bits (p # ps) = bindE p (\<lambda>b. bindE (add_bits ps) (\<lambda>bs. Inr (b @ bs)))"

definition get_bitstream_for_afi_address :: "bitlib \<Rightarrow> ipnet option \<Rightarrow> bool list res" where
  "get_bitstream_for_afi_address B address =
     (case address of
        None \<Rightarrow> Inr (replicate 16 False)
      | Some a \<Rightarrow>
          if net_version a = 4 then add_bits [bl_uint B 16 1, bl_uint B 32 (int (net_value a))]
          else if net_version a = 6 then add_bits [bl_uint B 16 2, bl_uint B 128 (int (net_value a))]
          else Inl ValueError)"

record locator_record =
  lr_priority :: int
  lr_weight :: int
  lr_mpriority :: int
  lr_mweight :: int
  lr_unusedflags :: int
  lr_LpR :: int
  lr_locator :: "ipnet option"

definition locator_bitstream :: "bitlib \<Rightarrow> locator_record \<Rightarrow> bool list res" where
  "locator_bitstream B r = add_bits
     [bl_uint B 8 (lr_priority r), bl_uint B 8 (lr_weight r), bl_uint B 8 (lr_mpriority r),
      bl_uint B 8 (lr_mweight r), bl_uint B 13 (lr_unusedflags r), bl_uint B 3 (lr_LpR r),
      get_bitstream_for_afi_address B (lr_locator r)]"

record map_reply_record =
  mr_ttl :: int
  mr_action :: int
  mr_authoritative :: bool
  mr_map_version :: int
  mr_eid_prefix :: "ipnet option"
  mr_locators :: "locator_record list"

text \<open>\<open>MapReplyRecord(eid_prefix, locator_records)\<close> with the other arguments at their defaults.\<close>

definition map_reply_init :: "ipnet option \<Rightarrow> locator_record list \<Rightarrow> map_reply_record" where
  "map_reply_init eid locs = \<lparr>mr_ttl = 24 * 60, mr_action = 0, mr_authoritative = False, mr_map_version = 0,
     mr_eid_prefix = eid, mr_locators = locs\<rparr>"

definition map_reply_bitstream :: "bitlib \<Rightarrow> map_reply_record \<Rightarrow> bool list res" where
  "map_reply_bitstream B r = add_bits
     ([bl_uint B 32 (mr_ttl r), bl_uint B 8 (int (length (mr_locators r))),
       (case mr_eid_prefix r of None \<Rightarrow> Inl AttributeError | Some n \<Rightarrow> bl_uint B 8 (int (net_prefixlen n))),
       bl_uint B 3 (mr_action r), Inr [mr_authoritative r], Inr (replicate 16 False),
       bl_uint B 12 (mr_map_version r), get_bitstream_for_afi_address B (mr_eid_prefix r)] @
      map (\<lambda>l. case locator_bitstream B l of Inl e \<Rightarrow> Inl PyException | Inr b \<Rightarrow> Inr b) (mr_locators r))"

text \<open>\<open>afi\<close> is assigned by the two branches on the version only.\<close>

definition server_bits :: "bitlib \<Rightarrow> ipnet \<Rightarrow> bool list res" where
  "server_bits B key =
     (if net_version key = 4 then add_bits [bl_uint B 16 1, bl_uint B 32 (int (net_value key))]
      else if net_version key = 6 then add_bits [bl_uint B 16 2, bl_uint B 128 (int (net_value key))]
      else Inl NameError)"

definition map_servers_bitstream :: "bitlib \<Rightarrow> ipnet list \<Rightarrow> bool list res" where
  "map_servers_bitstream B info = add_bits (bl_uint B 8 (int (length info)) # map (server_bits B) info)"

datatype reply_info = MapServers "ipnet list" | MapReply map_reply_record

record response =
  rs_nonce :: int
  rs_info :: reply_info

definition rs_flag :: "response \<Rightarrow> int" where
  "rs_flag r = (case rs_info r of MapServers _ \<Rightarrow> 0 | MapReply _ \<Rightarrow> 1)"

definition response_bitstream :: "bitlib \<Rightarrow> response \<Rightarrow> bool list res" where
  "response_bitstream B r = add_bits
     [bl_uint B 64 (rs_nonce r), bl_uint B 8 (rs_flag r),
      (case rs_info r of MapServers i \<Rightarrow> map_servers_bitstream B i | MapReply m \<Rightarrow> map_reply_bitstream B m)]"

definition response_bytes :: "bitlib \<Rightarrow> response \<Rightarrow> string res" where
  "response_bytes B r = bindE (response_bitstream B r) (bl_bytes B)"

section \<open>Reading the format\<close>

definition read_uint :: "nat \<Rightarrow> bool list \<Rightarrow> (int \<times> bool list) option" where
  "read_uint w bs = (if length bs < w then None else Some (int (bits_val (take w bs)), drop w bs))"

definition read_address :: "bool list \<Rightarrow> (ipnet option \<times> bool list) option" where
  "read_address bs =
     Option.bind (read_uint 16 bs) (\<lambda>(afi, r).
     if afi = 0 then Some (None, r)
     else if afi = 1 then Option.bind (read_uint 32 r) (\<lambda>(v, r'). Some (Some (IPNet 4 (nat v) 32), r'))
     else if afi = 2 then Option.bind (read_uint 128 r) (\<lambda>(v, r'). Some (Some (IPNet 6 (nat v) 128), r'))
     else None)"

definition read_locator :: "bool list \<Rightarrow> (locator_record \<times> bool list) option" where
  "read_locator bs =
     Option.bind (read_uint 8 bs) (\<lambda>(p, r1). Option.bind (read_uint 8 r1) (\<lambda>(w, r2).
     Option.bind (read_uint 8 r2) (\<lambda>(mp, r3). Option.bind (read_uint 8 r3) (\<lambda>(mw, r4).
     Option.bind (read_uint 13 r4) (\<lambda>(u, r5). Option.bind (read_uint 3 r5) (\<lambda>(l, r6).
     Option.bind (read_address r6) (\<lambda>(a, r7).
     Some (\<lparr>lr_priority = p, lr_weight = w, lr_mpriority = mp, lr_mweight = mw, lr_unusedflags = u,
       lr_LpR = l, lr_locator = a\<rparr>, r7))))))))"

fun read_many :: "(bool list \<Rightarrow> ('a \<times> bool list) option) \<Rightarrow> nat \<Rightarrow> bool list \<Rightarrow> ('a list \<times> bool list) option" where
  "read_many f 0 bs = Some ([], bs)"
| "read_many f (Suc n) bs =
     Option.bind (f bs) (\<lambda>(x, r). Option.bind (read_many f n r) (\<lambda>(xs, r'). Some (x # xs, r')))"

definition read_server :: "bool list \<Rightarrow> (ipnet \<times> bool list) option" where
  "read_server bs = Option.bind (read_address bs) (\<lambda>(a, r). Option.bind a (\<lambda>n. Some (n, r)))"

definition read_map_reply :: "bool list \<Rightarrow> (map_reply_record \<times> bool list) option" where
  "read_map_reply bs =
     Option.bind (read_uint 32 bs) (\<lambda>(ttl, r1). Option.bind (read_uint 8 r1) (\<lambda>(n, r2).
     Option.bind (read_uint 8 r2) (\<lambda>(plen, r3). Option.bind (read_uint 3 r3) (\<lambda>(act, r4).
     Option.bind (read_uint 1 r4) (\<lambda>(auth, r5). Option.bind (read_uint 16 r5) (\<lambda>(_, r6).
     Option.bind (read_uint 12 r6) (\<lambda>(ver, r7). Option.bind (read_server r7) (\<lambda>(a, r8).
     Option.bind (read_many read_locator (nat n) r8) (\<lambda>(ls, r9).
     Some (\<lparr>mr_ttl = ttl, mr_action = act, mr_authoritative = (auth = 1), mr_map_version = ver,
       mr_eid_prefix = Some (IPNet (net_version a) (net_value a) (nat plen)), mr_locators = ls\<rparr>, r9))))))))))"

definition read_response :: "string \<Rightarrow> response option" where
  "read_response s =
     Option.bind (read_uint 64 (bytes_to_bits s)) (\<lambda>(nonce, r1). Option.bind (read_uint 8 r1) (\<lambda>(flag, r2).
     if flag = 0
     then Option.bind (read_uint 8 r2) (\<lambda>(n, r3). Option.bind (read_many read_server (nat n) r3) (\<lambda>(ss, _).
          Some \<lparr>rs_nonce = nonce, rs_info = MapServers ss\<rparr>))
     else Option.bind (read_map_reply r2) (\<lambda>(m, _). Some \<lparr>rs_nonce = nonce, rs_info = MapReply m\<rparr>)))"


section \<open>What fits the format\<close>

definition net_ok :: "ipnet \<Rightarrow> bool" where
  "net_ok n \<longleftrightarrow> net_version n = 4 \<and> net_value n < 2 ^ 32 \<or> net_version n = 6 \<and> net_value n < 2 ^ 128"

definition fits :: "nat \<Rightarrow> int \<Rightarrow> bool" where
  "fits w v \<longleftrightarrow> 0 \<le> v \<and> v < 2 ^ w"

definition locator_fits :: "locator_record \<Rightarrow> bool" where
  "locator_fits r \<longleftrightarrow> fits 8 (lr_priority r) \<and> fits 8 (lr_weight r) \<and> fits 8 (lr_mpriority r) \<and>
     fits 8 (lr_mweight r) \<and> fits 13 (lr_unusedflags r) \<and> fits 3 (lr_LpR r)"

definition map_reply_fits :: "map_reply_record \<Rightarrow> bool" where
  "map_reply_fits r \<longleftrightarrow> fits 32 (mr_ttl r) \<and> length (mr_locators r) < 256 \<and>
     (\<exists>n. mr_eid_prefix r = Some n \<and> net_prefixlen n < 256) \<and> fits 3 (mr_action r) \<and>
     fits 12 (mr_map_version r) \<and> list_all locator_fits (mr_locators r)"

definition response_fits :: "response \<Rightarrow> bool" where
  "response_fits r \<longleftrightarrow> fits 64 (rs_nonce r) \<and>
     (case rs_info r of MapServers i \<Rightarrow> length i < 256 | MapReply m \<Rightarrow> map_reply_fits m)"

text \<open>The addresses in it are proper: of version 4 or 6, in the range of the version.\<close>

definition response_nets :: "response \<Rightarrow> bool" where
  "response_nets r \<longleftrightarrow> (case rs_info r of
     MapServers i \<Rightarrow> list_all net_ok i
   | MapReply m \<Rightarrow> (\<forall>n. mr_eid_prefix m = Some n \<longrightarrow> net_ok n) \<and>
       list_all (\<lambda>l. \<forall>n. lr_locator l = Some n \<longrightarrow> net_ok n) (mr_locators m))"

text \<open>What the format keeps: of a locator or a map server the address, not the prefix length.\<close>

definition host_net :: "ipnet \<Rightarrow> ipnet" where
  "host_net n = IPNet (net_version n) (net_value n) (if net_version n = 4 then 32 else 128)"

definition locator_kept :: "locator_record \<Rightarrow> locator_record" where
  "locator_kept l = l\<lparr>lr_locator := map_option host_net (lr_locator l)\<rparr>"

definition response_kept :: "response \<Rightarrow> response" where
  "response_kept r = r\<lparr>rs_info := (case rs_info r of
     MapServers i \<Rightarrow> MapServers (map host_net i)
   | MapReply m \<Rightarrow> MapReply (m\<lparr>mr_locators := map locator_kept (mr_locators m)\<rparr>))\<rparr>"

section \<open>Bits\<close>

lemma bytes_to_bits_of_bytes: "length bs mod 8 = 0 \<Longrightarrow> bytes_to_bits (bits_to_bytes bs) = bs"
proof (induction "8::nat" bs rule: chunks.induct)
  case (1 bs)
  show ?case
  proof (cases "bs = []")
    case False
    with 1(2) have len: "8 \<le> length bs" by (cases "length bs < 8") auto
    then have "bits_val (take 8 bs) < 2 ^ 8" using bits_val_bound [of "take 8 bs"] by simp
    then have "be_bits 8 (of_char (char_of (bits_val (take 8 bs)) :: char)) = take 8 bs"
      using be_bits_bits_val [of "take 8 bs"] len by simp
    moreover have "bytes_to_bits (bits_to_bytes (drop 8 bs)) = drop 8 bs"
      using 1(1) 1(2) False len by (simp add: mod_if)
    ultimately show ?thesis
      using False by (simp add: bits_to_bytes_def bytes_to_bits_def chunks.simps [of 8 bs])
  qed (simp add: bits_to_bytes_def bytes_to_bits_def)
qed

section \<open>Writing\<close>

definition addr_bits :: "ipnet option \<Rightarrow> bool list" where
  "addr_bits a = (case a of None \<Rightarrow> be_bits 16 0
     | Some n \<Rightarrow> if net_version n = 4 then be_bits 16 1 @ be_bits 32 (net_value n)
                else be_bits 16 2 @ be_bits 128 (net_value n))"

definition locator_bits :: "locator_record \<Rightarrow> bool list" where
  "locator_bits r = be_bits 8 (nat (lr_priority r)) @ be_bits 8 (nat (lr_weight r)) @ be_bits 8 (nat (lr_mpriority r)) @
     be_bits 8 (nat (lr_mweight r)) @ be_bits 13 (nat (lr_unusedflags r)) @ be_bits 3 (nat (lr_LpR r)) @ addr_bits (lr_locator r)"

definition map_reply_bits :: "map_reply_record \<Rightarrow> bool list" where
  "map_reply_bits r = be_bits 32 (nat (mr_ttl r)) @ be_bits 8 (length (mr_locators r)) @
     be_bits 8 (net_prefixlen (the (mr_eid_prefix r))) @ be_bits 3 (nat (mr_action r)) @ [mr_authoritative r] @ be_bits 16 0 @
     be_bits 12 (nat (mr_map_version r)) @ addr_bits (mr_eid_prefix r) @ concat (map locator_bits (mr_locators r))"

definition servers_bits :: "ipnet list \<Rightarrow> bool list" where
  "servers_bits i = be_bits 8 (length i) @ concat (map (\<lambda>n. addr_bits (Some n)) i)"

definition response_bits :: "response \<Rightarrow> bool list" where
  "response_bits r = be_bits 64 (nat (rs_nonce r)) @ be_bits 8 (nat (rs_flag r)) @
     (case rs_info r of MapServers i \<Rightarrow> servers_bits i | MapReply m \<Rightarrow> map_reply_bits m)"

lemma add_bits_Cons: "add_bits (p # ps) = Inr bs \<longleftrightarrow> (\<exists>b cs. p = Inr b \<and> add_bits ps = Inr cs \<and> bs = b @ cs)"
  by (auto simp: bindE_eq_Inr)

lemma add_bits_append: "add_bits (ps @ qs) = Inr bs \<longleftrightarrow> (\<exists>b cs. add_bits ps = Inr b \<and> add_bits qs = Inr cs \<and> bs = b @ cs)"
  by (induction ps arbitrary: bs) (force simp: bindE_eq_Inr)+

lemma add_bits_map:
  "(\<And>x b. x \<in> set xs \<Longrightarrow> f x = Inr b \<longleftrightarrow> P x \<and> b = g x) \<Longrightarrow>
   add_bits (map f xs) = Inr bs \<longleftrightarrow> list_all P xs \<and> bs = concat (map g xs)"
  by (induction xs arbitrary: bs) (auto simp: bindE_eq_Inr)

lemma uint_Inr: "bitlib_ok B \<Longrightarrow> 0 < w \<Longrightarrow> bl_uint B w v = Inr b \<longleftrightarrow> fits w v \<and> b = be_bits w (nat v)"
  by (auto simp: bitlib_ok_def fits_def)

lemma fits_of_nat [simp]: "fits w (int n) \<longleftrightarrow> n < 2 ^ w"
  unfolding fits_def by (metis of_nat_0_le_iff of_nat_less_numeral_power_cancel_iff)

lemma fits_small [simp]: "fits 16 1" "fits 16 2" "fits 8 0" "fits 8 1"
  by (simp_all add: fits_def)

lemma replicate_be_bits: "replicate w False = be_bits w 0"
  by (induction w) (simp_all, metis replicate_append_same)

lemma addr_Inr:
  assumes "bitlib_ok B" "\<And>n. a = Some n \<Longrightarrow> net_ok n"
  shows "get_bitstream_for_afi_address B a = Inr b \<longleftrightarrow> b = addr_bits a"
proof (cases a)
  case None
  then show ?thesis
    unfolding get_bitstream_for_afi_address_def addr_bits_def by (auto simp: replicate_be_bits simp del: be_bits.simps)
next
  case (Some n)
  with assms(2) have "net_ok n" by simp
  with Some show ?thesis
    by (auto simp: get_bitstream_for_afi_address_def addr_bits_def net_ok_def add_bits_Cons uint_Inr [OF assms(1)] simp del: add_bits.simps(2))
qed

lemma locator_Inr:
  assumes "bitlib_ok B" "\<And>n. lr_locator l = Some n \<Longrightarrow> net_ok n"
  shows "locator_bitstream B l = Inr b \<longleftrightarrow> locator_fits l \<and> b = locator_bits l"
  unfolding locator_bitstream_def
  by (simp add: add_bits_Cons uint_Inr [OF assms(1)] addr_Inr [OF assms] locator_fits_def locator_bits_def
      del: add_bits.simps(2))

lemma map_reply_Inr:
  assumes "bitlib_ok B" "\<And>n. mr_eid_prefix m = Some n \<Longrightarrow> net_ok n"
    and "list_all (\<lambda>l. \<forall>n. lr_locator l = Some n \<longrightarrow> net_ok n) (mr_locators m)"
  shows "map_reply_bitstream B m = Inr b \<longleftrightarrow> map_reply_fits m \<and> b = map_reply_bits m"
proof -
  let ?f = "\<lambda>l. case locator_bitstream B l of Inl e \<Rightarrow> Inl PyException | Inr b \<Rightarrow> Inr b"
  have "?f l = Inr c \<longleftrightarrow> locator_fits l \<and> c = locator_bits l" if "l \<in> set (mr_locators m)" for l c
    using locator_Inr [OF assms(1), of l c] assms(3) that by (auto simp: list_all_iff split: sum.splits)
  then have locs: "add_bits (map ?f (mr_locators m)) = Inr bs \<longleftrightarrow>
      list_all locator_fits (mr_locators m) \<and> bs = concat (map locator_bits (mr_locators m))" for bs
    by (rule add_bits_map)
  show ?thesis
    unfolding map_reply_bitstream_def
    by (cases "mr_eid_prefix m")
      (auto simp: add_bits_Cons add_bits_append locs uint_Inr [OF assms(1)] addr_Inr [OF assms(1,2)] map_reply_fits_def
        map_reply_bits_def replicate_be_bits simp del: add_bits.simps(2) be_bits.simps)
qed

lemma server_Inr:
  assumes "bitlib_ok B" "net_ok n"
  shows "server_bits B n = Inr b \<longleftrightarrow> b = addr_bits (Some n)"
  using assms(2)
  by (auto simp: server_bits_def addr_bits_def net_ok_def add_bits_Cons uint_Inr [OF assms(1)] simp del: add_bits.simps(2))

lemma response_Inr:
  assumes "bitlib_ok B" "response_nets r"
  shows "response_bitstream B r = Inr b \<longleftrightarrow> response_fits r \<and> b = response_bits r"
proof -
  have srv: "map_servers_bitstream B i = Inr c \<longleftrightarrow> length i < 256 \<and> c = servers_bits i" if "list_all net_ok i" for i c
  proof -
    have "add_bits (map (server_bits B) i) = Inr bs \<longleftrightarrow> list_all (\<lambda>_. True) i \<and> bs = concat (map (\<lambda>n. addr_bits (Some n)) i)" for bs
      by (rule add_bits_map) (use that server_Inr [OF assms(1)] in \<open>auto simp: list_all_iff\<close>)
    then show ?thesis
      by (auto simp: map_servers_bitstream_def servers_bits_def add_bits_Cons uint_Inr [OF assms(1)] list_all_iff
          simp del: add_bits.simps(2))
  qed
  show ?thesis
    using assms(2)
    by (cases "rs_info r")
      (auto simp: response_bitstream_def response_nets_def response_fits_def response_bits_def rs_flag_def add_bits_Cons
        uint_Inr [OF assms(1)] srv map_reply_Inr [OF assms(1)] simp del: add_bits.simps(2) be_bits.simps)
qed


section \<open>Reading back\<close>

lemma read_uint_be [simp]: "n < 2 ^ w \<Longrightarrow> read_uint w (be_bits w n @ r) = Some (int n, r)"
  by (simp add: read_uint_def)

lemma read_uint_fits: "fits w v \<Longrightarrow> read_uint w (be_bits w (nat v) @ r) = Some (v, r)"
  by (auto simp: read_uint_def fits_def nat_less_iff)

lemma read_address_addr:
  assumes "\<And>n. a = Some n \<Longrightarrow> net_ok n"
  shows "read_address (addr_bits a @ r) = Some (map_option host_net a, r)"
proof (cases a)
  case (Some n)
  with assms have "net_ok n" by simp
  with Some show ?thesis
    by (auto simp: read_address_def addr_bits_def net_ok_def host_net_def simp del: be_bits.simps)
qed (simp add: read_address_def addr_bits_def del: be_bits.simps)

lemma read_locator_locator:
  assumes "locator_fits l" "\<And>n. lr_locator l = Some n \<Longrightarrow> net_ok n"
  shows "read_locator (locator_bits l @ r) = Some (locator_kept l, r)"
  using assms(1)
  by (simp add: read_locator_def locator_bits_def locator_fits_def read_uint_fits read_address_addr [OF assms(2)] locator_kept_def
      del: be_bits.simps)

lemma read_many_concat:
  "(\<And>x r. x \<in> set xs \<Longrightarrow> f (g x @ r) = Some (h x, r)) \<Longrightarrow>
   read_many f (length xs) (concat (map g xs) @ r) = Some (map h xs, r)"
  by (induction xs arbitrary: r) simp_all

lemma read_server_addr: "net_ok n \<Longrightarrow> read_server (addr_bits (Some n) @ r) = Some (host_net n, r)"
  by (subst read_server_def, subst read_address_addr) simp_all

lemma read_bit: "read_uint (Suc 0) (b # r) = Some (of_bool b, r)"
  by (simp add: read_uint_def bits_val_def)

lemma read_map_reply_bits:
  assumes "map_reply_fits m" "\<And>n. mr_eid_prefix m = Some n \<Longrightarrow> net_ok n"
    and "list_all (\<lambda>l. \<forall>n. lr_locator l = Some n \<longrightarrow> net_ok n) (mr_locators m)"
  shows "read_map_reply (map_reply_bits m @ r) = Some (m\<lparr>mr_locators := map locator_kept (mr_locators m)\<rparr>, r)"
proof -
  obtain n where n: "mr_eid_prefix m = Some n" "net_prefixlen n < 256" using assms(1) by (auto simp: map_reply_fits_def)
  have locs: "read_many read_locator (length (mr_locators m)) (concat (map locator_bits (mr_locators m)) @ r) =
      Some (map locator_kept (mr_locators m), r)"
    by (rule read_many_concat) (use assms(1,3) in \<open>auto simp: map_reply_fits_def list_all_iff intro!: read_locator_locator\<close>)
  show ?thesis
    using assms(1) n assms(2) [OF n(1)] locs
    by (cases m) (simp add: read_map_reply_def map_reply_bits_def map_reply_fits_def read_uint_fits read_server_addr read_bit
        host_net_def del: be_bits.simps)
qed

lemma read_response_bits:
  assumes "response_fits r" "response_nets r"
  shows "Option.bind (read_uint 64 (response_bits r)) (\<lambda>(nonce, r1). Option.bind (read_uint 8 r1) (\<lambda>(flag, r2).
     if flag = 0
     then Option.bind (read_uint 8 r2) (\<lambda>(n, r3). Option.bind (read_many read_server (nat n) r3) (\<lambda>(ss, _).
          Some \<lparr>rs_nonce = nonce, rs_info = MapServers ss\<rparr>))
     else Option.bind (read_map_reply r2) (\<lambda>(m, _). Some \<lparr>rs_nonce = nonce, rs_info = MapReply m\<rparr>))) = Some (response_kept r)"
proof (cases "rs_info r")
  case (MapServers i)
  then have "read_many read_server (length i) (concat (map (\<lambda>n. addr_bits (Some n)) i) @ []) = Some (map host_net i, [])"
    using assms(2) by (intro read_many_concat) (auto simp: response_nets_def list_all_iff read_server_addr)
  with MapServers assms(1) show ?thesis
    by (cases r) (simp add: response_fits_def response_bits_def rs_flag_def servers_bits_def read_uint_fits response_kept_def
        del: be_bits.simps)
next
  case (MapReply m)
  then have "read_map_reply (map_reply_bits m @ []) = Some (m\<lparr>mr_locators := map locator_kept (mr_locators m)\<rparr>, [])"
    using assms by (intro read_map_reply_bits) (auto simp: response_fits_def response_nets_def)
  with MapReply assms(1) show ?thesis
    by (cases r) (simp add: response_fits_def response_bits_def rs_flag_def read_uint_fits response_kept_def del: be_bits.simps)
qed

lemma length_addr: "8 dvd length (addr_bits a)"
  by (simp add: addr_bits_def split: option.split)

lemma length_concat_dvd: "(\<And>x. x \<in> set xs \<Longrightarrow> n dvd length (f x)) \<Longrightarrow> n dvd length (concat (map f xs))"
  by (induction xs) simp_all

lemma length_response: "8 dvd length (response_bits r)"
proof -
  have "8 dvd length (locator_bits l)" for l
    using dvd_add [OF _ length_addr [of "lr_locator l"], of 48] by (simp add: locator_bits_def)
  then have "8 dvd length (concat (map locator_bits ls))" for ls
    by (intro length_concat_dvd)
  then have "8 dvd length (addr_bits (mr_eid_prefix m)) + length (concat (map locator_bits (mr_locators m)))" for m
    by (intro dvd_add length_addr)
  then have "8 dvd 80 + (length (addr_bits (mr_eid_prefix m)) + length (concat (map locator_bits (mr_locators m))))" for m
    by (rule dvd_add [rotated]) simp
  then have "8 dvd length (map_reply_bits m)" for m
    by (simp add: map_reply_bits_def del: length_concat be_bits.simps)
  moreover have "8 dvd length (servers_bits i)" for i
    using length_concat_dvd [of i 8 "\<lambda>n. addr_bits (Some n)"] length_addr
    by (simp add: servers_bits_def del: length_concat be_bits.simps)
  ultimately have "8 dvd length (case rs_info r of MapServers i \<Rightarrow> servers_bits i | MapReply m \<Rightarrow> map_reply_bits m)"
    by (simp split: reply_info.split)
  then show ?thesis
    using dvd_add [of "8::nat" 72] by (simp add: response_bits_def del: be_bits.simps)
qed

lemma response_bytes_to_bits: "bytes_to_bits (bits_to_bytes (response_bits r)) = response_bits r"
  using length_response [of r] by (intro bytes_to_bits_of_bytes) (auto simp: dvd_eq_mod_eq_0)

section \<open>Properties\<close>

text \<open>The library this theory needs exists.\<close>

definition bitlib_ref :: bitlib where
  "bitlib_ref = \<lparr>bl_uint = \<lambda>w v. if 0 \<le> v \<and> v < 2 ^ w then Inr (be_bits w (nat v)) else Inl ValueError,
     bl_bytes = \<lambda>bs. if length bs mod 8 = 0 then Inr (bits_to_bytes bs) else Inl ValueError\<rparr>"

lemma bitlib_ref_ok: "bitlib_ok bitlib_ref"
  by (simp add: bitlib_ok_def bitlib_ref_def)

lemma response_bytes_Inr:
  assumes "bitlib_ok B" "response_nets r"
  shows "response_bytes B r = Inr s \<longleftrightarrow> response_fits r \<and> s = bits_to_bytes (response_bits r)"
  using assms(1) length_response [of r]
  by (auto simp: response_bytes_def bindE_eq_Inr response_Inr [OF assms] bitlib_ok_def dvd_eq_mod_eq_0)

text \<open>C23. A response is written exactly when every number in it fits its field: a nonce of 64 bits, at
  most 255 map servers or locators, priorities and weights of a byte, a prefix length of a byte, and
  the fields of the map-reply record at their widths. Otherwise an exception is raised.\<close>

theorem response_written_iff_fits:
  assumes "bitlib_ok B" "response_nets r"
  shows "(\<exists>s. response_bytes B r = Inr s) \<longleftrightarrow> response_fits r"
  by (simp add: response_bytes_Inr [OF assms])

theorem response_written_iff_fits_witness:
  "\<exists>s. response_bytes bitlib_ref \<lparr>rs_nonce = 7, rs_info = MapReply (map_reply_init (Some (IPNet 4 3232235777 32))
     [\<lparr>lr_priority = 1, lr_weight = 100, lr_mpriority = 0, lr_mweight = 0, lr_unusedflags = 0, lr_LpR = 0,
       lr_locator = Some (IPNet 4 167772161 32)\<rparr>])\<rparr> = Inr s"
  by (subst response_written_iff_fits [OF bitlib_ref_ok])
    (simp_all add: response_nets_def response_fits_def map_reply_init_def map_reply_fits_def locator_fits_def fits_def net_ok_def)

text \<open>C24. A receiver that reads the response by the format finds what was written: the nonce, the kind of
  answer, every field of the map-reply record with its locators in order, or the addresses of the map
  servers in order. Only the prefix length of a locator or a map server is not transmitted.\<close>

theorem response_roundtrip:
  assumes "bitlib_ok B" "response_nets r" "response_bytes B r = Inr s"
  shows "read_response s = Some (response_kept r)"
proof -
  have "response_fits r" "s = bits_to_bytes (response_bits r)"
    using response_bytes_Inr [OF assms(1,2)] assms(3) by auto
  then show ?thesis
    using read_response_bits [of r] assms(2) by (simp only: read_response_def response_bytes_to_bits)
qed

theorem response_roundtrip_witness:
  "\<exists>s. response_bytes bitlib_ref \<lparr>rs_nonce = 9, rs_info = MapServers [IPNet 6 1 64, IPNet 4 5 8]\<rparr> = Inr s \<and>
     read_response s = Some \<lparr>rs_nonce = 9, rs_info = MapServers [IPNet 6 1 128, IPNet 4 5 32]\<rparr>"
proof -
  let ?r = "\<lparr>rs_nonce = 9, rs_info = MapServers [IPNet 6 1 64, IPNet 4 5 8]\<rparr>"
  have n: "response_nets ?r" and f: "response_fits ?r"
    by (simp_all add: response_nets_def net_ok_def response_fits_def fits_def)
  obtain s where s: "response_bytes bitlib_ref ?r = Inr s"
    using response_bytes_Inr [OF bitlib_ref_ok n] f by blast
  then show ?thesis
    using response_roundtrip [OF bitlib_ref_ok n s] by (intro exI [of _ s]) (simp add: response_kept_def, simp add: host_net_def)
qed

end
