(* ===== verification/TrieDict.thy ===== *)
theory TrieDict
  imports TrieObject "HOL-Library.AList"
begin

text \<open>
  The methods of \<open>trie.py\<close> that walk the whole trie: \<open>_to_dict\<close> and \<open>to_dict\<close>, \<open>_iter_branch\<close> and
  \<open>iter_branch\<close>, \<open>_get_size\<close> and \<open>__len__\<close>. While the walk goes up, a key is a text, its nibbles in
  decimal joined by \<open>+\<close>; the dictionary is an association list, and the generator the list of what
  it yields. \<open>limit\<close> is the number of frames the interpreter still allows: a deeper recursion raises
  RuntimeError.

  The walks return the entries of the tree the root represents; one lemma runs all three.
\<close>

section \<open>The walks\<close>

definition path_text :: "nat list \<Rightarrow> string" where
  "path_text nibbles = join_with (CHR ''+'') (map (\<lambda>x. py_str_int (int x)) nibbles)"

definition full_key :: "string \<Rightarrow> string \<Rightarrow> string" where
  "full_key key sub_key = strip_char (CHR ''+'') (key @ CHR ''+'' # sub_key)"

definition prefix_keys :: "string \<Rightarrow> (string \<times> item) list \<Rightarrow> (string \<times> item) list \<Rightarrow> (string \<times> item) list" where
  "prefix_keys key sub_dict res = fold (\<lambda>(k, v). AList.update (full_key key k) v) sub_dict res"

fun to_dict_node :: "nat \<Rightarrow> 's trie_env \<Rightarrow> item \<Rightarrow> ('s, (string \<times> item) list) M" where
  "to_dict_node 0 T node = raise RuntimeError"
| "to_dict_node (Suc f) T node =
     (if node = BLANK_NODE then ret []
      else
        bindM (liftE (get_node_type node)) (\<lambda>node_type.
        if is_key_value_type node_type
        then
          bindM (liftE (node_key node)) (\<lambda>nibbles.
          bindM (if node_type = NODE_TYPE_EXTENSION
                 then bindM (child_node T node 1) (to_dict_node f T)
                 else bindM (liftE (node_nth node 1)) (\<lambda>v. ret [(''16'', v)])) (\<lambda>sub_dict.
          ret (prefix_keys (path_text nibbles) sub_dict [])))
        else
          bindM (mapM (\<lambda>i. bindM (child_node T node i) (to_dict_node f T)) [0..<16]) (\<lambda>sub_dicts.
          bindM (liftE (node_nth node 16)) (\<lambda>v.
          let res = fold (\<lambda>(i, d). prefix_keys (py_str_int (int i)) d) (enumerate 0 sub_dicts) []
          in ret (if truthy v then AList.update ''16'' v res else res)))))"

text \<open>The key of an entry, and the dictionary under these keys.\<close>

definition key_of_text :: "string \<Rightarrow> string res" where
  "key_of_text key_str =
     bindE (if key_str \<noteq> [] then mapE (py_int 10) (split_on (CHR ''+'') key_str) else Inr []) (\<lambda>nibbles.
     nibbles_to_bin (without_terminator (map nat nibbles)))"

fun dict_of_texts :: "(string \<times> item) list \<Rightarrow> (string \<times> item) list \<Rightarrow> (string \<times> item) list res" where
  "dict_of_texts [] res = Inr res"
| "dict_of_texts ((key_str, v) # d) res =
     bindE (key_of_text key_str) (\<lambda>key. dict_of_texts d (AList.update key v res))"

definition to_dict :: "nat \<Rightarrow> 's trie_env \<Rightarrow> ('s trie, (string \<times> item) list) M" where
  "to_dict limit T =
     bindM (gets root_node) (\<lambda>node.
     bindM (in_tdb (to_dict_node limit T node)) (\<lambda>d. liftE (dict_of_texts d [])))"

text \<open>The generators, read to their end.\<close>

fun iter_branch_node :: "nat \<Rightarrow> 's trie_env \<Rightarrow> item \<Rightarrow> ('s, (string \<times> item) list) M" where
  "iter_branch_node 0 T node = raise RuntimeError"
| "iter_branch_node (Suc f) T node =
     (if node = BLANK_NODE then ret []
      else
        bindM (liftE (get_node_type node)) (\<lambda>node_type.
        if is_key_value_type node_type
        then
          bindM (liftE (node_key node)) (\<lambda>nibbles.
          bindM (if node_type = NODE_TYPE_EXTENSION
                 then bindM (child_node T node 1) (iter_branch_node f T)
                 else bindM (liftE (node_nth node 1)) (\<lambda>v. ret [(''16'', v)])) (\<lambda>sub_tree.
          ret (map (\<lambda>(k, v). (full_key (path_text nibbles) k, v)) sub_tree)))
        else
          bindM (mapM (\<lambda>i. bindM (child_node T node i) (iter_branch_node f T)) [0..<16]) (\<lambda>sub_trees.
          bindM (liftE (node_nth node 16)) (\<lambda>v.
          ret (concat (map (\<lambda>(i, d). map (\<lambda>(k, v). (full_key (py_str_int (int i)) k, v)) d) (enumerate 0 sub_trees)) @
            (if truthy v then [(''16'', v)] else []))))))"

definition iter_branch :: "nat \<Rightarrow> 's trie_env \<Rightarrow> ('s trie, (string \<times> item) list) M" where
  "iter_branch limit T =
     bindM (gets root_node) (\<lambda>node.
     bindM (in_tdb (iter_branch_node limit T node)) (\<lambda>d.
     liftE (mapE (\<lambda>(k, v). bindE (key_of_text k) (\<lambda>key. Inr (key, v))) d)))"

fun get_size :: "nat \<Rightarrow> 's trie_env \<Rightarrow> item \<Rightarrow> ('s, nat) M" where
  "get_size 0 T node = raise RuntimeError"
| "get_size (Suc f) T node =
     (if node = BLANK_NODE then ret 0
      else
        bindM (liftE (get_node_type node)) (\<lambda>node_type.
        if is_key_value_type node_type
        then if node_type = NODE_TYPE_EXTENSION then bindM (child_node T node 1) (get_size f T) else ret 1
        else
          bindM (mapM (\<lambda>i. bindM (child_node T node i) (get_size f T)) [0..<16]) (\<lambda>sizes.
          bindM (liftE (node_nth node 16)) (\<lambda>v.
          ret (sum_list (sizes @ [if truthy v then 1 else 0]))))))"

definition trie_len :: "nat \<Rightarrow> 's trie_env \<Rightarrow> ('s trie, nat) M" where
  "trie_len limit T = bindM (gets root_node) (\<lambda>node. in_tdb (get_size limit T node))"

definition contains_key :: "'s trie_env \<Rightarrow> string \<Rightarrow> ('s trie, bool) M" where
  "contains_key T key = bindM (Trie.get T key) (\<lambda>v. ret (v \<noteq> BLANK_NODE))"

section \<open>The entries of a tree\<close>

fun pentries :: "ptree \<Rightarrow> (nat list \<times> string) list" where
  "pentries PBlank = []"
| "pentries (PLeaf p v) = [(p, v)]"
| "pentries (PExt p t) = map (\<lambda>(k, v). (p @ k, v)) (pentries t)"
| "pentries (PBranch ts v) =
     concat (map (\<lambda>(i, es). map (\<lambda>(k, v). (i # k, v)) es) (enumerate 0 (map pentries ts))) @
     (if v = [] then [] else [([], v)])"

lemma enumerate_nth: "enumerate 0 xs = map (\<lambda>i. (i, xs ! i)) [0..<length xs]"
  by (rule nth_equalityI) (simp_all add: nth_enumerate_eq)

lemma enumerate_map:
  "map (\<lambda>(i, x). g i x) (enumerate 0 (map f xs)) = map (\<lambda>i. g i (f (xs ! i))) [0..<length xs]"
  by (simp add: enumerate_nth)

lemma in_retagged: "(k, v) \<in> (\<lambda>(k, v). (g k, v)) ` X \<longleftrightarrow> (\<exists>k'. k = g k' \<and> (k', v) \<in> X)"
  by force

lemma in_children:
  "(k, v) \<in> set (concat (map (\<lambda>(i, es). map (\<lambda>(k, v). (i # k, v)) es) (enumerate 0 (map f ts)))) \<longleftrightarrow>
     (\<exists>i < length ts. \<exists>k'. k = i # k' \<and> (k', v) \<in> set (f (ts ! i)))"
  by (auto simp: enumerate_nth in_retagged)

lemma pentries_lookup: "pcanon t \<Longrightarrow> (k, v) \<in> set (pentries t) \<longleftrightarrow> plookup t k = v \<and> v \<noteq> []"
proof (induction t arbitrary: k)
  case (PExt p t)
  then have "pcanon t" by simp
  note IH = PExt.IH [OF this]
  have "(k, v) \<in> set (pentries (PExt p t)) \<longleftrightarrow> (\<exists>r. k = p @ r \<and> plookup t r = v \<and> v \<noteq> [])"
    by (simp add: in_retagged IH)
  then show ?case by (auto simp: starts_with_iff)
next
  case (PBranch ts w)
  have kid: "(k', v) \<in> set (pentries (ts ! i)) \<longleftrightarrow> plookup (ts ! i) k' = v \<and> v \<noteq> []" if "i < length ts" for i k'
    using PBranch.prems that by (intro PBranch.IH) auto
  have "(k, v) \<in> set (pentries (PBranch ts w)) \<longleftrightarrow>
      (\<exists>i < length ts. \<exists>k'. k = i # k' \<and> plookup (ts ! i) k' = v \<and> v \<noteq> []) \<or> (k = [] \<and> w = v \<and> v \<noteq> [])"
    unfolding pentries.simps set_append Un_iff in_children using kid by auto
  then show ?case by (cases k) auto
qed auto

fun depth :: "ptree \<Rightarrow> nat" where
  "depth PBlank = 0"
| "depth (PLeaf p v) = 0"
| "depth (PExt p t) = Suc (depth t)"
| "depth (PBranch ts v) = Suc (Max (insert 0 (depth ` set ts)))"

text \<open>The recursion is no deeper than the longest key.\<close>

lemma depth_bound:
  "pcanon t \<Longrightarrow> (\<And>k v. (k, v) \<in> set (pentries t) \<Longrightarrow> length k \<le> n) \<Longrightarrow> depth t \<le> n"
proof (induction t arbitrary: n)
  case (PExt p t)
  then have p: "p \<noteq> []" "pcanon t" "t \<noteq> PBlank" by (auto simp: is_branch_def)
  have le: "length p + length k \<le> n" if "(k, v) \<in> set (pentries t)" for k v
    using PExt.prems(2) [of "p @ k" v] that by (simp add: in_retagged)
  obtain k v where "(k, v) \<in> set (pentries t)"
    using pcanon_nonempty [OF p(2,3)] pentries_lookup [OF p(2)] by blast
  with le have "length p \<le> n" by fastforce
  moreover have "length k \<le> n - length p" if "(k, v) \<in> set (pentries t)" for k v
    using le [OF that] by simp
  then have "depth t \<le> n - length p" by (rule PExt.IH [OF p(2)])
  ultimately show ?case using p(1) by (cases p) auto
next
  case (PBranch ts w)
  have le: "Suc (length k) \<le> n" if "i < length ts" "(k, v) \<in> set (pentries (ts ! i))" for i k v
    using PBranch.prems(2) [of "i # k" v] that in_children [of "i # k" v pentries ts] by auto
  have "nonblank ts \<noteq> []"
    using PBranch.prems(1) by (auto simp: entries_def split: if_splits)
  then obtain i where i: "i < length ts" "ts ! i \<noteq> PBlank"
    using PBranch.prems(1) set_nonblank [of ts] by (cases "nonblank ts") auto
  with PBranch.prems(1) have ci: "pcanon (ts ! i)" by auto
  obtain k v where "(k, v) \<in> set (pentries (ts ! i))"
    using pcanon_nonempty [OF ci i(2)] pentries_lookup [OF ci] by blast
  with le i(1) have n: "1 \<le> n" by fastforce
  have "depth c \<le> n - 1" if c: "c \<in> set ts" for c
  proof -
    obtain j where j: "j < length ts" "c = ts ! j" using c by (metis in_set_conv_nth)
    have "length k \<le> n - 1" if "(k, v) \<in> set (pentries c)" for k v
      using le [of j k v] j that by auto
    then show ?thesis using PBranch.IH [OF c] PBranch.prems(1) c by auto
  qed
  then have "Max (insert 0 (depth ` set ts)) \<le> n - 1" by auto
  moreover have "depth (PBranch ts w) = Suc (Max (insert 0 (depth ` set ts)))" by simp
  ultimately show ?case using n by linarith
qed auto

lemma fst_retagged: "map fst (map (\<lambda>(k, v). (g k, v)) xs) = map g (map fst xs)"
  by (induction xs) auto

lemma distinct_retagged:
  "inj g \<Longrightarrow> distinct (map fst (map (\<lambda>(k, v). (g k, v)) xs)) \<longleftrightarrow> distinct (map fst xs)"
  unfolding fst_retagged distinct_map [of g] by (auto intro: inj_on_subset)

lemma distinct_concat_tagged:
  assumes "\<And>i. i < n \<Longrightarrow> distinct (map fst (f i))"
  shows "distinct (map fst (concat (map (\<lambda>i. map (\<lambda>(k, v). (i # k, v)) (f i)) [0..<n])))"
  using assms
proof (induction n)
  case (Suc n)
  have "distinct (map fst (map (\<lambda>(k, v). (n # k, v)) (f n)))"
    using Suc.prems [of n] distinct_retagged [of "(#) n" "f n"] by simp
  with Suc show ?case by (fastforce simp: image_iff)
qed simp

lemma distinct_pentries: "pcanon t \<Longrightarrow> distinct (map fst (pentries t))"
proof (induction t)
  case (PExt p t)
  then have "distinct (map fst (pentries t))" by simp
  then show ?case using distinct_retagged [of "(@) p" "pentries t"] by (simp add: inj_def)
next
  case (PBranch ts v)
  then have "distinct (map fst (pentries (ts ! i)))" if "i < length ts" for i
    using that by auto
  from distinct_concat_tagged [of "length ts" "\<lambda>i. pentries (ts ! i)", OF this]
  show ?case unfolding pentries.simps enumerate_map by auto
qed auto

section \<open>Keys as texts\<close>

abbreviation texts :: "(nat list \<times> string) list \<Rightarrow> (string \<times> item) list" where
  "texts es \<equiv> map (\<lambda>(p, v). (path_text (p @ [16]), Str v)) es"

lemma path_text_simps [simp]:
  "path_text [] = []" "path_text [x] = dec_digits x"
  "ps \<noteq> [] \<Longrightarrow> path_text (x # ps) = dec_digits x @ CHR ''+'' # path_text ps"
  by (simp_all add: path_text_def py_str_int_def join_with_Cons)

lemma split_path_text: "p \<noteq> [] \<Longrightarrow> split_on (CHR ''+'') (path_text p) = map dec_digits p"
  using split_join [of "map dec_digits p" "CHR ''+''"] dec_digits_plain(4)
  by (auto simp: path_text_def py_str_int_def)

lemma path_text_eq_Nil [simp]: "path_text p = [] \<longleftrightarrow> p = []"
  by (cases p rule: list.exhaust; cases "tl p") auto

lemma path_text_inject: "p \<noteq> [] \<Longrightarrow> q \<noteq> [] \<Longrightarrow> path_text p = path_text q \<longleftrightarrow> p = q"
proof
  assume "p \<noteq> []" "q \<noteq> []" "path_text p = path_text q"
  then have "map dec_digits p = map dec_digits q" by (metis split_path_text)
  then have "map (py_int 10) (map dec_digits p) = map (py_int 10) (map dec_digits q)" by simp
  then have "map (\<lambda>n. Inr (int n) :: int res) p = map (\<lambda>n. Inr (int n)) q" by (simp add: comp_def)
  then show "p = q" by (rule map_injective) (simp add: inj_def)
qed simp

lemma path_text_append:
  "p \<noteq> [] \<Longrightarrow> q \<noteq> [] \<Longrightarrow> path_text (p @ q) = path_text p @ CHR ''+'' # path_text q"
  by (simp add: path_text_def join_with_append)

lemma dec_digits_ends: "hd (dec_digits n) \<noteq> CHR ''+''" "last (dec_digits n) \<noteq> CHR ''+''"
  by (metis dec_digits_plain(4) dec_digits_not_Nil hd_in_set, metis dec_digits_plain(4) dec_digits_not_Nil last_in_set)

lemma path_text_ends:
  "p \<noteq> [] \<Longrightarrow> hd (path_text p) \<noteq> CHR ''+'' \<and> last (path_text p) \<noteq> CHR ''+''"
proof (induction p)
  case (Cons x p)
  then show ?case using dec_digits_ends [of x] by (cases "p = []") (auto simp: hd_append)
qed simp

lemma full_key_text: "q \<noteq> [] \<Longrightarrow> full_key (path_text p) (path_text q) = path_text (p @ q)"
proof -
  assume q: "q \<noteq> []"
  then have id: "strip_char (CHR ''+'') (path_text (p @ q)) = path_text (p @ q)" for p
    using path_text_ends [of "p @ q"] by (intro strip_char_id) auto
  show ?thesis
  proof (cases "p = []")
    case True
    with id [of "[]"] show ?thesis by (simp add: full_key_def strip_char_def)
  next
    case False
    with id [of p] q show ?thesis by (simp add: full_key_def path_text_append)
  qed
qed

lemma update_fresh: "k \<notin> set (map fst d) \<Longrightarrow> AList.update k v d = d @ [(k, v)]"
  by (induction d) auto

lemma fold_update_fresh:
  "distinct (map fst res @ map (g \<circ> fst) d) \<Longrightarrow>
     fold (\<lambda>(k, v). AList.update (g k) v) d res = res @ map (\<lambda>(k, v). (g k, v)) d"
proof (induction d arbitrary: res)
  case (Cons e d)
  then show ?case using update_fresh [of "g (fst e)" res "snd e"] by (cases e) (simp add: comp_def)
qed simp

lemma fst_texts: "map fst (texts es) = map (\<lambda>p. path_text (p @ [16])) (map fst es)"
  by (induction es) auto

lemma distinct_texts: "distinct (map fst (texts es)) \<longleftrightarrow> distinct (map fst es)"
  unfolding fst_texts distinct_map [of "\<lambda>p. path_text (p @ [16])"]
  by (auto simp: inj_on_def path_text_inject)

lemma prefix_keys_texts:
  assumes "distinct (map fst es' @ map ((@) p) (map fst es))"
  shows "prefix_keys (path_text p) (texts es) (texts es') = texts (es' @ map (\<lambda>(k, v). (p @ k, v)) es)"
proof -
  have keys: "map (full_key (path_text p) \<circ> fst) (texts es) = map fst (texts (map (\<lambda>(k, v). (p @ k, v)) es))"
    by (auto simp: full_key_text)
  have "distinct (map fst (texts (es' @ map (\<lambda>(k, v). (p @ k, v)) es)))"
    using assms unfolding distinct_texts by (simp only: map_append fst_retagged)
  then have "distinct (map fst (texts es') @ map (full_key (path_text p) \<circ> fst) (texts es))"
    unfolding keys by simp
  from fold_update_fresh [OF this] show ?thesis
    by (auto simp: prefix_keys_def full_key_text)
qed

section \<open>Running a walk\<close>

lemma ret_eq: "ret x = Pair (Inr x)"
  by (rule ext) simp

lemma bindM_return [simp]: "bindM m (\<lambda>x. Pair (Inr x)) = m"
  by (rule ext) (simp add: bindM_def split: prod.splits sum.splits)

lemma bindM_Pair [simp]: "bindM (Pair (Inr x)) f = f x"
  by (rule ext) (simp add: bindM_def)

context content_store begin

lemma runs_mapM:
  "(\<And>i m1. i \<in> set xs \<Longrightarrow> m0 \<subseteq>\<^sub>m m1 \<Longrightarrow> runs C view inv 0 m1 (f i) (\<lambda>x m. x = g i)) \<Longrightarrow>
     runs C view inv 0 m0 (mapM f xs) (\<lambda>x m. x = map g xs)"
proof (induction xs arbitrary: m0)
  case Nil
  then show ?case by (auto intro!: runs_value)
next
  case (Cons i xs)
  have tail: "runs C view inv 0 m1 (mapM f xs) (\<lambda>x m. x = map g xs)" if "m0 \<subseteq>\<^sub>m m1" for m1
    using Cons.prems map_le_trans [OF that] by (intro Cons.IH) auto
  have head: "runs C view inv 0 m0 (f i) (\<lambda>x m. x = g i)"
    using Cons.prems by auto
  show ?case
    unfolding mapM.simps
  proof (rule runs_seq [OF head])
    fix x m1
    assume m1: "m0 \<subseteq>\<^sub>m m1" "x = g i"
    show "runs C view inv 0 m1 (bindM (mapM f xs) (\<lambda>ys. ret (x # ys))) (\<lambda>x m. x = map g (i # xs))"
      by (rule runs_seq [OF tail [OF m1(1)]]) (use m1(2) in \<open>auto intro!: runs_value\<close>)
  qed simp
qed

text \<open>A walk \<open>W\<close> that follows the shape of the tree computes \<open>G\<close> of the tree.\<close>

lemma runs_walk:
  fixes T :: "'s trie_env"
  assumes E: "ext_ok E" "rlp_ok E" and T: "T = trie_methods E get put"
    and blank: "\<And>f. W (Suc f) BLANK_NODE = ret (G PBlank)"
    and leaf: "\<And>f p v. pcanon (PLeaf p v) \<Longrightarrow> W (Suc f) (nodeof E (PLeaf p v)) = ret (G (PLeaf p v))"
    and ext: "\<And>f p t. pcanon (PExt p t) \<Longrightarrow> W (Suc f) (nodeof E (PExt p t)) =
      bindM (bindM (child_node T (nodeof E (PExt p t)) 1) (W f)) (\<lambda>x. ret (X p x))"
      "\<And>p t. pcanon (PExt p t) \<Longrightarrow> X p (G t) = G (PExt p t)"
    and branch: "\<And>f ts v. pcanon (PBranch ts v) \<Longrightarrow> W (Suc f) (nodeof E (PBranch ts v)) =
      bindM (mapM (\<lambda>i. bindM (child_node T (nodeof E (PBranch ts v)) i) (W f)) [0..<16]) (\<lambda>ds. ret (B ds v))"
      "\<And>ts v. pcanon (PBranch ts v) \<Longrightarrow> B (map G ts) v = G (PBranch ts v)"
  shows "pcanon t \<Longrightarrow> small t \<Longrightarrow> stored E m0 t \<Longrightarrow> depth t < f \<Longrightarrow>
    runs C view inv 0 m0 (W f (nodeof E t)) (\<lambda>x m. x = G t)"
proof (induction f arbitrary: t m0)
  case 0
  then show ?case by simp
next
  case (Suc f)
  have child: "runs C view inv 0 m1 (bindM (child_node T node i) (W f)) (\<lambda>x m. x = G c)"
    if "pcanon c" "small c" "kept E m1 c" "depth c < f" "node_nth node i = Inr (tref E c)" for c node i m1
  proof (rule runs_seq)
    show "runs C view inv 0 m1 (child_node T node i) (\<lambda>x m. x = nodeof E c \<and> kept E m c)"
      unfolding T using that pcanon_pwf by (intro runs_child [OF E]) auto
  qed (use that Suc.IH [of c] in auto)
  show ?case
  proof (cases t)
    case PBlank
    then show ?thesis using blank by (auto intro!: runs_value)
  next
    case (PLeaf p v)
    then show ?thesis using leaf Suc.prems(1) by (auto intro!: runs_value simp del: nodeof.simps)
  next
    case (PExt p u)
    have "runs C view inv 0 m0 (bindM (child_node T (nodeof E t) 1) (W f)) (\<lambda>x m. x = G u)"
      using PExt Suc.prems by (intro child) auto
    then show ?thesis
      using PExt ext Suc.prems(1) by (auto intro!: runs_value elim!: runs_seq simp del: nodeof.simps)
  next
    case (PBranch ts v)
    then have n: "length ts = 16" using Suc.prems(1) by simp
    have "runs C view inv 0 m0 (mapM (\<lambda>i. bindM (child_node T (nodeof E t) i) (W f)) [0..<16])
        (\<lambda>x m. x = map (\<lambda>i. G (ts ! i)) [0..<16])"
    proof (intro runs_mapM child)
      fix i m1
      assume i: "i \<in> set [0..<16]" and m1: "m0 \<subseteq>\<^sub>m m1"
      with n have c: "ts ! i \<in> set ts" by simp
      show "depth (ts ! i) < f" using Suc.prems(4) PBranch c by simp
      show "pcanon (ts ! i)" "small (ts ! i)" using Suc.prems PBranch c by auto
      show "kept E m1 (ts ! i)"
        using Suc.prems(3) PBranch c m1 by (auto intro: held_mono stored_mono)
      show "node_nth (nodeof E t) i = Inr (tref E (ts ! i))"
        using i n PBranch by (simp add: node_nth_branch del: nodeof.simps)
    qed
    moreover have "map (\<lambda>i. G (ts ! i)) [0..<16] = map G ts"
      by (rule nth_equalityI) (simp_all add: n)
    ultimately show ?thesis
      using PBranch branch Suc.prems(1) by (auto intro!: runs_value elim!: runs_seq simp del: nodeof.simps)
  qed
qed

end

text \<open>The three walks.\<close>

lemma text_16: "''16'' = path_text [16]"
  by (simp add: dec_digits.simps char_of_def bit_0)

lemma fold_children:
  assumes "\<And>i. i < n \<Longrightarrow> distinct (map fst (f i))"
  shows "fold (\<lambda>(i, d). prefix_keys (py_str_int (int i)) d) (map (\<lambda>i. (i, texts (f i))) [0..<n]) [] =
    texts (concat (map (\<lambda>i. map (\<lambda>(k, v). (i # k, v)) (f i)) [0..<n]))"
  using assms
proof (induction n)
  case (Suc n)
  let ?es = "concat (map (\<lambda>i. map (\<lambda>(k, v). (i # k, v)) (f i)) [0..<n])"
  have single: "(@) [n] = (#) n" by (rule ext) simp
  have "distinct (map fst (?es @ map (\<lambda>(k, v). (n # k, v)) (f n)))"
    using distinct_concat_tagged [of "Suc n" f] Suc.prems by simp
  then have "distinct (map fst ?es @ map ((@) [n]) (map fst (f n)))"
    unfolding map_append fst_retagged single by blast
  from prefix_keys_texts [OF this]
  have "prefix_keys (py_str_int (int n)) (texts (f n)) (texts ?es) =
      texts (?es @ map (\<lambda>(k, v). (n # k, v)) (f n))"
    by (simp add: py_str_int_def)
  moreover have "fold (\<lambda>(i, d). prefix_keys (py_str_int (int i)) d) (map (\<lambda>i. (i, texts (f i))) [0..<n]) [] = texts ?es"
    using Suc.prems by (intro Suc.IH) auto
  ultimately show ?case by simp
qed simp

lemma dict_branch:
  assumes "pcanon (PBranch ts v)"
  shows "(let res = fold (\<lambda>(i, d). prefix_keys (py_str_int (int i)) d) (enumerate 0 (map (\<lambda>t. texts (pentries t)) ts)) []
      in if v \<noteq> [] then AList.update ''16'' (Str v) res else res) = texts (pentries (PBranch ts v))"
proof -
  let ?es = "concat (map (\<lambda>i. map (\<lambda>(k, v). (i # k, v)) (pentries (ts ! i))) [0..<length ts])"
  have eq: "pentries (PBranch ts v) = ?es @ (if v = [] then [] else [([], v)])"
    unfolding pentries.simps enumerate_map ..
  have "enumerate 0 (map (\<lambda>t. texts (pentries t)) ts) = map (\<lambda>i. (i, texts (pentries (ts ! i)))) [0..<length ts]"
    by (simp add: enumerate_nth)
  moreover have "distinct (map fst (pentries (ts ! i)))" if "i < length ts" for i
    using assms that by (intro distinct_pentries) auto
  ultimately have fold: "fold (\<lambda>(i, d). prefix_keys (py_str_int (int i)) d) (enumerate 0 (map (\<lambda>t. texts (pentries t)) ts)) [] = texts ?es"
    using fold_children [of "length ts" "\<lambda>i. pentries (ts ! i)"] by simp
  have "distinct (map fst (texts (pentries (PBranch ts v))))"
    using distinct_pentries [OF assms] distinct_texts by blast
  then have "path_text [16] \<notin> set (map fst (texts ?es))" if "v \<noteq> []"
    using that unfolding eq by auto
  then have "AList.update ''16'' (Str v) (texts ?es) = texts (?es @ [([], v)])" if "v \<noteq> []"
    using that update_fresh [of "path_text [16]" "texts ?es" "Str v"] unfolding text_16 by simp
  then show ?thesis
    unfolding fold eq Let_def by simp
qed

context content_store begin

lemma runs_to_dict:
  assumes E: "ext_ok E" "rlp_ok E" and t: "pcanon t" "small t" "stored E m0 t" "depth t < f"
  shows "runs C view inv 0 m0 (to_dict_node f (trie_methods E get put) (nodeof E t))
    (\<lambda>x m. x = texts (pentries t))"
proof (rule runs_walk [OF E refl, where W = "\<lambda>f. to_dict_node f (trie_methods E get put)"
      and G = "\<lambda>t. texts (pentries t)" and X = "\<lambda>p x. prefix_keys (path_text p) x []"
      and B = "\<lambda>ds v. let res = fold (\<lambda>(i, d). prefix_keys (py_str_int (int i)) d) (enumerate 0 ds) []
        in if v \<noteq> [] then AList.update ''16'' (Str v) res else res"])
  show "to_dict_node (Suc f) (trie_methods E get put) (nodeof E (PLeaf p v)) = ret (texts (pentries (PLeaf p v)))"
    if "pcanon (PLeaf p v)" for f p v
    using that prefix_keys_texts [of "[]" p "[([], v)]"]
    by (simp add: ret_eq is_key_value_type_def node_nth_def py_nth_def text_16)
  show "prefix_keys (path_text p) (texts (pentries t)) [] = texts (pentries (PExt p t))"
    if "pcanon (PExt p t)" for p t
    using that prefix_keys_texts [of "[]" p "pentries t"] distinct_pentries [of t]
    by (simp add: distinct_map inj_on_def)
  show "to_dict_node (Suc f) (trie_methods E get put) (nodeof E (PExt p t)) =
      bindM (bindM (child_node (trie_methods E get put) (nodeof E (PExt p t)) 1) (to_dict_node f (trie_methods E get put)))
        (\<lambda>x. ret (prefix_keys (path_text p) x []))" if "pcanon (PExt p t)" for f p t
    using that by (simp add: ret_eq is_key_value_type_def)
  show "to_dict_node (Suc f) (trie_methods E get put) (nodeof E (PBranch ts v)) =
      bindM (mapM (\<lambda>i. bindM (child_node (trie_methods E get put) (nodeof E (PBranch ts v)) i)
        (to_dict_node f (trie_methods E get put))) [0..<16])
      (\<lambda>ds. ret (let res = fold (\<lambda>(i, d). prefix_keys (py_str_int (int i)) d) (enumerate 0 ds) []
        in if v \<noteq> [] then AList.update ''16'' (Str v) res else res))" if "pcanon (PBranch ts v)" for f ts v
    using that by (simp add: ret_eq is_key_value_type_def nth_append truthy_def Let_def)
qed (use t dict_branch in \<open>auto simp del: pentries.simps(3,4) nodeof.simps\<close>)

lemma runs_iter_branch:
  assumes E: "ext_ok E" "rlp_ok E" and t: "pcanon t" "small t" "stored E m0 t" "depth t < f"
  shows "runs C view inv 0 m0 (iter_branch_node f (trie_methods E get put) (nodeof E t))
    (\<lambda>x m. x = texts (pentries t))"
proof (rule runs_walk [OF E refl, where W = "\<lambda>f. iter_branch_node f (trie_methods E get put)"
      and G = "\<lambda>t. texts (pentries t)" and X = "\<lambda>p. map (\<lambda>(k, v). (full_key (path_text p) k, v))"
      and B = "\<lambda>ds v. concat (map (\<lambda>(i, d). map (\<lambda>(k, v). (full_key (py_str_int (int i)) k, v)) d) (enumerate 0 ds)) @
        (if v \<noteq> [] then [(''16'', Str v)] else [])"])
  show "iter_branch_node (Suc f) (trie_methods E get put) (nodeof E (PLeaf p v)) = ret (texts (pentries (PLeaf p v)))"
    if "pcanon (PLeaf p v)" for f p v
    using that full_key_text [of "[16]" p]
    by (simp add: ret_eq is_key_value_type_def node_nth_def py_nth_def text_16)
  show "map (\<lambda>(k, v). (full_key (path_text p) k, v)) (texts (pentries t)) = texts (pentries (PExt p t))"
    if "pcanon (PExt p t)" for p t
    by (auto simp: full_key_text)
  show "iter_branch_node (Suc f) (trie_methods E get put) (nodeof E (PExt p t)) =
      bindM (bindM (child_node (trie_methods E get put) (nodeof E (PExt p t)) 1) (iter_branch_node f (trie_methods E get put)))
        (\<lambda>x. ret (map (\<lambda>(k, v). (full_key (path_text p) k, v)) x))" if "pcanon (PExt p t)" for f p t
    using that by (simp add: ret_eq is_key_value_type_def)
  show "iter_branch_node (Suc f) (trie_methods E get put) (nodeof E (PBranch ts v)) =
      bindM (mapM (\<lambda>i. bindM (child_node (trie_methods E get put) (nodeof E (PBranch ts v)) i)
        (iter_branch_node f (trie_methods E get put))) [0..<16])
      (\<lambda>ds. ret (concat (map (\<lambda>(i, d). map (\<lambda>(k, v). (full_key (py_str_int (int i)) k, v)) d) (enumerate 0 ds)) @
        (if v \<noteq> [] then [(''16'', Str v)] else [])))" if "pcanon (PBranch ts v)" for f ts v
    using that by (simp add: ret_eq is_key_value_type_def nth_append truthy_def)
  show "concat (map (\<lambda>(i, d). map (\<lambda>(k, v). (full_key (py_str_int (int i)) k, v)) d) (enumerate 0 (map (\<lambda>t. texts (pentries t)) ts))) @
        (if v \<noteq> [] then [(''16'', Str v)] else []) = texts (pentries (PBranch ts v))" for ts v
  proof -
    have "map (\<lambda>(k, v). (full_key (py_str_int (int i)) k, v)) (texts es) = texts (map (\<lambda>(k, v). (i # k, v)) es)" for i es
      using full_key_text [of "p @ [16]" "[i]" for p] by (auto simp: py_str_int_def)
    then have "map (\<lambda>i. map (\<lambda>(k, v). (full_key (py_str_int (int i)) k, v)) (texts (pentries (ts ! i)))) [0..<length ts] =
        map texts (map (\<lambda>i. map (\<lambda>(k, v). (i # k, v)) (pentries (ts ! i))) [0..<length ts])"
      by (simp del: map_map add: map_map [of texts])
    then show ?thesis
      unfolding pentries.simps enumerate_map map_append map_concat by (simp del: map_map add: text_16)
  qed
qed (use t in \<open>auto simp del: pentries.simps(4) nodeof.simps\<close>)

lemma runs_get_size:
  assumes E: "ext_ok E" "rlp_ok E" and t: "pcanon t" "small t" "stored E m0 t" "depth t < f"
  shows "runs C view inv 0 m0 (get_size f (trie_methods E get put) (nodeof E t))
    (\<lambda>x m. x = length (pentries t))"
proof (rule runs_walk [OF E refl, where W = "\<lambda>f. get_size f (trie_methods E get put)"
      and G = "\<lambda>t. length (pentries t)" and X = "\<lambda>p x. x"
      and B = "\<lambda>ds v. sum_list ds + (if v \<noteq> [] then 1 else 0)"])
  show "get_size (Suc f) (trie_methods E get put) (nodeof E (PBranch ts v)) =
      bindM (mapM (\<lambda>i. bindM (child_node (trie_methods E get put) (nodeof E (PBranch ts v)) i)
        (get_size f (trie_methods E get put))) [0..<16])
      (\<lambda>ds. ret (sum_list ds + (if v \<noteq> [] then 1 else 0)))" if "pcanon (PBranch ts v)" for f ts v
    using that by (simp add: ret_eq is_key_value_type_def nth_append truthy_def)
  show "sum_list (map (\<lambda>t. length (pentries t)) ts) + (if v \<noteq> [] then 1 else 0) = length (pentries (PBranch ts v))" for ts v
  proof -
    have "map (\<lambda>i. length (pentries (ts ! i))) [0..<length ts] = map (\<lambda>t. length (pentries t)) ts"
      by (rule nth_equalityI) simp_all
    then show ?thesis unfolding pentries.simps enumerate_map by (simp add: length_concat comp_def)
  qed
qed (use t in \<open>auto simp: ret_eq is_key_value_type_def\<close>)

end

section \<open>The contents as a dictionary\<close>

lemma key_of_path_text: "key_of_text (path_text (nibs key @ [16])) = Inr key"
proof -
  have "mapE (py_int 10) (map dec_digits p) = Inr (map int p)" for p
    by (induction p) simp_all
  moreover have "map nat (map int p) = p" for p by (induction p) simp_all
  moreover have "nibbles_to_bin (nibs key) = Inr key"
    using nibs_ok_nibs [of key] by (auto simp: nibbles_to_bin_def nibs_ok_def pack_pairs_nibs)
  ultimately show ?thesis
    by (simp add: key_of_text_def split_path_text without_terminator_def NIBBLE_TERMINATOR_def del: map_map map_append)
qed

abbreviation keyed :: "(string \<times> string) list \<Rightarrow> (nat list \<times> string) list" where
  "keyed kvs \<equiv> map (\<lambda>(key, v). (nibs key, v)) kvs"

lemma dict_of_keyed:
  "distinct (map fst (res @ map (\<lambda>(key, v). (key, Str v)) kvs)) \<Longrightarrow>
     dict_of_texts (texts (keyed kvs)) res = Inr (res @ map (\<lambda>(key, v). (key, Str v)) kvs)"
proof (induction kvs arbitrary: res)
  case (Cons e kvs)
  obtain key v where e: "e = (key, v)" by fastforce
  have up: "AList.update key (Str v) res = res @ [(key, Str v)]"
    using Cons.prems e by (intro update_fresh) auto
  have "dict_of_texts (texts (keyed (e # kvs))) res = dict_of_texts (texts (keyed kvs)) (res @ [(key, Str v)])"
    by (simp add: e key_of_path_text up)
  also have "\<dots> = Inr ((res @ [(key, Str v)]) @ map (\<lambda>(key, v). (key, Str v)) kvs)"
    using Cons.prems e by (intro Cons.IH) simp
  finally show ?case by (simp add: e)
qed simp

lemma iter_of_keyed:
  "mapE (\<lambda>(k, v). bindE (key_of_text k) (\<lambda>key. Inr (key, v))) (texts (keyed kvs)) =
     Inr (map (\<lambda>(key, v). (key, Str v)) kvs)"
  by (induction kvs) (auto simp: key_of_path_text)

text \<open>The entries of a tree that stands for a map of byte keys.\<close>

lemma entries_of_map:
  assumes "tree_for t m"
  obtains kvs where "pentries t = keyed kvs" "distinct (map fst kvs)"
    "\<And>key v. (key, v) \<in> set kvs \<longleftrightarrow> m key = v \<and> v \<noteq> []"
proof -
  have t: "pcanon t" "\<And>key. plookup t (nibs key) = m key"
      "\<And>k. nibs_ok k \<Longrightarrow> plookup t k \<noteq> [] \<Longrightarrow> \<exists>key. k = nibs key"
    using assms by (auto simp: tree_for_def)
  have ok: "nibs_ok k" if "(k, v) \<in> set (pentries t)" for k v
    using t(1) that
  proof (induction t arbitrary: k)
    case (PBranch ts w)
    have "nibs_ok k'" if "i < length ts" "(k', v) \<in> set (pentries (ts ! i))" for i k'
      using PBranch.IH [of "ts ! i" k'] PBranch.prems(1) that by simp
    with PBranch.prems show ?case
      unfolding pentries.simps set_append Un_iff in_children by (auto split: if_splits)
  qed (auto simp: in_retagged)
  have "\<exists>kvs. pentries t = keyed kvs"
    unfolding ex_map_conv
  proof
    fix e assume e: "e \<in> set (pentries t)"
    obtain k v where kv: "e = (k, v)" by fastforce
    with e t(1) pentries_lookup ok t(3) obtain key where "k = nibs key" by metis
    with kv show "\<exists>x. e = (case x of (key, v) \<Rightarrow> (nibs key, v))" by (intro exI [of _ "(key, v)"]) simp
  qed
  then obtain kvs where kvs: "pentries t = keyed kvs" by blast
  have "distinct (map fst kvs)"
    using distinct_pentries [OF t(1)] unfolding kvs fst_retagged by (metis distinct_map)
  moreover have "(key, v) \<in> set kvs \<longleftrightarrow> m key = v \<and> v \<noteq> []" for key v
  proof -
    have "(key, v) \<in> set kvs \<longleftrightarrow> (nibs key, v) \<in> set (pentries t)"
      unfolding kvs by (auto simp: in_retagged nibs_inject)
    then show ?thesis by (simp add: pentries_lookup [OF t(1)] t(2))
  qed
  ultimately show thesis using kvs that by blast
qed

definition dict_lists :: "(string \<times> item) list \<Rightarrow> contents \<Rightarrow> bool" where
  "dict_lists d m \<longleftrightarrow> distinct (map fst d) \<and>
     map_of d = (\<lambda>key. if m key = [] then None else Some (Str (m key)))"

lemma dict_lists_entries:
  assumes "distinct (map fst kvs)" "\<And>key v. (key, v) \<in> set kvs \<longleftrightarrow> m key = v \<and> v \<noteq> []"
  shows "dict_lists (map (\<lambda>(key, v). (key, Str v)) kvs) m"
proof -
  have "map_of (map (\<lambda>(key, v). (key, Str v)) kvs) = map_option Str \<circ> map_of kvs"
    by (rule map_of_map)
  moreover have "map_of kvs key = (if m key = [] then None else Some (m key))" for key
    using assms map_of_eq_Some_iff [OF assms(1), of key] by (cases "map_of kvs key") auto
  moreover have "map fst (map (\<lambda>(key, v). (key, Str v)) kvs) = map fst kvs"
    by (induction kvs) auto
  ultimately show ?thesis
    using assms(1) by (simp add: dict_lists_def comp_def fun_eq_iff del: map_map list.map_comp map_eq_conv)
qed

text \<open>The recursion is no deeper than twice the longest key.\<close>

lemma tree_depth:
  assumes "tree_for t m" "\<And>key. m key \<noteq> [] \<Longrightarrow> length key \<le> L" "2 * L < limit"
  shows "depth t < limit"
proof -
  obtain kvs where kvs: "pentries t = keyed kvs" "distinct (map fst kvs)"
      "\<And>key v. (key, v) \<in> set kvs \<longleftrightarrow> m key = v \<and> v \<noteq> []"
    using entries_of_map [OF assms(1)] by blast
  have "length k \<le> 2 * L" if "(k, v) \<in> set (pentries t)" for k v
    using that assms(2) kvs(3) unfolding kvs(1) by (auto simp: in_retagged)
  then show ?thesis
    using depth_bound [of t "2 * L"] tree_for_small [OF assms(1)] assms(3) by fastforce
qed

context content_store begin

lemma walk_object:
  assumes E: "ext_ok E" "rlp_ok E" and tr: "represents E view tr m" and inv: "inv n (tdb tr)"
    and len: "\<And>key. m key \<noteq> [] \<Longrightarrow> length key \<le> L" "2 * L < limit"
  shows "\<exists>kvs s1 s2 s3. distinct (map fst kvs) \<and> (\<forall>key v. (key, v) \<in> set kvs \<longleftrightarrow> m key = v \<and> v \<noteq> []) \<and>
    to_dict limit (trie_methods E get put) tr = (Inr (map (\<lambda>(key, v). (key, Str v)) kvs), tr\<lparr>tdb := s1\<rparr>) \<and>
    inv n s1 \<and> view (tdb tr) \<subseteq>\<^sub>m view s1 \<and>
    iter_branch limit (trie_methods E get put) tr = (Inr (map (\<lambda>(key, v). (key, Str v)) kvs), tr\<lparr>tdb := s2\<rparr>) \<and>
    trie_len limit (trie_methods E get put) tr = (Inr (length kvs), tr\<lparr>tdb := s3\<rparr>)"
proof -
  obtain t where t: "tree_for t m" "in_store E (view (tdb tr)) t" "root_node tr = nodeof E t"
    using tr by (auto simp: represents_def)
  obtain kvs where kvs: "pentries t = keyed kvs" "distinct (map fst kvs)"
      "\<And>key v. (key, v) \<in> set kvs \<longleftrightarrow> m key = v \<and> v \<noteq> []"
    using entries_of_map [OF t(1)] by blast
  have depth: "depth t < limit" by (rule tree_depth [OF t(1) len])
  have small: "pcanon t" "small t" "stored E (view (tdb tr)) t"
    using tree_for_small [OF t(1)] t(2) by (auto simp: in_store_def)
  have obj: "\<exists>s'. in_tdb p tr = (Inr x, tr\<lparr>tdb := s'\<rparr>) \<and> inv n s' \<and> view (tdb tr) \<subseteq>\<^sub>m view s'"
    if "runs (\<lambda>_. False) view inv 0 (view (tdb tr)) p (\<lambda>y m. y = x)" for p :: "('s, 'x) M" and x
    by (rule in_tdb_runs [OF that, of n tr]) (use inv in \<open>auto split: sum.splits\<close>)
  have fresh: "distinct (map fst ([] @ map (\<lambda>(key, v). (key, Str v)) kvs))"
    using dict_lists_entries [OF kvs(2,3)] by (simp add: dict_lists_def)
  obtain s1 where "to_dict limit (trie_methods E get put) tr = (Inr (map (\<lambda>(key, v). (key, Str v)) kvs), tr\<lparr>tdb := s1\<rparr>)"
      "inv n s1" "view (tdb tr) \<subseteq>\<^sub>m view s1"
    using obj [OF runs_to_dict [OF E small depth]] dict_of_keyed [OF fresh] t(3)
    by (auto simp: to_dict_def bindM_def kvs(1) simp del: map_map)
  moreover obtain s2 where "iter_branch limit (trie_methods E get put) tr = (Inr (map (\<lambda>(key, v). (key, Str v)) kvs), tr\<lparr>tdb := s2\<rparr>)"
    using obj [OF runs_iter_branch [OF E small depth]] iter_of_keyed [of kvs] t(3)
    by (auto simp: iter_branch_def bindM_def kvs(1) simp del: map_map)
  moreover obtain s3 where "trie_len limit (trie_methods E get put) tr = (Inr (length kvs), tr\<lparr>tdb := s3\<rparr>)"
    using obj [OF runs_get_size [OF E small depth]] t(3) by (auto simp: trie_len_def bindM_def kvs(1))
  ultimately show ?thesis using kvs(2,3) by blast
qed

end

section \<open>The property\<close>

text \<open>C30. \<open>to_dict\<close> returns a dictionary of exactly the keys and values the trie represents, whatever
  the length of its keys as long as the interpreter's recursion limit exceeds twice the longest key;
  \<open>iter_branch\<close> yields the same pairs, and \<open>len\<close> is their number. None of them changes the trie.\<close>

theorem to_dict_lists_contents:
  assumes "ext_ok E" "rlp_ok E" "represents E chain_view tr m" "refcount_inv level_view n (tdb tr)"
    and "\<And>key. m key \<noteq> [] \<Longrightarrow> length key \<le> L" "2 * L < limit"
  shows "\<exists>d s1 s2 s3.
    to_dict limit (chain_trie E) tr = (Inr d, tr\<lparr>tdb := s1\<rparr>) \<and>
    distinct (map fst d) \<and> map_of d = (\<lambda>key. if m key = [] then None else Some (Str (m key))) \<and>
    iter_branch limit (chain_trie E) tr = (Inr d, tr\<lparr>tdb := s2\<rparr>) \<and>
    trie_len limit (chain_trie E) tr = (Inr (card {key. m key \<noteq> []}), tr\<lparr>tdb := s3\<rparr>)"
proof -
  obtain kvs s1 s2 s3 where kvs: "distinct (map fst kvs)" "\<And>key v. (key, v) \<in> set kvs \<longleftrightarrow> m key = v \<and> v \<noteq> []"
    and run: "to_dict limit (chain_trie E) tr = (Inr (map (\<lambda>(key, v). (key, Str v)) kvs), tr\<lparr>tdb := s1\<rparr>)"
      "iter_branch limit (chain_trie E) tr = (Inr (map (\<lambda>(key, v). (key, Str v)) kvs), tr\<lparr>tdb := s2\<rparr>)"
      "trie_len limit (chain_trie E) tr = (Inr (length kvs), tr\<lparr>tdb := s3\<rparr>)"
    using lvl.rc.walk_object [OF assms(1-3), of E n L limit] assms(1,4-6) by blast
  have "{key. m key \<noteq> []} = set (map fst kvs)"
    using kvs(2) by force
  then have "card {key. m key \<noteq> []} = length kvs"
    using distinct_card [OF kvs(1)] by simp
  with run dict_lists_entries [OF kvs] show ?thesis
    by (auto simp: dict_lists_def)
qed

theorem to_dict_lists_contents_witness:
  "\<exists>d s1. to_dict 7 (chain_trie ext_ref) (blank_trie ext_ref level_empty) =
     (Inr d, (blank_trie ext_ref level_empty)\<lparr>tdb := s1\<rparr>) \<and> map_of d = (\<lambda>key. None)"
  using to_dict_lists_contents [OF ext_ref_ok ext_ref_rlp_ok represents_blank, of 0 level_empty 3 7]
    level_empty_inv [of 0] by auto

end
