(* ===== verification/Snapshots.thy ===== *)
theory Snapshots
  imports State TrieDict
begin

text \<open>
  Snapshots of the state: the dictionary of all accounts (\<open>SecureTrie.to_dict\<close>, \<open>State.to_dict\<close>,
  \<open>list_all_addresses\<close>), its text form (\<open>to_snapshot\<close>) and the state built from one (the second
  definition of \<open>from_snapshot\<close>; the first is overwritten by it). A snapshot is the record of its
  entries, absent ones None; the JSON library that writes it to the database is the parameter
  \<open>json\<close>. Python's unspecified order of dictionaries is the order of the association lists.
\<close>

section \<open>Dictionaries of the state\<close>

text \<open>\<open>limit\<close> is the recursion limit of the walk of the trie, see \<open>TrieDict\<close>.\<close>

fun secure_dict :: "'s trie_env \<Rightarrow> (string \<times> item) list \<Rightarrow> (string \<times> item) list \<Rightarrow> ('s trie, (string \<times> item) list) M" where
  "secure_dict T [] d = ret d"
| "secure_dict T ((h, v) # hs) d =
     bindM (in_tdb (t_get T h)) (\<lambda>k. secure_dict T hs (AList.update k v d))"

definition secure_to_dict :: "nat \<Rightarrow> 's trie_env \<Rightarrow> ('s trie, (string \<times> item) list) M" where
  "secure_to_dict limit T = bindM (to_dict limit T) (\<lambda>d. secure_dict T d [])"

fun secure_pairs :: "'s trie_env \<Rightarrow> (string \<times> item) list \<Rightarrow> ('s trie, (string \<times> item) list) M" where
  "secure_pairs T [] = ret []"
| "secure_pairs T ((h, v) # hs) =
     bindM (in_tdb (t_get T h)) (\<lambda>k. bindM (secure_pairs T hs) (\<lambda>d. ret ((k, v) # d)))"

definition secure_iter_branch :: "nat \<Rightarrow> 's trie_env \<Rightarrow> ('s trie, (string \<times> item) list) M" where
  "secure_iter_branch limit T = bindM (iter_branch limit T) (secure_pairs T)"

record account_dict =
  ad_balance :: "string option"
  ad_nonce :: "string option"

definition account_to_dict :: "account \<Rightarrow> account_dict" where
  "account_to_dict a = \<lparr>ad_balance = Some (a_balance a), ad_nonce = Some (py_str_int (int (a_nonce a)))\<rparr>"

definition state_to_dict :: "nat \<Rightarrow> ('b, 'i) senv \<Rightarrow> ('b state, (string \<times> account_dict) list) M" where
  "state_to_dict limit S =
     bindM (in_trie (secure_to_dict limit (state_trie S))) (\<lambda>d.
     bindM (forM (map fst d) (\<lambda>addr. bindM (get_and_cache_account S addr) (\<lambda>_. ret ()))) (\<lambda>_.
     gets (\<lambda>st. map (\<lambda>(addr, acct). (hex_encode addr, account_to_dict acct)) (st_cache st))))"

definition list_all_addresses :: "nat \<Rightarrow> ('b, 'i) senv \<Rightarrow> ('b state, string list) M" where
  "list_all_addresses limit S = bindM (in_trie (secure_to_dict limit (state_trie S))) (\<lambda>d. ret (map fst d))"

section \<open>Snapshots\<close>

record header_dict =
  hd_hash :: string
  hd_number :: string
  hd_timestamp :: string

record snapshot_data =
  sd_alloc :: "(string \<times> account_dict) list option"
  sd_state_root :: "string option"
  sd_txindex :: "string option"
  sd_block_number :: "string option"
  sd_block_coinbase :: "string option"
  sd_timestamp :: "string option"
  sd_prev_headers :: "header_dict list option"

record json =
  js_dumps :: "snapshot_data \<Rightarrow> string"
  js_loads :: "string \<Rightarrow> snapshot_data res"

definition json_ok :: "json \<Rightarrow> bool" where
  "json_ok J \<longleftrightarrow> (\<forall>d. js_loads J (js_dumps J d) = Inr d)"

definition PREV_HEADER_DEPTH :: nat where
  "PREV_HEADER_DEPTH = 256"

definition prev_header_to_dict :: "ext \<Rightarrow> past_header \<Rightarrow> header_dict" where
  "prev_header_to_dict E h =
     \<lparr>hd_hash = ''0x'' @ hex_encode (past_hash E h), hd_number = py_str_int (int (past_number h)),
      hd_timestamp = py_str_int (int (past_timestamp h))\<rparr>"

definition dict_to_prev_header :: "header_dict \<Rightarrow> past_header res" where
  "dict_to_prev_header h =
     bindE (parse_as_bin (hd_hash h)) (\<lambda>hash.
     bindE (parse_as_int (PyStr (hd_number h))) (\<lambda>number.
     bindE (parse_as_int (PyStr (hd_timestamp h))) (\<lambda>timestamp.
     Inr (FakeHeader hash (nat number) (nat timestamp)))))"

definition to_snapshot :: "nat \<Rightarrow> ('b, 'i) senv \<Rightarrow> bool \<Rightarrow> bool \<Rightarrow> ('b state, snapshot_data) M" where
  "to_snapshot limit S root_only no_prevblocks =
     bindM (if root_only then ret None else bindM (state_to_dict limit S) (\<lambda>d. ret (Some d))) (\<lambda>alloc.
     gets (\<lambda>st. \<lparr>sd_alloc = alloc,
       sd_state_root = (if root_only then Some (''0x'' @ hex_encode (root_hash (st_trie st))) else None),
       sd_txindex = Some (py_str_int (int (st_txindex st))),
       sd_block_number = Some (py_str_int (int (st_block_number st))),
       sd_block_coinbase = Some (''0x'' @ hex_encode (st_block_coinbase st)),
       sd_timestamp = Some (py_str_int (int (st_timestamp st))),
       sd_prev_headers = (if no_prevblocks then None
         else Some (map (prev_header_to_dict (s_ext S)) (take PREV_HEADER_DEPTH (st_prev_headers st))))\<rparr>))"

text \<open>The account of one entry; a key of 40 characters is hexadecimal.\<close>

definition alloc_entry :: "('b, 'i) senv \<Rightarrow> string \<times> account_dict \<Rightarrow> ('b state, unit) M" where
  "alloc_entry S e =
     (case e of (addr0, data) \<Rightarrow>
        bindM (liftE (if length addr0 = 40 then hex_decode addr0 else Inr addr0)) (\<lambda>addr.
        bindM (assertM (length addr = 20)) (\<lambda>_.
        bindM (case ad_balance data of
                 None \<Rightarrow> ret ()
               | Some b \<Rightarrow> bindM (liftE (bin_to_object S b)) (\<lambda>bal. set_balance S (PyStr addr) bal)) (\<lambda>_.
        case ad_nonce data of
          None \<Rightarrow> ret ()
        | Some n \<Rightarrow> bindM (liftE (parse_as_int (PyStr n))) (\<lambda>i. set_nonce S (PyStr addr) (nat i))))))"

definition numeric_entry :: "string option \<Rightarrow> nat res" where
  "numeric_entry v = (case v of None \<Rightarrow> Inr 0 | Some s \<Rightarrow> bindE (parse_as_int (PyStr s)) (\<lambda>n. Inr (nat n)))"

definition load_variables :: "snapshot_data \<Rightarrow> ('b state, unit) M" where
  "load_variables d =
     bindM (liftE (numeric_entry (sd_txindex d))) (\<lambda>txindex.
     bindM (liftE (numeric_entry (sd_block_number d))) (\<lambda>block_number.
     bindM (liftE (case sd_block_coinbase d of None \<Rightarrow> Inr (replicate 20 (CHR 0x00)) | Some c \<Rightarrow> parse_as_bin c)) (\<lambda>coinbase.
     bindM (liftE (numeric_entry (sd_timestamp d))) (\<lambda>timestamp.
     bindM (liftE (case sd_prev_headers d of None \<Rightarrow> Inr [] | Some hs \<Rightarrow> mapE dict_to_prev_header hs)) (\<lambda>headers.
     modifyM (\<lambda>st. st\<lparr>st_txindex := txindex, st_block_number := block_number, st_block_coinbase := coinbase,
       st_timestamp := timestamp, st_prev_headers := headers\<rparr>))))))"

definition fill_snapshot :: "('b, 'i) senv \<Rightarrow> snapshot_data \<Rightarrow> bool \<Rightarrow> ('b state, unit) M" where
  "fill_snapshot S d executing_on_head =
     bindM (case sd_alloc d of
              Some accounts \<Rightarrow> forM accounts (alloc_entry S)
            | None \<Rightarrow>
                (case sd_state_root d of
                   Some root \<Rightarrow> bindM (liftE (parse_as_bin root)) (\<lambda>r. in_trie (set_root_hash (state_trie S) r))
                 | None \<Rightarrow> raise PyException)) (\<lambda>_.
     bindM (load_variables d) (\<lambda>_.
     bindM (if executing_on_head then modifyM (\<lambda>st. st\<lparr>st_executing_on_head := True\<rparr>) else ret ()) (\<lambda>_.
     bindM (state_commit S False) (\<lambda>_.
     modifyM (\<lambda>st. st\<lparr>st_changed := []\<rparr>)))))"

text \<open>The store is that of the environment the state is built in.\<close>

definition from_snapshot :: "('b, 'i) senv \<Rightarrow> snapshot_data \<Rightarrow> bool \<Rightarrow> ('b, 'b state) M" where
  "from_snapshot S d executing_on_head db =
     (case state_init S db [] False of
        Inl e \<Rightarrow> (Inl e, db)
      | Inr st \<Rightarrow>
          (case fill_snapshot S d executing_on_head st of
             (Inl e, st') \<Rightarrow> (Inl e, tdb (st_trie st'))
           | (Inr _, st') \<Rightarrow> (Inr st', tdb (st_trie st'))))"

end
