(* ===== verification/Genesis.thy ===== *)
theory Genesis
  imports Snapshots Apply Wire
begin

text \<open>
  \<open>genesis_helpers.py\<close>: the first block and the first state of a chain from the declaration in
  \<open>genesis.json\<close>. The declaration is a record; an account of its list is the address with the own
  prefixes of its balance, None when it declares no balance. The environment of a chain collects the
  parameters of its parts: the state's, the radix tree, JSON, the reading of addresses, \<open>commit\<close> of
  the database and the recursion limit.
\<close>

record ('b, 'i, 'p) cenv =
  ce_S :: "('b, 'i) senv"
  ce_R :: "'p radix_ops"
  ce_J :: json
  ce_I :: iplib
  ce_net :: "string \<Rightarrow> ipnet res"
  ce_commit :: "('b, unit) M"
  ce_limit :: nat

abbreviation ce_E :: "('b, 'i, 'p) cenv \<Rightarrow> ext" where
  "ce_E C \<equiv> s_ext (ce_S C)"

record genesis_data =
  gd_timestamp :: pyarg
  gd_coinbase :: string
  gd_parentHash :: string
  gd_random_number :: string
  gd_group_sig :: string
  gd_group_key :: string
  gd_count :: pyarg
  gd_alloc :: "(string \<times> string list option) list"

definition GENESIS_PREVHASH :: string where
  "GENESIS_PREVHASH = replicate 32 (CHR 0x00)"

definition GENESIS_COINBASE :: string where
  "GENESIS_COINBASE = replicate 20 (CHR 0x00)"

definition block_from_genesis_declaration :: "ext \<Rightarrow> genesis_data \<Rightarrow> block res" where
  "block_from_genesis_declaration E g =
     bindE (parse_as_int (gd_timestamp g)) (\<lambda>timestamp.
     bindE (parse_as_bin (gd_coinbase g)) (\<lambda>coinbase.
     bindE (parse_as_bin (gd_parentHash g)) (\<lambda>prevhash.
     bindE (parse_as_bin (gd_random_number g)) (\<lambda>random_number.
     bindE (parse_as_int (gd_count g)) (\<lambda>count.
     Inr (block_init
       \<lparr>h_prevhash = prevhash, h_timestamp = nat timestamp, h_extra_data = [], h_state_root = BLANK_ROOT E,
        h_tx_root = BLANK_ROOT E, h_number = 0, h_coinbase = coinbase, h_random_number = random_number,
        h_group_pubkey = gd_group_key g, h_group_sig = gd_group_sig g, h_count = nat count\<rparr> [] 0 0 0))))))"

text \<open>The list of accounts as a dictionary: a repeated address keeps its last entry.\<close>

definition alloc_dict :: "(string \<times> string list option) list \<Rightarrow> (string \<times> string list option) list" where
  "alloc_dict l = fold (\<lambda>(addr, data). AList.update addr data) l []"

text \<open>The loop over the accounts; \<open>pytricia\<close> is the dictionary from the text of a prefix to its owner.\<close>

fun genesis_accounts ::
  "('b, 'i, 'p) cenv \<Rightarrow> (string \<times> string list option) list \<Rightarrow> (string \<times> string) list \<Rightarrow> ('b state, (string \<times> string) list) M" where
  "genesis_accounts C [] pytricia = ret pytricia"
| "genesis_accounts C ((addr0, data) # accs) pytricia =
     bindM (liftE (normalize_address (ce_E C) (PyStr addr0) False)) (\<lambda>addr.
     bindM (assertM (length addr = 20)) (\<lambda>_.
     bindM (case data of
              None \<Rightarrow> ret pytricia
            | Some ips \<Rightarrow>
                bindM (liftE (mapE (ce_net C) ips)) (\<lambda>nets.
                bindM (set_balance (ce_S C) (PyStr addr)
                  ((empty_balance (s_ips (ce_S C)))\<lparr>own_ips := fold (is_add (s_ips (ce_S C))) nets (is_empty (s_ips (ce_S C)))\<rparr>)) (\<lambda>_.
                ret (fold (\<lambda>ip. AList.update ip addr) ips pytricia)))) (\<lambda>pytricia'.
     genesis_accounts C accs pytricia')))"

text \<open>\<open>state_from_genesis_declaration(genesis, env, executing_on_head=True, pytricia)\<close>, as \<open>Chain\<close>
  calls it.\<close>

definition fill_genesis :: "('b, 'i, 'p) cenv \<Rightarrow> genesis_data \<Rightarrow> bool \<Rightarrow> ('b state, (string \<times> string) list) M" where
  "fill_genesis C g executing_on_head =
     bindM (liftE (block_from_genesis_declaration (ce_E C) g)) (\<lambda>b.
     bindM (genesis_accounts C (alloc_dict (gd_alloc g)) []) (\<lambda>pytricia.
     bindM (if executing_on_head then modifyM (\<lambda>st. st\<lparr>st_executing_on_head := True\<rparr>) else ret ()) (\<lambda>_.
     bindM (state_commit (ce_S C) False) (\<lambda>_.
     bindM (modifyM (\<lambda>st. st\<lparr>st_changed := [],
       st_prev_headers := [RealHeader ((b_header b)\<lparr>h_state_root := root_hash (st_trie st)\<rparr>)]\<rparr>)) (\<lambda>_.
     ret pytricia)))))"

definition state_from_genesis_declaration ::
  "('b, 'i, 'p) cenv \<Rightarrow> genesis_data \<Rightarrow> bool \<Rightarrow> ('b, 'b state \<times> (string \<times> string) list) M" where
  "state_from_genesis_declaration C g executing_on_head db =
     (case state_init (ce_S C) db [] False of
        Inl e \<Rightarrow> (Inl e, db)
      | Inr st \<Rightarrow>
          (case fill_genesis C g executing_on_head st of
             (Inl e, st') \<Rightarrow> (Inl e, tdb (st_trie st'))
           | (Inr pytricia, st') \<Rightarrow> (Inr (st', pytricia), tdb (st_trie st'))))"

definition initialize_state :: "('b state, unit) M" where
  "initialize_state = modifyM (\<lambda>st. st\<lparr>st_txindex := 0\<rparr>)"

text \<open>\<open>rlp.encode(genesis, Block.exclude(['v', 'r', 's']))\<close>.\<close>

definition unsigned_rlp :: "ext \<Rightarrow> block \<Rightarrow> string" where
  "unsigned_rlp E b = rlp_enc E (Lst (block_fields E b))"

definition number_key :: "nat \<Rightarrow> string" where
  "number_key n = ''block:'' @ py_str_int (int n)"

definition initialize_genesis_keys :: "('b, 'i, 'p) cenv \<Rightarrow> block \<Rightarrow> ('b state, unit) M" where
  "initialize_genesis_keys C genesis =
     (let E = ce_E C; put = (\<lambda>k v. in_db (so_put (s_db (ce_S C)) k v)); h = header_hash E (b_header genesis)
      in bindM (put ''GENESIS_NUMBER'' (py_str_int (int (h_number (b_header genesis))))) (\<lambda>_.
         bindM (put ''GENESIS_HASH'' h) (\<lambda>_.
         bindM (to_snapshot (ce_limit C) (ce_S C) False False) (\<lambda>snap.
         bindM (put ''GENESIS_STATE'' (js_dumps (ce_J C) snap)) (\<lambda>_.
         bindM (put ''GENESIS_RLP'' (unsigned_rlp E genesis)) (\<lambda>_.
         bindM (put (number_key 0) h) (\<lambda>_.
         bindM (gets (\<lambda>st. root_hash (st_trie st))) (\<lambda>root.
         bindM (put (''state:'' @ h) root) (\<lambda>_.
         bindM (put h ''GENESIS'') (\<lambda>_.
         in_db (ce_commit C)))))))))))"

end
