(* ===== verification/Chain.thy ===== *)
theory Chain
  imports Genesis
begin

text \<open>
  \<open>chain.py\<close>: the class \<open>Chain\<close>. Its state record holds the state of the head, with the database
  inside the state's trie, the prefix index with the file it is pickled to, the genesis block once it
  is known, the hash of the head, and the queues of early blocks and of blocks without a parent. The
  clock is an argument; the callback for a new head, which the program never sets, and logging are
  left out.
\<close>

record ('b, 'p) chain =
  ch_state :: "'b state"
  ch_patricia :: "'p patricia"
  ch_patricia_file :: "(ipnet \<times> string) list option"
  ch_genesis :: "block option"
  ch_head_hash :: string
  ch_time_queue :: "block list"
  ch_parent_queue :: "(string \<times> block list) list"
  ch_localtime :: nat

definition in_state :: "('b state, 'a) M \<Rightarrow> (('b, 'p) chain, 'a) M" where
  "in_state m = zoomM ch_state (\<lambda>st c. c\<lparr>ch_state := st\<rparr>) m"

text \<open>The operations of \<open>self.db\<close>.\<close>

definition cget :: "('b, 'i, 'p) cenv \<Rightarrow> string \<Rightarrow> (('b, 'p) chain, string) M" where
  "cget C k = in_state (in_db (so_get (s_db (ce_S C)) k))"

definition cput :: "('b, 'i, 'p) cenv \<Rightarrow> string \<Rightarrow> string \<Rightarrow> (('b, 'p) chain, unit) M" where
  "cput C k v = in_state (in_db (so_put (s_db (ce_S C)) k v))"

definition chas :: "('b, 'i, 'p) cenv \<Rightarrow> string \<Rightarrow> (('b, 'p) chain, bool) M" where
  "chas C k = in_state (in_db (so_has (s_db (ce_S C)) k))"

text \<open>\<open>try: x = m except Exception: x = None\<close>.\<close>

definition attempt :: "('s, 'a) M \<Rightarrow> ('s, 'a option) M" where
  "attempt m = catchM (bindM m (\<lambda>x. ret (Some x))) (\<lambda>e. is_a e PyException) (\<lambda>_. ret None)"

section \<open>The state after a block\<close>

text \<open>The headers of a block and its ancestors, with the last block read and the number of the round
  that ended the loop.\<close>

fun header_loop :: "('b, 'i, 'p) cenv \<Rightarrow> nat \<Rightarrow> nat \<Rightarrow> block \<Rightarrow> past_header list \<Rightarrow> ('b, past_header list \<times> block \<times> nat) M" where
  "header_loop C 0 i b hs = ret (hs, b, i)"
| "header_loop C (Suc n) i b hs =
     bindM (attempt (bindM (so_get (s_db (ce_S C)) (h_prevhash (b_header b))) (\<lambda>r.
       liftE (block_decode (ce_E C) (ce_I C) r)))) (\<lambda>parent.
     case parent of
       None \<Rightarrow> ret (hs @ [RealHeader (b_header b)], b, i)
     | Some b' \<Rightarrow> header_loop C n (Suc i) b' (hs @ [RealHeader (b_header b)]))"

definition poststate_headers :: "('b, 'i, 'p) cenv \<Rightarrow> block \<Rightarrow> ('b, past_header list) M" where
  "poststate_headers C block =
     bindM (header_loop C (Suc PREV_HEADER_DEPTH) 0 block []) (\<lambda>(hs, b, i).
     if i < PREV_HEADER_DEPTH
     then bindM (so_get (s_db (ce_S C)) (h_prevhash (b_header b))) (\<lambda>r.
          if r = ''GENESIS''
          then bindM (so_get (s_db (ce_S C)) ''GENESIS_STATE'') (\<lambda>js.
               bindM (liftE (js_loads (ce_J C) js)) (\<lambda>d.
               bindM (liftE (case sd_prev_headers d of None \<Rightarrow> Inl KeyError
                 | Some l \<Rightarrow> mapE dict_to_prev_header (take (PREV_HEADER_DEPTH - i) l))) (\<lambda>old.
               ret (hs @ old))))
          else raise PyException)
     else ret hs)"

definition mk_poststate_of_blockhash :: "('b, 'i, 'p) cenv \<Rightarrow> string \<Rightarrow> ('b, 'b state) M" where
  "mk_poststate_of_blockhash C blockhash =
     bindM (so_has (s_db (ce_S C)) blockhash) (\<lambda>known.
     if \<not> known then raise PyException
     else
       bindM (so_get (s_db (ce_S C)) blockhash) (\<lambda>block_rlp.
       if block_rlp = ''GENESIS''
       then bindM (so_get (s_db (ce_S C)) ''GENESIS_STATE'') (\<lambda>js.
            bindM (liftE (js_loads (ce_J C) js)) (\<lambda>d. from_snapshot (ce_S C) d False))
       else
         bindM (liftE (block_decode (ce_E C) (ce_I C) block_rlp)) (\<lambda>b.
         bindM (\<lambda>db. (state_init (ce_S C) db [] False, db)) (\<lambda>st0.
         bindM (\<lambda>db. case in_trie (set_root_hash (state_trie (ce_S C)) (h_state_root (b_header b)))
                          (st0\<lparr>st_trie := (st_trie st0)\<lparr>tdb := db\<rparr>\<rparr>) of
                       (Inl e, st) \<Rightarrow> (Inl e, tdb (st_trie st)) | (Inr u, st) \<Rightarrow> (Inr st, tdb (st_trie st))) (\<lambda>st1.
         bindM (poststate_headers C b) (\<lambda>hs db.
           (Inr (st1\<lparr>st_trie := (st_trie st1)\<lparr>tdb := db\<rparr>, st_timestamp := h_timestamp (b_header b),
              st_block_number := h_number (b_header b), st_block_coinbase := h_coinbase (b_header b),
              st_txindex := length (b_transactions b), st_prev_headers := hs\<rparr>), db)))))))"

section \<open>Looking up blocks\<close>

text \<open>\<open>None\<close> stands for the block hash that \<open>get_blockhash_by_number\<close> did not find: no key.\<close>

definition get_block :: "('b, 'i, 'p) cenv \<Rightarrow> string option \<Rightarrow> (('b, 'p) chain, block) M" where
  "get_block C blockhash =
     (case blockhash of
        None \<Rightarrow> raise TypeError
      | Some h \<Rightarrow>
          bindM (cget C h) (\<lambda>block_rlp.
          if block_rlp = ''GENESIS''
          then
            bindM (gets ch_genesis) (\<lambda>g.
            case g of
              Some b \<Rightarrow> ret b
            | None \<Rightarrow>
                bindM (cget C ''GENESIS_RLP'') (\<lambda>r.
                bindM (liftE (unsigned_block_decode (ce_E C) (ce_I C) r)) (\<lambda>b.
                bindM (modifyM (\<lambda>c. c\<lparr>ch_genesis := Some b\<rparr>)) (\<lambda>_. ret b))))
          else liftE (block_decode (ce_E C) (ce_I C) block_rlp)))"

definition get_head_block :: "('b, 'i, 'p) cenv \<Rightarrow> (('b, 'p) chain, block option) M" where
  "get_head_block C =
     attempt (
       bindM (gets ch_head_hash) (\<lambda>h.
       bindM (cget C h) (\<lambda>block_rlp.
       if block_rlp = ''GENESIS''
       then bindM (gets ch_genesis) (\<lambda>g. case g of Some b \<Rightarrow> ret b | None \<Rightarrow> raise AttributeError)
       else liftE (block_decode (ce_E C) (ce_I C) block_rlp))))"

definition genesis_number :: "('b, 'i, 'p) cenv \<Rightarrow> (('b, 'p) chain, int) M" where
  "genesis_number C = bindM (cget C ''GENESIS_NUMBER'') (\<lambda>s. liftE (py_int 10 s))"

definition get_parent :: "('b, 'i, 'p) cenv \<Rightarrow> block \<Rightarrow> (('b, 'p) chain, block option) M" where
  "get_parent C b =
     bindM (genesis_number C) (\<lambda>n.
     if int (h_number (b_header b)) = n then ret None
     else bindM (get_block C (Some (h_prevhash (b_header b)))) (\<lambda>p. ret (Some p)))"

definition get_blockhash_by_number :: "('b, 'i, 'p) cenv \<Rightarrow> nat \<Rightarrow> (('b, 'p) chain, string option) M" where
  "get_blockhash_by_number C number = attempt (cget C (number_key number))"

definition get_block_by_number :: "('b, 'i, 'p) cenv \<Rightarrow> nat \<Rightarrow> (('b, 'p) chain, block) M" where
  "get_block_by_number C number = bindM (get_blockhash_by_number C number) (get_block C)"

section \<open>Children\<close>

definition add_child :: "('b, 'i, 'p) cenv \<Rightarrow> block \<Rightarrow> (('b, 'p) chain, unit) M" where
  "add_child C child =
     (let key = ''child:'' @ h_prevhash (b_header child); h = header_hash (ce_E C) (b_header child)
      in bindM (attempt (cget C key)) (\<lambda>e.
         let existing = (case e of Some x \<Rightarrow> x | None \<Rightarrow> [])
         in if h \<notin> set (chunks 32 existing) then cput C key (existing @ h) else ret ()))"

definition get_child_hashes :: "('b, 'i, 'p) cenv \<Rightarrow> string \<Rightarrow> (('b, 'p) chain, string list) M" where
  "get_child_hashes C blockhash =
     bindM (attempt (cget C (''child:'' @ blockhash))) (\<lambda>d.
     ret (case d of Some x \<Rightarrow> chunks 32 x | None \<Rightarrow> []))"

definition get_children :: "('b, 'i, 'p) cenv \<Rightarrow> string \<Rightarrow> (('b, 'p) chain, block list) M" where
  "get_children C blockhash =
     bindM (get_child_hashes C blockhash) (\<lambda>hs. mapM (\<lambda>h. get_block C (Some h)) hs)"

section \<open>Receiving blocks\<close>

text \<open>A block from the future waits in front of the first block that is not earlier.\<close>

fun enqueue_block :: "block \<Rightarrow> block list \<Rightarrow> block list" where
  "enqueue_block b [] = [b]"
| "enqueue_block b (q # qs) =
     (if h_timestamp (b_header b) > h_timestamp (b_header q) then q # enqueue_block b qs else b # q # qs)"

definition index_transactions :: "('b, 'i, 'p) cenv \<Rightarrow> block \<Rightarrow> (('b, 'p) chain, unit) M" where
  "index_transactions C b =
     forM (enumerate 0 (b_transactions b)) (\<lambda>(i, t).
       cput C (''txindex:'' @ tx_hash (ce_E C) t)
         (rlp_enc (ce_E C) (Lst [Str (be_ser (ce_E C) (h_number (b_header b))), Str (be_ser (ce_E C) i)])))"

definition apply_to_head :: "('b, 'i, 'p) cenv \<Rightarrow> block \<Rightarrow> (('b, 'p) chain, unit) M" where
  "apply_to_head C b =
     bindM (gets ch_patricia) (\<lambda>p.
     bindM (in_state (apply_block (ce_S C) (ce_R C) b p)) (\<lambda>p'.
     modifyM (\<lambda>c. c\<lparr>ch_patricia := p'\<rparr>)))"

definition save_patricia :: "('b, 'i, 'p) cenv \<Rightarrow> (('b, 'p) chain, unit) M" where
  "save_patricia C =
     bindM (gets ch_patricia) (\<lambda>p.
     bindM (liftE (to_db (ce_R C) p)) (\<lambda>p'.
     modifyM (\<lambda>c. c\<lparr>ch_patricia := p', ch_patricia_file := Some (pt_dic p')\<rparr>)))"

text \<open>The block extends the head.\<close>

definition extend_head :: "('b, 'i, 'p) cenv \<Rightarrow> block \<Rightarrow> (('b, 'p) chain, string list) M" where
  "extend_head C b =
     (let n = h_number (b_header b); h = header_hash (ce_E C) (b_header b)
      in bindM (modifyM (\<lambda>c. c\<lparr>ch_state := (ch_state c)\<lparr>st_changed := []\<rparr>\<rparr>)) (\<lambda>_.
         bindM (apply_to_head C b) (\<lambda>_.
         bindM (save_patricia C) (\<lambda>_.
         bindM (cput C (number_key n) h) (\<lambda>_.
         bindM (modifyM (\<lambda>c. c\<lparr>ch_head_hash := h\<rparr>)) (\<lambda>_.
         bindM (index_transactions C b) (\<lambda>_.
         bindM (get_blockhash_by_number C n) (\<lambda>h'.
         bindM (assertM (h' = Some h)) (\<lambda>_.
         gets (\<lambda>c. st_changed (ch_state c)))))))))))"

text \<open>What is stored of every block that was added.\<close>

definition store_block :: "('b, 'i, 'p) cenv \<Rightarrow> block \<Rightarrow> string list \<Rightarrow> (('b, 'p) chain, unit) M" where
  "store_block C b changed =
     (let h = header_hash (ce_E C) (b_header b)
      in bindM (add_child C b) (\<lambda>_.
         bindM (gets ch_head_hash) (\<lambda>head.
         bindM (cput C ''head_hash'' head) (\<lambda>_.
         bindM (cput C h (block_rlp (ce_E C) b)) (\<lambda>_.
         bindM (cput C (''changed:'' @ h) (concat changed)) (\<lambda>_.
         bindM (in_state (in_db (ce_commit C))) (\<lambda>_.
         modifyM (\<lambda>c. c\<lparr>ch_state := (ch_state c)\<lparr>st_block_number := h_number (b_header b)\<rparr>\<rparr>))))))))"

definition queue_parent :: "block \<Rightarrow> ('b, 'p) chain \<Rightarrow> ('b, 'p) chain" where
  "queue_parent b c =
     (let k = h_prevhash (b_header b)
      in c\<lparr>ch_parent_queue := AList.update k
            ((case map_of (ch_parent_queue c) k of None \<Rightarrow> [] | Some bs \<Rightarrow> bs) @ [b]) (ch_parent_queue c)\<rparr>)"

text \<open>The first argument counts the frames left for the recursion through the queue of blocks whose
  parent was missing; \<open>now\<close> is \<open>int(time.time())\<close>. Applying a block to another branch fails: \<open>apply_block\<close>
  is called without its third argument, and the TypeError is caught.\<close>

fun add_block :: "nat \<Rightarrow> ('b, 'i, 'p) cenv \<Rightarrow> nat \<Rightarrow> block \<Rightarrow> (('b, 'p) chain, bool) M" where
  "add_block 0 C now b = raise RuntimeError"
| "add_block (Suc f) C now b =
     bindM (attempt (in_state (validate_block (ce_S C) b))) (\<lambda>validated.
     if validated = None then ret False
     else if h_timestamp (b_header b) > now
     then bindM (modifyM (\<lambda>c. c\<lparr>ch_time_queue := enqueue_block b (ch_time_queue c)\<rparr>)) (\<lambda>_. ret False)
     else
       bindM (gets ch_head_hash) (\<lambda>head.
       if h_prevhash (b_header b) = head
       then
         bindM (extend_head C b) (\<lambda>changed.
         bindM (store_block C b changed) (\<lambda>_.
         let h = header_hash (ce_E C) (b_header b)
         in bindM (gets (\<lambda>c. map_of (ch_parent_queue c) h)) (\<lambda>waiting.
            case waiting of
              None \<Rightarrow> ret True
            | Some bs \<Rightarrow>
                bindM (forM bs (\<lambda>b'. bindM (add_block f C now b') (\<lambda>_. ret ()))) (\<lambda>_.
                bindM (gets (\<lambda>c. map_of (ch_parent_queue c) h)) (\<lambda>again.
                if again = None then raise KeyError
                else bindM (modifyM (\<lambda>c. c\<lparr>ch_parent_queue := AList.delete h (ch_parent_queue c)\<rparr>)) (\<lambda>_.
                     ret True))))))
       else
         bindM (chas C (h_prevhash (b_header b))) (\<lambda>known.
         if known
         then bindM (in_state (in_db (mk_poststate_of_blockhash C (h_prevhash (b_header b))))) (\<lambda>_. ret False)
         else bindM (modifyM (queue_parent b)) (\<lambda>_. ret False))))"

text \<open>\<open>process_time_queue(new_time)\<close>; None is smaller than every number. Each round takes one block
  out of the queue or leaves one more behind the index, so there are as many rounds as blocks.\<close>

fun time_queue_loop :: "nat \<Rightarrow> nat \<Rightarrow> ('b, 'i, 'p) cenv \<Rightarrow> nat \<Rightarrow> nat \<Rightarrow> nat \<Rightarrow> (('b, 'p) chain, unit) M" where
  "time_queue_loop 0 limit C now new_time i = ret ()"
| "time_queue_loop (Suc r) limit C now new_time i =
     bindM (gets ch_time_queue) (\<lambda>q.
     if i < length q \<and> h_timestamp (b_header (q ! i)) \<le> new_time
     then
       bindM (modifyM (\<lambda>c. c\<lparr>ch_time_queue := take i q @ drop (Suc i) q\<rparr>)) (\<lambda>_.
       bindM (add_block limit C now (q ! i)) (\<lambda>_.
       bindM (gets (\<lambda>c. length (ch_time_queue c))) (\<lambda>n.
       time_queue_loop r limit C now new_time (if n = length q then Suc i else i))))
     else ret ())"

definition process_time_queue :: "nat \<Rightarrow> ('b, 'i, 'p) cenv \<Rightarrow> nat \<Rightarrow> nat option \<Rightarrow> (('b, 'p) chain, unit) M" where
  "process_time_queue limit C now new_time =
     bindM (modifyM (\<lambda>c. c\<lparr>ch_localtime := (case new_time of None \<Rightarrow> now | Some t \<Rightarrow> t)\<rparr>)) (\<lambda>_.
     case new_time of
       None \<Rightarrow> ret ()
     | Some t \<Rightarrow> bindM (gets (\<lambda>c. length (ch_time_queue c))) (\<lambda>n. time_queue_loop n limit C now t 0))"

section \<open>The chain object\<close>

text \<open>A genesis given as a state is refused when there is an environment, so the genesis is a
  declaration or None. A stand-in header cannot become the header of the genesis block: its hash
  needs a random number of 32 bytes, and the default one is longer.\<close>

definition chain_state ::
  "('b, 'i, 'p) cenv \<Rightarrow> genesis_data option \<Rightarrow> ('b, 'b state \<times> (string \<times> string) list option) M" where
  "chain_state C genesis =
     bindM (so_has (s_db (ce_S C)) ''head_hash'') (\<lambda>started.
     if started
     then bindM (so_get (s_db (ce_S C)) ''head_hash'') (\<lambda>h.
          bindM (mk_poststate_of_blockhash C h) (\<lambda>st. ret (st\<lparr>st_executing_on_head := True\<rparr>, None)))
     else case genesis of
            None \<Rightarrow> raise PyException
          | Some g \<Rightarrow> bindM (state_from_genesis_declaration C g True) (\<lambda>(st, diction). ret (st, Some diction)))"

definition fill_patricia :: "('b, 'i, 'p) cenv \<Rightarrow> (string \<times> string) list \<Rightarrow> (('b, 'p) chain, unit) M" where
  "fill_patricia C diction =
     bindM (forM diction (\<lambda>(key, addr). bindM (liftE (ce_net C key)) (\<lambda>n.
       modifyM (\<lambda>c. c\<lparr>ch_patricia := set_value (ce_R C) n addr (ch_patricia c)\<rparr>)))) (\<lambda>_.
     save_patricia C)"

definition set_genesis :: "('b, 'i, 'p) cenv \<Rightarrow> bool \<Rightarrow> (('b, 'p) chain, unit) M" where
  "set_genesis C reset_genesis =
     (if reset_genesis
      then bindM (gets (\<lambda>c. py_nth (st_prev_headers (ch_state c)) 0)) (\<lambda>h0. bindM (liftE h0) (\<lambda>h.
           case h of
             FakeHeader _ _ _ \<Rightarrow> raise PyException
           | RealHeader hdr \<Rightarrow>
               bindM (modifyM (\<lambda>c. c\<lparr>ch_genesis := Some (block_init hdr [] 0 0 0)\<rparr>)) (\<lambda>_.
               in_state (initialize_genesis_keys C (block_init hdr [] 0 0 0)))))
      else bindM (get_block_by_number C 0) (\<lambda>b. modifyM (\<lambda>c. c\<lparr>ch_genesis := Some b\<rparr>)))"

definition chain_setup ::
  "('b, 'i, 'p) cenv \<Rightarrow> (string \<times> string) list option \<Rightarrow> bool \<Rightarrow> (('b, 'p) chain, unit) M" where
  "chain_setup C diction reset_genesis =
     bindM (case diction of None \<Rightarrow> ret () | Some d \<Rightarrow> fill_patricia C d) (\<lambda>_.
     bindM (in_state initialize_state) (\<lambda>_.
     bindM (gets ch_state) (\<lambda>st.
     bindM (liftE (py_nth (st_prev_headers st) 0)) (\<lambda>h.
     bindM (assertM (st_block_number st = past_number h)) (\<lambda>_.
     bindM (set_genesis C (reset_genesis \<or> diction \<noteq> None)) (\<lambda>_.
     modifyM (\<lambda>c. c\<lparr>ch_head_hash := past_hash (ce_E C) h\<rparr>)))))))"

definition chain_init ::
  "('b, 'i, 'p) cenv \<Rightarrow> (ipnet \<times> string) list option \<Rightarrow> genesis_data option \<Rightarrow> bool \<Rightarrow> nat \<Rightarrow> 'b \<Rightarrow> ('b, 'p) chain res" where
  "chain_init C file genesis reset_genesis now db =
     (case chain_state C genesis db of
        (Inl e, _) \<Rightarrow> Inl e
      | (Inr (st, diction), db') \<Rightarrow>
          (case chain_setup C diction reset_genesis
             \<lparr>ch_state = st\<lparr>st_trie := (st_trie st)\<lparr>tdb := db'\<rparr>\<rparr>, ch_patricia = from_db (ce_R C) file (patricia_init (ce_R C)),
              ch_patricia_file = file, ch_genesis = None, ch_head_hash = [], ch_time_queue = [],
              ch_parent_queue = [], ch_localtime = now\<rparr> of
             (Inl e, _) \<Rightarrow> Inl e
           | (Inr _, c) \<Rightarrow> Inr c))"

section \<open>Queries\<close>

text \<open>\<open>blk in chain\<close> for a hash or a block, whatever its \<open>number\<close> and \<open>hash\<close> are looked up in.\<close>

datatype block_ref = ByHash string | ByBlock block

definition contains_block :: "('b, 'i, 'p) cenv \<Rightarrow> block_ref \<Rightarrow> (('b, 'p) chain, bool) M" where
  "contains_block C r =
     bindM (case r of
              ByBlock b \<Rightarrow> ret (Some b)
            | ByHash h \<Rightarrow> attempt (bindM (cget C h) (\<lambda>x. liftE (block_decode (ce_E C) (ce_I C) x)))) (\<lambda>blk.
     case blk of
       None \<Rightarrow> ret False
     | Some b \<Rightarrow>
         bindM (attempt (bindM (get_block_by_number C (h_number (b_header b))) (\<lambda>o'.
           assertM (header_hash (ce_E C) (b_header o') = header_hash (ce_E C) (b_header b))))) (\<lambda>ok.
         ret (ok \<noteq> None)))"

definition has_blockhash :: "('b, 'i, 'p) cenv \<Rightarrow> string \<Rightarrow> (('b, 'p) chain, bool) M" where
  "has_blockhash C h = chas C h"

text \<open>The blocks with numbers \<open>i\<close> to \<open>to - 1\<close>, \<open>n\<close> of them, up to the first that is missing. When none
  is missing the loop ends and the method returns None.\<close>

fun get_chain_loop :: "('b, 'i, 'p) cenv \<Rightarrow> nat \<Rightarrow> nat \<Rightarrow> block list \<Rightarrow> (('b, 'p) chain, block list option) M" where
  "get_chain_loop C 0 i acc = ret None"
| "get_chain_loop C (Suc n) i acc =
     bindM (get_blockhash_by_number C i) (\<lambda>h.
     if h = None \<or> h = Some [] then ret (Some acc)
     else bindM (get_block C h) (\<lambda>b. get_chain_loop C n (Suc i) (acc @ [b])))"

definition get_chain :: "('b, 'i, 'p) cenv \<Rightarrow> nat option \<Rightarrow> nat \<Rightarrow> (('b, 'p) chain, block list option) M" where
  "get_chain C frm to =
     bindM (case frm of Some i \<Rightarrow> ret i | None \<Rightarrow> bindM (genesis_number C) (\<lambda>n. ret (nat (n + 1)))) (\<lambda>i.
     get_chain_loop C (to - i) i [])"

datatype tx_ref = ByTxHash string | ByTx tx

definition tx_index_key :: "ext \<Rightarrow> tx_ref \<Rightarrow> string res" where
  "tx_index_key E t =
     (case t of
        ByTxHash x \<Rightarrow> bindE (hex_decode x) (\<lambda>h. Inr (''txindex:'' @ h))
      | ByTx t \<Rightarrow> Inr (''txindex:'' @ tx_hash E t))"

definition get_tx_position :: "('b, 'i, 'p) cenv \<Rightarrow> tx_ref \<Rightarrow> (('b, 'p) chain, (nat \<times> nat) option) M" where
  "get_tx_position C t =
     bindM (liftE (tx_index_key (ce_E C) t)) (\<lambda>k.
     bindM (chas C k) (\<lambda>known.
     if \<not> known then ret None
     else bindM (cget C k) (\<lambda>r.
          bindM (liftE (rlp_dec (ce_E C) r)) (\<lambda>x.
          case x of
            Lst (Str n # Str i # _) \<Rightarrow> ret (Some (be_val n, be_val i))
          | _ \<Rightarrow> raise IndexError))))"

definition get_transaction :: "('b, 'i, 'p) cenv \<Rightarrow> tx_ref \<Rightarrow> (('b, 'p) chain, tx \<times> block \<times> nat) M" where
  "get_transaction C t =
     bindM (get_tx_position C t) (\<lambda>p.
     case p of
       None \<Rightarrow> raise TypeError
     | Some (blknum, index) \<Rightarrow>
         bindM (get_block_by_number C blknum) (\<lambda>blk.
         bindM (liftE (py_nth (b_transactions blk) index)) (\<lambda>tx. ret (tx, blk, index))))"

text \<open>The loop that collects at most \<open>n\<close> hashes, going back from a header.\<close>

fun hashes_back :: "('b, 'i, 'p) cenv \<Rightarrow> nat \<Rightarrow> header \<Rightarrow> (('b, 'p) chain, string list) M" where
  "hashes_back C 0 h = ret []"
| "hashes_back C (Suc n) h =
     bindM (get_block C (Some (h_prevhash h))) (\<lambda>b.
     if h_number (b_header b) = 0 then ret [header_hash (ce_E C) (b_header b)]
     else bindM (hashes_back C n (b_header b)) (\<lambda>hs. ret (header_hash (ce_E C) (b_header b) # hs)))"

definition get_blockhashes_from_hash :: "('b, 'i, 'p) cenv \<Rightarrow> string \<Rightarrow> nat \<Rightarrow> (('b, 'p) chain, string list) M" where
  "get_blockhashes_from_hash C hash max' =
     bindM (get_block C (Some hash)) (\<lambda>b. hashes_back C max' (b_header b))"

text \<open>\<open>get_descendants\<close> pops the last block of its list; \<open>n\<close> bounds the number of rounds.\<close>

fun descendants_loop :: "nat \<Rightarrow> ('b, 'i, 'p) cenv \<Rightarrow> block list \<Rightarrow> block list \<Rightarrow> (('b, 'p) chain, block list option) M" where
  "descendants_loop 0 C blocks output = (if blocks = [] then ret (Some output) else ret None)"
| "descendants_loop (Suc n) C blocks output =
     (if blocks = [] then ret (Some output)
      else bindM (get_children C (header_hash (ce_E C) (b_header (last blocks)))) (\<lambda>bs.
           descendants_loop n C (butlast blocks @ bs) (output @ [last blocks])))"

definition get_all_current_addresses :: "('b, 'i, 'p) cenv \<Rightarrow> (('b, 'p) chain, string list) M" where
  "get_all_current_addresses C = in_state (list_all_addresses (ce_limit C) (ce_S C))"

end
