(* ===== verification/ChainCorrect.thy ===== *)
theory ChainCorrect
  imports Chain Samples
begin

text \<open>
  What the chain guarantees. The rules of \<open>keeps\<close> follow a part of the state through a computation
  that does not change it; with them: a block is added only on top of the head and moves the head by
  one block, the queue of early blocks stays sorted and is worked off, and what was stored of a block
  is found again.
\<close>

section \<open>Parts of the state that a computation leaves alone\<close>

named_theorems keeps_intros \<open>introduction rules for \<open>keeps\<close>\<close>

definition keeps :: "('s \<Rightarrow> 'x) \<Rightarrow> ('s, 'a) M \<Rightarrow> bool" where
  "keeps g m \<longleftrightarrow> (\<forall>s. g (snd (m s)) = g s)"

lemma keepsD: "keeps g m \<Longrightarrow> m s = (r, s') \<Longrightarrow> g s' = g s"
  by (metis keeps_def snd_conv)

lemma keeps_bind [keeps_intros]: "keeps g m \<Longrightarrow> (\<And>x. keeps g (f x)) \<Longrightarrow> keeps g (bindM m f)"
  by (auto simp: keeps_def bindM_def split: prod.splits sum.splits) (metis snd_conv)+

lemma keeps_basic [keeps_intros]:
  "keeps g (ret x)" "keeps g (raise e)" "keeps g (liftE r)" "keeps g (gets h)" "keeps g (assertM b)"
  "keeps g (Pair r')"
  by (simp_all add: keeps_def)

lemma keeps_modify: "(\<And>s. g (f s) = g s) \<Longrightarrow> keeps g (modifyM f)"
  by (simp add: keeps_def)

lemma keeps_catch [keeps_intros]: "keeps g m \<Longrightarrow> (\<And>e. keeps g (h e)) \<Longrightarrow> keeps g (catchM m p h)"
  by (auto simp: keeps_def catchM_def split: prod.splits sum.splits) (metis snd_conv)+

lemma keeps_attempt [keeps_intros]: "keeps g m \<Longrightarrow> keeps g (attempt m)"
  unfolding attempt_def by (intro keeps_intros)

lemma keeps_forM [keeps_intros]: "(\<And>x. keeps g (f x)) \<Longrightarrow> keeps g (forM xs f)"
  by (induction xs) (auto intro: keeps_intros)

lemma keeps_mapM [keeps_intros]: "(\<And>x. keeps g (f x)) \<Longrightarrow> keeps g (mapM f xs)"
  by (induction xs) (auto intro: keeps_bind keeps_basic)

lemma keeps_if [keeps_intros]: "keeps g m \<Longrightarrow> keeps g m' \<Longrightarrow> keeps g (if b then m else m')"
  by simp

lemma keeps_let [keeps_intros]: "keeps g (f x) \<Longrightarrow> keeps g (Let x f)"
  by simp

lemma keeps_option [keeps_intros]:
  "keeps g m \<Longrightarrow> (\<And>x. keeps g (f x)) \<Longrightarrow> keeps g (case x of None \<Rightarrow> m | Some x \<Rightarrow> f x)"
  by (cases x) auto

lemma keeps_prod [keeps_intros]: "(\<And>a b. keeps g (f a b)) \<Longrightarrow> keeps g (case p of (a, b) \<Rightarrow> f a b)"
  by (cases p) auto

lemma keeps_zoom: "(\<And>t s. g (put t s) = g s) \<Longrightarrow> keeps g (zoomM rd put m)"
  by (auto simp: keeps_def zoomM_def split: prod.splits)

subsection \<open>The headers of the state\<close>

lemma keeps_in_trie [keeps_intros]: "keeps st_prev_headers (in_trie m)" "keeps st_prev_headers (in_db m')"
  by (simp_all add: keeps_def in_db_def in_trie_def zoomM_def split: prod.split)

lemma journal_undo_headers [simp]: "st_prev_headers (journal_undo j st) = st_prev_headers st"
  by (cases j) (simp_all add: journal_undo_def put_account_def split: option.splits)

lemma keeps_get_account [keeps_intros]: "keeps st_prev_headers (get_and_cache_account S a)"
  unfolding get_and_cache_account_def by (intro keeps_intros keeps_modify) simp

lemma keeps_journal [keeps_intros]: "keeps st_prev_headers (set_and_journal old new)"
  unfolding set_and_journal_def by (intro keeps_modify) simp

lemma keeps_accounts [keeps_intros]:
  "keeps st_prev_headers (get_balance S x)" "keeps st_prev_headers (get_nonce S x)"
  "keeps st_prev_headers (set_balance S x b)" "keeps st_prev_headers (increment_nonce S x)"
  "keeps st_prev_headers (account_exists S a)"
  unfolding get_balance_def get_nonce_def set_balance_def increment_nonce_def account_exists_def touch_def
  by (intro keeps_intros)+

lemma keeps_commit [keeps_intros]: "keeps st_prev_headers (state_commit S b)"
  unfolding state_commit_def commit_account_def
  by (intro keeps_intros keeps_modify) simp_all

lemma keeps_validate_transaction [keeps_intros]: "keeps st_prev_headers (validate_transaction S t)"
  unfolding validate_transaction_def by (intro keeps_intros)

lemma keeps_validate_transactions [keeps_intros]: "keeps st_prev_headers (validate_transactions S ts)"
  by (induction ts) (auto intro: keeps_intros)

lemma keeps_validate_block [keeps_intros]: "keeps st_prev_headers (validate_block S b)"
  unfolding validate_block_def by (intro keeps_intros)

lemma keeps_release [keeps_intros]: "keeps st_prev_headers (release_loop S snder sb affected)"
  by (induction S snder sb affected rule: release_loop.induct) (auto intro!: keeps_intros)

lemma keeps_apply_transaction [keeps_intros]: "keeps st_prev_headers (apply_transaction S t cached)"
  unfolding apply_transaction_def apply_allocate_def apply_delegate_def apply_metadata_def
  by (intro keeps_intros)

lemma keeps_apply_transactions [keeps_intros]: "keeps st_prev_headers (apply_transactions S ts cached)"
  by (induction ts arbitrary: cached) (auto intro!: keeps_intros)

lemma undo_to_headers: "st_prev_headers (undo_to n st js) = st_prev_headers st"
  by (induction n st js rule: undo_to.induct) auto

lemma revert_headers:
  assumes "revert S (snapshot st) st0 = (r, st1)" "st_prev_headers st0 = st_prev_headers st"
  shows "st_prev_headers st1 = st_prev_headers st"
proof -
  let ?u = "undo_to (length (st_journal st)) st0 (st_journal st0)"
  have u: "st_prev_headers ?u = st_prev_headers st" using assms(2) by (simp add: undo_to_headers)
  define rest where "rest = (if root_hash (st_trie st) \<noteq> root_hash (st_trie ?u)
    then bindM (assertM (length (st_journal st) = 0)) (\<lambda>_.
         bindM (in_trie (set_root_hash (state_trie S) (root_hash (st_trie st)))) (\<lambda>_.
         modifyM (\<lambda>st. st\<lparr>st_cache := []\<rparr>))) else ret ())"
  have "keeps st_prev_headers rest"
    unfolding rest_def by (intro keeps_intros keeps_modify) simp
  moreover have "revert S (snapshot st) st0 = bindM rest (\<lambda>_. modifyM (set_aux (get_aux st))) ?u"
    by (simp add: revert_def snapshot_def rest_def bindM_run_Inr [of "modifyM _"] bindM_run_Inr [of "gets _"])
  ultimately show ?thesis
    using assms(1) u keepsD [of st_prev_headers rest ?u]
    by (auto simp: bindM_def set_aux_def get_aux_def split: prod.splits sum.splits)
qed

section \<open>Validation and application of a block\<close>

text \<open>A valid block names the newest header as its parent.\<close>

lemma validate_block_parent:
  assumes "validate_block S b st = (Inr ok, st')"
  shows "\<exists>h hs. st_prev_headers st = h # hs \<and> h_prevhash (b_header b) = past_hash (s_ext S) h"
  using assms
  by (cases "st_prev_headers st")
    (auto simp: validate_block_def bindM_eq_Inr validate_header_def py_nth_def bindE_eq_Inr split: if_splits)

lemma apply_block_headers:
  assumes "apply_block S R b p st = (r, st1)"
  shows "st_prev_headers st1 =
    (case r of Inr _ \<Rightarrow> RealHeader (b_header b) # st_prev_headers st | Inl _ \<Rightarrow> st_prev_headers st)"
proof -
  define body where "body =
    bindM (gets (\<lambda>st. st)) (\<lambda>st. bindM (liftE (validate_header (s_ext S) st (b_header b))) (\<lambda>ok.
    bindM (assertM ok) (\<lambda>_. bindM (liftE (validate_transaction_tree (s_ext S) b)) (\<lambda>ok. bindM (assertM ok) (\<lambda>_.
    bindM (apply_transactions S (b_transactions b) []) (\<lambda>cached. bindM (add_block_header (b_header b)) (\<lambda>_.
    ret (fold (\<lambda>(key, a) p. set_value R key a p) cached p))))))))"
  obtain r0 st0 where st0: "body st = (r0, st0)" by fastforce
  obtain q u where q: "apply_transactions S (b_transactions b) [] st = (q, u)" by fastforce
  have u: "st_prev_headers u = st_prev_headers st"
    using keepsD [OF keeps_apply_transactions q] .
  have body: "st_prev_headers st0 =
    (case r0 of Inr _ \<Rightarrow> RealHeader (b_header b) # st_prev_headers st | Inl _ \<Rightarrow> st_prev_headers st)"
    using st0 q u by (auto simp: body_def bindM_def add_block_header_def split: sum.splits if_splits)
  have run: "apply_block S R b p st = catchM body (\<lambda>e. is_a e ValueError \<or> is_a e AssertionError)
      (\<lambda>e. bindM (revert S (snapshot st)) (\<lambda>_. raise e)) st"
    by (simp add: apply_block_def body_def bindM_run_Inr [of "gets snapshot"])
  show ?thesis
  proof (cases r0)
    case (Inr x)
    with st0 run assms body show ?thesis by (simp add: catchM_Inr)
  next
    case (Inl e)
    show ?thesis
    proof (cases "is_a e ValueError \<or> is_a e AssertionError")
      case False
      with Inl st0 run assms body show ?thesis by (auto simp: catchM_Inl)
    next
      case True
      obtain q2 st2 where rev: "revert S (snapshot st) st0 = (q2, st2)" by fastforce
      have "st_prev_headers st2 = st_prev_headers st"
        using revert_headers [OF rev] body Inl by simp
      moreover have "r \<in> range Inl \<and> st1 = st2"
        using True Inl st0 run assms rev by (auto simp: catchM_Inl bindM_def split: sum.splits)
      ultimately show ?thesis by auto
    qed
  qed
qed

section \<open>Only the head is extended\<close>

definition head_ok :: "ext \<Rightarrow> ('b, 'p) chain \<Rightarrow> bool" where
  "head_ok E c \<longleftrightarrow> (\<exists>h hs. st_prev_headers (ch_state c) = h # hs \<and> ch_head_hash c = past_hash E h)"

text \<open>The parts of the chain that \<open>in_state\<close> does not reach, and what storing a block leaves.\<close>

abbreviation queues :: "('b, 'p) chain \<Rightarrow> block list \<times> (string \<times> block list) list" where
  "queues c \<equiv> (ch_time_queue c, ch_parent_queue c)"

abbreviation chain_headers :: "('b, 'p) chain \<Rightarrow> past_header list" where
  "chain_headers c \<equiv> st_prev_headers (ch_state c)"

lemma keeps_in_state [keeps_intros]:
  "keeps queues (in_state m)" "keeps ch_head_hash (in_state m)"
  by (simp_all add: keeps_def in_state_def zoomM_def split: prod.split)

lemma keeps_in_state_headers [keeps_intros]: "keeps st_prev_headers m \<Longrightarrow> keeps chain_headers (in_state m)"
  by (auto simp: keeps_def in_state_def zoomM_def split: prod.split) (metis snd_conv)

lemma keeps_db [keeps_intros]:
  "keeps queues (cget C k)" "keeps ch_head_hash (cget C k)" "keeps chain_headers (cget C k)"
  "keeps queues (cput C k v)" "keeps ch_head_hash (cput C k v)" "keeps chain_headers (cput C k v)"
  "keeps queues (chas C k)" "keeps ch_head_hash (chas C k)" "keeps chain_headers (chas C k)"
  unfolding cget_def cput_def chas_def by (intro keeps_intros)+

lemma keeps_steps [keeps_intros]:
  "keeps queues (save_patricia C)" "keeps ch_head_hash (save_patricia C)" "keeps chain_headers (save_patricia C)"
  "keeps queues (index_transactions C b)" "keeps ch_head_hash (index_transactions C b)" "keeps chain_headers (index_transactions C b)"
  "keeps queues (get_blockhash_by_number C n)" "keeps ch_head_hash (get_blockhash_by_number C n)" "keeps chain_headers (get_blockhash_by_number C n)"
  "keeps queues (add_child C b)" "keeps ch_head_hash (add_child C b)" "keeps chain_headers (add_child C b)"
  "keeps queues (store_block C b changed)" "keeps ch_head_hash (store_block C b changed)" "keeps chain_headers (store_block C b changed)"
  unfolding save_patricia_def index_transactions_def get_blockhash_by_number_def store_block_def add_child_def
  by (intro keeps_intros keeps_modify; simp)+


lemma attempt_run: "attempt m s = (case m s of (Inl e, s') \<Rightarrow> (Inr None, s') | (Inr x, s') \<Rightarrow> (Inr (Some x), s'))"
  by (simp add: attempt_def catchM_def bindM_def split: prod.splits sum.splits)

lemma keeps_extend_head: "keeps queues (extend_head C b)"
  unfolding extend_head_def apply_to_head_def by (intro keeps_intros keeps_modify) simp_all

lemma extend_head_run:
  assumes "extend_head C b c = (Inr x, c')"
  shows "ch_head_hash c' = header_hash (ce_E C) (b_header b) \<and>
    chain_headers c' = RealHeader (b_header b) # chain_headers c"
proof -
  let ?n = "h_number (b_header b)" let ?h = "header_hash (ce_E C) (b_header b)"
  let ?c = "c\<lparr>ch_state := (ch_state c)\<lparr>st_changed := []\<rparr>\<rparr>"
  define rest where "rest = bindM (index_transactions C b) (\<lambda>_. bindM (get_blockhash_by_number C ?n) (\<lambda>h'.
    bindM (assertM (h' = Some ?h)) (\<lambda>_. gets (\<lambda>c. st_changed (ch_state c)))))"
  define mid where "mid = bindM (save_patricia C) (\<lambda>_. cput C (number_key ?n) ?h)"
  have rest: "keeps ch_head_hash rest" "keeps chain_headers rest" and mid: "keeps chain_headers mid"
    unfolding rest_def mid_def by (intro keeps_intros)+
  obtain u c1 where app: "apply_to_head C b ?c = (Inr u, c1)"
      and "bindM mid (\<lambda>_. bindM (modifyM (\<lambda>c. c\<lparr>ch_head_hash := ?h\<rparr>)) (\<lambda>_. rest)) c1 = (Inr x, c')"
    using assms by (auto simp: extend_head_def Let_def mid_def rest_def bindM_eq_Inr)
  then obtain v c2 where c2: "mid c1 = (Inr v, c2)" and c': "rest (c2\<lparr>ch_head_hash := ?h\<rparr>) = (Inr x, c')"
    by (auto simp: bindM_eq_Inr)
  have "chain_headers c1 = RealHeader (b_header b) # chain_headers c"
    using app by (auto simp: apply_to_head_def bindM_eq_Inr in_state_def zoomM_def split: prod.splits
      dest!: apply_block_headers)
  with keepsD [OF mid c2] keepsD [OF rest(1) c'] keepsD [OF rest(2) c'] show ?thesis by simp
qed

lemma validated_on_head:
  assumes "attempt (in_state (validate_block S b)) c = (Inr (Some ok), c1)" "head_ok (s_ext S) c"
  shows "h_prevhash (b_header b) = ch_head_hash c"
  using assms by (auto simp: attempt_run in_state_def zoomM_def head_ok_def split: prod.splits sum.splits
    dest!: validate_block_parent)

lemma head_ok_cong: "chain_headers c' = chain_headers c \<Longrightarrow> ch_head_hash c' = ch_head_hash c \<Longrightarrow> head_ok E c' = head_ok E c"
  by (simp add: head_ok_def)


lemma keeps_validate [keeps_intros]:
  "keeps queues (attempt (in_state (validate_block S b)))"
  "keeps ch_head_hash (attempt (in_state (validate_block S b)))"
  "keeps chain_headers (attempt (in_state (validate_block S b)))"
  by (intro keeps_intros)+

lemma add_block_outcome:
  assumes "head_ok (ce_E C) c" "ch_parent_queue c = []" "add_block (Suc limit) C now b c = (r, c')"
  shows "case r of
      Inr True \<Rightarrow> h_prevhash (b_header b) = ch_head_hash c \<and> h_timestamp (b_header b) \<le> now \<and>
        ch_head_hash c' = header_hash (ce_E C) (b_header b) \<and>
        chain_headers c' = RealHeader (b_header b) # chain_headers c \<and> queues c' = queues c
    | Inr False \<Rightarrow> ch_head_hash c' = ch_head_hash c \<and> chain_headers c' = chain_headers c \<and>
        ch_parent_queue c' = [] \<and>
        (ch_time_queue c' = ch_time_queue c \<or>
         ch_time_queue c' = enqueue_block b (ch_time_queue c) \<and> h_timestamp (b_header b) > now \<and>
         h_prevhash (b_header b) = ch_head_hash c)
    | Inl e \<Rightarrow> h_prevhash (b_header b) = ch_head_hash c \<and> h_timestamp (b_header b) \<le> now \<and> queues c' = queues c"
proof -
  let ?v = "attempt (in_state (validate_block (ce_S C) b))"
  obtain v c1 where v: "?v c = (Inr v, c1)" by (cases "?v c") (auto simp: attempt_run split: prod.splits sum.splits)
  have kept: "queues c1 = queues c" "ch_head_hash c1 = ch_head_hash c" "chain_headers c1 = chain_headers c"
    using v by (auto dest: keepsD [OF keeps_validate(1)] keepsD [OF keeps_validate(2)] keepsD [OF keeps_validate(3)])
  show ?thesis
  proof (cases v)
    case None
    with assms(2,3) v kept show ?thesis by (auto simp: bindM_run_Inr [where m = ?v, OF v])
  next
    case (Some ok)
    with v assms(1) have on_head: "h_prevhash (b_header b) = ch_head_hash c"
      by (intro validated_on_head) auto
    show ?thesis
    proof (cases "h_timestamp (b_header b) > now")
      case True
      with assms(2,3) Some kept on_head show ?thesis by (auto simp: bindM_run_Inr [where m = ?v, OF v] bindM_run_Inr)
    next
      case False
      define rest where "rest = (\<lambda>changed. bindM (store_block C b changed) (\<lambda>_.
        bindM (gets (\<lambda>c. map_of (ch_parent_queue c) (header_hash (ce_E C) (b_header b)))) (\<lambda>waiting.
        case waiting of None \<Rightarrow> ret True | Some bs \<Rightarrow>
          bindM (forM bs (\<lambda>b'. bindM (add_block limit C now b') (\<lambda>_. ret ()))) (\<lambda>_.
          bindM (gets (\<lambda>c. map_of (ch_parent_queue c) (header_hash (ce_E C) (b_header b)))) (\<lambda>again.
          if again = None then raise KeyError
          else bindM (modifyM (\<lambda>c. c\<lparr>ch_parent_queue := AList.delete (header_hash (ce_E C) (b_header b)) (ch_parent_queue c)\<rparr>))
            (\<lambda>_. ret True))))))"
      have run: "bindM (extend_head C b) rest c1 = (r, c')"
        using assms(3) Some False on_head kept
        by (simp add: bindM_run_Inr [where m = ?v, OF v] bindM_run_Inr rest_def Let_def)
      obtain e c2 where e: "extend_head C b c1 = (e, c2)" by fastforce
      have q2: "queues c2 = queues c" using keepsD [OF keeps_extend_head e] kept by simp
      show ?thesis
      proof (cases e)
        case (Inl err)
        with e run on_head False q2 show ?thesis by (auto simp: bindM_def)
      next
        case (Inr changed)
        obtain s c3 where s: "store_block C b changed c2 = (s, c3)" by fastforce
        have "queues c3 = queues c" "ch_head_hash c3 = ch_head_hash c2" "chain_headers c3 = chain_headers c2"
          using s q2 by (auto dest: keepsD [OF keeps_steps(13)] keepsD [OF keeps_steps(14)] keepsD [OF keeps_steps(15)])
        moreover have "ch_head_hash c2 = header_hash (ce_E C) (b_header b) \<and>
            chain_headers c2 = RealHeader (b_header b) # chain_headers c"
          using extend_head_run [of C b c1 changed c2] e Inr kept by simp
        moreover have "(case s of Inl x \<Rightarrow> r = Inl x | Inr _ \<Rightarrow> r = Inr True) \<and> c' = c3"
          using run e Inr s assms(2) \<open>queues c3 = queues c\<close>
          by (cases s) (auto simp: bindM_run_Inr [of "extend_head C b" c1] rest_def bindM_run_Inl
            bindM_run_Inr [of "store_block C b changed"] bindM_run_Inr [of "gets _"])
        ultimately show ?thesis using on_head False by (cases s) auto
      qed
    qed
  qed
qed


text \<open>C6. On a chain whose head is the newest header and where no block waits for a parent,
  \<open>add_block\<close> returns True only for a block that is not from the future and names the head as its
  parent; the block is the new head and its header the newest, and the queues are unchanged. When it
  returns False, the head and the headers are unchanged, and the block was queued, before the first
  block that is not earlier, exactly if it is valid on the head but from the future. It raises only
  for a block on the head that is not from the future. So a block that does not name the head as its
  parent is dropped: the branches for forks and for blocks without a parent are never reached.\<close>

theorem only_head_extended:
  assumes "head_ok (ce_E C) c" "ch_parent_queue c = []" "add_block (Suc limit) C now b c = (r, c')"
  shows "case r of
      Inr True \<Rightarrow> h_prevhash (b_header b) = ch_head_hash c \<and> h_timestamp (b_header b) \<le> now \<and>
        ch_head_hash c' = header_hash (ce_E C) (b_header b) \<and>
        chain_headers c' = RealHeader (b_header b) # chain_headers c \<and> queues c' = queues c
    | Inr False \<Rightarrow> ch_head_hash c' = ch_head_hash c \<and> chain_headers c' = chain_headers c \<and>
        ch_parent_queue c' = [] \<and>
        (ch_time_queue c' = ch_time_queue c \<or>
         ch_time_queue c' = enqueue_block b (ch_time_queue c) \<and> h_timestamp (b_header b) > now \<and>
         h_prevhash (b_header b) = ch_head_hash c)
    | Inl e \<Rightarrow> h_prevhash (b_header b) = ch_head_hash c \<and> h_timestamp (b_header b) \<le> now \<and> queues c' = queues c"
  by (rule add_block_outcome [OF assms])

section \<open>The queue of early blocks\<close>

abbreviation times :: "block list \<Rightarrow> nat list" where
  "times bs \<equiv> map (\<lambda>b. h_timestamp (b_header b)) bs"

lemma set_enqueue: "set (enqueue_block b q) = insert b (set q)"
  by (induction b q rule: enqueue_block.induct) auto

lemma sorted_enqueue: "sorted (times q) \<Longrightarrow> sorted (times (enqueue_block b q))"
  by (induction b q rule: enqueue_block.induct) (auto simp: set_enqueue)

lemma add_block_outcome_ok:
  assumes "head_ok (ce_E C) c" "ch_parent_queue c = []" "add_block (Suc limit) C now b c = (Inr x, c')"
  shows "head_ok (ce_E C) c' \<and> ch_parent_queue c' = [] \<and>
    (h_timestamp (b_header b) \<le> now \<longrightarrow> ch_time_queue c' = ch_time_queue c)"
  using add_block_outcome [OF assms] assms(1,2) by (cases x) (auto simp: head_ok_def)

lemma time_queue_loop_run:
  assumes "head_ok (ce_E C) c" "ch_parent_queue c = []" "sorted (times (ch_time_queue c))" "t \<le> now"
    and "time_queue_loop (length (ch_time_queue c)) (Suc limit) C now t 0 c = (Inr u, c')"
  shows "ch_time_queue c' = filter (\<lambda>b. h_timestamp (b_header b) > t) (ch_time_queue c)"
  using assms
proof (induction "ch_time_queue c" arbitrary: c)
  case Nil
  then show ?case by simp
next
  case (Cons b q)
  note q = Cons.hyps(2) [symmetric]
  show ?case
  proof (cases "h_timestamp (b_header b) \<le> t")
    case False
    with Cons.prems q have "c' = c" by (simp add: bindM_run_Inr [of "gets _"])
    with Cons.prems(3) q False show ?thesis by (auto intro!: filter_True [symmetric])
  next
    case True
    let ?c = "c\<lparr>ch_time_queue := q\<rparr>"
    have ok: "head_ok (ce_E C) ?c" "ch_parent_queue ?c = []" using Cons.prems(1,2) by (simp_all add: head_ok_def)
    from Cons.prems(5) q True obtain x c1 where add: "add_block (Suc limit) C now b ?c = (Inr x, c1)"
      and rest: "time_queue_loop (length q) (Suc limit) C now t
        (if length (ch_time_queue c1) = Suc (length q) then Suc 0 else 0) c1 = (Inr u, c')"
      by (auto simp: bindM_run_Inr [of "gets _"] bindM_run_Inr [of "modifyM _"] bindM_eq_Inr [of "add_block _ _ _ _"]
        simp del: add_block.simps)
    have c1: "head_ok (ce_E C) c1" "ch_parent_queue c1 = []" "ch_time_queue c1 = q"
      using add_block_outcome_ok [OF ok add] True Cons.prems(4) by simp_all
    with rest Cons.prems(3,4) q True Cons.hyps(1) [of c1] show ?thesis by simp
  qed
qed

text \<open>C17. The queue of early blocks stays sorted by timestamp whatever \<open>add_block\<close> returns or raises.
  When \<open>process_time_queue\<close> with a time that is not ahead of the clock returns, exactly the blocks up to
  this time have left the queue and the others keep their order. Without a time, as the program calls
  it, it sets the local time and leaves every block in the queue.\<close>

theorem early_blocks_in_order:
  assumes "head_ok (ce_E C) c" "ch_parent_queue c = []" "sorted (times (ch_time_queue c))"
  shows "sorted (times (ch_time_queue (snd (add_block (Suc limit) C now b c)))) \<and>
    (\<forall>t \<le> now. case process_time_queue (Suc limit) C now (Some t) c of
       (Inr _, c') \<Rightarrow> ch_time_queue c' = filter (\<lambda>b. h_timestamp (b_header b) > t) (ch_time_queue c)
     | (Inl _, _) \<Rightarrow> True) \<and>
    process_time_queue (Suc limit) C now None c = (Inr (), c\<lparr>ch_localtime := now\<rparr>)"
proof (intro conjI allI impI)
  show "sorted (times (ch_time_queue (snd (add_block (Suc limit) C now b c))))"
    using add_block_outcome [OF assms(1,2), of limit now b] assms(3) sorted_enqueue
    by (cases "add_block (Suc limit) C now b c") (auto split: sum.splits bool.splits simp del: add_block.simps)
  show "process_time_queue (Suc limit) C now None c = (Inr (), c\<lparr>ch_localtime := now\<rparr>)"
    by (simp add: process_time_queue_def bindM_run_Inr [of "modifyM _"])
  fix t assume t: "t \<le> now"
  let ?c = "c\<lparr>ch_localtime := t\<rparr>"
  have "head_ok (ce_E C) ?c" "ch_parent_queue ?c = []" "sorted (times (ch_time_queue ?c))"
    using assms by (simp_all add: head_ok_def)
  from time_queue_loop_run [OF this t]
  show "case process_time_queue (Suc limit) C now (Some t) c of
      (Inr _, c') \<Rightarrow> ch_time_queue c' = filter (\<lambda>b. h_timestamp (b_header b) > t) (ch_time_queue c)
    | (Inl _, _) \<Rightarrow> True"
    by (auto simp: process_time_queue_def bindM_run_Inr [of "modifyM _"] bindM_run_Inr [of "gets _"] split: prod.split sum.split)
qed

section \<open>A chain for the witnesses\<close>

definition json_ref :: json where
  "json_ref = \<lparr>js_dumps = (\<lambda>d. []), js_loads = (\<lambda>s. Inl ValueError)\<rparr>"

abbreviation chain_senv :: "(level, addr_set) senv" where
  "chain_senv \<equiv> senv_for []"

definition chain_env :: "(level, addr_set, (ipnet \<times> string) list) cenv" where
  "chain_env = \<lparr>ce_S = chain_senv, ce_R = radix_ref, ce_J = json_ref, ce_I = iplib_ref,
     ce_net = (\<lambda>s. Inl ValueError), ce_commit = level_commit, ce_limit = 1000\<rparr>"

lemma chain_env_simps [simp]:
  "ce_S chain_env = chain_senv" "ce_R chain_env = radix_ref" "ce_I chain_env = iplib_ref" "ce_commit chain_env = level_commit"
  by (simp_all add: chain_env_def)

text \<open>A chain of one block, of number 1.\<close>

definition one_chain :: "(level, (ipnet \<times> string) list) chain" where
  "one_chain = \<lparr>ch_state = sample_state\<lparr>st_prev_headers := [RealHeader sample_header]\<rparr>,
     ch_patricia = patricia_init radix_ref, ch_patricia_file = None, ch_genesis = None,
     ch_head_hash = header_hash ext_ref sample_header, ch_time_queue = [], ch_parent_queue = [], ch_localtime = 0\<rparr>"

lemma one_chain_head: "head_ok (ce_E chain_env) one_chain"
  by (simp add: head_ok_def one_chain_def)

theorem only_head_extended_witness:
  "\<exists>c'. add_block (Suc 0) chain_env 9 (block_init (sample_header\<lparr>h_prevhash := []\<rparr>) [] 27 1 1) one_chain = (Inr False, c') \<and>
     ch_head_hash c' = ch_head_hash one_chain \<and> ch_time_queue c' = []"
proof -
  let ?b = "block_init (sample_header\<lparr>h_prevhash := []\<rparr>) [] 27 1 1"
  obtain r c' where run: "add_block (Suc 0) chain_env 9 ?b one_chain = (r, c')" by fastforce
  have "length (header_hash ext_ref sample_header) = 32"
    by (simp add: header_hash_def length_sha3 ext_ref_ok)
  then show ?thesis
    using only_head_extended [OF one_chain_head _ run] run
    by (auto simp: one_chain_def block_init_def split: sum.splits bool.splits)
qed


theorem early_blocks_in_order_witness:
  "\<exists>c'. process_time_queue (Suc 0) chain_env 9 (Some 5)
     (one_chain\<lparr>ch_time_queue := [block_init (sample_header\<lparr>h_timestamp := 8\<rparr>) [] 27 1 1]\<rparr>) = (Inr (), c') \<and>
     length (ch_time_queue c') = 1"
proof -
  let ?c = "one_chain\<lparr>ch_time_queue := [block_init (sample_header\<lparr>h_timestamp := 8\<rparr>) [] 27 1 1]\<rparr>"
  have c: "head_ok (ce_E chain_env) ?c" "ch_parent_queue ?c = []" "sorted (times (ch_time_queue ?c))"
    using one_chain_head by (simp_all add: head_ok_def one_chain_def)
  have "fst (process_time_queue (Suc 0) chain_env 9 (Some 5) ?c) = Inr ()"
    by (simp add: process_time_queue_def bindM_run_Inr [of "modifyM _"] bindM_run_Inr [of "gets _"] block_init_def)
  then obtain c' where "process_time_queue (Suc 0) chain_env 9 (Some 5) ?c = (Inr (), c')"
    by (cases "process_time_queue (Suc 0) chain_env 9 (Some 5) ?c") simp
  with early_blocks_in_order [OF c, of 0 9 "block_init sample_header [] 0 0 0",
      THEN conjunct2, THEN conjunct1, THEN spec [of _ 5]]
  show ?thesis by (auto simp: block_init_def)
qed

end
