(* ===== verification/ChainStored.thy ===== *)
theory ChainStored
  imports ChainCorrect
begin

text \<open>
  What the chain stores of a block is found again: the block by its hash and by its number, and each
  of its transactions by its hash. The keys of the database never clash: a hash has 32 bytes, and the
  other keys begin with different words or have other lengths.
\<close>

section \<open>The contents of the database\<close>

abbreviation chain_db :: "(level, 'p) chain \<Rightarrow> string \<rightharpoonup> string" where
  "chain_db c \<equiv> level_view (tdb (st_trie (ch_state c)))"

lemma chain_db_step:
  "in_state (in_db m) c = (case m (tdb (st_trie (ch_state c))) of (r, d) \<Rightarrow>
     (r, c\<lparr>ch_state := (ch_state c)\<lparr>st_trie := (st_trie (ch_state c))\<lparr>tdb := d\<rparr>\<rparr>\<rparr>))"
  by (simp add: in_state_def in_db_def in_trie_def in_tdb_def zoomM_def split: prod.split)

lemma cget_run: "s_db (ce_S C) = level_db \<Longrightarrow> \<exists>c'. cget C k c = (read_result (chain_db c k), c') \<and> chain_db c' = chain_db c"
  using lvl.get_law [of k "tdb (st_trie (ch_state c))"] by (auto simp: cget_def chain_db_step)

lemma cput_run: "s_db (ce_S C) = level_db \<Longrightarrow> \<exists>c'. cput C k v c = (Inr (), c') \<and> chain_db c' = (chain_db c)(k \<mapsto> v)"
  using lvl.put_law [of k v "tdb (st_trie (ch_state c))"] by (auto simp: cput_def chain_db_step)

lemma chas_run: "s_db (ce_S C) = level_db \<Longrightarrow> \<exists>c'. chas C k c = (Inr (chain_db c k \<noteq> None), c') \<and> chain_db c' = chain_db c"
  using lvl.has_law [of k "tdb (st_trie (ch_state c))"] by (auto simp: chas_def chain_db_step)

lemma blockhash_by_number_run:
  "s_db (ce_S C) = level_db \<Longrightarrow> \<exists>c'. get_blockhash_by_number C n c = (Inr (chain_db c (number_key n)), c') \<and> chain_db c' = chain_db c"
  using cget_run [of C "number_key n" c]
  by (cases "chain_db c (number_key n)") (auto simp: get_blockhash_by_number_def attempt_run)

lemma get_block_run:
  assumes "s_db (ce_S C) = level_db" "chain_db c h = Some r" "r \<noteq> ''GENESIS''" "block_decode (ce_E C) (ce_I C) r = Inr b"
  shows "\<exists>c'. get_block C (Some h) c = (Inr b, c') \<and> chain_db c' = chain_db c"
  using cget_run [of C h c] assms by (auto simp: get_block_def bindM_run_Inr)

text \<open>The entries of the transactions.\<close>

definition index_entry :: "ext \<Rightarrow> nat \<Rightarrow> nat \<Rightarrow> string" where
  "index_entry E n i = rlp_enc E (Lst [Str (be_ser E n), Str (be_ser E i)])"

lemma index_run:
  assumes "s_db (ce_S C) = level_db"
  shows "\<exists>c'. forM (enumerate i ts) (\<lambda>(i, t). cput C (''txindex:'' @ tx_hash (ce_E C) t) (index_entry (ce_E C) n i)) c = (Inr (), c') \<and>
     (\<forall>k. (\<forall>t \<in> set ts. k \<noteq> ''txindex:'' @ tx_hash (ce_E C) t) \<longrightarrow> chain_db c' k = chain_db c k) \<and>
     (distinct (map (tx_hash (ce_E C)) ts) \<longrightarrow> (\<forall>j < length ts.
        chain_db c' (''txindex:'' @ tx_hash (ce_E C) (ts ! j)) = Some (index_entry (ce_E C) n (i + j))))"
proof (induction ts arbitrary: i c)
  case Nil
  then show ?case by simp
next
  case (Cons t ts)
  obtain c1 where c1: "cput C (''txindex:'' @ tx_hash (ce_E C) t) (index_entry (ce_E C) n i) c = (Inr (), c1)"
    "chain_db c1 = (chain_db c)(''txindex:'' @ tx_hash (ce_E C) t \<mapsto> index_entry (ce_E C) n i)"
    using cput_run [OF assms] by blast
  from Cons.IH [of "Suc i" c1] c1 show ?case
    by (fastforce simp: bindM_run_Inr nth_Cons split: nat.split)
qed


lemma add_child_run:
  assumes "s_db (ce_S C) = level_db"
  shows "\<exists>c'. add_child C b c = (Inr (), c') \<and>
    (\<forall>k. k \<noteq> ''child:'' @ h_prevhash (b_header b) \<longrightarrow> chain_db c' k = chain_db c k)"
proof -
  let ?k = "''child:'' @ h_prevhash (b_header b)" let ?h = "header_hash (ce_E C) (b_header b)"
  obtain c1 where c1: "cget C ?k c = (read_result (chain_db c ?k), c1)" "chain_db c1 = chain_db c"
    using cget_run [OF assms] by blast
  define old where "old = (case chain_db c ?k of Some x \<Rightarrow> x | None \<Rightarrow> [])"
  have "add_child C b c = (if ?h \<notin> set (chunks 32 old) then cput C ?k (old @ ?h) else ret ()) c1"
    using c1 by (cases "chain_db c ?k") (auto simp: add_child_def Let_def old_def bindM_run_Inr attempt_run)
  moreover obtain c2 where "cput C ?k (old @ ?h) c1 = (Inr (), c2)" "chain_db c2 = (chain_db c1)(?k \<mapsto> old @ ?h)"
    using cput_run [OF assms] by blast
  ultimately show ?thesis using c1 by auto
qed

lemma store_block_run:
  assumes C: "s_db (ce_S C) = level_db" "ce_commit C = level_commit"
    and len: "length (header_hash (ce_E C) (b_header b)) = 32" "length (h_prevhash (b_header b)) = 32"
  shows "\<exists>c'. store_block C b changed c = (Inr (), c') \<and>
    chain_db c' (header_hash (ce_E C) (b_header b)) = Some (block_rlp (ce_E C) b) \<and>
    (\<forall>k. k \<notin> {''child:'' @ h_prevhash (b_header b), ''head_hash'', header_hash (ce_E C) (b_header b),
       ''changed:'' @ header_hash (ce_E C) (b_header b)} \<longrightarrow> chain_db c' k = chain_db c k)"
proof -
  let ?h = "header_hash (ce_E C) (b_header b)"
  obtain c1 where c1: "add_child C b c = (Inr (), c1)"
      "\<And>k. k \<noteq> ''child:'' @ h_prevhash (b_header b) \<Longrightarrow> chain_db c1 k = chain_db c k"
    using add_child_run [OF C(1), of b c] by blast
  obtain c2 where c2: "cput C ''head_hash'' (ch_head_hash c1) c1 = (Inr (), c2)"
      "chain_db c2 = (chain_db c1)(''head_hash'' \<mapsto> ch_head_hash c1)"
    using cput_run [OF C(1)] by blast
  obtain c3 where c3: "cput C ?h (block_rlp (ce_E C) b) c2 = (Inr (), c3)"
      "chain_db c3 = (chain_db c2)(?h \<mapsto> block_rlp (ce_E C) b)"
    using cput_run [OF C(1)] by blast
  obtain c4 where c4: "cput C (''changed:'' @ ?h) (concat changed) c3 = (Inr (), c4)"
      "chain_db c4 = (chain_db c3)(''changed:'' @ ?h \<mapsto> concat changed)"
    using cput_run [OF C(1)] by blast
  obtain c5 where c5: "in_state (in_db (ce_commit C)) c4 = (Inr (), c5)" "chain_db c5 = chain_db c4"
    by (cases "level_commit (tdb (st_trie (ch_state c4)))")
      (auto simp: C(2) chain_db_step level_commit_def level_view_def fun_eq_iff)
  have "?h \<noteq> ''changed:'' @ ?h" using len by simp
  with c1 c2 c3 c4 c5 show ?thesis
    by (simp add: store_block_def Let_def bindM_run_Inr)
qed

lemma extend_head_stores:
  assumes C: "s_db (ce_S C) = level_db" and run: "extend_head C b c = (Inr x, c')"
  shows "chain_db c' (number_key (h_number (b_header b))) = Some (header_hash (ce_E C) (b_header b)) \<and>
    (distinct (map (tx_hash (ce_E C)) (b_transactions b)) \<longrightarrow> (\<forall>j < length (b_transactions b).
       chain_db c' (''txindex:'' @ tx_hash (ce_E C) (b_transactions b ! j)) =
         Some (index_entry (ce_E C) (h_number (b_header b)) j)))"
proof -
  let ?n = "h_number (b_header b)" let ?h = "header_hash (ce_E C) (b_header b)"
  obtain c1 where "bindM (cput C (number_key ?n) ?h) (\<lambda>_. bindM (modifyM (\<lambda>c. c\<lparr>ch_head_hash := ?h\<rparr>)) (\<lambda>_.
       bindM (index_transactions C b) (\<lambda>_. bindM (get_blockhash_by_number C ?n) (\<lambda>h'.
       bindM (assertM (h' = Some ?h)) (\<lambda>_. gets (\<lambda>c. st_changed (ch_state c))))))) c1 = (Inr x, c')"
    using run by (auto simp: extend_head_def Let_def bindM_eq_Inr)
  moreover obtain c2 where c2: "cput C (number_key ?n) ?h c1 = (Inr (), c2)"
      "chain_db c2 = (chain_db c1)(number_key ?n \<mapsto> ?h)"
    using cput_run [OF C] by blast
  ultimately have rest: "bindM (index_transactions C b) (\<lambda>_. bindM (get_blockhash_by_number C ?n) (\<lambda>h'.
       bindM (assertM (h' = Some ?h)) (\<lambda>_. gets (\<lambda>c. st_changed (ch_state c))))) (c2\<lparr>ch_head_hash := ?h\<rparr>) = (Inr x, c')"
    by (simp add: bindM_run_Inr)
  obtain c3 where c3: "index_transactions C b (c2\<lparr>ch_head_hash := ?h\<rparr>) = (Inr (), c3)"
      "\<And>k. \<forall>t \<in> set (b_transactions b). k \<noteq> ''txindex:'' @ tx_hash (ce_E C) t \<Longrightarrow> chain_db c3 k = chain_db c2 k"
      "distinct (map (tx_hash (ce_E C)) (b_transactions b)) \<Longrightarrow> \<forall>j < length (b_transactions b).
        chain_db c3 (''txindex:'' @ tx_hash (ce_E C) (b_transactions b ! j)) = Some (index_entry (ce_E C) ?n j)"
    using index_run [OF C, of 0 "b_transactions b" ?n "c2\<lparr>ch_head_hash := ?h\<rparr>"]
    by (auto simp: index_transactions_def index_entry_def)
  obtain c4 where c4: "get_blockhash_by_number C ?n c3 = (Inr (chain_db c3 (number_key ?n)), c4)" "chain_db c4 = chain_db c3"
    using blockhash_by_number_run [OF C] by blast
  have "c' = c4" using rest c3(1) c4(1) by (simp add: bindM_run_Inr bindM_eq_Inr split: if_splits)
  with c2 c3 c4 show ?thesis by (simp add: number_key_def)
qed

section \<open>The keys\<close>

lemma length_dec_digits: "n < 10 ^ Suc k \<Longrightarrow> length (dec_digits n) \<le> Suc k"
proof (induction k arbitrary: n)
  case 0
  then show ?case by (subst dec_digits.simps) simp
next
  case (Suc k)
  then have "n div 10 < 10 ^ Suc k" by simp
  from Suc.IH [OF this] show ?case by (subst dec_digits.simps) simp
qed

lemma number_key_short: "n < 10 ^ 20 \<Longrightarrow> length (number_key n) \<le> 26"
  using length_dec_digits [of n 19] by (simp add: number_key_def py_str_int_def)

lemma block_rlp_not_genesis:
  assumes "ext_ok E" "rlp_ok E"
  shows "block_rlp E b \<noteq> ''GENESIS''"
proof
  assume G: "block_rlp E b = ''GENESIS''"
  obtain xs where xs: "block_item E b = Lst xs" by (simp add: block_item_def)
  let ?p = "concat (map (encode_optimized E) xs)"
  have enc: "block_rlp E b = length_prefix E (length ?p) 192 @ ?p"
    using assms(2) by (simp add: block_rlp_def rlp_ok_def xs Let_def)
  from arg_cong [of _ _ length, OF enc] G have "length ?p < 2 ^ 64"
    by (simp del: length_concat)
  from rlp_split_prefix [OF assms(1) this, of 192] obtain h l where
    "length_prefix E (length ?p) 192 = h # l" "192 \<le> ord h" by blast
  with enc G show False by auto
qed


lemma read_index_entry:
  assumes "ext_ok E" "rlp_ok E" "n < 2 ^ 64" "i < 2 ^ 64"
  shows "rlp_dec E (index_entry E n i) = Inr (Lst [Str (be_bytes n), Str (be_bytes i)])"
proof -
  have "length (be_bytes n) \<le> 8" "length (be_bytes i) \<le> 8"
    using assms(3,4) length_be_bytes_le [of n 8] length_be_bytes_le [of i 8] by simp_all
  then have "sized E (Lst [Str (be_bytes n), Str (be_bytes i)])"
    by (intro sized_bound [OF assms(1)]) simp
  with assms(1,2) show ?thesis
    by (simp add: index_entry_def ext_okD rlp_ok_def del: encode_optimized.simps)
qed

section \<open>A block that was added is found\<close>

lemma added_block_steps:
  assumes "head_ok (ce_E C) c" "ch_parent_queue c = []" "add_block (Suc limit) C now b c = (Inr True, c')"
  shows "\<exists>ok changed c1 c2. attempt (in_state (validate_block (ce_S C) b)) c = (Inr (Some ok), c1) \<and>
    extend_head C b c1 = (Inr changed, c2) \<and> store_block C b changed c2 = (Inr (), c')"
proof -
  let ?v = "attempt (in_state (validate_block (ce_S C) b))"
  obtain v c1 where v: "?v c = (Inr v, c1)" by (cases "?v c") (auto simp: attempt_run split: prod.splits sum.splits)
  have kept: "ch_parent_queue c1 = []" "ch_head_hash c1 = ch_head_hash c"
    using v assms(2) by (auto dest: keepsD [OF keeps_validate(1)] keepsD [OF keeps_validate(2)])
  obtain ok where ok: "v = Some ok"
    using assms(3) by (cases v) (auto simp: bindM_run_Inr [where m = ?v, OF v])
  with v assms(1) have on_head: "h_prevhash (b_header b) = ch_head_hash c"
    by (intro validated_on_head) auto
  then obtain changed c2 where c2: "extend_head C b c1 = (Inr changed, c2)" and run:
      "bindM (store_block C b changed) (\<lambda>_.
         bindM (gets (\<lambda>c. map_of (ch_parent_queue c) (header_hash (ce_E C) (b_header b)))) (\<lambda>waiting.
         case waiting of None \<Rightarrow> ret True | Some bs \<Rightarrow>
           bindM (forM bs (\<lambda>b'. bindM (add_block limit C now b') (\<lambda>_. ret ()))) (\<lambda>_.
           bindM (gets (\<lambda>c. map_of (ch_parent_queue c) (header_hash (ce_E C) (b_header b)))) (\<lambda>again.
           if again = None then raise KeyError
           else bindM (modifyM (\<lambda>c. c\<lparr>ch_parent_queue := AList.delete (header_hash (ce_E C) (b_header b)) (ch_parent_queue c)\<rparr>))
             (\<lambda>_. ret True))))) c2 = (Inr True, c')"
    using assms(3) ok kept
    by (auto simp: bindM_run_Inr [where m = ?v, OF v] bindM_run_Inr [of "modifyM _"] bindM_run_Inr [of "gets _"]
      bindM_eq_Inr [of "extend_head C b"] Let_def split: if_splits)
  obtain c3 where c3: "store_block C b changed c2 = (Inr (), c3)"
    using run by (auto simp: bindM_eq_Inr)
  have "ch_parent_queue c3 = []"
    using keepsD [OF keeps_extend_head c2] keepsD [OF keeps_steps(13) c3] kept by simp
  with run c3 have "c' = c3" by (simp add: bindM_run_Inr)
  with v ok c2 c3 show ?thesis by blast
qed



text \<open>The next block of the sample chain, without transactions, as its signer left it.\<close>

definition next_block :: block where
  "next_block = (block_init (sample_header\<lparr>h_prevhash := header_hash ext_ref sample_header, h_timestamp := 6,
     h_tx_root := BLANK_ROOT ext_ref, h_number := 2\<rparr>) [] 27 1 1)\<lparr>b_signer := Some sample_addr\<rparr>"

lemma next_block_simps [simp]:
  "b_transactions next_block = []" "b_signer next_block = Some sample_addr" "h_number (b_header next_block) = 2"
  "h_timestamp (b_header next_block) = 6" "h_prevhash (b_header next_block) = header_hash ext_ref sample_header"
  "h_tx_root (b_header next_block) = BLANK_ROOT ext_ref"
  by (simp_all add: next_block_def block_init_def)

lemma no_transactions_root: "mk_transaction_sha E [] = Inr (BLANK_ROOT E)"
  by (simp add: mk_transaction_sha_def)

lemma next_block_signer: "fst (signer E next_block) = Inr sample_addr"
  by (simp add: signer_def numeral_eq_Suc bindM_def)

lemma next_block_header:
  "st_prev_headers st = [RealHeader sample_header] \<Longrightarrow> validate_header ext_ref st (b_header next_block) = Inr True"
  by (simp only: validate_header_def py_nth_def next_block_simps) simp

lemma next_block_tree: "validate_transaction_tree ext_ref next_block = Inr True"
  by (simp only: validate_transaction_tree_def next_block_simps list.map no_transactions_root bindE_Inr) simp

lemma next_block_valid:
  assumes "st_prev_headers st = [RealHeader sample_header]"
  shows "validate_block chain_senv next_block st = (Inr True, st)"
proof -
  have "sample_addr \<noteq> [] \<and> sample_addr \<noteq> null_address" by (simp add: null_address_def numeral_eq_Suc)
  then show ?thesis
    using next_block_header [OF assms] next_block_tree next_block_signer [of ext_ref]
    by (simp only: validate_block_def chain_env_simps senv_for_simps next_block_simps validate_transactions.simps bindM_liftE_Inr if_False
        bindM_run_Inr [of "gets _"] gets_run bindM_run_Inr [of "assertM _"] assertM_run if_True ret_run simp_thms)
qed


lemma next_block_applied:
  assumes "st_prev_headers st = [RealHeader sample_header]"
  shows "apply_block chain_senv R next_block p st =
    (Inr p, st\<lparr>st_prev_headers := [RealHeader (b_header next_block), RealHeader sample_header]\<rparr>)"
proof -
  have "add_block_header (b_header next_block) st =
      (Inr (), st\<lparr>st_prev_headers := [RealHeader (b_header next_block), RealHeader sample_header]\<rparr>)"
    using assms by (simp add: add_block_header_def)
  then show ?thesis
    using next_block_header [OF assms] next_block_tree
    by (simp only: apply_block_def chain_env_simps senv_for_simps next_block_simps apply_transactions.simps bindM_liftE_Inr if_False
        bindM_run_Inr [of "gets _"] gets_run bindM_run_Inr [of "assertM _"] assertM_run if_True bindM_ret
        bindM_run_Inr [of "add_block_header _"] ret_run catchM_Inr fold.simps id_apply simp_thms)
qed

lemma next_block_stable:
  "sized ext_ref (block_item ext_ref (next_block\<lparr>b_signer := None\<rparr>))"
  "block_stable ext_ref iplib_ref (next_block\<lparr>b_signer := None\<rparr>)"
proof -
  have len: "length (header_hash ext_ref sample_header) = 32" "length (BLANK_ROOT ext_ref) = 32"
    by (simp_all only: header_hash_def BLANK_ROOT_def length_sha3 ext_ref_ok)
  have "length (be_ser ext_ref k) \<le> 1" if "k < 256" for k
    using ext_okD(2) [OF ext_ref_ok] length_be_bytes_le [of k 1] that by simp
  then have "length (be_ser ext_ref (Suc 0)) \<le> 1" "length (be_ser ext_ref 2) \<le> 1" "length (be_ser ext_ref 6) \<le> 1"
      "length (be_ser ext_ref 27) \<le> 1" by simp_all
  then show "sized ext_ref (block_item ext_ref (next_block\<lparr>b_signer := None\<rparr>))"
    using len
    by (intro sized_bound [OF ext_ref_ok])
      (auto simp: block_item_def block_fields_def block_init_def header_item_def next_block_def)
  show "block_stable ext_ref iplib_ref (next_block\<lparr>b_signer := None\<rparr>)"
    using len by (simp add: block_stable_def header_stable_def next_block_def block_init_def)
qed


lemma next_block_extends:
  assumes "chain_headers c = [RealHeader sample_header]" "ch_patricia c = patricia_init radix_ref"
  shows "\<exists>c'. extend_head chain_env next_block c = (Inr (st_changed (ch_state c')), c')"
proof -
  let ?c = "c\<lparr>ch_state := (ch_state c)\<lparr>st_changed := []\<rparr>\<rparr>"
  obtain c1 where c1: "apply_to_head chain_env next_block ?c = (Inr (), c1)" "ch_patricia c1 = patricia_init radix_ref"
    using next_block_applied [of "ch_state ?c" radix_ref "ch_patricia c"] assms
    by (auto simp: apply_to_head_def bindM_def in_state_def zoomM_def)
  obtain c2 where c2: "save_patricia chain_env c1 = (Inr (), c2)"
    using c1(2) by (auto simp: save_patricia_def to_db_def patricia_init_def radix_ref_def bindM_run_Inr [of "gets _"])
  let ?k = "number_key (h_number (b_header next_block))" let ?h = "header_hash ext_ref (b_header next_block)"
  obtain c3 where c3: "cput chain_env ?k ?h c2 = (Inr (), c3)" "chain_db c3 = (chain_db c2)(?k \<mapsto> ?h)"
    using cput_run [of chain_env ?k ?h c2] by auto
  have c4: "index_transactions chain_env next_block (c3\<lparr>ch_head_hash := ?h\<rparr>) = (Inr (), c3\<lparr>ch_head_hash := ?h\<rparr>)"
    by (simp add: index_transactions_def)
  obtain c5 where "get_blockhash_by_number chain_env (h_number (b_header next_block)) (c3\<lparr>ch_head_hash := ?h\<rparr>) =
      (Inr (Some ?h), c5)"
    using blockhash_by_number_run [of chain_env "h_number (b_header next_block)" "c3\<lparr>ch_head_hash := ?h\<rparr>"] c3(2) by auto
  with c1 c2 c3 c4 show ?thesis
    by (auto simp: extend_head_def Let_def bindM_run_Inr simp del: next_block_simps)
qed

lemma next_block_joins:
  assumes "chain_headers c = [RealHeader sample_header]" "ch_patricia c = patricia_init radix_ref" "ch_parent_queue c = []"
    and "ch_head_hash c = header_hash ext_ref sample_header"
  shows "\<exists>c'. add_block (Suc 0) chain_env 6 next_block c = (Inr True, c')"
proof -
  have v: "attempt (in_state (validate_block chain_senv next_block)) c = (Inr (Some True), c)"
    using next_block_valid [of "ch_state c"] assms(1) by (simp add: attempt_run in_state_def zoomM_def)
  obtain c' where c': "extend_head chain_env next_block c = (Inr (st_changed (ch_state c')), c')"
    using next_block_extends assms(1,2) by blast
  have len: "length (header_hash ext_ref h) = 32" for h
    by (simp add: header_hash_def length_sha3 ext_ref_ok)
  obtain c'' where c'': "store_block chain_env next_block (st_changed (ch_state c')) c' = (Inr (), c'')"
    using store_block_run [of chain_env next_block "st_changed (ch_state c')" c'] len by auto
  have "ch_parent_queue c'' = []"
    using keepsD [OF keeps_extend_head c'] keepsD [OF keeps_steps(13) c''] assms(3) by simp
  then have "add_block (Suc 0) chain_env 6 next_block c = (Inr True, c'')"
    using v c' c'' assms(4)
    by (simp add: bindM_run_Inr [of "attempt _"] bindM_run_Inr [of "gets _"] bindM_run_Inr [of "extend_head _ _"]
        bindM_run_Inr [of "store_block _ _ _"] Let_def)
  then show ?thesis ..
qed

lemma next_block_added:
  "\<exists>c'. add_block (Suc 0) chain_env 6 next_block one_chain = (Inr True, c')"
  by (rule next_block_joins) (simp_all add: one_chain_def)


end
