(* ===== verification/ChainService.thy ===== *)
theory ChainService
  imports ChainStored MapReply
begin

text \<open>
  \<open>chain_service.py\<close>: the class \<open>ChainService\<close>. Its state is the chain and the pool of pending
  transactions. The configuration is read from \<open>chain_config.cfg\<close>; \<open>hashlib.sha256\<close> and the bits of
  \<open>map_reply.py\<close> are parameters, and the clock and the recursion limit are arguments. The size of a
  block that \<open>create_block\<close> tests is that of the Python object alone, which never reaches the bound, so
  the test always succeeds. Logging is left out, and so is the iteration over an IPSet of
  \<open>extract_first_ip_from_address\<close>.
\<close>

section \<open>The service\<close>

record ('b, 'i, 'p) venv =
  ve_C :: "('b, 'i, 'p) cenv"
  ve_bits :: bitlib
  ve_sha256 :: "string \<Rightarrow> string"
  DKG_RENEWAL_INTERVAL :: nat
  DKG_NUMBER_PARTICIPANTS :: nat

abbreviation ve_S :: "('b, 'i, 'p) venv \<Rightarrow> ('b, 'i) senv" where
  "ve_S V \<equiv> ce_S (ve_C V)"

abbreviation ve_E :: "('b, 'i, 'p) venv \<Rightarrow> ext" where
  "ve_E V \<equiv> s_ext (ce_S (ve_C V))"

record ('b, 'p) service =
  sv_chain :: "('b, 'p) chain"
  sv_pool :: "tx list"

definition on_chain :: "(('b, 'p) chain, 'a) M \<Rightarrow> (('b, 'p) service, 'a) M" where
  "on_chain m = zoomM sv_chain (\<lambda>c s. s\<lparr>sv_chain := c\<rparr>) m"

definition on_state :: "('b state, 'a) M \<Rightarrow> (('b, 'p) service, 'a) M" where
  "on_state m = on_chain (in_state m)"

definition service_init ::
  "('b, 'i, 'p) venv \<Rightarrow> (ipnet \<times> string) list option \<Rightarrow> genesis_data \<Rightarrow> nat \<Rightarrow> 'b \<Rightarrow> ('b, 'p) service res" where
  "service_init V file genesis now db =
     bindE (chain_init (ve_C V) file (Some genesis) False now db) (\<lambda>c. Inr \<lparr>sv_chain = c, sv_pool = []\<rparr>)"

section \<open>The pool\<close>

text \<open>Objects of the package \<open>rlp\<close> are equal when they have the same serialisation.\<close>

definition tx_eq :: "ext \<Rightarrow> tx \<Rightarrow> tx \<Rightarrow> bool" where
  "tx_eq E t t' \<longleftrightarrow> tx_item E t = tx_item E t'"

definition in_pool :: "ext \<Rightarrow> tx \<Rightarrow> tx list \<Rightarrow> bool" where
  "in_pool E t pool \<longleftrightarrow> (\<exists>t' \<in> set pool. tx_eq E t t')"

fun remove_tx :: "ext \<Rightarrow> tx \<Rightarrow> tx list \<Rightarrow> tx list res" where
  "remove_tx E t [] = Inl ValueError"
| "remove_tx E t (t' # pool) = (if tx_eq E t t' then Inr pool else bindE (remove_tx E t pool) (\<lambda>p. Inr (t' # p)))"

definition add_pending_transaction :: "('b, 'i, 'p) venv \<Rightarrow> tx \<Rightarrow> (('b, 'p) service, unit) M" where
  "add_pending_transaction V t =
     bindM (on_state (validate_transaction (ve_S V) t)) (\<lambda>_.
     bindM (liftE (tx_sender_of (ve_E V) t)) (\<lambda>a.
     if a = [] \<or> a = null_address then raise UnsignedTransaction
     else modifyM (\<lambda>s. s\<lparr>sv_pool := sv_pool s @ [t]\<rparr>)))"

section \<open>Creating a block\<close>

text \<open>The environment with a fresh \<open>_EphemDB\<close>, in which the transactions are tried.\<close>

definition trial_env :: "('b, 'i) senv \<Rightarrow> (ephem, 'i) senv" where
  "trial_env S = \<lparr>s_ext = s_ext S, s_db = ephem_db, s_ips = s_ips S, s_pickle = s_pickle S, s_unpickle = s_unpickle S\<rparr>"

text \<open>The address family of the block with number \<open>n\<close>.\<close>

definition block_afi :: "nat \<Rightarrow> nat" where
  "block_afi n = (if n mod 2 = 0 then 1 else 2)"

fun fill_block :: "(ephem, 'i) senv \<Rightarrow> nat \<Rightarrow> tx list \<Rightarrow> tx list \<Rightarrow> (ephem state, tx list) M" where
  "fill_block S n [] txs = ret txs"
| "fill_block S n (t # ts) txs =
     (if tx_afi t = block_afi n
      then bindM (attempt (apply_transaction S t [])) (\<lambda>r.
           fill_block S n ts (if r = None then txs else txs @ [t]))
      else fill_block S n ts txs)"

text \<open>The loop of \<open>_create_tries\<close> over a trie in memory and a copy of the state.\<close>

fun tries_loop :: "('b, 'i) senv \<Rightarrow> (nat \<times> tx) list \<Rightarrow> cached \<Rightarrow> (ephem trie \<times> 'b state, cached) M" where
  "tries_loop S [] dictionary = ret dictionary"
| "tries_loop S ((i, t) # ts) dictionary =
     bindM (zoomM fst (\<lambda>x s. (x, snd s))
       (update (ephem_trie (s_ext S)) (rlp_enc (s_ext S) (Str (be_ser (s_ext S) i))) (rlp_enc (s_ext S) (tx_item (s_ext S) t)))) (\<lambda>_.
     bindM (zoomM snd (\<lambda>x s. (fst s, x)) (apply_transaction S t dictionary)) (\<lambda>dictionary'.
     tries_loop S ts dictionary'))"

definition create_tries :: "('b, 'i, 'p) venv \<Rightarrow> block \<Rightarrow> (('b, 'p) service, block) M" where
  "create_tries V b =
     bindM (on_state (to_snapshot (ce_limit (ve_C V)) (ve_S V) False False)) (\<lambda>_.
     bindM (gets (\<lambda>s. clone (ve_S V) (ch_state (sv_chain s)))) (\<lambda>temp.
     bindM (liftE temp) (\<lambda>temp_state.
     case tries_loop (clone_env (ve_S V)) (enumerate 0 (b_transactions b)) [] (blank_trie (ve_E V) Map.empty, temp_state) of
       (Inl e, _) \<Rightarrow> raise e
     | (Inr _, (t, temp_state')) \<Rightarrow>
         ret (b\<lparr>b_header := (b_header b)\<lparr>h_tx_root := root_hash t, h_state_root := root_hash (st_trie temp_state')\<rparr>\<rparr>))))"

text \<open>The group key of the new block: asked for every \<open>DKG_RENEWAL_INTERVAL\<close> blocks, and a constant
  otherwise.\<close>

definition block_group_key :: "nat \<Rightarrow> nat \<Rightarrow> string option \<Rightarrow> string res" where
  "block_group_key renewal n group_key =
     (if n mod renewal = 0
      then (case group_key of Some (c # k) \<Rightarrow> Inr (c # k) | _ \<Rightarrow> Inl DkgBlockRequiresGroupKey)
      else Inr ''0x00'')"

definition create_block ::
  "nat \<Rightarrow> ('b, 'i, 'p) venv \<Rightarrow> nat \<Rightarrow> pyarg \<Rightarrow> string \<Rightarrow> string option \<Rightarrow> string \<Rightarrow> nat \<Rightarrow> (('b, 'p) service, block) M" where
  "create_block limit V now coinbase random_no group_key group_sig count =
     bindM (on_chain (process_time_queue limit (ve_C V) now None)) (\<lambda>_.
     bindM (gets sv_chain) (\<lambda>c.
     let n = Suc (st_block_number (ch_state c))
     in bindM (liftE (normalize_address (ve_E V) coinbase False)) (\<lambda>coinbase'.
        bindM (liftE (block_group_key (DKG_RENEWAL_INTERVAL V) n group_key)) (\<lambda>group_key'.
        bindM (liftE (parse_as_bin random_no)) (\<lambda>random_number.
        let header = \<lparr>h_prevhash = ch_head_hash c, h_timestamp = now, h_extra_data = [], h_state_root = BLANK_ROOT (ve_E V),
              h_tx_root = BLANK_ROOT (ve_E V), h_number = n, h_coinbase = coinbase', h_random_number = random_number,
              h_group_pubkey = group_key', h_group_sig = group_sig, h_count = count\<rparr>
        in bindM (on_state (to_snapshot (ce_limit (ve_C V)) (ve_S V) False False)) (\<lambda>snap.
           bindM (gets sv_pool) (\<lambda>pool.
           case from_snapshot (trial_env (ve_S V)) snap False Map.empty of
             (Inl e, _) \<Rightarrow> raise e
           | (Inr s, _) \<Rightarrow>
               (case fill_block (trial_env (ve_S V)) n pool [] s of
                  (Inl e, _) \<Rightarrow> raise e
                | (Inr txs, _) \<Rightarrow> create_tries V (block_init header txs 0 0 0)))))))))"

section \<open>Adding a block\<close>

text \<open>\<open>validate_block\<close> of the service calls the chain's without its argument.\<close>

definition service_validate_block :: "nat \<Rightarrow> ('b, 'i, 'p) venv \<Rightarrow> nat \<Rightarrow> (('b, 'p) service, unit) M" where
  "service_validate_block limit V now =
     bindM (on_chain (process_time_queue limit (ve_C V) now None)) (\<lambda>_. raise TypeError)"

definition service_verify_block_signature ::
  "('b, 'i, 'p) venv \<Rightarrow> block \<Rightarrow> ipnet \<Rightarrow> (('b, 'p) service, bool) M" where
  "service_verify_block_signature V b ip = on_state (verify_block_signature (ve_S V) b ip)"

fun remove_added :: "ext \<Rightarrow> tx list \<Rightarrow> tx list \<Rightarrow> tx list res" where
  "remove_added E [] pool = Inr pool"
| "remove_added E (t # ts) pool =
     bindE (if in_pool E t pool then remove_tx E t pool else Inr pool) (remove_added E ts)"

fun remove_all_txs :: "ext \<Rightarrow> tx list \<Rightarrow> tx list \<Rightarrow> tx list res" where
  "remove_all_txs E [] pool = Inr pool"
| "remove_all_txs E (t # ts) pool = bindE (remove_tx E t pool) (remove_all_txs E ts)"

fun invalid_txs :: "('b, 'i) senv \<Rightarrow> tx list \<Rightarrow> ('b state, tx list) M" where
  "invalid_txs S [] = ret []"
| "invalid_txs S (t # ts) =
     bindM (attempt (validate_transaction S t)) (\<lambda>r.
     bindM (invalid_txs S ts) (\<lambda>bad. ret (if r = None then t # bad else bad)))"

definition service_add_block :: "nat \<Rightarrow> ('b, 'i, 'p) venv \<Rightarrow> nat \<Rightarrow> block \<Rightarrow> (('b, 'p) service, unit) M" where
  "service_add_block limit V now b =
     (if \<exists>t \<in> set (b_transactions b). tx_afi t \<noteq> block_afi (h_number (b_header b)) then raise PyException
      else
        bindM (on_chain (add_block limit (ve_C V) now b)) (\<lambda>_.
        bindM (gets sv_pool) (\<lambda>pool.
        bindM (liftE (remove_added (ve_E V) (b_transactions b) pool)) (\<lambda>pool1.
        bindM (modifyM (\<lambda>s. s\<lparr>sv_pool := pool1\<rparr>)) (\<lambda>_.
        bindM (on_state (invalid_txs (ve_S V) pool1)) (\<lambda>bad.
        bindM (liftE (remove_all_txs (ve_E V) bad pool1)) (\<lambda>pool2.
        modifyM (\<lambda>s. s\<lparr>sv_pool := pool2\<rparr>))))))))"

section \<open>Queries\<close>

text \<open>\<open>get_own_ips\<close>, \<open>get_delegated_ips\<close>, \<open>get_received_ips\<close>, \<open>get_map_server\<close> and \<open>get_locator\<close>: the
  address is normalised for its exceptions only.\<close>

definition holding :: "('b, 'i, 'p) venv \<Rightarrow> ('i balance \<Rightarrow> 'x) \<Rightarrow> pyarg \<Rightarrow> (('b, 'p) service, 'x) M" where
  "holding V field addr =
     bindM (liftE (normalize_address (ve_E V) addr False)) (\<lambda>_.
     bindM (on_state (get_balance (ve_S V) addr)) (\<lambda>b. ret (field b)))"

definition get_own_ips :: "('b, 'i, 'p) venv \<Rightarrow> pyarg \<Rightarrow> (('b, 'p) service, 'i) M" where
  "get_own_ips V = holding V own_ips"

definition get_delegated_ips :: "('b, 'i, 'p) venv \<Rightarrow> pyarg \<Rightarrow> (('b, 'p) service, (string \<times> 'i) list) M" where
  "get_delegated_ips V = holding V delegated_ips"

definition get_received_ips :: "('b, 'i, 'p) venv \<Rightarrow> pyarg \<Rightarrow> (('b, 'p) service, (string \<times> 'i) list) M" where
  "get_received_ips V = holding V received_ips"

definition get_map_server :: "('b, 'i, 'p) venv \<Rightarrow> pyarg \<Rightarrow> (('b, 'p) service, (ipnet \<times> string) list) M" where
  "get_map_server V = holding V map_server"

definition get_locator :: "('b, 'i, 'p) venv \<Rightarrow> pyarg \<Rightarrow> (('b, 'p) service, (ipnet \<times> int \<times> int) list) M" where
  "get_locator V = holding V locator"

text \<open>The dictionary of a transaction; without metadata the constructor gets None and refuses it.\<close>

record transaction_data =
  td_from :: pyarg
  td_category :: nat
  td_to :: pyarg
  td_afi :: nat
  td_value :: pyarg
  td_metadata :: "meta_arg option"

definition parse_transaction :: "('b, 'i, 'p) venv \<Rightarrow> nat \<Rightarrow> transaction_data \<Rightarrow> (('b, 'p) service, tx) M" where
  "parse_transaction V now d =
     bindM (on_state (get_nonce (ve_S V) (td_from d))) (\<lambda>nonce.
     liftE (case td_metadata d of
       None \<Rightarrow> Inl InvalidTransaction
     | Some m \<Rightarrow> tx_init (ve_E V) (ce_I (ve_C V)) nonce (td_category d) (td_to d) (td_afi d) (td_value d) m now 0 0 0))"

text \<open>\<open>IPNetwork(ipaddr).ip\<close> as a prefix of full length.\<close>

definition ip_of_net :: "ipnet \<Rightarrow> ipnet" where
  "ip_of_net n = IPNet (net_version n) (net_value n) (ip_bits (net_version n))"

definition reply_for :: "ipnet \<Rightarrow> int \<Rightarrow> 'i balance \<Rightarrow> response option" where
  "reply_for n nonce bal =
     (if map_server bal \<noteq> [] then Some \<lparr>rs_nonce = nonce, rs_info = MapServers (map fst (map_server bal))\<rparr>
      else if locator bal \<noteq> []
      then Some \<lparr>rs_nonce = nonce, rs_info = MapReply (map_reply_init (Some n) (map (\<lambda>(key, p, w).
             \<lparr>lr_priority = p, lr_weight = w, lr_mpriority = 0, lr_mweight = 0, lr_unusedflags = 0, lr_LpR = 0,
              lr_locator = Some key\<rparr>) (locator bal)))\<rparr>
      else None)"

definition get_addr_from_ip :: "('b, 'i, 'p) venv \<Rightarrow> ipnet \<Rightarrow> (('b, 'p) service, string) M" where
  "get_addr_from_ip V ip =
     bindM (gets (\<lambda>s. ch_patricia (sv_chain s))) (\<lambda>p.
     liftE (bindE (get_value (ce_R (ve_C V)) ip p) (\<lambda>a. normalize_address (ve_E V) (PyStr a) False)))"

definition query_eid :: "('b, 'i, 'p) venv \<Rightarrow> string \<Rightarrow> int \<Rightarrow> (('b, 'p) service, string option) M" where
  "query_eid V ipaddr nonce =
     bindM (attempt (
       bindM (liftE (ce_net (ve_C V) ipaddr)) (\<lambda>n.
       bindM (get_addr_from_ip V (ip_of_net n)) (\<lambda>a.
       bindM (on_state (get_balance (ve_S V) (PyStr a))) (\<lambda>bal.
       case reply_for n nonce bal of
         None \<Rightarrow> ret None
       | Some r \<Rightarrow> bindM (liftE (response_bytes (ve_bits V) r)) (\<lambda>s. ret (Some s))))))) (\<lambda>r.
     ret (Option.bind r id))"

definition tx_in_chain :: "('b, 'i, 'p) venv \<Rightarrow> tx \<Rightarrow> (('b, 'p) service, bool) M" where
  "tx_in_chain V t = on_chain (chas (ve_C V) (''txindex:'' @ tx_hash (ve_E V) t))"

section \<open>The group that generates keys\<close>

text \<open>The number of the last block at which a group key was asked for.\<close>

definition last_dkg_number :: "('b, 'i, 'p) venv \<Rightarrow> (('b, 'p) service, nat) M" where
  "last_dkg_number V =
     bindM (on_chain (get_head_block (ve_C V))) (\<lambda>head.
     case head of
       None \<Rightarrow> raise AttributeError
     | Some b \<Rightarrow> let n = h_number (b_header b) in ret (n - n mod DKG_RENEWAL_INTERVAL V))"

definition get_current_group_key :: "('b, 'i, 'p) venv \<Rightarrow> (('b, 'p) service, string) M" where
  "get_current_group_key V =
     bindM (last_dkg_number V) (\<lambda>n.
     bindM (on_chain (get_block_by_number (ve_C V) n)) (\<lambda>b. ret (h_group_pubkey (b_header b))))"

fun draw_group :: "(string \<Rightarrow> string) \<Rightarrow> nat \<Rightarrow> int \<Rightarrow> string list \<Rightarrow> string list res" where
  "draw_group H 0 random_no all_addresses = Inr []"
| "draw_group H (Suc n) random_no all_addresses =
     (if all_addresses = [] then Inl ZeroDivisionError
      else let random_pos = nat (random_no mod int (length all_addresses))
           in bindE (compress_random_no_to_int (H (py_str_int random_no)) 16) (\<lambda>random_no'.
              bindE (draw_group H n random_no' (take random_pos all_addresses @ drop (Suc random_pos) all_addresses)) (\<lambda>g.
              Inr (all_addresses ! random_pos # g))))"

definition get_current_dkg_group :: "('b, 'i, 'p) venv \<Rightarrow> (('b, 'p) service, string list) M" where
  "get_current_dkg_group V =
     bindM (last_dkg_number V) (\<lambda>n.
     bindM (on_chain (get_block_by_number (ve_C V) n)) (\<lambda>b.
     bindM (liftE (compress_random_no_to_int (hex_encode (h_random_number (b_header b))) 16)) (\<lambda>random_no.
     bindM (on_chain (get_all_current_addresses (ve_C V))) (\<lambda>all_addresses.
     liftE (draw_group (ve_sha256 V) (DKG_NUMBER_PARTICIPANTS V) random_no all_addresses)))))"

end
