(* ===== verification/BlockRefine.thy ===== *)
theory BlockRefine
  imports ApplyCorrect
begin

text \<open>
  \<open>apply_block\<close> against the ledger: its transactions are the ledger transitions one after the other.
  A block that fails is taken back only if it raised ValueError or AssertionError; the exceptions of
  an invalid transaction are neither, so the transactions before it stay applied.
\<close>

section \<open>The transactions of a block on the ledger\<close>

fun ledger_run :: "ext \<Rightarrow> 'i ipset_ops \<Rightarrow> tx list \<Rightarrow> 'i ledger \<Rightarrow> 'i ledger res" where
  "ledger_run E I [] L = Inr L"
| "ledger_run E I (t # ts) L = bindE (tx_spec E I t L) (ledger_run E I ts)"

fun holders :: "ext \<Rightarrow> tx list \<Rightarrow> cached \<Rightarrow> cached res" where
  "holders E [] c = Inr c"
| "holders E (t # ts) c = bindE (tx_holder E t c) (holders E ts)"

text \<open>The budget of writes, and that every ledger on the way can be stored.\<close>

fun run_budget :: "ext \<Rightarrow> 'i ipset_ops \<Rightarrow> tx list \<Rightarrow> 'i ledger \<Rightarrow> nat" where
  "run_budget E I [] L = 0"
| "run_budget E I (t # ts) L =
     tx_budget E t L + (case tx_spec E I t L of Inl e \<Rightarrow> 0 | Inr L' \<Rightarrow> run_budget E I ts L')"

fun run_small :: "('b, 'i) senv \<Rightarrow> tx list \<Rightarrow> 'i ledger \<Rightarrow> bool" where
  "run_small S [] L \<longleftrightarrow> True"
| "run_small S (t # ts) L \<longleftrightarrow>
     (case tx_spec (s_ext S) (s_ips S) t L of Inl e \<Rightarrow> True
      | Inr L' \<Rightarrow> (\<forall>a. small_entry S (L' a)) \<and> run_small S ts L')"

definition senders_ok :: "ext \<Rightarrow> tx list \<Rightarrow> bool" where
  "senders_ok E ts \<longleftrightarrow> (\<forall>t \<in> set ts. \<forall>s. tx_sender_of E t = Inr s \<longrightarrow> length s = 20)"

context account_store begin

lemma apply_step:
  assumes "rep (n + tx_budget (s_ext S) t L) st L" "\<forall>s. tx_sender_of (s_ext S) t = Inr s \<longrightarrow> length s = 20"
    and "\<forall>L' a. tx_spec (s_ext S) (s_ips S) t L = Inr L' \<longrightarrow> small_entry S (L' a)"
  shows "case tx_spec (s_ext S) (s_ips S) t L of
      Inl e \<Rightarrow> \<exists>st' L'. apply_transaction S t c st = (Inl e, st') \<and> rep n st' L'
    | Inr L' \<Rightarrow> \<exists>c'. tx_holder (s_ext S) t c = Inr c' \<and>
        (\<exists>r st'. apply_transaction S t c st = (r, st') \<and>
          (case r of Inl e \<Rightarrow> e = AssertionError \<and> (\<exists>st1. rep n st1 L' \<and> broken st1 st')
           | Inr x \<Rightarrow> x = c' \<and> rep n st' L'))"
  by (rule apply_transaction_run) (use assms in auto)

lemma apply_transactions_run:
  assumes "rep (n + run_budget (s_ext S) (s_ips S) ts L) st L" "senders_ok (s_ext S) ts" "run_small S ts L"
  shows "\<exists>r st'. apply_transactions S ts c st = (r, st') \<and>
    (r = Inl AssertionError \<and> (\<exists>st1 L1. rep n st1 L1 \<and> broken st1 st') \<or>
     (case ledger_run (s_ext S) (s_ips S) ts L of
        Inl e \<Rightarrow> r = Inl e \<and> (\<exists>L'. rep n st' L')
      | Inr L' \<Rightarrow> \<exists>c'. holders (s_ext S) ts c = Inr c' \<and> r = Inr c' \<and> rep n st' L'))"
  using assms
proof (induction ts arbitrary: L st c)
  case Nil
  then show ?case by simp
next
  case (Cons t ts)
  let ?E = "s_ext S" and ?I = "s_ips S"
  let ?m = "case tx_spec ?E ?I t L of Inl e \<Rightarrow> 0 | Inr L' \<Rightarrow> run_budget ?E ?I ts L'"
  have rep: "rep ((n + ?m) + tx_budget ?E t L) st L"
    using Cons.prems(1) by (simp add: ac_simps)
  have len: "\<forall>s. tx_sender_of ?E t = Inr s \<longrightarrow> length s = 20"
    and rest: "senders_ok ?E ts" using Cons.prems(2) by (auto simp: senders_ok_def)
  have small: "\<forall>L' a. tx_spec ?E ?I t L = Inr L' \<longrightarrow> small_entry S (L' a)"
    using Cons.prems(3) by (cases "tx_spec ?E ?I t L") auto
  note one = apply_step [OF rep len small, of c]
  show ?case
  proof (cases "tx_spec ?E ?I t L")
    case (Inl e)
    with one obtain st' L' where "apply_transaction S t c st = (Inl e, st')" "rep (n + ?m) st' L'" by auto
    with Inl show ?thesis by (auto simp: bindM_def)
  next
    case (Inr L1)
    from one obtain c' r st1 where c': "tx_holder ?E t c = Inr c'" and st1: "apply_transaction S t c st = (r, st1)"
      and r: "case r of Inl e \<Rightarrow> e = AssertionError \<and> (\<exists>st2. rep (n + ?m) st2 L1 \<and> broken st2 st1)
        | Inr x \<Rightarrow> x = c' \<and> rep (n + ?m) st1 L1"
      unfolding Inr sum.case by blast
    show ?thesis
    proof (cases r)
      case (Inl e)
      with r st1 rep_drop show ?thesis by (fastforce simp: bindM_def)
    next
      case x: (Inr x)
      with r Inr have "rep (n + run_budget ?E ?I ts L1) st1 L1" "x = c'" by simp_all
      moreover have "holders ?E (t # ts) c = holders ?E ts c'"
        unfolding holders.simps c' by simp
      moreover have "apply_transactions S (t # ts) c st = apply_transactions S ts x st1"
        using st1 x by (simp add: bindM_def)
      ultimately show ?thesis
        using Cons.IH [OF _ rest, of L1 st1 c'] Cons.prems(3) Inr
        by (simp only: ledger_run.simps bindE_Inr run_small.simps sum.case simp_thms)
    qed
  qed
qed

end


section \<open>The block\<close>

abbreviation block_checks :: "ext \<Rightarrow> 'b state \<Rightarrow> block \<Rightarrow> bool res" where
  "block_checks E st b \<equiv> bindE (validate_header E st (b_header b)) (\<lambda>_. validate_transaction_tree E b)"

lemma checks_True: "validate_header E st h = Inr ok \<Longrightarrow> ok" "validate_transaction_tree E b = Inr ok \<Longrightarrow> ok"
  by (auto simp: validate_header_def validate_transaction_tree_def bindE_eq_Inr split: if_splits)

lemma chain_rep_headers [simp]: "chain_rep S n (st\<lparr>st_prev_headers := hs\<rparr>) L = chain_rep S n st L"
  by (simp add: chain_rep_def)

lemma undo_nothing: "undo_to (length (st_journal st)) st (st_journal st) = st"
  by (cases "st_journal st") simp_all

lemma revert_nothing: "revert S (snapshot st) st = (Inr (), st)"
  by (simp add: revert_def snapshot_def undo_nothing bindM_def set_aux_def get_aux_def)

text \<open>How a block runs once its header and its tree are accepted, and when they are not.\<close>

lemma apply_block_checked:
  assumes "block_checks (s_ext S) st b = Inr ok"
  shows "apply_block S R b p st =
    (case apply_transactions S (b_transactions b) [] st of
       (Inr cs, st1) \<Rightarrow> (Inr (fold (\<lambda>(key, a) p. set_value R key a p) cs p), snd (add_block_header (b_header b) st1))
     | (Inl e, st1) \<Rightarrow> if is_a e ValueError \<or> is_a e AssertionError
         then bindM (revert S (snapshot st)) (\<lambda>_. raise e) st1 else (Inl e, st1))"
proof -
  have h: "validate_header (s_ext S) st (b_header b) = Inr True" "validate_transaction_tree (s_ext S) b = Inr True"
    using assms checks_True by (fastforce simp: bindE_eq_Inr)+
  show ?thesis
    by (simp add: apply_block_def bindM_def catchM_def h add_block_header_def split: prod.split sum.split)
qed

lemma apply_block_unchecked:
  assumes "block_checks (s_ext S) st b = Inl e"
  shows "apply_block S R b p st = (Inl e, st)"
proof (cases "validate_header (s_ext S) st (b_header b)")
  case (Inl e')
  with assms have "e' = e" by simp
  with Inl show ?thesis
    by (simp add: apply_block_def bindM_def catchM_def revert_nothing)
next
  case (Inr ok)
  with assms checks_True(1) have "ok" "validate_transaction_tree (s_ext S) b = Inl e" by auto
  with Inr show ?thesis
    by (simp add: apply_block_def bindM_def catchM_def revert_nothing)
qed

lemma apply_transactions_append:
  "apply_transactions S (ts @ us) c = bindM (apply_transactions S ts c) (apply_transactions S us)"
proof (induction ts arbitrary: c)
  case (Cons t ts)
  then have "apply_transactions S (ts @ us) = (\<lambda>c. bindM (apply_transactions S ts c) (apply_transactions S us))"
    by (intro ext) simp
  then show ?case by (simp add: bindM_assoc)
qed simp




section \<open>A block that holds a transaction twice\<close>

lemma ephem_put [simp]: "so_put ephem_db k v s = (Inr (), s(k \<mapsto> v))"
  by (simp add: ephem_db_def ephem_put_def)

lemma encode_node_ephem: "\<exists>e s'. encode_node (ephem_trie E) node s = (Inr e, s')"
  by (simp add: encode_node_def Let_def bindM_def)

lemma index_keys: 
  assumes "ext_ok E" "rlp_ok E"
  shows "rlp_enc E (Str (be_ser E 0)) = [char_of (128::nat)]" "rlp_enc E (Str (be_ser E (Suc 0))) = [char_of (1::nat)]"
  using assms by (simp_all add: rlp_ok_def ext_okD be_bytes.simps [of 0] be_bytes.simps [of "Suc 0"] length_prefix_def)

lemma leaf_8: "new_leaf [8, 0] v = Inr (Lst [Str [char_of (32::nat), char_of (128::nat)], v])"
  by (simp add: new_leaf_def pack_nibbles_def with_terminator_def NIBBLE_TERMINATOR_def py_chr_def) 

lemma key_8: "node_nibbles (Lst [Str [char_of (32::nat), char_of (128::nat)], v]) = Inr [8, 0, 16]"
  by (simp add: node_nibbles_def node_nth_def py_nth_def unpack_to_nibbles_def NIBBLE_TERMINATOR_def)

lemma second_update:
  "\<exists>e s'. trie_update (Suc f) (ephem_trie E) (Lst [Str [char_of (32::nat), char_of (128::nat)], v]) [0, 1] w s = (Inr e, s')"
proof -
  have t: "get_node_type (Lst [Str [char_of (32::nat), char_of (128::nat)], v]) = Inr NODE_TYPE_LEAF"
    by (simp add: get_node_type_def key_8 NIBBLE_TERMINATOR_def)
  have k: "node_key (Lst [Str [char_of (32::nat), char_of (128::nat)], v]) = Inr [8, 0]"
    by (simp add: node_key_def key_8 without_terminator_def NIBBLE_TERMINATOR_def)
  have l: "\<exists>p. pack_nibbles (adapt_terminator [0] True) = Inr p" "\<exists>l. new_leaf [1] w' = Inr l" for w'
    by (simp_all add: adapt_terminator_def with_terminator_def pack_nibbles_def NIBBLE_TERMINATOR_def new_leaf_def py_chr_def)
  obtain p l' where p: "pack_nibbles (adapt_terminator [0] True) = Inr p" "new_leaf [1] (Str w) = Inr l'" using l by blast
  obtain e1 s1 where e1: "encode_node (ephem_trie E) (Lst [Str p, v]) s = (Inr e1, s1)" using encode_node_ephem by blast
  obtain e2 s2 where e2: "encode_node (ephem_trie E) l' s1 = (Inr e2, s2)" using encode_node_ephem by blast
  have "split_kv_node (ephem_trie E) False [8, 0] v [0, 1] w s = (Inr (node_set (node_set blank_branch 8 e1) 0 e2), s2)"
    using p e1 e2 by (simp add: split_kv_node_def bindM_run_Inr)
  then show ?thesis
    using t k by (simp add: update_kv_node_def bindM_run_Inr node_nth_def py_nth_def Let_def numeral_2_eq_2)
qed

lemma two_transactions_root:
  assumes "ext_ok E" "rlp_ok E"
  shows "\<exists>r. mk_transaction_sha E [x, y] = Inr r"
proof -
  let ?t0 = "blank_trie E Map.empty" let ?T = "ephem_trie E"
  let ?l = "Lst [Str [char_of (32::nat), char_of (128::nat)], Str (rlp_enc E x)]"
  have b: "get_node_type (Str []) = Inr NODE_TYPE_BLANK" by (simp add: get_node_type_def)
  have "\<exists>t1. update ?T [char_of (128::nat)] (rlp_enc E x) ?t0 = (Inr (), t1) \<and> root_node t1 = ?l"
    by (simp add: update_def bindM_def BLANK_NODE_def b leaf_8 in_tdb_def zoomM_def update_root_hash_def Let_def)
  then obtain t1 where t1: "update ?T [char_of (128::nat)] (rlp_enc E x) ?t0 = (Inr (), t1)" "root_node t1 = ?l" by blast
  obtain e s where "trie_update (Suc (Suc (Suc 0))) ?T ?l [0, 1] (rlp_enc E y) (tdb t1) = (Inr e, s)"
    using second_update by blast
  with t1(2) have "\<exists>t2. update ?T [char_of (1::nat)] (rlp_enc E y) t1 = (Inr (), t2)"
    by (simp add: update_def bindM_def in_tdb_def zoomM_def update_root_hash_def Let_def del: trie_update.simps)
  with t1(1) show ?thesis
    by (auto simp: mk_transaction_sha_def index_keys [OF assms] bindM_run_Inr)
qed

lemma one_transaction_root:
  assumes "ext_ok E" "rlp_ok E"
  shows "\<exists>r. mk_transaction_sha E [x] = Inr r"
proof -
  have "get_node_type (Str []) = Inr NODE_TYPE_BLANK" by (simp add: get_node_type_def)
  then show ?thesis
    by (simp add: mk_transaction_sha_def index_keys [OF assms] update_def bindM_def BLANK_NODE_def leaf_8 in_tdb_def
      zoomM_def update_root_hash_def Let_def)
qed

text \<open>A block with the given transactions on top of the block of number 1, and the state before it.\<close>

definition block_of :: "tx list \<Rightarrow> block" where
  "block_of ts = block_init (sample_header\<lparr>h_prevhash := header_hash ext_ref sample_header, h_timestamp := 6,
     h_tx_root := (case mk_transaction_sha ext_ref (map (tx_item ext_ref) ts) of Inr r \<Rightarrow> r | Inl e \<Rightarrow> []),
     h_number := 2\<rparr>) ts 27 1 1"

lemma block_of_simps [simp]: "b_transactions (block_of ts) = ts"
  by (simp add: block_of_def block_init_def)

abbreviation block_state :: "level state" where
  "block_state \<equiv> owner_st\<lparr>st_prev_headers := [RealHeader sample_header]\<rparr>"

lemma block_of_checks:
  assumes "\<exists>r. mk_transaction_sha ext_ref (map (tx_item ext_ref) ts) = Inr r"
  shows "block_checks ext_ref block_state (block_of ts) = Inr True"
proof -
  have "validate_transaction_tree ext_ref (block_of ts) = Inr True"
    using assms by (auto simp: validate_transaction_tree_def block_of_def block_init_def)
  moreover have "validate_header ext_ref block_state (b_header (block_of ts)) = Inr True"
    by (simp only: validate_header_def block_of_def block_init_def) (simp add: py_nth_def)
  ultimately show ?thesis by simp
qed

abbreviation move_tx :: tx where
  "move_tx \<equiv> prefix_tx 0 receiver"

abbreviation moved_ledger :: "addr_set ledger" where
  "moved_ledger \<equiv> sample_ledger (receiver := (0, snd owner_entry),
     owner := (5, remove_own_ips ipset_ref ten_net (snd owner_entry)))"

lemma move_run:
  "ledger_run ext_ref ipset_ref [move_tx] sample_ledger = Inr moved_ledger"
  "run_budget ext_ref ipset_ref [move_tx] sample_ledger = 1600"
  "run_small sample_env [move_tx] sample_ledger" "senders_ok ext_ref [move_tx]"
proof -
  have "\<forall>a. small_entry sample_env (moved_ledger a)"
    using sample_allocate_small [OF sample_allocate] by blast
  with sample_allocate show "run_small sample_env [move_tx] sample_ledger"
    by (simp del: fun_upd_apply)
qed (use sample_allocate sample_budget [of 0 receiver] in \<open>simp_all add: senders_ok_def\<close>)

lemma move_rep: "n < 2 ^ 30 \<Longrightarrow> chain_rep sample_env (n + run_budget ext_ref ipset_ref [move_tx] sample_ledger) block_state sample_ledger"
  using sample_rep [of n 0 receiver] unfolding move_run(2) sample_budget by simp



end
