(* ===== verification/Addresses.thy ===== *)
theory Addresses
  imports Snapshots Samples
begin

text \<open>
  The list of all addresses of the chain. The account trie is keyed by hashes; \<open>SecureTrie.update\<close>
  stores every address under its hash, so that \<open>SecureTrie.to_dict\<close> finds it again. This invariant of
  the database (\<open>preimages\<close>) is what the list needs.
\<close>

definition preimages :: "ext \<Rightarrow> (string \<rightharpoonup> string) \<Rightarrow> contents \<Rightarrow> bool" where
  "preimages E d m \<longleftrightarrow> (\<forall>k. m k \<noteq> [] \<longrightarrow> (\<exists>a. length a = 20 \<and> k = sha3 E a \<and> d k = Some a))"

lemma preimages_blank [simp]: "preimages E d (\<lambda>_. [])"
  by (simp add: preimages_def)

lemma preimages_mono: "preimages E d m \<Longrightarrow> d \<subseteq>\<^sub>m d' \<Longrightarrow> preimages E d' m"
  by (fastforce simp: preimages_def map_le_def dom_def)

text \<open>An update that goes through keeps the invariant.\<close>

lemma secure_update_preimages:
  assumes E: "ext_ok E" "rlp_ok E" and tr: "represents E chain_view tr m" "preimages E (chain_view (tdb tr)) m"
    and inv: "refcount_inv level_view (n + 197) (tdb tr)" and v: "v \<noteq> []" "length v < 2 ^ 50" and a: "length a = 20"
    and run: "secure_update (chain_trie E) a v tr = (Inr u, tr')"
  shows "preimages E (chain_view (tdb tr')) (m(sha3 E a := v))"
proof -
  let ?h = "sha3 E a"
  have len: "length ?h = 32" using E(1) by (rule length_sha3)
  have le: "chain_view (tdb tr) \<subseteq>\<^sub>m chain_view (tdb tr')"
    using secure_update_run [OF E tr(1) inv v, of a] run by auto
  have "ext_ok E \<and> refcount_inv level_view (Suc (n + 196)) (tdb tr)"
    using E(1) refcount_inv_le [OF inv, of "Suc (n + 196)"] by simp
  from lvl.rc.put_spec [OF this len, of a]
  obtain s1 where s1: "refcount_put E level_db ?h a (tdb tr) = (Inr (), s1)" "chain_view s1 ?h = Some a"
      "refcount_inv level_view (n + 196) s1" "chain_view (tdb tr) \<subseteq>\<^sub>m chain_view s1"
  proof -
    assume *: "\<And>s1. refcount_put E level_db ?h a (tdb tr) = (Inr (), s1) \<Longrightarrow> chain_view s1 ?h = Some a \<Longrightarrow>
      refcount_inv level_view (n + 196) s1 \<Longrightarrow> chain_view (tdb tr) \<subseteq>\<^sub>m chain_view s1 \<Longrightarrow> thesis"
    from lvl.rc.put_spec [OF \<open>ext_ok E \<and> refcount_inv level_view (Suc (n + 196)) (tdb tr)\<close> len, of a]
    obtain s1 where "refcount_inv level_view (n + 196) s1"
        "if chain_view (tdb tr) ?h = None \<or> chain_view (tdb tr) ?h = Some a
         then refcount_put E level_db ?h a (tdb tr) = (Inr (), s1) \<and> chain_view s1 = (chain_view (tdb tr))(?h \<mapsto> a)
         else refcount_put E level_db ?h a (tdb tr) = (Inl AssertionError, s1) \<and> chain_view s1 = chain_view (tdb tr)"
      by blast
    with run show thesis
      by (intro * [of s1]) (auto simp: secure_update_def Let_def bindM_def in_tdb_def zoomM_def map_le_def dom_def
          split: if_splits)
  qed
  have rep1: "represents E chain_view (tr\<lparr>tdb := s1\<rparr>) m"
    using tr(1) s1(4) by (rule represents_mono)
  have "update (chain_trie E) ?h v (tr\<lparr>tdb := s1\<rparr>) = (Inr u, tr')"
    using run s1(1) by (simp add: secure_update_def Let_def bindM_def in_tdb_def zoomM_def)
  moreover have inv1: "ext_ok E \<and> refcount_inv level_view (n + (6 * length ?h + 4)) (tdb (tr\<lparr>tdb := s1\<rparr>))"
    using E(1) s1(3) len by simp
  ultimately have "chain_view s1 \<subseteq>\<^sub>m chain_view (tdb tr')"
    using lvl.rc.update_run [OF E rep1 inv1 _ v] len by auto
  with s1(2) have "chain_view (tdb tr') ?h = Some a"
    by (auto simp: map_le_def dom_def)
  with preimages_mono [OF tr(2) le] a show ?thesis by (simp add: preimages_def)
qed

context content_store begin

lemma secure_dict_run:
  assumes "\<And>k v. (k, v) \<in> set kvs \<Longrightarrow> length k = 32 \<and> view (tdb tr) k = Some (pre k)"
    and "distinct (map fst res @ map (pre \<circ> fst) kvs)" and "inv n (tdb tr)"
  shows "\<exists>s'. secure_dict (trie_methods E get put) kvs res tr =
      (Inr (res @ map (\<lambda>(k, v). (pre k, v)) kvs), tr\<lparr>tdb := s'\<rparr>) \<and> view s' = view (tdb tr) \<and> inv n s'"
  using assms
proof (induction kvs arbitrary: res tr)
  case Nil
  then show ?case by (intro exI [of _ "tdb tr"]) simp
next
  case (Cons e kvs)
  obtain k v where e: "e = (k, v)" by fastforce
  with Cons.prems(1) have k: "length k = 32" "view (tdb tr) k = Some (pre k)" by auto
  obtain s1 where s1: "get k (tdb tr) = (Inr (pre k), s1)" "view s1 = view (tdb tr)" "inv n s1"
    using get_spec [OF Cons.prems(3) k(1)] k(2) by auto
  have "AList.update (pre k) v res = res @ [(pre k, v)]"
    using Cons.prems(2) e by (intro update_fresh) auto
  moreover have "\<exists>s'. secure_dict (trie_methods E get put) kvs (res @ [(pre k, v)]) (tr\<lparr>tdb := s1\<rparr>) =
      (Inr ((res @ [(pre k, v)]) @ map (\<lambda>(k, v). (pre k, v)) kvs), tr\<lparr>tdb := s1, tdb := s'\<rparr>) \<and>
      view s' = view (tdb (tr\<lparr>tdb := s1\<rparr>)) \<and> inv n s'"
    using Cons.prems e s1 by (intro Cons.IH) auto
  ultimately show ?case
    using s1 by (auto simp: e bindM_def in_tdb_def zoomM_def)
qed

lemma secure_to_dict_run:
  assumes E: "ext_ok E" "rlp_ok E" and tr: "represents E view tr m" "preimages E (view (tdb tr)) m"
    and inv: "inv n (tdb tr)" and limit: "64 < limit"
  shows "\<exists>d s'. secure_to_dict limit (trie_methods E get put) tr = (Inr d, tr\<lparr>tdb := s'\<rparr>) \<and>
    distinct (map fst d) \<and> (\<forall>a v. (a, v) \<in> set d \<longleftrightarrow> length a = 20 \<and>
      view (tdb tr) (sha3 E a) = Some a \<and> m (sha3 E a) \<noteq> [] \<and> v = Str (m (sha3 E a))) \<and>
    inv n s' \<and> view (tdb tr) \<subseteq>\<^sub>m view s'"
proof -
  define pre where "pre = (\<lambda>k. the (view (tdb tr) k))"
  have key: "length (pre k) = 20 \<and> k = sha3 E (pre k) \<and> view (tdb tr) k = Some (pre k)" if "m k \<noteq> []" for k
    using tr(2) that by (fastforce simp: preimages_def pre_def)
  have len: "length k \<le> 32" if "m k \<noteq> []" for k
    using key [OF that] length_sha3 [OF E(1)] by (metis order_refl)
  obtain kvs s1 where kvs: "distinct (map fst kvs)" "\<And>k v. (k, v) \<in> set kvs \<longleftrightarrow> m k = v \<and> v \<noteq> []"
      "to_dict limit (trie_methods E get put) tr = (Inr (map (\<lambda>(k, v). (k, Str v)) kvs), tr\<lparr>tdb := s1\<rparr>)"
      "inv n s1" "view (tdb tr) \<subseteq>\<^sub>m view s1"
    using walk_object [OF E tr(1) inv len, of limit] limit by auto
  let ?d = "map (\<lambda>(k, v). (k, Str v)) kvs"
  have pairs: "m k \<noteq> [] \<and> v = Str (m k)" if "(k, v) \<in> set ?d" for k v
    using that kvs(2) by force
  have inj: "inj_on pre (set (map fst kvs))"
  proof (rule inj_onI)
    fix k k' assume k: "k \<in> set (map fst kvs)" "k' \<in> set (map fst kvs)" and eq: "pre k = pre k'"
    from k kvs(2) have "m k \<noteq> []" "m k' \<noteq> []" by auto
    then show "k = k'" using key eq by metis
  qed
  have dist: "distinct (map fst [] @ map (pre \<circ> fst) ?d)"
  proof -
    have "map (pre \<circ> fst) ?d = map pre (map fst kvs)" by (induction kvs) auto
    with kvs(1) inj show ?thesis by (simp add: distinct_map del: map_map)
  qed
  have start: "length k = 32 \<and> view (tdb (tr\<lparr>tdb := s1\<rparr>)) k = Some (pre k)" if "(k, v) \<in> set ?d" for k v
  proof -
    have k: "k = sha3 E (pre k)" "view (tdb tr) k = Some (pre k)" using pairs [OF that] key [of k] by auto
    then have "length k = 32" using length_sha3 [OF E(1)] by metis
    with k(2) kvs(5) show ?thesis by (auto simp: map_le_def dom_def)
  qed
  have inv1: "inv n (tdb (tr\<lparr>tdb := s1\<rparr>))" using kvs(4) by simp
  have "\<exists>s'. secure_dict (trie_methods E get put) ?d [] (tr\<lparr>tdb := s1\<rparr>) =
      (Inr ([] @ map (\<lambda>(k, v). (pre k, v)) ?d), tr\<lparr>tdb := s1, tdb := s'\<rparr>) \<and>
      view s' = view (tdb (tr\<lparr>tdb := s1\<rparr>)) \<and> inv n s'"
    by (rule secure_dict_run [OF _ dist inv1]) (rule start)
  then obtain s2 where s2: "secure_dict (trie_methods E get put) ?d [] (tr\<lparr>tdb := s1\<rparr>) =
      (Inr (map (\<lambda>(k, v). (pre k, v)) ?d), tr\<lparr>tdb := s2\<rparr>)" "view s2 = view s1" "inv n s2"
    by (auto simp del: map_map)
  have fst: "map fst (map (\<lambda>(k, v). (pre k, v)) ?d) = map (pre \<circ> fst) ?d" by auto
  have mem: "(a, v) \<in> set (map (\<lambda>(k, v). (pre k, v)) ?d) \<longleftrightarrow> length a = 20 \<and>
      view (tdb tr) (sha3 E a) = Some a \<and> m (sha3 E a) \<noteq> [] \<and> v = Str (m (sha3 E a))" for a v
  proof
    assume "(a, v) \<in> set (map (\<lambda>(k, v). (pre k, v)) ?d)"
    then obtain k where "(k, v) \<in> set ?d" "a = pre k" unfolding set_map in_retagged by blast
    with pairs [of k v] key [of k] show "length a = 20 \<and>
      view (tdb tr) (sha3 E a) = Some a \<and> m (sha3 E a) \<noteq> [] \<and> v = Str (m (sha3 E a))" by auto
  next
    assume a: "length a = 20 \<and> view (tdb tr) (sha3 E a) = Some a \<and> m (sha3 E a) \<noteq> [] \<and> v = Str (m (sha3 E a))"
    then have "(sha3 E a, v) \<in> set ?d" using kvs(2) [of "sha3 E a" "m (sha3 E a)"] by force
    moreover have "pre (sha3 E a) = a" using a by (simp add: pre_def)
    ultimately show "(a, v) \<in> set (map (\<lambda>(k, v). (pre k, v)) ?d)" by force
  qed
  have "secure_to_dict limit (trie_methods E get put) tr = (Inr (map (\<lambda>(k, v). (pre k, v)) ?d), tr\<lparr>tdb := s2\<rparr>)"
    using kvs(3) s2(1) by (simp add: secure_to_dict_def bindM_run_Inr)
  moreover have "distinct (map fst (map (\<lambda>(k, v). (pre k, v)) ?d))"
    using dist unfolding fst by simp
  moreover have "view (tdb tr) \<subseteq>\<^sub>m view s2" using kvs(5) s2(2) by simp
  ultimately show ?thesis using mem s2(3) by blast
qed

end

section \<open>The property\<close>

lemma list_addresses_run:
  assumes "env_ok S" "s_db S = level_db" "represents (s_ext S) chain_view (st_trie st) m"
    and "preimages (s_ext S) (chain_view (tdb (st_trie st))) m"
    and "refcount_inv level_view n (tdb (st_trie st))" "64 < limit"
  shows "\<exists>addrs s'. list_all_addresses limit S st = (Inr addrs, st\<lparr>st_trie := (st_trie st)\<lparr>tdb := s'\<rparr>\<rparr>) \<and>
    distinct addrs \<and> set addrs = {a. length a = 20 \<and> m (sha3 (s_ext S) a) \<noteq> []} \<and>
    represents (s_ext S) chain_view ((st_trie st)\<lparr>tdb := s'\<rparr>) m"
proof -
  let ?E = "s_ext S" let ?tr = "st_trie st"
  note E = env_okD(1,2) [OF assms(1)]
  obtain d s' where d: "secure_to_dict limit (chain_trie ?E) ?tr = (Inr d, ?tr\<lparr>tdb := s'\<rparr>)" "distinct (map fst d)"
      "\<And>a v. (a, v) \<in> set d \<longleftrightarrow> length a = 20 \<and> chain_view (tdb ?tr) (sha3 ?E a) = Some a \<and>
        m (sha3 ?E a) \<noteq> [] \<and> v = Str (m (sha3 ?E a))"
      "chain_view (tdb ?tr) \<subseteq>\<^sub>m chain_view s'"
    using lvl.rc.secure_to_dict_run [OF E assms(3,4) _ assms(6), of ?E n] E(1) assms(5) by blast
  have pre: "chain_view (tdb ?tr) (sha3 ?E a) = Some a" if a: "length a = 20" "m (sha3 ?E a) \<noteq> []" for a
  proof -
    obtain b where "length b = 20" "sha3 ?E a = sha3 ?E b" "chain_view (tdb ?tr) (sha3 ?E a) = Some b"
      using assms(4) a(2) unfolding preimages_def by blast
    with env_okD(4) [OF assms(1) a(1)] show ?thesis by metis
  qed
  have "a \<in> set (map fst d) \<longleftrightarrow> length a = 20 \<and> m (sha3 ?E a) \<noteq> []" for a
  proof -
    have "a \<in> set (map fst d) \<longleftrightarrow> (\<exists>v. (a, v) \<in> set d)" by (induction d) auto
    also have "\<dots> \<longleftrightarrow> length a = 20 \<and> m (sha3 ?E a) \<noteq> []"
      unfolding d(3) using pre [of a] by blast
    finally show ?thesis .
  qed
  then have "set (map fst d) = {a. length a = 20 \<and> m (sha3 ?E a) \<noteq> []}" by blast
  moreover have "list_all_addresses limit S st = (Inr (map fst d), st\<lparr>st_trie := ?tr\<lparr>tdb := s'\<rparr>\<rparr>)"
    using d(1) assms(2) by (simp add: list_all_addresses_def bindM_def in_trie_def zoomM_def)
  moreover have "represents ?E chain_view (?tr\<lparr>tdb := s'\<rparr>) m"
    using assms(3) d(4) by (rule represents_mono)
  ultimately show ?thesis using d(2) by blast
qed

text \<open>On a chain whose database keeps the addresses under their hashes, \<open>list_all_addresses\<close>
  returns every address with an account in the trie exactly once, and nothing else; the state keeps
  representing the same accounts.\<close>

theorem all_addresses_listed:
  assumes "env_ok S" "s_db S = level_db" "represents (s_ext S) chain_view (st_trie st) m"
    and "preimages (s_ext S) (chain_view (tdb (st_trie st))) m"
    and "refcount_inv level_view n (tdb (st_trie st))" "64 < limit"
  shows "\<exists>addrs s'. list_all_addresses limit S st = (Inr addrs, st\<lparr>st_trie := (st_trie st)\<lparr>tdb := s'\<rparr>\<rparr>) \<and>
    distinct addrs \<and> set addrs = {a. length a = 20 \<and> m (sha3 (s_ext S) a) \<noteq> []} \<and>
    represents (s_ext S) chain_view ((st_trie st)\<lparr>tdb := s'\<rparr>) m"
  using assms by (rule list_addresses_run)

text \<open>A chain with the one account \<open>owner\<close>: its leaf is the whole trie.\<close>

definition leaf_of :: "string \<Rightarrow> string \<Rightarrow> ptree" where
  "leaf_of a v = PLeaf (nibs (sha3 ext_ref a)) v"

definition leaf_db :: "string \<Rightarrow> string \<Rightarrow> level" where
  "leaf_db a v = \<lparr>uncommitted = Map.empty,
     disk = [sha3 ext_ref a \<mapsto> counter 1 @ a,
       root_of ext_ref (leaf_of a v) \<mapsto> counter 1 @ encode_optimized ext_ref (nodeof ext_ref (leaf_of a v))]\<rparr>"

definition leaf_state :: "string \<Rightarrow> string \<Rightarrow> level state" where
  "leaf_state a v = (owner_state [] a owner_entry)\<lparr>st_cache := [],
     st_trie := \<lparr>tdb = leaf_db a v, root_node = nodeof ext_ref (leaf_of a v), root_hash = root_of ext_ref (leaf_of a v)\<rparr>\<rparr>"

lemma leaf_tree: "tree_for (leaf_of a ''x'') ((\<lambda>_. [])(sha3 ext_ref a := ''x''))"
  using tree_for_pupd [OF tree_for_blank, of "sha3 ext_ref a" "''x''"] length_sha3 [OF ext_ref_ok, of a]
  by (simp add: leaf_of_def)

lemma leaf_length: "length (encode_optimized ext_ref (nodeof ext_ref (leaf_of a ''x''))) = 36"
proof -
  have "length (hp (nibs (sha3 ext_ref a)) True) = 33"
    using nibs_hp [OF nibs_ok_nibs, of "sha3 ext_ref a" True] length_nibs [of "hp (nibs (sha3 ext_ref a)) True"]
      length_sha3 [OF ext_ref_ok, of a] by (simp add: Let_def)
  then show ?thesis by (simp add: leaf_of_def length_prefix_def Let_def)
qed

lemma leaf_root_other: "length a = 20 \<Longrightarrow> root_of ext_ref (leaf_of a ''x'') \<noteq> sha3 ext_ref a"
  using leaf_length [of a] by (simp add: root_of_def sha3_def ext_ref_def hash_ref_def char_of_eq_iff)

theorem all_addresses_listed_witness:
  "\<exists>addrs st'. list_all_addresses 65 (senv_for []) (leaf_state owner ''x'') = (Inr addrs, st') \<and> set addrs = {owner}"
proof -
  let ?st = "leaf_state owner ''x''" let ?m = "(\<lambda>_. [])(sha3 ext_ref owner := ''x'')"
  have len: "length (sha3 ext_ref owner) = 32" using ext_ref_ok by (rule length_sha3)
  have one: "be_bytes (Suc 0) = [char_of (Suc 0)]" by (subst be_bytes.simps) simp
  have c: "length (counter (Suc 0)) = 4" by (rule length_counter) simp
  have view: "chain_view (leaf_db owner ''x'') (root_of ext_ref (leaf_of owner ''x'')) =
      Some (encode_optimized ext_ref (nodeof ext_ref (leaf_of owner ''x'')))"
    "chain_view (leaf_db owner ''x'') (sha3 ext_ref owner) = Some owner"
    using leaf_root_other [of owner] len length_sha3 [OF ext_ref_ok]
    by (simp_all add: refcount_view_def level_view_def leaf_db_def c root_of_def del: encode_optimized.simps)
  have "represents ext_ref chain_view (st_trie ?st) ?m"
    using leaf_tree [of owner] view(1)
    by (auto simp: represents_def leaf_state_def in_store_def leaf_of_def intro!: exI [of _ "leaf_of owner ''x''"])
  moreover have "preimages ext_ref (chain_view (tdb (st_trie ?st))) ?m"
    using view(2) by (auto simp: preimages_def leaf_state_def)
  moreover have "refcount_inv level_view 0 (tdb (st_trie ?st))"
    by (simp add: refcount_inv_def leaf_state_def leaf_db_def level_view_def c del: encode_optimized.simps)
  ultimately obtain addrs s' where run: "list_all_addresses 65 (senv_for []) ?st =
      (Inr addrs, ?st\<lparr>st_trie := (st_trie ?st)\<lparr>tdb := s'\<rparr>\<rparr>)"
      "set addrs = {a. length a = 20 \<and> ?m (sha3 ext_ref a) \<noteq> []}"
    using all_addresses_listed [of "senv_for []" ?st ?m 0 65] senv_for_ok by auto
  have "sha3 ext_ref a = sha3 ext_ref owner \<longleftrightarrow> a = owner" if "length a = 20" for a
    using env_okD(4) [OF senv_for_ok [of "[]"] that, of owner] by simp
  then have "{a. length a = 20 \<and> ?m (sha3 ext_ref a) \<noteq> []} = {owner}" by auto
  with run show ?thesis by blast
qed

end
