(* ===== verification/ServiceCorrect.thy ===== *)
theory ServiceCorrect
  imports ChainService BlockRefine Addresses "HOL-Library.Sublist"
begin

text \<open>
  What \<open>ChainService\<close> guarantees: the block it creates passes the checks of the next block of the
  chain, and the group it draws for the generation of keys consists of different addresses.
\<close>

section \<open>Taking a snapshot leaves headers and root alone\<close>

abbreviation head_view :: "'b state \<Rightarrow> past_header list \<times> string" where
  "head_view st \<equiv> (st_prev_headers st, root_hash (st_trie st))"

lemma keeps_root [keeps_intros]: "keeps root_hash (in_tdb m)"
  by (simp add: keeps_def in_tdb_def zoomM_def split: prod.split)

lemma keeps_secure_dict [keeps_intros]: "keeps root_hash (secure_dict T hs d)"
  by (induction T hs d rule: secure_dict.induct) (auto intro!: keeps_intros)

lemma keeps_walk [keeps_intros]: "keeps root_hash (secure_to_dict limit T)" "keeps root_hash (secure_get T k)"
  unfolding secure_to_dict_def to_dict_def secure_get_def Trie.get_def by (intro keeps_intros)+

lemma keeps_view_trie [keeps_intros]: "keeps root_hash m \<Longrightarrow> keeps head_view (in_trie m)"
  by (auto simp: keeps_def in_trie_def zoomM_def split: prod.split) (metis snd_conv)

lemma keeps_view_account [keeps_intros]: "keeps head_view (get_and_cache_account S a)"
  unfolding get_and_cache_account_def in_db_def by (intro keeps_intros keeps_modify) simp

lemma keeps_snapshot: "keeps head_view (to_snapshot limit S root_only no_prevblocks)"
  unfolding to_snapshot_def state_to_dict_def by (intro keeps_intros)

lemma on_state_run: "on_state m s = (case m (ch_state (sv_chain s)) of (r, st) \<Rightarrow>
    (r, s\<lparr>sv_chain := (sv_chain s)\<lparr>ch_state := st\<rparr>\<rparr>))"
  by (simp add: on_state_def on_chain_def in_state_def zoomM_def split: prod.split)

lemma snapshot_view:
  assumes "on_state (to_snapshot limit S a b) s = (r, s')"
  shows "head_view (ch_state (sv_chain s')) = head_view (ch_state (sv_chain s)) \<and> sv_pool s' = sv_pool s"
  using assms keepsD [OF keeps_snapshot] by (fastforce simp: on_state_run split: prod.splits)

section \<open>Filling the block\<close>

lemma fill_block_run:
  assumes "fill_block S n ts txs s = (Inr txs', s')"
  shows "\<exists>us. txs' = txs @ us \<and> subseq us ts \<and> (\<forall>t \<in> set us. tx_afi t = block_afi n)"
  using assms
proof (induction ts arbitrary: txs s)
  case Nil
  then show ?case by simp
next
  case (Cons t ts)
  show ?case
  proof (cases "tx_afi t = block_afi n")
    case False
    with Cons.prems have "fill_block S n ts txs s = (Inr txs', s')" by simp
    from Cons.IH [OF this] show ?thesis by auto
  next
    case True
    with Cons.prems obtain r :: "cached option" and s1 where "fill_block S n ts (if r = None then txs else txs @ [t]) s1 = (Inr txs', s')"
      by (auto simp: bindM_eq_Inr)
    from Cons.IH [OF this] obtain us where us: "txs' = (if r = None then txs else txs @ [t]) @ us"
      "subseq us ts" "\<forall>t \<in> set us. tx_afi t = block_afi n" by blast
    then show ?thesis
      using True by (intro exI [of _ "if r = None then us else t # us"]) auto
  qed
qed

text \<open>The two halves of the loop over the transactions.\<close>

lemma tries_loop_run:
  assumes "tries_loop S (enumerate i ts) d (t, st) = (Inr d', (t', st'))"
  shows "forM (enumerate i (map (tx_item (s_ext S)) ts)) (\<lambda>(i, receipt).
      update (ephem_trie (s_ext S)) (rlp_enc (s_ext S) (Str (be_ser (s_ext S) i))) (rlp_enc (s_ext S) receipt)) t = (Inr (), t') \<and>
    apply_transactions S ts d st = (Inr d', st')"
  using assms
  by (induction ts arbitrary: i d t st) (fastforce simp: bindM_eq_Inr zoomM_eq_Inr)+

lemma create_tries_run:
  assumes "create_tries V b s = (Inr b', s')"
  shows "\<exists>st temp cs temp' root. head_view st = head_view (ch_state (sv_chain s)) \<and> clone (ve_S V) st = Inr temp \<and>
    apply_transactions (clone_env (ve_S V)) (b_transactions b) [] temp = (Inr cs, temp') \<and>
    mk_transaction_sha (ve_E V) (map (tx_item (ve_E V)) (b_transactions b)) = Inr root \<and>
    b' = b\<lparr>b_header := (b_header b)\<lparr>h_tx_root := root, h_state_root := root_hash (st_trie temp')\<rparr>\<rparr> \<and>
    sv_pool s' = sv_pool s \<and> head_view (ch_state (sv_chain s')) = head_view (ch_state (sv_chain s))"
proof -
  obtain snap s1 where s1: "on_state (to_snapshot (ce_limit (ve_C V)) (ve_S V) False False) s = (Inr snap, s1)"
    and rest: "bindM (gets (\<lambda>s. clone (ve_S V) (ch_state (sv_chain s)))) (\<lambda>temp.
      bindM (liftE temp) (\<lambda>temp_state.
      case tries_loop (clone_env (ve_S V)) (enumerate 0 (b_transactions b)) [] (blank_trie (ve_E V) Map.empty, temp_state) of
        (Inl e, _) \<Rightarrow> raise e
      | (Inr _, (t, temp_state')) \<Rightarrow>
          ret (b\<lparr>b_header := (b_header b)\<lparr>h_tx_root := root_hash t, h_state_root := root_hash (st_trie temp_state')\<rparr>\<rparr>))) s1 =
      (Inr b', s')"
    using assms by (auto simp: create_tries_def bindM_eq_Inr)
  obtain temp where temp: "clone (ve_S V) (ch_state (sv_chain s1)) = Inr temp"
    using rest by (auto simp: bindM_eq_Inr)
  obtain cs t temp' where loop: "tries_loop (clone_env (ve_S V)) (enumerate 0 (b_transactions b)) []
      (blank_trie (ve_E V) Map.empty, temp) = (Inr cs, (t, temp'))"
    and b': "b' = b\<lparr>b_header := (b_header b)\<lparr>h_tx_root := root_hash t, h_state_root := root_hash (st_trie temp')\<rparr>\<rparr>"
    and s': "s' = s1"
    using rest temp by (auto simp: bindM_run_Inr [of "gets _"] split: prod.splits sum.splits)
  have E: "s_ext (clone_env (ve_S V)) = ve_E V" by (simp add: clone_env_def)
  have "mk_transaction_sha (ve_E V) (map (tx_item (ve_E V)) (b_transactions b)) = Inr (root_hash t)"
    using tries_loop_run [OF loop] by (simp add: mk_transaction_sha_def E)
  with snapshot_view [OF s1] temp tries_loop_run [OF loop] b' s' show ?thesis by fastforce
qed


section \<open>The block that is created\<close>

text \<open>C15. A block that \<open>create_block\<close> returns fits on the chain: its parent is the head and its number
  the next one; its transactions are taken from the pool in the order of the pool and have the address
  family of its number, so \<open>add_block\<close> of the service does not refuse it; its header and its
  transaction tree pass the checks of \<open>validate_block\<close>, provided the clock is after the head; its state
  root is that of a copy of the state of the chain after its transactions; it has a group key when one
  is due; and it is not signed yet. The pool, the headers and the root of the chain are unchanged.\<close>

theorem created_block_fits:
  assumes run: "create_block limit V now coinbase random_no group_key group_sig count sv = (Inr b, sv')"
    and head: "st_prev_headers (ch_state (sv_chain sv)) = parent # hs" "ch_head_hash (sv_chain sv) = past_hash (ve_E V) parent"
      "past_number parent = st_block_number (ch_state (sv_chain sv))" "past_timestamp parent < now" "now < 2 ^ 256"
  shows "h_prevhash (b_header b) = ch_head_hash (sv_chain sv) \<and> h_number (b_header b) = Suc (past_number parent) \<and>
    block_checks (ve_E V) (ch_state (sv_chain sv)) b = Inr True \<and>
    subseq (b_transactions b) (sv_pool sv) \<and>
    (\<forall>t \<in> set (b_transactions b). tx_afi t = block_afi (h_number (b_header b))) \<and>
    (\<exists>st temp cs temp'. head_view st = head_view (ch_state (sv_chain sv)) \<and> clone (ve_S V) st = Inr temp \<and>
       apply_transactions (clone_env (ve_S V)) (b_transactions b) [] temp = (Inr cs, temp') \<and>
       h_state_root (b_header b) = root_hash (st_trie temp')) \<and>
    block_group_key (DKG_RENEWAL_INTERVAL V) (h_number (b_header b)) group_key = Inr (h_group_pubkey (b_header b)) \<and>
    b_v b = 0 \<and> b_r b = 0 \<and> b_s b = 0 \<and> b_signer b = None \<and>
    sv_pool sv' = sv_pool sv \<and> head_view (ch_state (sv_chain sv')) = head_view (ch_state (sv_chain sv))"
proof -
  define s1 where "s1 = sv\<lparr>sv_chain := (sv_chain sv)\<lparr>ch_localtime := now\<rparr>\<rparr>"
  have time: "on_chain (process_time_queue limit (ve_C V) now None) sv = (Inr (), s1)"
    by (simp add: on_chain_def zoomM_def process_time_queue_def bindM_def s1_def)
  let ?n = "Suc (st_block_number (ch_state (sv_chain s1)))"
  have s1: "ch_state (sv_chain s1) = ch_state (sv_chain sv)" "ch_head_hash (sv_chain s1) = ch_head_hash (sv_chain sv)"
    "sv_pool s1 = sv_pool sv" by (simp_all add: s1_def)
  from run obtain coinbase' group_key' random_number snap s2 where
      key: "block_group_key (DKG_RENEWAL_INTERVAL V) ?n group_key = Inr group_key'"
    and s2: "on_state (to_snapshot (ce_limit (ve_C V)) (ve_S V) False False) s1 = (Inr snap, s2)"
    and rest: "(case from_snapshot (trial_env (ve_S V)) snap False Map.empty of
         (Inl e, _) \<Rightarrow> raise e
       | (Inr s, _) \<Rightarrow>
           (case fill_block (trial_env (ve_S V)) ?n (sv_pool s2) [] s of
              (Inl e, _) \<Rightarrow> raise e
            | (Inr txs, _) \<Rightarrow> create_tries V (block_init \<lparr>h_prevhash = ch_head_hash (sv_chain s1), h_timestamp = now,
                h_extra_data = [], h_state_root = BLANK_ROOT (ve_E V), h_tx_root = BLANK_ROOT (ve_E V), h_number = ?n,
                h_coinbase = coinbase', h_random_number = random_number, h_group_pubkey = group_key',
                h_group_sig = group_sig, h_count = count\<rparr> txs 0 0 0))) s2 = (Inr b, sv')"
    unfolding create_block_def bindM_run_Inr [where m = "on_chain (process_time_queue limit (ve_C V) now None)", OF time]
    by (auto simp: bindM_eq_Inr Let_def)
  from rest obtain s x txs where txs: "fill_block (trial_env (ve_S V)) ?n (sv_pool s2) [] s = (Inr txs, x)"
    and tries: "create_tries V (block_init \<lparr>h_prevhash = ch_head_hash (sv_chain s1), h_timestamp = now,
                h_extra_data = [], h_state_root = BLANK_ROOT (ve_E V), h_tx_root = BLANK_ROOT (ve_E V), h_number = ?n,
                h_coinbase = coinbase', h_random_number = random_number, h_group_pubkey = group_key',
                h_group_sig = group_sig, h_count = count\<rparr> txs 0 0 0) s2 = (Inr b, sv')"
    by (auto split: prod.splits sum.splits)
  have s2': "head_view (ch_state (sv_chain s2)) = head_view (ch_state (sv_chain sv))" "sv_pool s2 = sv_pool sv"
    using snapshot_view [OF s2] s1 by simp_all
  have "subseq txs (sv_pool sv)" "\<forall>t \<in> set txs. tx_afi t = block_afi (Suc (st_block_number (ch_state (sv_chain sv))))"
    using fill_block_run [OF txs] s2'(2) s1(1) by auto
  with create_tries_run [OF tries] s2' key [unfolded s1] head s1 show ?thesis
    by (auto simp: block_init_def validate_header_def validate_transaction_tree_def py_nth_def)
qed


text \<open>A service without pending transactions over the chain of one block.\<close>

definition service_env :: "nat \<Rightarrow> (level, addr_set, (ipnet \<times> string) list) venv" where
  "service_env n = \<lparr>ve_C = chain_env, ve_bits = bitlib_ref, ve_sha256 = (\<lambda>s. replicate 64 (CHR ''3'')),
     DKG_RENEWAL_INTERVAL = n, DKG_NUMBER_PARTICIPANTS = 2\<rparr>"

lemma service_env_simps [simp]:
  "ve_C (service_env n) = chain_env" "DKG_RENEWAL_INTERVAL (service_env n) = n" "DKG_NUMBER_PARTICIPANTS (service_env n) = 2"
  "ve_sha256 (service_env n) = (\<lambda>s. replicate 64 (CHR ''3''))"
  by (simp_all add: service_env_def)

definition quiet_state :: "level state" where
  "quiet_state = \<lparr>st_trie = blank_trie ext_ref level_empty, st_txindex = 0, st_block_number = 1,
     st_block_coinbase = [], st_timestamp = 0, st_prev_headers = [RealHeader sample_header], st_journal = [],
     st_cache = [], st_changed = [], st_executing_on_head = False\<rparr>"

definition quiet_service :: "(level, (ipnet \<times> string) list) service" where
  "quiet_service = \<lparr>sv_chain = one_chain\<lparr>ch_state := quiet_state\<rparr>, sv_pool = []\<rparr>"

lemma parse_dec: "parse_as_int (PyStr (py_str_int (int n))) = Inr (int n)"
proof -
  have "take 2 (dec_digits n) \<noteq> ''0x''"
  proof
    assume x: "take 2 (dec_digits n) = ''0x''"
    have "CHR ''x'' \<in> set (take 2 (dec_digits n))" unfolding x by simp
    then have "CHR ''x'' \<in> set (dec_digits n)" by (rule in_set_takeD)
    from dec_digits_chars [OF this] show False by simp
  qed
  then show ?thesis by (simp add: parse_as_int_def py_str_int_def)
qed

lemma header_dict_roundtrip:
  "dict_to_prev_header (prev_header_to_dict E h) = Inr (FakeHeader (past_hash E h) (past_number h) (past_timestamp h))"
  by (simp add: dict_to_prev_header_def prev_header_to_dict_def parse_dec parse_as_bin_def)

lemma quiet_snapshot:
  "to_snapshot 1000 chain_senv False False quiet_state = (Inr \<lparr>sd_alloc = Some [], sd_state_root = None,
     sd_txindex = Some (py_str_int (int 0)), sd_block_number = Some (py_str_int (int 1)), sd_block_coinbase = Some ''0x'',
     sd_timestamp = Some (py_str_int (int 0)), sd_prev_headers = Some [prev_header_to_dict ext_ref (RealHeader sample_header)]\<rparr>,
     quiet_state)"
proof -
  have "to_dict_node 1000 T BLANK_NODE = ret []" for T :: "level trie_env" by (simp add: numeral_eq_Suc)
  then show ?thesis
    by (simp add: to_snapshot_def state_to_dict_def secure_to_dict_def to_dict_def bindM_def in_trie_def in_tdb_def zoomM_def
      quiet_state_def PREV_HEADER_DEPTH_def)
qed

lemma quiet_trial:
  assumes "sd_alloc d = Some []" "sd_txindex d = Some (py_str_int (int a))" "sd_block_number d = Some (py_str_int (int b))"
    "sd_block_coinbase d = Some ''0x''" "sd_timestamp d = Some (py_str_int (int e))"
    "sd_prev_headers d = Some [prev_header_to_dict E h]"
  shows "\<exists>s db. from_snapshot (trial_env S) d False Map.empty = (Inr s, db)"
proof -
  have b: "get_node_type (Str []) = Inr NODE_TYPE_BLANK" by (simp add: get_node_type_def)
  have "\<exists>st. state_init (trial_env S) Map.empty [] False = Inr st"
    by (simp add: state_init_def set_root_hash_def bindM_def in_tdb_def zoomM_def decode_to_node_def BLANK_NODE_def)
  then obtain st where st: "state_init (trial_env S) Map.empty [] False = Inr st" "st_cache st = []"
    by (fastforce simp: state_init_def split: prod.splits sum.splits)
  with assms show ?thesis
    by (simp add: from_snapshot_def fill_snapshot_def bindM_def load_variables_def numeric_entry_def parse_dec
      parse_as_bin_def header_dict_roundtrip state_commit_def)
qed


lemma quiet_clone: "\<exists>temp. clone chain_senv quiet_state = Inr temp"
proof -
  have "length (BLANK_ROOT ext_ref) = 32" "s_ext (clone_env chain_senv) = ext_ref"
    by (simp_all only: BLANK_ROOT_def length_sha3 ext_ref_ok clone_env_def senv.simps chain_env_simps senv_for_simps)
  then show ?thesis
    by (simp add: clone_def set_root_hash_def bindM_def quiet_state_def)
qed

lemma quiet_tries:
  assumes "b_transactions b = []" "s = quiet_service\<lparr>sv_chain := (sv_chain quiet_service)\<lparr>ch_localtime := now\<rparr>\<rparr>"
  shows "\<exists>b' s'. create_tries (service_env n) b s = (Inr b', s')"
proof -
  have "on_state (to_snapshot 1000 chain_senv False False) s = (Inr \<lparr>sd_alloc = Some [], sd_state_root = None,
     sd_txindex = Some (py_str_int (int 0)), sd_block_number = Some (py_str_int (int 1)), sd_block_coinbase = Some ''0x'',
     sd_timestamp = Some (py_str_int (int 0)), sd_prev_headers = Some [prev_header_to_dict ext_ref (RealHeader sample_header)]\<rparr>, s)"
    using quiet_snapshot by (simp add: on_state_run assms(2) quiet_service_def del: of_nat_0 of_nat_1 semiring_1_class.of_nat_simps)
  moreover have "ch_state (sv_chain s) = quiet_state" by (simp add: assms(2) quiet_service_def)
  ultimately show ?thesis
    using assms(1) quiet_clone by (auto simp: create_tries_def bindM_def chain_env_def)
qed

lemma quiet_block_created:
  "\<exists>b s'. create_block 0 (service_env 500) 9 (PyStr sample_addr) [] None [] 3 quiet_service = (Inr b, s')"
proof -
  define s1 where "s1 = quiet_service\<lparr>sv_chain := (sv_chain quiet_service)\<lparr>ch_localtime := 9\<rparr>\<rparr>"
  have time: "on_chain (process_time_queue 0 chain_env 9 None) quiet_service = (Inr (), s1)"
    by (simp add: on_chain_def zoomM_def process_time_queue_def bindM_def s1_def)
  obtain d where d: "on_state (to_snapshot 1000 chain_senv False False) s1 = (Inr d, s1)"
    "sd_alloc d = Some []" "sd_txindex d = Some (py_str_int (int 0))" "sd_block_number d = Some (py_str_int (int 1))"
    "sd_block_coinbase d = Some ''0x''" "sd_timestamp d = Some (py_str_int (int 0))"
    "sd_prev_headers d = Some [prev_header_to_dict ext_ref (RealHeader sample_header)]"
    using quiet_snapshot by (fastforce simp: on_state_run s1_def quiet_service_def)
  obtain t db where "from_snapshot (trial_env chain_senv) d False Map.empty = (Inr t, db)"
    using quiet_trial [OF d(2-7)] by blast
  moreover have "sv_pool s1 = []" "st_block_number (ch_state (sv_chain s1)) = 1"
    by (simp_all add: s1_def quiet_service_def quiet_state_def)
  moreover have "parse_as_bin [] = Inr []" "ce_limit chain_env = 1000" by (simp_all add: parse_as_bin_def chain_env_def)
  moreover have "\<exists>b' s'. create_tries (service_env 500) (block_init h [] 0 0 0) s1 = (Inr b', s')" for h
    by (rule quiet_tries [where now = 9]) (simp_all add: block_init_def s1_def)
  ultimately show ?thesis
    using time d(1) by (simp add: create_block_def bindM_def block_group_key_def Let_def)
qed

theorem created_block_fits_witness:
  "\<exists>b s'. create_block 0 (service_env 500) 9 (PyStr sample_addr) [] None [] 3 quiet_service = (Inr b, s') \<and>
     block_checks ext_ref quiet_state b = Inr True \<and> h_group_pubkey (b_header b) = ''0x00''"
proof -
  obtain b s' where run: "create_block 0 (service_env 500) 9 (PyStr sample_addr) [] None [] 3 quiet_service = (Inr b, s')"
    using quiet_block_created by blast
  have head: "st_prev_headers (ch_state (sv_chain quiet_service)) = [RealHeader sample_header]"
      "ch_head_hash (sv_chain quiet_service) = past_hash (ve_E (service_env 500)) (RealHeader sample_header)"
      "past_number (RealHeader sample_header) = st_block_number (ch_state (sv_chain quiet_service))"
    by (simp_all add: quiet_service_def quiet_state_def one_chain_def)
  from created_block_fits [OF run head] run show ?thesis
    by (auto simp: quiet_service_def block_group_key_def)
qed


section \<open>The group that is drawn\<close>

lemma take_hex_encode: "take (2 * n) (hex_encode s) = hex_encode (take n s)"
  by (induction n arbitrary: s) (simp, case_tac s, simp_all)

lemma drop_hex_encode: "drop (2 * n) (hex_encode s) = hex_encode (drop n s)"
  by (induction n arbitrary: s) (simp, case_tac s, simp_all)

lemma slice_hex_encode: "slice (hex_encode s) (2 * i) (2 * j) = hex_encode (slice s i j)"
proof -
  have "2 * j - 2 * i = 2 * (j - i)" by simp
  then show ?thesis by (simp only: slice_def drop_hex_encode take_hex_encode)
qed

lemma hex_digit_not_x: "n < 16 \<Longrightarrow> hex_digit n \<noteq> CHR ''x''"
  by (drule less_16_cases) (elim disjE; simp add: hex_digit_def)

lemma hex_encode_no_head: "remove_0x_head (hex_encode s) = hex_encode s"
  by (cases s) (auto simp: remove_0x_head_def hex_digit_not_x dest: sym)

lemma xor_groups_Inr:
  assumes "length s mod 8 = 0" "\<forall>i \<in> set is'. i < length s div 8"
  shows "\<exists>v. xor_groups (hex_encode s) 16 is' n = Inr v"
  using assms(2)
proof (induction is' arbitrary: n)
  case (Cons i is')
  have "slice (hex_encode s) (i * 16) ((i + 1) * 16) = hex_encode (slice s (i * 8) ((i + 1) * 8))"
    using slice_hex_encode [of s "i * 8" "(i + 1) * 8"] by (simp add: algebra_simps)
  moreover have "slice s (i * 8) ((i + 1) * 8) \<noteq> []"
    using Cons.prems by (auto simp: slice_def)
  ultimately have "py_int 16 (slice (hex_encode s) (i * 16) ((i + 1) * 16)) = Inr (int (be_val (slice s (i * 8) ((i + 1) * 8))))"
    using bytes_to_int_eq [of "slice s (i * 8) ((i + 1) * 8)"] by (simp add: bytes_to_int_def)
  with Cons show ?case by simp
qed simp

lemma compress_Inr: "length s mod 8 = 0 \<Longrightarrow> \<exists>v. compress_random_no_to_int (hex_encode s) 16 = Inr v"
  using xor_groups_Inr [of s "[0..<length (hex_encode s) div 16]" 0]
  by (auto simp: compress_random_no_to_int_def hex_encode_no_head)

text \<open>What is known of \<open>hashlib.sha256(s).hexdigest()\<close>: the hexadecimal form of 32 bytes.\<close>

definition sha256_ok :: "(string \<Rightarrow> string) \<Rightarrow> bool" where
  "sha256_ok H \<longleftrightarrow> (\<forall>s. \<exists>d. length d = 32 \<and> H s = hex_encode d)"

lemma pick_out:
  assumes "p < length xs" "distinct xs"
  shows "distinct (xs ! p # take p xs @ drop (Suc p) xs)" "set (xs ! p # take p xs @ drop (Suc p) xs) = set xs"
    "Suc (length (take p xs @ drop (Suc p) xs)) = length xs"
proof -
  obtain ys a zs where "xs = ys @ a # zs" "length ys = p"
    using id_take_nth_drop [OF assms(1)] assms(1) by (metis length_take min.absorb4)
  with assms(2) show "distinct (xs ! p # take p xs @ drop (Suc p) xs)" "set (xs ! p # take p xs @ drop (Suc p) xs) = set xs"
    "Suc (length (take p xs @ drop (Suc p) xs)) = length xs" by auto
qed

lemma draw_group_run:
  assumes "sha256_ok H" "distinct addrs"
  shows "case draw_group H n r addrs of
      Inl e \<Rightarrow> e = ZeroDivisionError \<and> length addrs < n
    | Inr g \<Rightarrow> length g = n \<and> distinct g \<and> set g \<subseteq> set addrs"
  using assms(2)
proof (induction n arbitrary: r addrs)
  case 0
  then show ?case by simp
next
  case (Suc n)
  show ?case
  proof (cases "addrs = []")
    case True
    then show ?thesis by simp
  next
    case False
    let ?p = "nat (r mod int (length addrs))"
    have p: "?p < length addrs" using False by (simp add: nat_less_iff)
    let ?rest = "take ?p addrs @ drop (Suc ?p) addrs"
    note rest = pick_out [OF p Suc.prems]
    obtain d where "length d = 32" "H (py_str_int r) = hex_encode d" using assms(1) by (auto simp: sha256_ok_def)
    then obtain v where v: "compress_random_no_to_int (H (py_str_int r)) 16 = Inr v"
      using compress_Inr [of d] by auto
    have "draw_group H (Suc n) r addrs = bindE (draw_group H n v ?rest) (\<lambda>g. Inr (addrs ! ?p # g))"
      using False v by (simp add: Let_def)
    moreover have "case draw_group H n v ?rest of Inl e \<Rightarrow> e = ZeroDivisionError \<and> length ?rest < n
        | Inr g \<Rightarrow> length g = n \<and> distinct g \<and> set g \<subseteq> set ?rest"
      using rest(1) by (intro Suc.IH) simp
    ultimately show ?thesis
      using rest by (cases "draw_group H n v ?rest") auto
  qed
qed


text \<open>A block that the chain has under a hash.\<close>

definition stored_block :: "(level, 'i, 'p) venv \<Rightarrow> (level, 'p) chain \<Rightarrow> string \<Rightarrow> block \<Rightarrow> bool" where
  "stored_block V c h b \<longleftrightarrow> (\<exists>r. chain_db c h = Some r \<and> r \<noteq> ''GENESIS'' \<and>
     block_decode (ve_E V) (ce_I (ve_C V)) r = Inr b)"

text \<open>Reading the database changes neither its contents nor the trie.\<close>

definition same_chain :: "(level, 'p) chain \<Rightarrow> (level, 'p) chain \<Rightarrow> bool" where
  "same_chain c c' \<longleftrightarrow> (\<exists>d. c' = c\<lparr>ch_state := (ch_state c)\<lparr>st_trie := (st_trie (ch_state c))\<lparr>tdb := d\<rparr>\<rparr>\<rparr> \<and>
     level_view d = chain_db c)"

lemma same_chain_cget:
  assumes "s_db (ce_S C) = level_db" "chain_db c k = Some v"
  shows "\<exists>c'. cget C k c = (Inr v, c') \<and> same_chain c c'"
  using lvl.get_law [of k "tdb (st_trie (ch_state c))"] assms
  by (fastforce simp: cget_def chain_db_step same_chain_def)

lemma same_chain_trans: "same_chain c c' \<Longrightarrow> same_chain c' c'' \<Longrightarrow> same_chain c c''"
  by (auto simp: same_chain_def)

lemma head_block_run:
  assumes "s_db (ve_S V) = level_db" "stored_block V c (ch_head_hash c) b"
  shows "\<exists>c'. get_head_block (ve_C V) c = (Inr (Some b), c') \<and> same_chain c c'"
  using same_chain_cget [OF assms(1)] assms(2)
  by (fastforce simp: stored_block_def get_head_block_def attempt_run bindM_def)

lemma block_by_number_run:
  assumes "s_db (ve_S V) = level_db" "chain_db c (number_key n) = Some h" "stored_block V c h b"
  shows "\<exists>c'. get_block_by_number (ve_C V) n c = (Inr b, c') \<and> same_chain c c'"
proof -
  obtain c1 where c1: "cget (ve_C V) (number_key n) c = (Inr h, c1)" "same_chain c c1"
    using same_chain_cget [OF assms(1,2)] by blast
  then have "chain_db c1 = chain_db c" by (auto simp: same_chain_def)
  then obtain r c2 where c2: "cget (ve_C V) h c1 = (Inr r, c2)" "same_chain c1 c2" "r \<noteq> ''GENESIS''"
      "block_decode (ve_E V) (ce_I (ve_C V)) r = Inr b"
    using same_chain_cget [OF assms(1), of c1 h] assms(3) by (auto simp: stored_block_def)
  from c1 c2 same_chain_trans [OF c1(2) c2(2)] show ?thesis
    by (auto simp: get_block_by_number_def get_blockhash_by_number_def attempt_run get_block_def bindM_def)
qed

lemma same_chain_stored: "same_chain c c' \<Longrightarrow> stored_block V c' h b = stored_block V c h b"
  by (auto simp: same_chain_def stored_block_def)


text \<open>A chain without accounts that has stored a second block, with a group of two due at every second
  block.\<close>

definition stored_chain :: "(level, (ipnet \<times> string) list) chain" where
  "stored_chain = one_chain\<lparr>ch_head_hash := header_hash ext_ref (b_header next_block),
     ch_state := quiet_state\<lparr>st_trie := blank_trie ext_ref \<lparr>uncommitted = Map.empty,
       disk = [number_key 2 \<mapsto> header_hash ext_ref (b_header next_block),
         header_hash ext_ref (b_header next_block) \<mapsto> block_rlp ext_ref (next_block\<lparr>b_signer := None\<rparr>)]\<rparr>\<rparr>\<rparr>"


end
