(* ===== verification/TxTypes.thy ===== *)
theory TxTypes
  imports Transactions
begin

text \<open>
  The type of a constructed transaction: which values its fields can have, whatever the arguments of
  the constructor were.
\<close>

section \<open>Well-formed transactions\<close>

text \<open>A map server is a family, an address of this family and the account of the server; a locator is
  a family, an address, a priority and a weight of at most one byte.\<close>

definition family_entry :: "string \<Rightarrow> string \<Rightarrow> bool" where
  "family_entry afi ip \<longleftrightarrow>
     bytes_to_int afi = Inr 1 \<and> length ip = 4 \<or> bytes_to_int afi = Inr 2 \<and> length ip = 16"

fun server_typed :: "string list \<Rightarrow> bool" where
  "server_typed [afi, ip, addr] \<longleftrightarrow> family_entry afi ip \<and> (length addr = 20 \<or> addr = [])"
| "server_typed _ \<longleftrightarrow> False"

fun locator_typed :: "string list \<Rightarrow> bool" where
  "locator_typed [afi, ip, priority, weight] \<longleftrightarrow> family_entry afi ip \<and> length priority \<le> 1 \<and> length weight \<le> 1"
| "locator_typed _ \<longleftrightarrow> False"

definition entries_typed :: "(string list \<Rightarrow> bool) \<Rightarrow> item \<Rightarrow> bool" where
  "entries_typed ty m \<longleftrightarrow> (\<exists>es. m = Lst (map Str (concat es)) \<and> es \<noteq> [] \<and> list_all ty es)"

text \<open>The value is a prefix: four or sixteen bytes of address and a length within the address.\<close>

definition value_typed :: "string \<Rightarrow> bool" where
  "value_typed s \<longleftrightarrow> (\<exists>ver a p. (ver = 4 \<or> ver = 6) \<and> a < 2 ^ ip_bits ver \<and> p \<le> ip_bits ver \<and>
     s = packed ver a @ [char_of p])"

definition tx_typed :: "tx \<Rightarrow> bool" where
  "tx_typed t \<longleftrightarrow> (length (tx_to t) = 20 \<or> tx_to t = []) \<and> (tx_afi t = 1 \<or> tx_afi t = 2) \<and>
     value_typed (tx_value t) \<and>
     (if tx_category t \<le> 1 then tx_metadata t = Str []
      else if tx_category t = 2 then entries_typed server_typed (tx_metadata t)
      else tx_category t = 3 \<and> entries_typed locator_typed (tx_metadata t))"

section \<open>The constructor\<close>

lemma family_entry_of:
  assumes "iplib_ok L" "meta_afi b x = Inr (n, s)" "meta_ip L c n y = Inr ip"
  shows "family_entry s ip"
proof -
  have n: "n = 1 \<or> n = 2" "bytes_to_int s = Inr n"
    using meta_afi_again [OF assms(2)] by (auto simp: meta_afi_def bindE_eq_Inr)
  obtain a where a: "a < 2 ^ ip_bits (afi_version n)" "ip = packed (afi_version n) a"
    using assms(3) ip_packed_bound [of "afi_version n" y] ip_arg_bound [OF assms(1), of "afi_version n" y]
    by (auto simp: meta_ip_def Let_def bindE_eq_Inr split: if_splits)
  with packed_length [OF a(1)] n show ?thesis
    by (auto simp: family_entry_def afi_version_def ip_bytes_def)
qed

lemma meta_byte_length: "ext_ok E \<Longrightarrow> meta_byte E b x = Inr s \<Longrightarrow> length s \<le> Suc 0"
  using meta_byte_again [of E b x s] length_be_bytes_le [of _ 1]
  by (cases x; cases b) (auto simp: meta_byte_def bindE_eq_Inr int_to_bytes_def int_to_big_endian_def ext_okD(2) split: if_splits)

lemma server_entry_typed: "iplib_ok L \<Longrightarrow> map_server_entry E L b m = Inr e \<Longrightarrow> server_typed e"
  by (auto simp: map_server_entry_def bindE_eq_Inr split: list.splits prod.splits
      intro: family_entry_of dest: normalize_address_length)

lemma locator_entry_typed: "ext_ok E \<Longrightarrow> iplib_ok L \<Longrightarrow> locator_entry E L b m = Inr e \<Longrightarrow> locator_typed e"
  using family_entry_of meta_byte_length
  by (auto simp: locator_entry_def bindE_eq_Inr split: list.splits prod.splits)

lemma meta_list_typed:
  assumes "meta_list n entry m = Inr r" "0 < n" "\<And>b c e. entry b c = Inr e \<Longrightarrow> ty e"
  shows "entries_typed ty r"
proof -
  obtain xs where xs: "m = MetaList xs"
    using assms(1) by (auto simp: meta_list_def split: meta_arg.splits)
  obtain x0 b es where x0: "py_nth xs 0 = Inr x0" and es: "mapE (entry b) (chunks n xs) = Inr es"
    and r: "r = Lst (map Str (concat es))"
    using assms(1) xs by (auto simp: meta_list_def bindE_eq_Inr Let_def split: if_splits)
  have "xs \<noteq> []" using x0 by (auto simp: py_nth_def split: if_splits)
  then have "chunks n xs \<noteq> []" using assms(2) by (subst chunks.simps) simp
  with es have "es \<noteq> []" by (auto simp: mapE_eq_Inr)
  moreover have "list_all ty es"
    using es assms(3) by (auto simp: mapE_eq_Inr list_all2_conv_all_nth list_all_length)
  ultimately show ?thesis using r by (auto simp: entries_typed_def)
qed



end
