(* ===== verification/User.thy ===== *)
theory User
  imports ChainService
begin

text \<open>
  \<open>user.py\<close>: the class \<open>Parser\<close>, which reads the transactions of the user from a file of lines
  \<open>FIELD;DATA\<close>. The dictionary \<open>data_buffer\<close> is a record of options, and what a line stored there before
  it raised stays. A transaction that was read is the record \<open>transaction_data\<close> of \<open>chain_service.py\<close>.
\<close>

section \<open>The fields of a transaction\<close>

record data_buffer =
  db_category :: "int option"
  db_to :: "string option"
  db_from :: "string option"
  db_afi :: "int option"
  db_value :: "string option"
  db_metadata :: "pyarg list option"

definition empty_buffer :: data_buffer where
  "empty_buffer = \<lparr>db_category = None, db_to = None, db_from = None, db_afi = None, db_value = None, db_metadata = None\<rparr>"

definition parse_category :: "string \<Rightarrow> (data_buffer, unit) M" where
  "parse_category data_string =
     bindM (liftE (py_int 10 data_string)) (\<lambda>category.
     if category < 0 \<or> category > 3 then raise PyException
     else modifyM (\<lambda>b. b\<lparr>db_category := Some category\<rparr>))"

definition parse_to :: "ext \<Rightarrow> string \<Rightarrow> (data_buffer, unit) M" where
  "parse_to E data_string =
     bindM (liftE (normalize_address E (PyStr data_string) False)) (\<lambda>a. modifyM (\<lambda>b. b\<lparr>db_to := Some a\<rparr>))"

definition parse_afi :: "string \<Rightarrow> (data_buffer, unit) M" where
  "parse_afi data_string =
     bindM (liftE (py_int 10 data_string)) (\<lambda>afi.
     if afi \<noteq> 1 \<and> afi \<noteq> 2 then raise PyException else modifyM (\<lambda>b. b\<lparr>db_afi := Some afi\<rparr>))"

definition parse_value :: "string \<Rightarrow> (data_buffer, unit) M" where
  "parse_value data_string = modifyM (\<lambda>b. b\<lparr>db_value := Some data_string\<rparr>)"

definition parse_frm :: "ext \<Rightarrow> string \<Rightarrow> (data_buffer, unit) M" where
  "parse_frm E data_string =
     bindM (liftE (normalize_address E (PyStr data_string) False)) (\<lambda>a. modifyM (\<lambda>b. b\<lparr>db_from := Some a\<rparr>))"

section \<open>Metadata\<close>

definition append_meta :: "pyarg \<Rightarrow> (data_buffer, unit) M" where
  "append_meta x = modifyM (\<lambda>b. b\<lparr>db_metadata := map_option (\<lambda>m. m @ [x]) (db_metadata b)\<rparr>)"

text \<open>The family and the address that both kinds of entries begin with.\<close>

definition append_afi_ip :: "string \<Rightarrow> string \<Rightarrow> (data_buffer, unit) M" where
  "append_afi_ip afi ip =
     bindM (liftE (py_int 10 afi)) (\<lambda>n.
     bindM (append_meta (PyInt n)) (\<lambda>_.
     if n = 1 \<or> n = 2 then append_meta (PyStr ip) else raise PyException))"

definition parse_server :: "ext \<Rightarrow> string list \<Rightarrow> (data_buffer, unit) M" where
  "parse_server E entry =
     (case entry of
        [afi, ip, address] \<Rightarrow>
          bindM (append_afi_ip afi ip) (\<lambda>_.
          bindM (liftE (normalize_address E (PyStr address) False)) (\<lambda>a. append_meta (PyStr a)))
      | _ \<Rightarrow> raise ValueError)"

text \<open>The name of the method \<open>append\<close> is misspelt where the priority is added, which raises before the
  priority is read.\<close>

definition parse_locator :: "string list \<Rightarrow> (data_buffer, unit) M" where
  "parse_locator entry =
     (case entry of
        [afi, ip, priority, weight] \<Rightarrow> bindM (append_afi_ip afi ip) (\<lambda>_. raise AttributeError)
      | _ \<Rightarrow> raise ValueError)"

definition parse_metadata :: "ext \<Rightarrow> string \<Rightarrow> (data_buffer, unit) M" where
  "parse_metadata E data_string =
     bindM (modifyM (\<lambda>b. b\<lparr>db_metadata := Some []\<rparr>)) (\<lambda>_.
     let data = split_on (CHR '','') data_string
     in bindM (gets db_category) (\<lambda>c.
        case c of
          None \<Rightarrow> raise KeyError
        | Some category \<Rightarrow>
            if category = 2
            then if length data mod 3 \<noteq> 0 then raise PyException else forM (chunks 3 data) (parse_server E)
            else if category = 3
            then if length data mod 4 \<noteq> 0 then raise PyException else forM (chunks 4 data) parse_locator
            else raise PyException))"

section \<open>Reading a file\<close>

text \<open>\<open>self.types_dir[type](self, content, data_buffer)\<close>.\<close>

definition parse_field :: "ext \<Rightarrow> string \<Rightarrow> string \<Rightarrow> (data_buffer, unit) M" where
  "parse_field E type content =
     (if type = ''category'' then parse_category content
      else if type = ''to'' then parse_to E content
      else if type = ''from'' then parse_frm E content
      else if type = ''afi'' then parse_afi content
      else if type = ''value'' then parse_value content
      else if type = ''metadata'' then parse_metadata E content
      else raise KeyError)"

text \<open>The transaction of a complete buffer.\<close>

definition finish_buffer :: "data_buffer \<Rightarrow> transaction_data option" where
  "finish_buffer b =
     (case (db_afi b, db_category b, db_value b, db_to b, db_from b) of
        (Some afi, Some category, Some val, Some to, Some frm) \<Rightarrow>
          Some \<lparr>td_from = PyStr frm, td_category = nat category, td_to = PyStr to, td_afi = nat afi,
            td_value = PyStr val,
            td_metadata = Some (case db_metadata b of None \<Rightarrow> MetaStr [] | Some m \<Rightarrow> MetaList m)\<rparr>
      | _ \<Rightarrow> None)"

text \<open>A line that is not two fields raises out of the method; an exception of a field is logged.\<close>

fun read_lines :: "ext \<Rightarrow> string list \<Rightarrow> data_buffer \<Rightarrow> transaction_data list \<Rightarrow> transaction_data list res" where
  "read_lines E [] data_buffer buffers = Inr buffers"
| "read_lines E (line # lines) data_buffer buffers =
     (case split_on (CHR '';'') line of
        [type, content'] \<Rightarrow>
          let content = strip_char (CHR 0x0A) content'
          in if type = ''end''
             then read_lines E lines empty_buffer
                    (case finish_buffer data_buffer of None \<Rightarrow> buffers | Some d \<Rightarrow> buffers @ [d])
             else read_lines E lines (snd (parse_field E type content data_buffer)) buffers
      | _ \<Rightarrow> Inl ValueError)"

definition read_transactions :: "ext \<Rightarrow> string list \<Rightarrow> (transaction_data list, unit) M" where
  "read_transactions E lines =
     bindM (liftE (read_lines E lines empty_buffer [])) (\<lambda>buffers. modifyM (\<lambda>ts. ts @ buffers))"

definition user_get_tx :: "(transaction_data list, transaction_data option) M" where
  "user_get_tx ts = (case ts of [] \<Rightarrow> (Inr None, []) | t # ts' \<Rightarrow> (Inr (Some t), ts'))"

end
