(* ===== verification/UserCorrect.thy ===== *)
theory UserCorrect
  imports User
begin

text \<open>
  A file of transactions is read back as it was written; a file with a locator never gives a transaction
  the constructor accepts.
\<close>

section \<open>Writing transactions of the user\<close>

record user_tx =
  ut_category :: nat
  ut_to :: string
  ut_from :: string
  ut_afi :: nat
  ut_value :: string
  ut_servers :: "(nat \<times> string \<times> string) list"

definition field_line :: "string \<Rightarrow> string \<Rightarrow> string" where
  "field_line name content = name @ CHR '';'' # content @ [CHR 0x0A]"

definition server_words :: "nat \<times> string \<times> string \<Rightarrow> string list" where
  "server_words s = (case s of (afi, ip, a) \<Rightarrow> [dec_digits afi, ip, hex_encode a])"

definition user_lines :: "user_tx \<Rightarrow> string list" where
  "user_lines u =
     [field_line ''category'' (dec_digits (ut_category u)), field_line ''to'' (hex_encode (ut_to u)),
      field_line ''from'' (hex_encode (ut_from u)), field_line ''afi'' (dec_digits (ut_afi u)),
      field_line ''value'' (ut_value u)] @
     (if ut_servers u = [] then []
      else [field_line ''metadata'' (join_with (CHR '','') (concat (map server_words (ut_servers u))))]) @
     [field_line ''end'' []]"

definition server_args :: "nat \<times> string \<times> string \<Rightarrow> pyarg list" where
  "server_args s = (case s of (afi, ip, a) \<Rightarrow> [PyInt (int afi), PyStr ip, PyStr a])"

definition user_data :: "user_tx \<Rightarrow> transaction_data" where
  "user_data u = \<lparr>td_from = PyStr (ut_from u), td_category = ut_category u, td_to = PyStr (ut_to u), td_afi = ut_afi u,
     td_value = PyStr (ut_value u),
     td_metadata = Some (if ut_servers u = [] then MetaStr [] else MetaList (concat (map server_args (ut_servers u))))\<rparr>"

text \<open>A word of the file: no separator, no line break.\<close>

definition plain :: "string \<Rightarrow> bool" where
  "plain s \<longleftrightarrow> CHR '';'' \<notin> set s \<and> CHR '','' \<notin> set s \<and> CHR 0x0A \<notin> set s"

definition server_ok :: "nat \<times> string \<times> string \<Rightarrow> bool" where
  "server_ok s = (case s of (afi, ip, a) \<Rightarrow> (afi = 1 \<or> afi = 2) \<and> plain ip \<and> length a = 20)"

definition user_ok :: "user_tx \<Rightarrow> bool" where
  "user_ok u \<longleftrightarrow> ut_category u \<le> 3 \<and> length (ut_to u) = 20 \<and> length (ut_from u) = 20 \<and> (ut_afi u = 1 \<or> ut_afi u = 2) \<and>
     plain (ut_value u) \<and> list_all server_ok (ut_servers u) \<and> (ut_servers u = [] \<or> ut_category u = 2)"

section \<open>One line\<close>

lemma hex_digit_word: "n < 16 \<Longrightarrow> plain [hex_digit n]"
  using less_16_cases [of n] by (auto simp: hex_digit_def plain_def)

lemma plain_Cons: "plain (c # s) \<longleftrightarrow> plain [c] \<and> plain s"
  by (auto simp: plain_def)

lemma hex_encode_plain: "plain (hex_encode s)"
proof (induction s)
  case (Cons c s)
  then show ?case
    using hex_digit_word [of "ord c div 16"] hex_digit_word [of "ord c mod 16"]
    by (simp add: plain_Cons [of _ "_ # _"] plain_Cons [of _ "hex_encode s"])
qed (simp add: plain_def)

lemma dec_digits_plain_word: "plain (dec_digits n)"
  using dec_digits_chars [of _ n] by (fastforce simp: plain_def)

lemma strip_line: "CHR 0x0A \<notin> set s \<Longrightarrow> strip_char (CHR 0x0A) (s @ [CHR 0x0A]) = s"
proof -
  assume no: "CHR 0x0A \<notin> set s"
  then have "dropWhile (\<lambda>d. d = CHR 0x0A) (s @ [CHR 0x0A]) = (if s = [] then [] else s @ [CHR 0x0A])"
    by (cases s) auto
  moreover have "dropWhile (\<lambda>d. d = CHR 0x0A) (rev s) = rev s"
    using no by (cases "rev s") (auto simp: rev_eq_Cons_iff)
  ultimately show ?thesis by (simp add: strip_char_def)
qed

lemma split_line:
  assumes "CHR '';'' \<notin> set name" "CHR '';'' \<notin> set content"
  shows "split_on (CHR '';'') (field_line name content) = [name, content @ [CHR 0x0A]]"
proof -
  have "split_on (CHR '';'') (content @ [CHR 0x0A]) = [content @ [CHR 0x0A]]"
    using assms(2) split_on_word [of "CHR '';''" "content @ [CHR 0x0A]" "[]"] by simp
  then show ?thesis
    using split_on_word [OF assms(1), of "CHR '';'' # content @ [CHR 0x0A]"] by (simp add: field_line_def)
qed

lemma read_field:
  assumes "CHR '';'' \<notin> set name" "CHR '';'' \<notin> set content" "CHR 0x0A \<notin> set content" "name \<noteq> ''end''"
  shows "read_lines E (field_line name content # lines) b bs = read_lines E lines (snd (parse_field E name content b)) bs"
  using assms by (simp add: split_line strip_line)

lemma read_end:
  "read_lines E (field_line ''end'' [] # lines) b bs =
   read_lines E lines empty_buffer (case finish_buffer b of None \<Rightarrow> bs | Some d \<Rightarrow> bs @ [d])"
  by (simp add: split_line strip_char_def)

section \<open>The lines of a transaction\<close>

lemma append_meta_run: "append_meta x b = (Inr (), b\<lparr>db_metadata := map_option (\<lambda>m. m @ [x]) (db_metadata b)\<rparr>)"
  by (simp add: append_meta_def modifyM_def)

lemma parse_server_run:
  assumes "server_ok s" "db_metadata b = Some m"
  shows "parse_server E (server_words s) b = (Inr (), b\<lparr>db_metadata := Some (m @ server_args s)\<rparr>)"
  using assms
  by (cases s) (auto simp: parse_server_def server_words_def server_args_def server_ok_def append_afi_ip_def bindM_def
      append_meta_run)

lemma parse_servers_run:
  assumes "list_all server_ok ss" "db_metadata b = Some m"
  shows "forM (map server_words ss) (parse_server E) b = (Inr (), b\<lparr>db_metadata := Some (m @ concat (map server_args ss))\<rparr>)"
  using assms
proof (induction ss arbitrary: b m)
  case (Cons s ss)
  then show ?case by (simp add: parse_server_run [of s b m] bindM_def Cons.IH)
qed simp

lemma split_servers:
  assumes "ss \<noteq> []" "list_all server_ok ss"
  shows "split_on (CHR '','') (join_with (CHR '','') (concat (map server_words ss))) = concat (map server_words ss)"
proof (rule split_join)
  show "concat (map server_words ss) \<noteq> []"
    using assms(1) by (cases ss) (auto simp: server_words_def split: prod.splits)
  show "\<forall>w \<in> set (concat (map server_words ss)). CHR '','' \<notin> set w"
    using assms(2) hex_encode_plain dec_digits_plain_word
    by (fastforce simp: list_all_iff server_ok_def server_words_def plain_def)
qed

lemma parse_metadata_run:
  assumes "ss \<noteq> []" "list_all server_ok ss" "db_category b = Some 2"
  shows "parse_metadata E (join_with (CHR '','') (concat (map server_words ss))) b =
    (Inr (), b\<lparr>db_metadata := Some (concat (map server_args ss))\<rparr>)"
proof -
  have "chunks 3 (concat (map server_words ss)) = map server_words ss"
    by (rule chunks_concat) (auto simp: server_words_def)
  moreover have "length (concat (map server_words ss)) mod 3 = 0"
    by (induction ss) (auto simp: server_words_def)
  ultimately show ?thesis
    using assms parse_servers_run [OF assms(2), of "b\<lparr>db_metadata := Some []\<rparr>" "[]" E]
    by (simp add: parse_metadata_def bindM_def split_servers Let_def)
qed

text \<open>The words of the metadata contain no semicolon and no line break.\<close>

lemma join_plain:
  assumes "\<forall>w \<in> set ws. plain w"
  shows "CHR '';'' \<notin> set (join_with (CHR '','') ws) \<and> CHR 0x0A \<notin> set (join_with (CHR '','') ws)"
  using assms
proof (induction ws)
  case (Cons w ws)
  then show ?case by (cases "ws = []") (auto simp: join_with_Cons plain_def)
qed simp

lemma server_words_plain: "list_all server_ok ss \<Longrightarrow> w \<in> set (concat (map server_words ss)) \<Longrightarrow> plain w"
  using hex_encode_plain dec_digits_plain_word by (auto simp: list_all_iff server_ok_def server_words_def)

lemma plainD: "plain s \<Longrightarrow> CHR '';'' \<notin> set s" "plain s \<Longrightarrow> CHR 0x0A \<notin> set s"
  by (auto simp: plain_def)

lemmas field_run = read_field [OF _ plainD(1) plainD(2)]

lemma read_user_lines:
  assumes "user_ok u"
  shows "read_lines E (user_lines u @ lines) empty_buffer bs = read_lines E lines empty_buffer (bs @ [user_data u])"
proof -
  define b1 where "b1 = \<lparr>db_category = Some (int (ut_category u)), db_to = Some (ut_to u), db_from = Some (ut_from u),
    db_afi = Some (int (ut_afi u)), db_value = Some (ut_value u), db_metadata = None\<rparr>"
  have fields: "read_lines E ([field_line ''category'' (dec_digits (ut_category u)), field_line ''to'' (hex_encode (ut_to u)),
      field_line ''from'' (hex_encode (ut_from u)), field_line ''afi'' (dec_digits (ut_afi u)),
      field_line ''value'' (ut_value u)] @ ls) empty_buffer bs = read_lines E ls b1 bs" for ls
    using assms unfolding user_ok_def b1_def
    by (simp add: field_run dec_digits_plain_word hex_encode_plain del: read_lines.simps)
      (auto simp: parse_field_def parse_category_def parse_to_def parse_frm_def parse_afi_def parse_value_def bindM_def
        empty_buffer_def simp del: read_lines.simps)
  show ?thesis
  proof (cases "ut_servers u = []")
    case True
    then show ?thesis
      using fields [of "field_line ''end'' [] # lines"]
      by (simp add: user_lines_def read_end del: read_lines.simps) (simp add: b1_def finish_buffer_def user_data_def)
  next
    case False
    then have two: "ut_category u = 2" and ok: "list_all server_ok (ut_servers u)"
      using assms by (auto simp: user_ok_def)
    let ?w = "join_with (CHR '','') (concat (map server_words (ut_servers u)))"
    have "parse_field E ''metadata'' ?w b1 = (Inr (), b1\<lparr>db_metadata := Some (concat (map server_args (ut_servers u)))\<rparr>)"
      using parse_metadata_run [OF False ok, of b1 E] two by (simp add: parse_field_def b1_def)
    then show ?thesis
      using False two join_plain [of "concat (map server_words (ut_servers u))"] server_words_plain [OF ok]
        fields [of "field_line ''metadata'' ?w # field_line ''end'' [] # lines"]
      by (simp add: user_lines_def read_end read_field del: read_lines.simps) (simp add: b1_def finish_buffer_def user_data_def)
  qed
qed

lemma read_user_file:
  "list_all user_ok us \<Longrightarrow> read_lines E (concat (map user_lines us)) empty_buffer bs = Inr (bs @ map user_data us)"
  by (induction us arbitrary: bs) (simp_all add: read_user_lines del: read_lines.simps(2))

section \<open>Locators\<close>

lemma parse_locator_raises:
  assumes "db_metadata b = Some []"
  shows "\<exists>e b' m. parse_locator entry b = (Inl e, b') \<and> b' = b\<lparr>db_metadata := Some m\<rparr> \<and> length m < 4"
  using assms
  by (cases b) (auto simp: parse_locator_def append_afi_ip_def bindM_def append_meta_run raise_def liftE_def
      split: list.split sum.splits)

text \<open>The line of the locators of a transaction leaves the beginning of one entry.\<close>

lemma parse_locators_raises:
  assumes "db_category b = Some 3"
  shows "\<exists>e m. parse_metadata E w b = (Inl e, b\<lparr>db_metadata := Some m\<rparr>) \<and> length m < 4"
proof -
  let ?b = "b\<lparr>db_metadata := Some []\<rparr>" and ?ws = "split_on (CHR '','') w"
  show ?thesis
  proof (cases "length ?ws mod 4 = 0")
    case False
    with assms show ?thesis by (auto simp: parse_metadata_def bindM_def Let_def raise_def)
  next
    case True
    obtain entry es where es: "chunks 4 ?ws = entry # es"
      by (cases "chunks 4 ?ws") (simp_all add: chunks.simps [of 4 ?ws])
    from parse_locator_raises [of ?b entry] obtain e m
      where "parse_locator entry ?b = (Inl e, ?b\<lparr>db_metadata := Some m\<rparr>)" "length m < 4" by auto
    with True assms es show ?thesis by (auto simp: parse_metadata_def bindM_def Let_def)
  qed
qed

lemma short_locators_refused: "length m < 4 \<Longrightarrow> \<exists>e. init_metadata E L 3 (MetaList m) = Inl e"
  by (cases m) (auto simp: init_metadata_def meta_list_def py_nth_def)

section \<open>Properties\<close>

text \<open>C34. A file with the lines of transactions of the user, allocations, delegations and lists of map
  servers, is read to exactly these transactions, in order, after those that were read before.\<close>

theorem user_file_roundtrip:
  assumes "list_all user_ok us"
  shows "read_transactions E (concat (map user_lines us)) ts = (Inr (), ts @ map user_data us)"
  using read_user_file [OF assms, of E "[]"] by (simp add: read_transactions_def bindM_def modifyM_def)

abbreviation sample_user :: user_tx where
  "sample_user \<equiv> \<lparr>ut_category = 2, ut_to = replicate 20 (CHR ''t''), ut_from = replicate 20 (CHR ''f''), ut_afi = 1,
     ut_value = ''10.0.0.0/8'', ut_servers = [(1, ''10.0.0.1'', replicate 20 (CHR ''s''))]\<rparr>"

theorem user_file_roundtrip_witness:
  "read_transactions ext_ref (user_lines sample_user) [] = (Inr (), [user_data sample_user])"
  using user_file_roundtrip [of "[sample_user]" ext_ref "[]"]
  by (simp add: user_ok_def server_ok_def plain_def)

text \<open>The lines of a transaction that registers locators, with any text as the locators.\<close>

definition locator_lines :: "user_tx \<Rightarrow> string \<Rightarrow> string list" where
  "locator_lines u locators =
     [field_line ''category'' ''3'', field_line ''to'' (hex_encode (ut_to u)), field_line ''from'' (hex_encode (ut_from u)),
      field_line ''afi'' (dec_digits (ut_afi u)), field_line ''value'' (ut_value u), field_line ''metadata'' locators,
      field_line ''end'' []]"

lemma read_locator_lines:
  assumes "user_ok u" "CHR '';'' \<notin> set w" "CHR 0x0A \<notin> set w"
  shows "\<exists>m. length m < 4 \<and> read_lines E (locator_lines u w) empty_buffer [] =
    Inr [(user_data u)\<lparr>td_category := 3, td_metadata := Some (MetaList m)\<rparr>]"
proof -
  define b1 where "b1 = \<lparr>db_category = Some 3, db_to = Some (ut_to u), db_from = Some (ut_from u),
    db_afi = Some (int (ut_afi u)), db_value = Some (ut_value u), db_metadata = None\<rparr>"
  obtain e m where m: "parse_metadata E w b1 = (Inl e, b1\<lparr>db_metadata := Some m\<rparr>)" "length m < 4"
    using parse_locators_raises [of b1 E w] by (auto simp: b1_def)
  have "py_int 10 ''3'' = Inr 3" by (simp add: py_int_def py_strip_def is_space_def digit_val_def)
  then have "read_lines E (locator_lines u w) empty_buffer [] =
      read_lines E [field_line ''metadata'' w, field_line ''end'' []] b1 []"
    using assms(1) unfolding user_ok_def b1_def locator_lines_def
    by (simp add: field_run dec_digits_plain_word hex_encode_plain read_field [of "''category''"] del: read_lines.simps)
      (auto simp: parse_field_def parse_category_def parse_to_def parse_frm_def parse_afi_def parse_value_def bindM_def
        empty_buffer_def simp del: read_lines.simps)
  also have "\<dots> = Inr [(user_data u)\<lparr>td_category := 3, td_metadata := Some (MetaList m)\<rparr>]"
    using m(1) assms(2, 3) by (simp add: read_field read_end parse_field_def del: read_lines.simps(2))
      (simp add: b1_def finish_buffer_def user_data_def)
  finally show ?thesis using m(2) by blast
qed

text \<open>A transaction that registers locators is read from the file, but whatever its locators are, the
  constructor refuses it: the misspelt method leaves the list of its metadata with less than an entry.\<close>

theorem locators_never_constructed:
  assumes "user_ok u" "CHR '';'' \<notin> set locators" "CHR 0x0A \<notin> set locators"
  shows "\<exists>d. read_transactions E (locator_lines u locators) ts = (Inr (), ts @ [d]) \<and> td_category d = 3 \<and>
    (\<forall>V now s. ve_E V = E \<longrightarrow> (\<exists>e. fst (parse_transaction V now d s) = Inl e))"
proof -
  obtain m where m: "length m < 4" "read_lines E (locator_lines u locators) empty_buffer [] =
      Inr [(user_data u)\<lparr>td_category := 3, td_metadata := Some (MetaList m)\<rparr>]"
    using read_locator_lines [OF assms] by blast
  have "\<exists>e. fst (parse_transaction V now ((user_data u)\<lparr>td_category := 3, td_metadata := Some (MetaList m)\<rparr>) s) = Inl e"
    for V now s
    using short_locators_refused [OF m(1), of "ve_E V" "ce_I (ve_C V)"]
    by (auto simp: parse_transaction_def bindM_def tx_init_def split: sum.split prod.split)
  with m(2) show ?thesis by (auto simp: read_transactions_def bindM_def modifyM_def)
qed

theorem locators_never_constructed_witness:
  "\<exists>d. read_transactions ext_ref (locator_lines sample_user ''1,10.0.0.1,1,100'') [] = (Inr (), [d]) \<and> td_category d = 3"
  using locators_never_constructed [of sample_user "''1,10.0.0.1,1,100''" ext_ref "[]"]
  by (auto simp: user_ok_def server_ok_def plain_def)

end
