(* ===== verification/Oor.thy ===== *)
theory Oor
  imports Selection
begin

text \<open>
  \<open>oor.py\<close>: the datagrams with which the router asks for a mapping. The socket gives at most 26 bytes. The
  integers of \<open>struct.unpack\<close> have the byte order of the machine, the least significant byte first;
  \<open>netaddr.IPAddress\<close> of an integer and its text are parameters.
\<close>

section \<open>Reading the socket\<close>

text \<open>What \<open>recv\<close> does: a datagram, EAGAIN, or another error of the socket.\<close>

datatype reception = Datagram string | NoData | SocketError

type_synonym query = "int \<times> nat \<times> string"

definition unpack_le :: "nat \<Rightarrow> string \<Rightarrow> nat res" where
  "unpack_le n s = (if length s \<noteq> n then Inl StructError else Inr (be_val (rev s)))"

text \<open>\<open>int(s.encode('HEX'), 16)\<close>; the empty string is no number.\<close>

definition int_of_bytes :: "string \<Rightarrow> int res" where
  "int_of_bytes s = (if s = [] then Inl ValueError else Inr (int (be_val s)))"

definition read_nonce :: "string \<Rightarrow> int res" where
  "read_nonce s =
     bindE (unpack_le 4 (slice s 0 4)) (\<lambda>a. bindE (unpack_le 4 (slice s 4 8)) (\<lambda>b.
     int_of_bytes (zpad (be_bytes a) 4 @ zpad (be_bytes b) 4)))"

definition read_datagram :: "(int \<Rightarrow> ip res) \<Rightarrow> (ip \<Rightarrow> string) \<Rightarrow> string \<Rightarrow> query res" where
  "read_datagram A T s =
     bindE (read_nonce s) (\<lambda>nonce.
     bindE (unpack_le 2 (slice s 8 10)) (\<lambda>afi.
     bindE (if afi = 1 then int_of_bytes (slice s 10 14) else if afi = 2 then int_of_bytes (slice s 10 26) else Inl PyException) (\<lambda>n.
     bindE (A n) (\<lambda>a. Inr (nonce, afi, T a)))))"

text \<open>\<open>read_socket\<close> and \<open>get_query\<close>; after another error of the socket there is nothing to take apart.\<close>

definition get_query :: "(int \<Rightarrow> ip res) \<Rightarrow> (ip \<Rightarrow> string) \<Rightarrow> reception \<Rightarrow> query option res" where
  "get_query A T r =
     (case r of
        Datagram s \<Rightarrow> bindE (read_datagram A T (take 26 s)) (\<lambda>q. Inr (Some q))
      | NoData \<Rightarrow> Inr None
      | SocketError \<Rightarrow> Inl TypeError)"

section \<open>What is read\<close>

text \<open>A query as the router writes it: two words of the nonce, the family and the address.\<close>

definition le_bytes :: "nat \<Rightarrow> nat \<Rightarrow> string" where
  "le_bytes n v = rev (zpad (be_bytes v) n)"

definition query_bytes :: "nat \<Rightarrow> nat \<Rightarrow> nat \<Rightarrow> nat \<Rightarrow> string" where
  "query_bytes hi lo afi a =
     le_bytes 4 hi @ le_bytes 4 lo @ le_bytes 2 afi @ zpad (be_bytes a) (if afi = 1 then 4 else 16)"

lemma length_pad: "v < 256 ^ n \<Longrightarrow> length (zpad (be_bytes v) n) = n"
  using length_be_bytes_le [of v n] by (simp add: zpad_length)

lemma le_bytes_props [simp]: "v < 256 ^ n \<Longrightarrow> length (le_bytes n v) = n" "be_val (rev (le_bytes n v)) = v"
  by (simp_all add: le_bytes_def length_pad)

lemma be_val_append: "be_val (s @ t) = be_val s * 256 ^ length t + be_val t"
  by (induction t rule: rev_induct) (simp_all add: algebra_simps flip: append_assoc)

lemma zpad_4_not_Nil [simp]: "zpad x 4 \<noteq> []"
  using zpad_length [of x 4] by (cases "zpad x 4") auto

lemma read_nonce_run: "10 \<le> length s \<Longrightarrow> \<exists>v. read_nonce (take 26 s) = Inr v"
  by (auto simp: read_nonce_def unpack_le_def slice_def int_of_bytes_def min_def)



end
