(* ===== verification/Node.thy ===== *)
theory Node
  imports User ShareCache Oor
begin

text \<open>
  \<open>blockchaincba.py\<close>: the program of a node. The local variables of \<open>run\<close> are the record \<open>node\<close>; a
  variable that need not be assigned yet is an option. One pass of the main loop is \<open>loop_pass\<close>, the
  composition of one definition per \<open>try\<close> block, over what the process of the network, the sockets and
  the clock have delivered for it. An exception that leaves one of these blocks stops the node, so it is
  the result of the pass. Sending appends to \<open>nd_sent\<close>. The clock is read once per block of the pass, in
  whole seconds. Sleeping, logging and the files with measured delays are left out, but not the look-up of
  an owner that is an argument of a call of the logger.
\<close>

section \<open>Parameters and state\<close>

record node_config =
  EXT_TX_PER_LOOP :: nat
  LOOPS_PER_TX :: int
  START_TIME :: int
  BLOCK_TIME :: int
  TIMEOUT :: int
  DKG_TIMEOUT :: int

text \<open>\<open>ne_first\<close> is what the iteration over a \<open>netaddr.IPSet\<close> yields first; \<open>ne_keys\<close> are the addresses
  of the keystore with their private keys; \<open>ne_ip_text\<close> is \<open>str\<close> of a \<open>netaddr.IPAddress\<close>.\<close>

record ('b, 'i, 'p) nenv =
  ne_V :: "('b, 'i, 'p) venv"
  ne_C :: cparams
  ne_conf :: node_config
  ne_limit :: nat
  ne_first :: "'i \<Rightarrow> ipnet option"
  ne_keys :: "(string \<times> pyarg) list"
  ne_start_time :: int
  ne_ip_text :: "ip \<Rightarrow> string"

datatype sent =
    SentShare share | SentTx tx | SentBlock block | SentDkgShare dkg_share
  | SentBlocks "block list" | SentPool "tx list" | SentReply string

record ('b, 'p) node =
  nd_service :: "('b, 'p) service"
  nd_consensus :: consensus
  nd_cache :: share_cache
  nd_user :: "transaction_data list"
  nd_isMaster :: bool
  nd_timestamp :: nat
  nd_block_num :: nat
  nd_last_random_no :: string
  nd_count :: nat
  nd_dkg_on :: bool
  nd_exit_from_dkg :: bool
  nd_in_dkg_group :: bool
  nd_my_dkgIDs :: "string list"
  nd_create_shares :: "bool option"
  nd_signing_addr :: "string option"
  nd_signer :: "ipnet option option"
  nd_from_bootstrap :: bool
  nd_user_tx_count :: int
  nd_sent :: "sent list"

definition on_service :: "(('b, 'p) service, 'a) M \<Rightarrow> (('b, 'p) node, 'a) M" where
  "on_service m = zoomM nd_service (\<lambda>x n. n\<lparr>nd_service := x\<rparr>) m"

definition on_consensus :: "(consensus, 'a) M \<Rightarrow> (('b, 'p) node, 'a) M" where
  "on_consensus m = zoomM nd_consensus (\<lambda>x n. n\<lparr>nd_consensus := x\<rparr>) m"

definition send :: "sent \<Rightarrow> (('b, 'p) node, unit) M" where
  "send x = modifyM (\<lambda>n. n\<lparr>nd_sent := nd_sent n @ [x]\<rparr>)"

text \<open>Reading a variable that was not assigned raises UnboundLocalError, a NameError.\<close>

definition bound :: "'a option \<Rightarrow> ('s, 'a) M" where
  "bound x = (case x of None \<Rightarrow> raise NameError | Some a \<Rightarrow> ret a)"

definition node_addresses :: "('b, 'i, 'p) nenv \<Rightarrow> string list" where
  "node_addresses N = map fst (ne_keys N)"

section \<open>Helpers\<close>

definition net_of_ip :: "ip \<Rightarrow> ipnet" where
  "net_of_ip a = (case a of (ver, n) \<Rightarrow> IPNet ver n (ip_bits ver))"

text \<open>\<open>chain.get_addr_from_ip(ip)\<close>; the index cannot look for None.\<close>

definition owner_of :: "('b, 'i, 'p) nenv \<Rightarrow> ipnet option \<Rightarrow> (('b, 'p) node, string) M" where
  "owner_of N ip = (case ip of None \<Rightarrow> raise TypeError | Some a \<Rightarrow> on_service (get_addr_from_ip (ne_V N) a))"

definition extract_first_ip_from_address ::
  "('b, 'i, 'p) nenv \<Rightarrow> string \<Rightarrow> (('b, 'p) service, ipnet option) M" where
  "extract_first_ip_from_address N address =
     bindM (get_own_ips (ne_V N) (PyStr address)) (\<lambda>ips. ret (ne_first N ips))"

definition find_me_in_dkg_group :: "string list \<Rightarrow> string list \<Rightarrow> bool \<times> string list" where
  "find_me_in_dkg_group current_group addresses =
     (let my_dkg_ids = filter (\<lambda>a. a \<in> set current_group) addresses in (my_dkg_ids \<noteq> [], my_dkg_ids))"

text \<open>\<open>chain.get_head_block().header\<close>.\<close>

definition head_header :: "('b, 'i, 'p) nenv \<Rightarrow> (('b, 'p) node, header) M" where
  "head_header N =
     bindM (on_service (on_chain (get_head_block (ve_C (ne_V N))))) (\<lambda>head.
     case head of None \<Rightarrow> raise AttributeError | Some b \<Rightarrow> ret (b_header b))"

definition read_head :: "('b, 'i, 'p) nenv \<Rightarrow> (('b, 'p) node, unit) M" where
  "read_head N =
     bindM (head_header N) (\<lambda>h.
     modifyM (\<lambda>n. n\<lparr>nd_timestamp := h_timestamp h, nd_block_num := h_number h\<rparr>))"

definition expected_message :: "('b, 'p) node \<Rightarrow> string" where
  "expected_message n = share_message (nd_last_random_no n) (nd_block_num n) (nd_count n)"

text \<open>The shares that a member of the group signs after a block.\<close>

definition renew_shares :: "('b, 'i, 'p) nenv \<Rightarrow> int \<Rightarrow> (('b, 'p) node, unit) M" where
  "renew_shares N now =
     bindM (gets (\<lambda>n. n)) (\<lambda>n.
     if \<not> nd_in_dkg_group n then ret ()
     else
       bindM (bound (nd_create_shares n)) (\<lambda>create.
       if \<not> create then ret ()
       else
         bindM (modifyM (\<lambda>n. n\<lparr>nd_count := 0\<rparr>)) (\<lambda>_.
         bindM (on_consensus (create_shares (ne_C N) (nd_last_random_no n) (nd_block_num n) 0)) (\<lambda>new_shares.
         forM new_shares (\<lambda>sh.
           bindM (send (SentShare sh)) (\<lambda>_.
           modifyM (\<lambda>n. n\<lparr>nd_cache := store_bls now now sh (nd_cache n)\<rparr>)))))))"

section \<open>Blocks from the network\<close>

definition draw_signer :: "('b, 'i, 'p) nenv \<Rightarrow> (('b, 'p) node, unit) M" where
  "draw_signer N =
     bindM (gets nd_signing_addr) (\<lambda>a'. bindM (bound a') (\<lambda>a.
     bindM (on_service (extract_first_ip_from_address N a)) (\<lambda>ip.
     modifyM (\<lambda>n. n\<lparr>nd_signer := Some ip\<rparr>))))"

text \<open>After a generation of keys the signer is the one drawn when it was started.\<close>

definition override_signer :: "('b, 'i, 'p) nenv \<Rightarrow> block \<Rightarrow> (('b, 'p) node, unit) M" where
  "override_signer N b =
     bindM (gets (\<lambda>n. n)) (\<lambda>n.
     if nd_in_dkg_group n \<and> nd_exit_from_dkg n
     then bindM (modifyM (\<lambda>n. n\<lparr>nd_exit_from_dkg := False\<rparr>)) (\<lambda>_.
          if h_group_pubkey (b_header b) \<noteq> cs_group_key (nd_consensus n) then raise PyException else draw_signer N)
     else if nd_dkg_on n
     then bindM (draw_signer N) (\<lambda>_. modifyM (\<lambda>n. n\<lparr>
            nd_consensus := set_current_group_key (h_group_pubkey (b_header b)) (nd_consensus n), nd_dkg_on := False\<rparr>))
     else ret ())"

definition check_block :: "('b, 'i, 'p) nenv \<Rightarrow> block \<Rightarrow> (('b, 'p) node, bool) M" where
  "check_block N b =
     bindM (modifyM (\<lambda>n. n\<lparr>nd_signer := Some (map_option net_of_ip (get_next_signer (h_count (b_header b)) (nd_consensus n)))\<rparr>)) (\<lambda>_.
     bindM (gets (\<lambda>n. verify_group_sig (ne_C N) (expected_message n) (h_group_sig (b_header b))
       (nd_exit_from_dkg n \<or> nd_dkg_on n) (nd_consensus n))) (\<lambda>ok.
     if \<not> ok then raise BlsInvalidGroupSignature
     else
       bindM (override_signer N b) (\<lambda>_.
       bindM (gets nd_signer) (\<lambda>s. bindM (bound s) (\<lambda>signer.
       bindM (owner_of N signer) (\<lambda>_.
       case signer of
         None \<Rightarrow> raise TypeError
       | Some ip \<Rightarrow> on_service (service_verify_block_signature (ne_V N) b ip)))))))"

text \<open>\<open>from_bootstrap\<close>: the random number and the group signature are taken from the block.\<close>

definition leave_bootstrap :: "block \<Rightarrow> ('b, 'p) node \<Rightarrow> ('b, 'p) node" where
  "leave_bootstrap b n =
     (if nd_from_bootstrap n
      then n\<lparr>nd_from_bootstrap := False,
             nd_consensus := bootstrap_only_set_group_sig_manual (h_group_sig (b_header b))
               (bootstrap_only_set_random_no_manual (nd_last_random_no n) (nd_consensus n))\<rparr>
      else n)"

definition accept_block :: "('b, 'i, 'p) nenv \<Rightarrow> nat \<Rightarrow> block \<Rightarrow> (('b, 'p) node, unit) M" where
  "accept_block N now b =
     bindM (on_service (service_add_block (ne_limit N) (ne_V N) now b)) (\<lambda>_.
     bindM (read_head N) (\<lambda>_.
     bindM (modifyM (\<lambda>n. n\<lparr>nd_last_random_no := hex_encode (h_random_number (b_header b))\<rparr>)) (\<lambda>_.
     bindM (modifyM (leave_bootstrap b)) (\<lambda>_.
     bindM (gets nd_block_num) (\<lambda>num.
     bindM (on_consensus (calculate_next_signer (ne_C N) num)) (\<lambda>_.
     bindM (modifyM (\<lambda>n. n\<lparr>nd_consensus := reset_bls (nd_consensus n)\<rparr>)) (\<lambda>_.
     renew_shares N (int now))))))))"

definition refused :: "py_error \<Rightarrow> bool" where
  "refused e \<longleftrightarrow> is_a e UnsignedBlock \<or> is_a e InvalidBlockSigner \<or> is_a e BlsInvalidGroupSignature"

definition process_block :: "('b, 'i, 'p) nenv \<Rightarrow> nat \<Rightarrow> block \<Rightarrow> (('b, 'p) node, unit) M" where
  "process_block N now b =
     bindM (catchM (check_block N b) refused (\<lambda>_. ret False)) (\<lambda>res.
     if res then accept_block N now b else ret ())"

definition process_blocks :: "('b, 'i, 'p) nenv \<Rightarrow> nat \<Rightarrow> block list \<Rightarrow> (('b, 'p) node, unit) M" where
  "process_blocks N now bs = forM bs (process_block N now)"

section \<open>Transactions from the network\<close>

definition process_tx :: "('b, 'i, 'p) nenv \<Rightarrow> tx \<Rightarrow> (('b, 'p) node, unit) M" where
  "process_tx N t =
     bindM (on_service (tx_in_chain (ne_V N) t)) (\<lambda>known.
     bindM (gets (\<lambda>n. in_pool (ve_E (ne_V N)) t (sv_pool (nd_service n)))) (\<lambda>pending.
     if known \<or> pending then ret ()
     else
       bindM (attempt (on_service (add_pending_transaction (ne_V N) t))) (\<lambda>added.
       if added = None then ret () else send (SentTx t))))"

definition process_txs :: "('b, 'i, 'p) nenv \<Rightarrow> tx list \<Rightarrow> (('b, 'p) node, unit) M" where
  "process_txs N ts = forM (take (max 1 (EXT_TX_PER_LOOP (ne_conf N))) ts) (process_tx N)"

section \<open>Signing the next block\<close>

definition choose_signer :: "('b, 'i, 'p) nenv \<Rightarrow> (('b, 'p) node, unit) M" where
  "choose_signer N =
     bindM (gets (\<lambda>n. map_option net_of_ip (get_next_signer (nd_count n) (nd_consensus n)))) (\<lambda>signer.
     bindM (modifyM (\<lambda>n. n\<lparr>nd_signer := Some signer\<rparr>)) (\<lambda>_.
     bindM (owner_of N signer) (\<lambda>a. modifyM (\<lambda>n. n\<lparr>nd_signing_addr := Some a\<rparr>))))"

definition signed_block :: "('b, 'i, 'p) nenv \<Rightarrow> string \<Rightarrow> block \<Rightarrow> block res" where
  "signed_block N a b =
     bindE (lookupE (ne_keys N) a) (\<lambda>key. case block_sign (ve_E (ne_V N)) key None b of (Inl e, _) \<Rightarrow> Inl e | (Inr _, b') \<Rightarrow> Inr b')"

text \<open>The node signs and announces a block; that \<open>add_block\<close> may have refused it is not looked at.\<close>

definition make_block :: "('b, 'i, 'p) nenv \<Rightarrow> nat \<Rightarrow> string \<Rightarrow> (('b, 'p) node, unit) M" where
  "make_block N now a =
     bindM (modifyM (\<lambda>n. n\<lparr>nd_exit_from_dkg := False\<rparr>)) (\<lambda>_.
     bindM (gets nd_signer) (\<lambda>s. bindM (bound s) (\<lambda>_.
     bindM (gets (\<lambda>n. n)) (\<lambda>n.
     let c = nd_consensus n
     in bindM (on_service (create_block (ne_limit N) (ne_V N) now (PyStr a) (cs_random_no c) (Some (cs_group_key c)) (cs_group_sig c) (nd_count n))) (\<lambda>b.
        bindM (liftE (signed_block N a b)) (\<lambda>b'.
        bindM (on_service (service_add_block (ne_limit N) (ne_V N) now b')) (\<lambda>_.
        bindM (send (SentBlock b')) (\<lambda>_.
        bindM (modifyM (\<lambda>n. n\<lparr>nd_count := 0, nd_block_num := h_number (b_header b')\<rparr>)) (\<lambda>_.
        bindM (on_consensus (calculate_next_signer (ne_C N) (h_number (b_header b')))) (\<lambda>_.
        bindM (modifyM (\<lambda>n. n\<lparr>nd_last_random_no := cs_random_no (nd_consensus n), nd_consensus := reset_bls (nd_consensus n)\<rparr>)) (\<lambda>_.
        renew_shares N (int now))))))))))))"

definition sign_block :: "('b, 'i, 'p) nenv \<Rightarrow> nat \<Rightarrow> (('b, 'p) node, unit) M" where
  "sign_block N now =
     bindM (read_head N) (\<lambda>_.
     bindM (gets (\<lambda>n. n)) (\<lambda>n.
     if int now - int (nd_timestamp n) < BLOCK_TIME (ne_conf N) then ret ()
     else if int now - int (nd_timestamp n) \<ge> TIMEOUT (ne_conf N) then raise PyException
     else if (shares_ready (nd_consensus n) \<or> nd_exit_from_dkg n) \<and> \<not> nd_dkg_on n
     then
       bindM (if nd_exit_from_dkg n then ret () else choose_signer N) (\<lambda>_.
       bindM (gets nd_signing_addr) (\<lambda>a'. bindM (bound a') (\<lambda>a.
       if a \<in> set (node_addresses N) then make_block N now a else ret ())))
     else ret ()))"

section \<open>Transactions of the user\<close>

definition own_tx :: "('b, 'i, 'p) nenv \<Rightarrow> nat \<Rightarrow> transaction_data \<Rightarrow> (('b, 'p) node, unit) M" where
  "own_tx N now d =
     bindM (case td_from d of
              PyStr a \<Rightarrow> (case map_of (ne_keys N) a of None \<Rightarrow> raise PyException | Some key \<Rightarrow> ret key)
            | PyInt _ \<Rightarrow> raise PyException) (\<lambda>key.
     bindM (on_service (parse_transaction (ne_V N) now d)) (\<lambda>t.
     case sign (ve_E (ne_V N)) key None t of
       (Inl e, _) \<Rightarrow> raise e
     | (Inr _, t') \<Rightarrow>
         bindM (on_service (add_pending_transaction (ne_V N) t')) (\<lambda>_. send (SentTx t'))))"

text \<open>One transaction every \<open>LOOPS_PER_TX\<close> passes; an exception gives it up.\<close>

definition user_txs :: "('b, 'i, 'p) nenv \<Rightarrow> nat \<Rightarrow> (('b, 'p) node, unit) M" where
  "user_txs N now =
     bindM (gets (\<lambda>n. n)) (\<lambda>n.
     if (int now - ne_start_time N > START_TIME (ne_conf N) \<or> nd_isMaster n) \<and> \<not> nd_dkg_on n
     then
       (if nd_user_tx_count n = LOOPS_PER_TX (ne_conf N) - 1
        then
          bindM (zoomM nd_user (\<lambda>x n. n\<lparr>nd_user := x\<rparr>) user_get_tx) (\<lambda>tx_int.
          case tx_int of
            None \<Rightarrow> ret ()
          | Some d \<Rightarrow>
              bindM (modifyM (\<lambda>n. n\<lparr>nd_user_tx_count := 0\<rparr>)) (\<lambda>_.
              bindM (attempt (own_tx N now d)) (\<lambda>_. ret ())))
        else modifyM (\<lambda>n. n\<lparr>nd_user_tx_count := nd_user_tx_count n + 1\<rparr>))
     else ret ())"

section \<open>Queries\<close>

text \<open>\<open>oor.send(None)\<close> raises TypeError: a socket sends strings only.\<close>

definition answer_oor :: "('b, 'i, 'p) nenv \<Rightarrow> reception \<Rightarrow> (('b, 'p) node, unit) M" where
  "answer_oor N r =
     bindM (liftE (get_query (cp_ipaddress (ne_C N)) (ne_ip_text N) r)) (\<lambda>query.
     case query of
       None \<Rightarrow> ret ()
     | Some (nonce, afi, address) \<Rightarrow>
         bindM (on_service (query_eid (ne_V N) address nonce)) (\<lambda>info.
         case info of None \<Rightarrow> raise TypeError | Some s \<Rightarrow> send (SentReply s)))"

definition answer_blocks :: "('b, 'i, 'p) nenv \<Rightarrow> nat list option \<Rightarrow> (('b, 'p) node, unit) M" where
  "answer_blocks N block_numbers =
     (case block_numbers of
        None \<Rightarrow> ret ()
      | Some ns \<Rightarrow>
          bindM (mapM (\<lambda>k. on_service (on_chain (get_block_by_number (ve_C (ne_V N)) k))) ns) (\<lambda>bs.
          send (SentBlocks bs)))"

definition answer_pool :: "bool \<Rightarrow> (('b, 'p) node, unit) M" where
  "answer_pool asked = (if asked then bindM (gets (\<lambda>n. sv_pool (nd_service n))) (\<lambda>p. send (SentPool p)) else ret ())"

section \<open>Shares\<close>

definition receive_share :: "('b, 'i, 'p) nenv \<Rightarrow> int \<Rightarrow> share \<Rightarrow> (('b, 'p) node, unit) M" where
  "receive_share N now sh =
     bindM (gets (\<lambda>n. n)) (\<lambda>n.
     if in_bls_cache sh (nd_cache n) then ret ()
     else
       bindM (if sh_block_number sh = nd_block_num n
              then bindM (on_consensus (store_share (ne_C N) sh (expected_message n) (nd_block_num n))) (\<lambda>_. ret ())
              else if sh_block_number sh > nd_block_num n
              then modifyM (\<lambda>n. n\<lparr>nd_cache := store_future_bls sh (nd_cache n)\<rparr>)
              else ret ()) (\<lambda>_.
       bindM (modifyM (\<lambda>n. n\<lparr>nd_cache := store_bls now now sh (nd_cache n)\<rparr>)) (\<lambda>_.
       send (SentShare sh))))"

definition drain_shares :: "('b, 'i, 'p) nenv \<Rightarrow> (('b, 'p) node, unit) M" where
  "drain_shares N n =
     (case drain_future (ne_C N) (expected_message n) (nd_block_num n) (nd_cache n, nd_consensus n) of
        (r, k, c) \<Rightarrow> (r, n\<lparr>nd_cache := k, nd_consensus := c\<rparr>))"

text \<open>While keys are generated the first share is taken from the network all the same, and lost.\<close>

definition process_shares :: "('b, 'i, 'p) nenv \<Rightarrow> int \<Rightarrow> share list \<Rightarrow> (('b, 'p) node, unit) M" where
  "process_shares N now shs =
     bindM (gets nd_dkg_on) (\<lambda>on.
     bindM (if on then ret () else forM shs (receive_share N now)) (\<lambda>_. drain_shares N))"

definition check_lag :: "('b, 'i, 'p) nenv \<Rightarrow> int \<Rightarrow> ('b, 'p) node \<Rightarrow> ('b, 'p) node" where
  "check_lag N now n =
     (let elapsed = now - int (nd_timestamp n); block_time = BLOCK_TIME (ne_conf N)
      in if 4 * elapsed > 3 * block_time \<and> \<not> shares_ready (nd_consensus n) \<and>
            100 * elapsed > 99 * block_time \<and> \<not> nd_isMaster n
         then n\<lparr>nd_from_bootstrap := True\<rparr> else n)"

section \<open>The generation of keys\<close>

text \<open>\<open>drawn\<close> are the random polynomials of the node's identities.\<close>

definition finish_round :: "(('b, 'p) node, bool) M" where
  "finish_round =
     bindM (gets (\<lambda>n. all_node_dkgs_finished (nd_consensus n))) (\<lambda>f. bindM (liftE f) (\<lambda>finished.
     if finished then bindM (modifyM (\<lambda>n. n\<lparr>nd_dkg_on := False, nd_exit_from_dkg := True\<rparr>)) (\<lambda>_. ret True)
     else ret False))"

definition trigger_dkg :: "('b, 'i, 'p) nenv \<Rightarrow> int \<Rightarrow> (string \<Rightarrow> (string \<times> string) list) \<Rightarrow> (('b, 'p) node, unit) M" where
  "trigger_dkg N now drawn =
     bindM (gets (\<lambda>n. n)) (\<lambda>n.
     if Suc (nd_block_num n) mod DKG_RENEWAL_INTERVAL (ne_V N) = 0 \<and> \<not> nd_dkg_on n \<and> \<not> nd_exit_from_dkg n \<and>
        shares_ready (nd_consensus n)
     then
       bindM (modifyM (\<lambda>n. n\<lparr>nd_dkg_on := True, nd_create_shares := Some True\<rparr>)) (\<lambda>_.
       bindM (on_service (get_current_dkg_group (ne_V N))) (\<lambda>dkg_group.
       let (in_group, ids) = find_me_in_dkg_group dkg_group (node_addresses N)
       in bindM (modifyM (\<lambda>n. n\<lparr>nd_in_dkg_group := in_group, nd_my_dkgIDs := ids\<rparr>)) (\<lambda>_.
          bindM (if in_group
                 then bindM (on_consensus (new_dkg (ne_C N) drawn dkg_group ids)) (\<lambda>to_send.
                      bindM (forM to_send (\<lambda>d.
                        bindM (modifyM (\<lambda>n. n\<lparr>nd_cache := store_dkg now now d (nd_cache n)\<rparr>)) (\<lambda>_.
                        send (SentDkgShare d)))) (\<lambda>_.
                      bindM finish_round (\<lambda>_. ret ())))
                 else on_consensus (store_ids (ne_C N) dkg_group)) (\<lambda>_.
          bindM (gets nd_block_num) (\<lambda>num.
          bindM (on_service (on_chain (get_block_by_number (ve_C (ne_V N)) num))) (\<lambda>b.
          bindM (liftE (compress_random_no_to_int (hex_encode (h_random_number (b_header b))) 16)) (\<lambda>r.
          if dkg_group = [] then raise ZeroDivisionError
          else modifyM (\<lambda>n. n\<lparr>nd_signing_addr := Some (dkg_group ! nat (r mod int (length dkg_group)))\<rparr>))))))))
     else ret ())"

fun collect_dkg_shares :: "('b, 'i, 'p) nenv \<Rightarrow> int \<Rightarrow> dkg_share list \<Rightarrow> (('b, 'p) node, unit) M" where
  "collect_dkg_shares N now [] = ret ()"
| "collect_dkg_shares N now (d # ds) =
     bindM (gets (\<lambda>n. n)) (\<lambda>n.
     if \<not> nd_dkg_on n then ret ()
     else
       bindM (if in_dkg_cache d (nd_cache n) then ret ()
              else
                bindM (if ds_to d \<in> set (nd_my_dkgIDs n)
                       then bindM (on_consensus (verify_dkg_contribution (ne_C N) d)) (\<lambda>_.
                            bindM finish_round (\<lambda>finished.
                            if \<not> finished \<and> now - int (nd_timestamp n) \<ge> DKG_TIMEOUT (ne_conf N)
                            then raise PyException else ret ()))
                       else send (SentDkgShare d)) (\<lambda>_.
                modifyM (\<lambda>n. n\<lparr>nd_cache := store_dkg now now d (nd_cache n)\<rparr>))) (\<lambda>_.
       collect_dkg_shares N now ds))"

definition collect_dkg :: "('b, 'i, 'p) nenv \<Rightarrow> int \<Rightarrow> dkg_share list \<Rightarrow> (('b, 'p) node, unit) M" where
  "collect_dkg N now ds =
     bindM (gets (\<lambda>n. n)) (\<lambda>n.
     if nd_in_dkg_group n then collect_dkg_shares N now ds
     else if nd_dkg_on n \<and> now - int (nd_timestamp n) \<ge> DKG_TIMEOUT (ne_conf N) then raise PyException
     else ret ())"

section \<open>The main loop\<close>

text \<open>What has arrived when a pass begins, and the readings of the clock in it.\<close>

record arrivals =
  ar_now :: nat
  ar_blocks :: "block list"
  ar_txs :: "tx list"
  ar_query :: reception
  ar_numbers :: "nat list option"
  ar_pool :: bool
  ar_shares :: "share list"
  ar_drawn :: "string \<Rightarrow> (string \<times> string) list"
  ar_dkg :: "dkg_share list"

definition loop_pass :: "('b, 'i, 'p) nenv \<Rightarrow> arrivals \<Rightarrow> (('b, 'p) node, unit) M" where
  "loop_pass N x =
     bindM (process_blocks N (ar_now x) (ar_blocks x)) (\<lambda>_.
     bindM (process_txs N (ar_txs x)) (\<lambda>_.
     bindM (sign_block N (ar_now x)) (\<lambda>_.
     bindM (user_txs N (ar_now x)) (\<lambda>_.
     bindM (answer_oor N (ar_query x)) (\<lambda>_.
     bindM (answer_blocks N (ar_numbers x)) (\<lambda>_.
     bindM (answer_pool (ar_pool x)) (\<lambda>_.
     bindM (process_shares N (int (ar_now x)) (ar_shares x)) (\<lambda>_.
     bindM (modifyM (check_lag N (int (ar_now x)))) (\<lambda>_.
     bindM (trigger_dkg N (int (ar_now x)) (ar_drawn x)) (\<lambda>_.
     collect_dkg N (int (ar_now x)) (ar_dkg x)))))))))))"

section \<open>Starting\<close>

text \<open>The blocks that are missing when the node starts. Here an invalid group signature is not caught
  and stops the node; the signer of a block with a new key is drawn from the group.\<close>

definition bootstrap_signer :: "('b, 'i, 'p) nenv \<Rightarrow> block \<Rightarrow> (('b, 'p) node, ipnet option) M" where
  "bootstrap_signer N b =
     bindM (gets (\<lambda>n. n)) (\<lambda>n.
     if h_number (b_header b) mod DKG_RENEWAL_INTERVAL (ne_V N) = 0
     then
       bindM (on_service (get_current_dkg_group (ne_V N))) (\<lambda>dkg_group.
       bindM (liftE (compress_random_no_to_int (nd_last_random_no n) 16)) (\<lambda>r.
       if dkg_group = [] then raise ZeroDivisionError
       else
         bindM (on_service (extract_first_ip_from_address N (dkg_group ! nat (r mod int (length dkg_group))))) (\<lambda>signer.
         bindM (modifyM (\<lambda>n. n\<lparr>nd_consensus := set_current_group_key (h_group_pubkey (b_header b)) (nd_consensus n)\<rparr>)) (\<lambda>_.
         ret signer))))
     else ret (map_option net_of_ip (get_next_signer (nd_count n) (nd_consensus n))))"

definition check_bootstrap_block :: "('b, 'i, 'p) nenv \<Rightarrow> block \<Rightarrow> (('b, 'p) node, bool) M" where
  "check_bootstrap_block N b =
     bindM (bootstrap_signer N b) (\<lambda>signer.
     bindM (gets (\<lambda>n. verify_group_sig (ne_C N) (expected_message n) (h_group_sig (b_header b))
       (h_number (b_header b) mod DKG_RENEWAL_INTERVAL (ne_V N) = 0) (nd_consensus n))) (\<lambda>ok.
     if \<not> ok then raise BlsInvalidGroupSignature
     else if hex_encode (h_random_number (b_header b)) \<noteq> cp_sha (ne_C N) (h_group_sig (b_header b)) then raise PyException
     else
       bindM (owner_of N signer) (\<lambda>_.
       case signer of
         None \<Rightarrow> raise TypeError
       | Some ip \<Rightarrow> on_service (service_verify_block_signature (ne_V N) b ip))))"

definition bootstrap_block :: "('b, 'i, 'p) nenv \<Rightarrow> nat \<Rightarrow> block \<Rightarrow> (('b, 'p) node, unit) M" where
  "bootstrap_block N now b =
     bindM (catchM (check_bootstrap_block N b) (\<lambda>e. is_a e UnsignedBlock \<or> is_a e InvalidBlockSigner) (\<lambda>_. ret False)) (\<lambda>res.
     if \<not> res then ret ()
     else
       bindM (on_service (service_add_block (ne_limit N) (ne_V N) now b)) (\<lambda>_.
       bindM (modifyM (\<lambda>n. n\<lparr>nd_last_random_no := hex_encode (h_random_number (b_header b)), nd_block_num := h_number (b_header b),
         nd_consensus := bootstrap_only_set_group_sig_manual (h_group_sig (b_header b))
           (bootstrap_only_set_random_no_manual (hex_encode (h_random_number (b_header b))) (nd_consensus n))\<rparr>)) (\<lambda>_.
       on_consensus (calculate_next_signer (ne_C N) (h_number (b_header b))))))"

definition perform_bootstrap :: "('b, 'i, 'p) nenv \<Rightarrow> nat \<Rightarrow> block list \<Rightarrow> (('b, 'p) node, unit) M" where
  "perform_bootstrap N now bs = forM bs (bootstrap_block N now)"

text \<open>The file of the master node: an address and a key in each line; without the file the node is not
  the master.\<close>

definition master_key :: "ext \<Rightarrow> string \<Rightarrow> (string \<times> string) res" where
  "master_key E line =
     (let content = split_on (CHR '' '') line
      in bindE (py_nth content 0) (\<lambda>a.
         bindE (normalize_address E (PyStr a) False) (\<lambda>oid.
         bindE (py_nth content 1) (\<lambda>k. Inr (oid, rev (dropWhile (\<lambda>c. c = CHR 0x0A) (rev k)))))))"

definition load_master_private_keys ::
  "('b, 'i, 'p) nenv \<Rightarrow> string list option \<Rightarrow> string list \<Rightarrow> (consensus, bool) M" where
  "load_master_private_keys N file my_dkgIDs =
     (case file of
        None \<Rightarrow> ret False
      | Some lines \<Rightarrow>
          bindM (liftE (mapE (master_key (ve_E (ne_V N))) lines)) (\<lambda>ks.
          bindM (bootstrap_master_add_secret_keys_manual (ne_C N) (foldl (\<lambda>d (k, v). AList.update k v d) [] ks) my_dkgIDs) (\<lambda>_.
          ret True)))"

text \<open>The consensus of the node; a member that is not the master has no keys yet and creates no shares.\<close>

definition init_consensus ::
  "('b, 'i, 'p) nenv \<Rightarrow> string list option \<Rightarrow> header \<Rightarrow> string \<Rightarrow> string list \<Rightarrow> (('b, 'p) node, unit) M" where
  "init_consensus N file h group_key dkg_group =
     (let (in_group, ids) = find_me_in_dkg_group dkg_group (node_addresses N); rn = hex_encode (h_random_number h)
      in bindM (liftE (consensus_init (ne_C N) dkg_group ids rn group_key (h_number h) (h_group_sig h) group_key)) (\<lambda>c.
         bindM (modifyM (\<lambda>n. n\<lparr>nd_consensus := c, nd_last_random_no := rn, nd_in_dkg_group := in_group, nd_my_dkgIDs := ids\<rparr>)) (\<lambda>_.
         bindM (on_consensus (load_master_private_keys N file ids)) (\<lambda>master.
         bindM (modifyM (\<lambda>n. n\<lparr>nd_isMaster := master\<rparr>)) (\<lambda>_.
         bindM (if \<not> in_group then on_consensus (store_ids (ne_C N) dkg_group)
                else if \<not> master then modifyM (\<lambda>n. n\<lparr>nd_create_shares := Some False\<rparr>)
                else ret ()) (\<lambda>_.
         if master
         then bindM (on_consensus (create_shares (ne_C N) rn (h_number h) 0)) (\<lambda>_.
              modifyM (\<lambda>n. n\<lparr>nd_create_shares := Some True\<rparr>))
         else ret ()))))))"

text \<open>The node once its modules exist, before the missing blocks are fetched.\<close>

definition start_consensus :: "('b, 'i, 'p) nenv \<Rightarrow> string list option \<Rightarrow> (('b, 'p) node, unit) M" where
  "start_consensus N file =
     bindM (read_head N) (\<lambda>_.
     bindM (head_header N) (\<lambda>h.
     bindM (on_service (get_current_group_key (ne_V N))) (\<lambda>group_key.
     bindM (forM (node_addresses N) (\<lambda>a. bindM (on_service (get_own_ips (ne_V N) (PyStr a))) (\<lambda>_. ret ()))) (\<lambda>_.
     bindM (on_service (get_current_dkg_group (ne_V N))) (\<lambda>dkg_group.
     init_consensus N file h group_key dkg_group)))))"

definition start_node ::
  "('b, 'i, 'p) nenv \<Rightarrow> nat \<Rightarrow> string list \<Rightarrow> string list option \<Rightarrow> block list \<Rightarrow> (('b, 'p) node, unit) M" where
  "start_node N now user_file master_file missing =
     bindM (zoomM nd_user (\<lambda>x n. n\<lparr>nd_user := x\<rparr>) (read_transactions (ve_E (ne_V N)) user_file)) (\<lambda>_.
     bindM (start_consensus N master_file) (\<lambda>_.
     bindM (perform_bootstrap N now missing) (\<lambda>_.
     bindM (head_header N) (\<lambda>h.
     bindM (on_service (get_current_group_key (ne_V N))) (\<lambda>_.
     modifyM (\<lambda>n. n\<lparr>nd_timestamp := h_timestamp h, nd_last_random_no := hex_encode (h_random_number h),
       nd_from_bootstrap := True\<rparr>))))))"

text \<open>The variables before: only the chain exists; the consensus is assigned by \<open>start_consensus\<close> before
  it is read.\<close>

definition new_node :: "('b, 'p) service \<Rightarrow> consensus \<Rightarrow> int \<Rightarrow> ('b, 'p) node" where
  "new_node sv c now = \<lparr>nd_service = sv, nd_consensus = c, nd_cache = share_cache_init now, nd_user = [], nd_isMaster = False,
     nd_timestamp = 0, nd_block_num = 0, nd_last_random_no = [], nd_count = 0, nd_dkg_on = False, nd_exit_from_dkg = False,
     nd_in_dkg_group = False, nd_my_dkgIDs = [], nd_create_shares = None, nd_signing_addr = None, nd_signer = None,
     nd_from_bootstrap = False, nd_user_tx_count = 0, nd_sent = []\<rparr>"

text \<open>The node after its start and any number of passes.\<close>

fun run_passes :: "('b, 'i, 'p) nenv \<Rightarrow> arrivals list \<Rightarrow> (('b, 'p) node, unit) M" where
  "run_passes N [] = ret ()"
| "run_passes N (x # xs) = bindM (loop_pass N x) (\<lambda>_. run_passes N xs)"

definition run_node ::
  "('b, 'i, 'p) nenv \<Rightarrow> nat \<Rightarrow> string list \<Rightarrow> string list option \<Rightarrow> block list \<Rightarrow> arrivals list \<Rightarrow> (('b, 'p) node, unit) M" where
  "run_node N now user_file master_file missing xs =
     bindM (start_node N now user_file master_file missing) (\<lambda>_. run_passes N xs)"

end
