(* ===== verification/NodeCorrect.thy ===== *)
theory NodeCorrect
  imports Node ServiceCorrect UserCorrect
begin

text \<open>
  What the main loop guarantees: the variables that decide who signs and whether keys are generated stay
  consistent.
\<close>

section \<open>The variables of the loop\<close>

text \<open>A node generates keys, or waits for the block that follows, but not both; only a member of the group
  waits; while it does either the signer is drawn; a member knows whether it creates shares.\<close>

definition node_ok :: "('b, 'p) node \<Rightarrow> bool" where
  "node_ok n \<longleftrightarrow> \<not> (nd_dkg_on n \<and> nd_exit_from_dkg n) \<and> (nd_exit_from_dkg n \<longrightarrow> nd_in_dkg_group n) \<and>
     (nd_dkg_on n \<or> nd_exit_from_dkg n \<longrightarrow> nd_signing_addr n \<noteq> None) \<and> (nd_in_dkg_group n \<longrightarrow> nd_create_shares n \<noteq> None)"

definition flags :: "('b, 'p) node \<Rightarrow> bool \<times> bool \<times> bool \<times> string option \<times> bool option" where
  "flags n = (nd_dkg_on n, nd_exit_from_dkg n, nd_in_dkg_group n, nd_signing_addr n, nd_create_shares n)"

lemma node_ok_flags: "flags n' = flags n \<Longrightarrow> node_ok n' = node_ok n"
  by (simp add: node_ok_def flags_def)

abbreviation stays :: "(('b, 'p) node, 'a) M \<Rightarrow> bool" where
  "stays m \<equiv> preserves node_ok m"

text \<open>The same for the computations that hold the invariant only when they return.\<close>

definition leads :: "(('b, 'p) node, 'a) M \<Rightarrow> bool" where
  "leads m \<longleftrightarrow> (\<forall>n r n'. node_ok n \<longrightarrow> m n = (Inr r, n') \<longrightarrow> node_ok n')"

lemma leadsD: "leads m \<Longrightarrow> node_ok n \<Longrightarrow> m n = (Inr r, n') \<Longrightarrow> node_ok n'"
  by (simp add: leads_def)

lemma stays_keeps: "keeps flags m \<Longrightarrow> stays m"
  unfolding preserves_def by (metis keepsD node_ok_flags)

lemma leads_stays: "stays m \<Longrightarrow> leads m"
  unfolding preserves_def leads_def by blast

lemma leads_bind:
  assumes "leads m" "\<And>x. leads (f x)"
  shows "leads (bindM m f)"
  unfolding leads_def bindM_eq_Inr using leadsD [OF assms(1)] leadsD [OF assms(2)] by blast

subsection \<open>Steps that leave the flags alone\<close>

lemma keeps_node [keeps_intros]:
  "keeps flags (on_service m)" "keeps flags (on_consensus m')" "keeps flags (send x)" "keeps flags (bound y)"
  unfolding on_service_def on_consensus_def send_def bound_def
  by (intro keeps_zoom keeps_modify keeps_option keeps_basic; simp add: flags_def)+

lemma keeps_sum_case [keeps_intros]:
  "(\<And>a. keeps g (f a)) \<Longrightarrow> (\<And>b. keeps g (h b)) \<Longrightarrow> keeps g (case x of Inl a \<Rightarrow> f a | Inr b \<Rightarrow> h b)"
  by (cases x) auto

lemma keeps_pyarg_case [keeps_intros]:
  "(\<And>a. keeps g (f a)) \<Longrightarrow> (\<And>b. keeps g (h b)) \<Longrightarrow> keeps g (case x of PyInt a \<Rightarrow> f a | PyStr b \<Rightarrow> h b)"
  by (cases x) auto

lemma keeps_helpers [keeps_intros]:
  "keeps flags (owner_of N ip)" "keeps flags (head_header N)" "keeps flags (read_head N)" "keeps flags (renew_shares N now)"
  "keeps flags (draw_signer N)"
  unfolding owner_of_def head_header_def read_head_def renew_shares_def draw_signer_def
  by (intro keeps_intros keeps_modify; simp add: flags_def)+

lemma keeps_accept [keeps_intros]: "keeps flags (accept_block N now b)"
  unfolding accept_block_def
  by (intro keeps_intros keeps_modify) (simp_all add: flags_def leave_bootstrap_def)

lemma keeps_txs [keeps_intros]: "keeps flags (process_txs N ts)" "keeps flags (user_txs N k)"
  unfolding process_txs_def process_tx_def user_txs_def own_tx_def
  by (intro keeps_intros keeps_modify keeps_zoom; simp add: flags_def)+

lemma keeps_answers [keeps_intros]:
  "keeps flags (answer_oor N q)" "keeps flags (answer_blocks N ns)" "keeps flags (answer_pool a)"
  unfolding answer_oor_def answer_blocks_def answer_pool_def by (intro keeps_intros)+

lemma keeps_drain: "keeps flags (drain_shares N)"
  by (simp add: keeps_def drain_shares_def flags_def split: prod.split)

lemma keeps_shares [keeps_intros]: "keeps flags (process_shares N now shs)"
  unfolding process_shares_def receive_share_def
  by (intro keeps_intros keeps_modify keeps_drain) (simp_all add: flags_def)

lemma keeps_lag [keeps_intros]: "keeps flags (modifyM (check_lag N now))"
  by (rule keeps_modify) (simp add: check_lag_def flags_def Let_def)

subsection \<open>Steps that change them\<close>

lemma stays_override: "stays (override_signer N b)"
  unfolding preserves_def
proof (intro allI impI)
  fix n r n'
  assume n: "node_ok n" and run: "override_signer N b n = (r, n')"
  show "node_ok n'"
  proof (cases "nd_in_dkg_group n \<and> nd_exit_from_dkg n")
    case True
    let ?n = "n\<lparr>nd_exit_from_dkg := False\<rparr>"
    obtain q n1 where q: "draw_signer N ?n = (q, n1)" by (meson surj_pair)
    have "n' = ?n \<or> n' = n1"
      using run True q by (simp add: override_signer_def bindM_def modifyM_def raise_def split: if_splits)
    then have "flags n' = flags ?n"
      using keepsD [OF keeps_helpers(5) q] by (elim disjE) simp_all
    moreover have "node_ok ?n" using n by (auto simp: node_ok_def)
    ultimately show ?thesis using node_ok_flags by blast
  next
    case False
    show ?thesis
    proof (cases "nd_dkg_on n")
      case on: True
      obtain q n1 where q: "draw_signer N n = (q, n1)" by fastforce
      then have n1: "flags n1 = flags n" using keepsD [OF keeps_helpers(5)] by blast
      with n have ok: "node_ok n1" using node_ok_flags by blast
      have "n' = n1 \<or> n' = n1\<lparr>nd_consensus := set_current_group_key (h_group_pubkey (b_header b)) (nd_consensus n1), nd_dkg_on := False\<rparr>"
        using run False on q by (auto simp: override_signer_def bindM_def modifyM_def split: sum.splits)
      with ok show ?thesis by (auto simp: node_ok_def)
    next
      case off: False
      with run False n show ?thesis by (auto simp: override_signer_def bindM_def)
    qed
  qed
qed

lemma stays_set_signer: "stays (modifyM (\<lambda>n. n\<lparr>nd_signer := f n\<rparr>))"
  by (intro stays_keeps keeps_modify) (simp add: flags_def)

lemma stays_check: "stays (check_block N b)"
  unfolding check_block_def
  by (intro preserves_bind stays_override stays_set_signer preserves_if) (intro stays_keeps keeps_intros)+

lemma stays_process: "stays (process_blocks N now bs)"
  unfolding process_blocks_def process_block_def
  by (intro preserves_forM preserves_bind preserves_catch stays_check preserves_if) (intro stays_keeps keeps_intros)+

lemma stays_choose: "stays (choose_signer N)"
proof -
  have "stays (modifyM (\<lambda>n. n\<lparr>nd_signing_addr := Some a\<rparr>))" for a :: string
    by (rule preserves_modify) (simp add: node_ok_def)
  then show ?thesis
    unfolding choose_signer_def by (intro preserves_bind stays_set_signer) (assumption | intro stays_keeps keeps_intros)+
qed

lemma stays_make: "stays (make_block N now a)"
proof -
  have "stays (modifyM (\<lambda>n. n\<lparr>nd_exit_from_dkg := False\<rparr>))"
    by (rule preserves_modify) (auto simp: node_ok_def)
  then show ?thesis
    unfolding make_block_def Let_def
    by (intro preserves_bind) (assumption | (intro stays_keeps keeps_intros keeps_modify; simp add: flags_def))+
qed

lemma stays_sign: "stays (sign_block N now)"
  unfolding sign_block_def
  by (intro preserves_bind preserves_if stays_choose stays_make) (intro stays_keeps keeps_intros)+

subsection \<open>Starting the generation of keys and finishing it\<close>

lemma keeps_forM_dkg: "keeps flags (forM ds (\<lambda>d. bindM (modifyM (\<lambda>n. n\<lparr>nd_cache := store_dkg now now d (nd_cache n)\<rparr>))
    (\<lambda>_. send (SentDkgShare d))))"
  by (intro keeps_intros keeps_modify) (simp add: flags_def)

lemma finish_round_flags:
  assumes "finish_round n = (r, n')"
  shows "flags n' = flags n \<or> r = Inr True \<and> n' = n\<lparr>nd_dkg_on := False, nd_exit_from_dkg := True\<rparr>"
  using assms by (auto simp: finish_round_def bindM_def split: sum.splits if_splits)

lemma leads_trigger: "leads (trigger_dkg N now drawn)"
  unfolding leads_def
proof (intro allI impI)
  fix n r n'
  assume n: "node_ok n" and run: "trigger_dkg N now drawn n = (Inr r, n')"
  show "node_ok n'"
  proof (cases "Suc (nd_block_num n) mod DKG_RENEWAL_INTERVAL (ne_V N) = 0 \<and> \<not> nd_dkg_on n \<and> \<not> nd_exit_from_dkg n \<and>
      shares_ready (nd_consensus n)")
    case False
    with run n show ?thesis by (auto simp: trigger_dkg_def bindM_def)
  next
    case True
    let ?n = "n\<lparr>nd_dkg_on := True, nd_create_shares := Some True\<rparr>"
    obtain grp n1 where n1: "on_service (get_current_dkg_group (ne_V N)) ?n = (Inr grp, n1)"
      and rest: "(let (in_group, ids) = find_me_in_dkg_group grp (node_addresses N)
       in bindM (modifyM (\<lambda>n. n\<lparr>nd_in_dkg_group := in_group, nd_my_dkgIDs := ids\<rparr>)) (\<lambda>_.
          bindM (if in_group
                 then bindM (on_consensus (new_dkg (ne_C N) drawn grp ids)) (\<lambda>to_send.
                      bindM (forM to_send (\<lambda>d.
                        bindM (modifyM (\<lambda>n. n\<lparr>nd_cache := store_dkg now now d (nd_cache n)\<rparr>)) (\<lambda>_.
                        send (SentDkgShare d)))) (\<lambda>_.
                      bindM finish_round (\<lambda>_. ret ())))
                 else on_consensus (store_ids (ne_C N) grp)) (\<lambda>_.
          bindM (gets nd_block_num) (\<lambda>num.
          bindM (on_service (on_chain (get_block_by_number (ve_C (ne_V N)) num))) (\<lambda>b.
          bindM (liftE (compress_random_no_to_int (hex_encode (h_random_number (b_header b))) 16)) (\<lambda>r.
          if grp = [] then raise ZeroDivisionError
          else modifyM (\<lambda>n. n\<lparr>nd_signing_addr := Some (grp ! nat (r mod int (length grp)))\<rparr>))))))) n1 = (Inr r, n')"
      using run True by (auto simp: trigger_dkg_def bindM_eq_Inr)
    have f1: "flags n1 = flags ?n" using keepsD [OF keeps_node(1) n1] .
    obtain g ids where g: "find_me_in_dkg_group grp (node_addresses N) = (g, ids)" by fastforce
    let ?n1 = "n1\<lparr>nd_in_dkg_group := g, nd_my_dkgIDs := ids\<rparr>"
    from rest g obtain n2 u num b n3 k where
        n2: "(if g then bindM (on_consensus (new_dkg (ne_C N) drawn grp ids)) (\<lambda>to_send.
                      bindM (forM to_send (\<lambda>d.
                        bindM (modifyM (\<lambda>n. n\<lparr>nd_cache := store_dkg now now d (nd_cache n)\<rparr>)) (\<lambda>_.
                        send (SentDkgShare d)))) (\<lambda>_.
                      bindM finish_round (\<lambda>_. ret ())))
                 else on_consensus (store_ids (ne_C N) grp)) ?n1 = (Inr u, n2)"
      and n3: "on_service (on_chain (get_block_by_number (ve_C (ne_V N)) num)) n2 = (Inr b, n3)"
      and n': "n' = n3\<lparr>nd_signing_addr := Some k\<rparr>"
      by (auto simp: bindM_eq_Inr split: if_splits)
    have "flags n2 = flags ?n1 \<or> g \<and> flags n2 = flags (?n1\<lparr>nd_dkg_on := False, nd_exit_from_dkg := True\<rparr>)"
    proof (cases g)
      case False
      with n2 show ?thesis using keepsD [OF keeps_node(2), of _ ?n1] by simp
    next
      case True
      with n2 obtain to_send m1 m2 q where m1: "on_consensus (new_dkg (ne_C N) drawn grp ids) ?n1 = (Inr to_send, m1)"
        and m2: "forM to_send (\<lambda>d. bindM (modifyM (\<lambda>n. n\<lparr>nd_cache := store_dkg now now d (nd_cache n)\<rparr>)) (\<lambda>_.
            send (SentDkgShare d))) m1 = (Inr (), m2)"
        and q: "finish_round m2 = (Inr q, n2)"
        by (auto simp: bindM_eq_Inr)
      have "flags m2 = flags ?n1"
        using keepsD [OF keeps_node(2) m1] keepsD [OF keeps_forM_dkg m2] by simp
      with finish_round_flags [OF q] True show ?thesis by (auto simp: flags_def)
    qed
    moreover have "flags n3 = flags n2" using keepsD [OF keeps_node(1) n3] .
    ultimately show ?thesis using f1 n' True by (auto simp: node_ok_def flags_def)
  qed
qed

lemma collect_member:
  assumes "collect_dkg_shares N now ds n = (Inr r, n')" "node_ok n" "nd_in_dkg_group n"
  shows "node_ok n'"
  using assms
proof (induction ds arbitrary: n)
  case Nil
  then show ?case by simp
next
  case (Cons d ds)
  show ?case
  proof (cases "nd_dkg_on n")
    case False
    with Cons.prems show ?thesis by (auto simp: bindM_def)
  next
    case True
    let ?one = "if in_dkg_cache d (nd_cache n) then ret ()
      else bindM (if ds_to d \<in> set (nd_my_dkgIDs n)
             then bindM (on_consensus (verify_dkg_contribution (ne_C N) d)) (\<lambda>_.
                  bindM finish_round (\<lambda>finished.
                  if \<not> finished \<and> now - int (nd_timestamp n) \<ge> DKG_TIMEOUT (ne_conf N)
                  then raise PyException else ret ()))
             else send (SentDkgShare d)) (\<lambda>_.
           modifyM (\<lambda>n. n\<lparr>nd_cache := store_dkg now now d (nd_cache n)\<rparr>))"
    from Cons.prems(1) True obtain n1 where one: "?one n = (Inr (), n1)" and rest: "collect_dkg_shares N now ds n1 = (Inr r, n')"
      by (auto simp: bindM_eq_Inr)
    have "flags n1 = flags n \<or> flags n1 = flags (n\<lparr>nd_dkg_on := False, nd_exit_from_dkg := True\<rparr>)"
    proof (cases "in_dkg_cache d (nd_cache n) \<or> ds_to d \<notin> set (nd_my_dkgIDs n)")
      case True
      with one show ?thesis by (auto simp: bindM_eq_Inr send_def flags_def split: if_splits)
    next
      case False
      with one obtain m1 m2 q where m1: "on_consensus (verify_dkg_contribution (ne_C N) d) n = (Inr (), m1)"
        and q: "finish_round m1 = (Inr q, m2)" and n1: "n1 = m2\<lparr>nd_cache := store_dkg now now d (nd_cache m2)\<rparr>"
        by (auto simp: bindM_eq_Inr split: if_splits)
      have "flags m1 = flags n" using keepsD [OF keeps_node(2) m1] .
      with finish_round_flags [OF q] n1 show ?thesis by (auto simp: flags_def)
    qed
    then have "node_ok n1" "nd_in_dkg_group n1"
      using Cons.prems(2,3) True by (auto simp: node_ok_def flags_def)
    with rest show ?thesis by (rule Cons.IH)
  qed
qed

lemma leads_collect: "leads (collect_dkg N now ds)"
  by (auto simp: leads_def collect_dkg_def bindM_eq_Inr collect_member split: if_splits)

lemma leads_keeps: "keeps flags m \<Longrightarrow> leads m"
  by (intro leads_stays stays_keeps)

lemma leads_pass: "leads (loop_pass N x)"
  unfolding loop_pass_def
  by (intro leads_bind leads_trigger leads_collect leads_stays [OF stays_process] leads_stays [OF stays_sign])
    (intro leads_keeps keeps_intros)+

lemma leads_passes: "leads (run_passes N xs)"
  by (induction xs) (simp add: leads_def, simp add: leads_bind leads_pass)

subsection \<open>From the start\<close>

lemma keeps_bootstrap: "keeps flags (perform_bootstrap N now bs)"
  unfolding perform_bootstrap_def bootstrap_block_def check_bootstrap_block_def bootstrap_signer_def
  by (intro keeps_intros keeps_modify; simp add: flags_def)

lemma init_consensus_flags:
  assumes "init_consensus N file h k grp n = (Inr r, n')" "\<not> nd_dkg_on n" "\<not> nd_exit_from_dkg n"
  shows "node_ok n'"
proof -
  obtain g ids where g: "find_me_in_dkg_group grp (node_addresses N) = (g, ids)" by fastforce
  let ?rn = "hex_encode (h_random_number h)"
  obtain c n1 n2 n3 master where
      n1: "n1 = n\<lparr>nd_consensus := c, nd_last_random_no := ?rn, nd_in_dkg_group := g, nd_my_dkgIDs := ids\<rparr>"
    and n2: "on_consensus (load_master_private_keys N file ids) n1 = (Inr master, n2)"
    and n3: "(if \<not> g then on_consensus (store_ids (ne_C N) grp)
              else if \<not> master then modifyM (\<lambda>n. n\<lparr>nd_create_shares := Some False\<rparr>) else ret ())
            (n2\<lparr>nd_isMaster := master\<rparr>) = (Inr (), n3)"
    and n': "(if master then bindM (on_consensus (create_shares (ne_C N) ?rn (h_number h) 0)) (\<lambda>_.
              modifyM (\<lambda>n. n\<lparr>nd_create_shares := Some True\<rparr>)) else ret ()) n3 = (Inr r, n')"
    using assms(1) g by (auto simp: init_consensus_def bindM_eq_Inr Let_def)
  have f2: "flags n2 = flags n1" using keepsD [OF keeps_node(2) n2] .
  have f3: "if g \<and> \<not> master then flags n3 = flags (n2\<lparr>nd_create_shares := Some False\<rparr>) else flags n3 = flags n2"
    using n3 keepsD [OF keeps_node(2), of "store_ids (ne_C N) grp" "n2\<lparr>nd_isMaster := master\<rparr>"]
    by (auto simp: flags_def split: if_splits)
  have "if master then flags n' = flags (n3\<lparr>nd_create_shares := Some True\<rparr>) else n' = n3"
    using n' keepsD [OF keeps_node(2), of "create_shares (ne_C N) ?rn (h_number h) 0" n3]
    by (auto simp: flags_def bindM_eq_Inr split: if_splits)
  with f2 f3 n1 assms(2,3) show ?thesis by (auto simp: flags_def node_ok_def split: if_splits)
qed

lemma start_node_flags:
  assumes "start_node N now uf mf missing (new_node sv c now') = (Inr r, n')"
  shows "node_ok n'"
proof -
  obtain n1 n2 n3 n4 n5 u h k where
      n1: "zoomM nd_user (\<lambda>x n. n\<lparr>nd_user := x\<rparr>) (read_transactions (ve_E (ne_V N)) uf) (new_node sv c now') = (Inr (), n1)"
    and n2: "start_consensus N mf n1 = (Inr u, n2)"
    and n3: "perform_bootstrap N now missing n2 = (Inr (), n3)"
    and n4: "head_header N n3 = (Inr h, n4)" "on_service (get_current_group_key (ne_V N)) n4 = (Inr k, n5)"
    and n': "flags n' = flags n5"
    using assms by (auto simp: start_node_def bindM_eq_Inr flags_def)
  have f1: "flags n1 = (False, False, False, None, None)"
    using n1 by (auto simp: zoomM_def new_node_def flags_def split: prod.splits)
  from n2 obtain m1 h' m2 k' m3 m4 g m where m: "read_head N n1 = (Inr (), m1)" "head_header N m1 = (Inr h', m2)"
      "on_service (get_current_group_key (ne_V N)) m2 = (Inr k', m3)"
      "forM (node_addresses N) (\<lambda>a. bindM (on_service (get_own_ips (ne_V N) (PyStr a))) (\<lambda>_. ret ())) m3 = (Inr (), m4)"
      "on_service (get_current_dkg_group (ne_V N)) m4 = (Inr g, m)" "init_consensus N mf h' k' g m = (Inr u, n2)"
    by (auto simp: start_consensus_def bindM_eq_Inr)
  have f4: "keeps flags (forM (node_addresses N) (\<lambda>a. bindM (on_service (get_own_ips (ne_V N) (PyStr a))) (\<lambda>_. ret ())))"
    by (intro keeps_intros)
  have "flags m = flags n1"
    using keepsD [OF keeps_helpers(3) m(1)] keepsD [OF keeps_helpers(2) m(2)] keepsD [OF keeps_node(1) m(3)]
      keepsD [OF f4 m(4)] keepsD [OF keeps_node(1) m(5)] by metis
  with f1 have "node_ok n2" by (intro init_consensus_flags [OF m(6)]) (simp_all add: flags_def)
  moreover have "flags n' = flags n2"
    using keepsD [OF keeps_bootstrap n3] keepsD [OF keeps_helpers(2) n4(1)] keepsD [OF keeps_node(1) n4(2)] n' by simp
  ultimately show ?thesis using node_ok_flags by blast
qed

text \<open>C14. However a node was started and whatever arrives, after any number of passes of the main loop: it is
  not in the generation of keys and past it at once; only a member of the group waits for the block that
  follows; while keys are generated and until that block comes the address of the signer is assigned; and
  a member of the group has decided whether it creates shares. So none of these variables is read
  before it is assigned.\<close>

theorem loop_variables_consistent:
  assumes "run_node N now user_file master_file missing xs (new_node sv c now') = (Inr u, n)"
  shows "node_ok n"
proof -
  obtain v n1 where "start_node N now user_file master_file missing (new_node sv c now') = (Inr v, n1)"
    and passes: "run_passes N xs n1 = (Inr u, n)"
    using assms by (auto simp: run_node_def bindM_eq_Inr)
  then have "node_ok n1" by (rule_tac start_node_flags)
  with passes show ?thesis by (rule_tac leadsD [OF leads_passes])
qed

text \<open>A node without keys over a database that has one block under every key, and a pass in which nothing
  arrives.\<close>

abbreviation only_block :: block where
  "only_block \<equiv> next_block\<lparr>b_signer := None\<rparr>"

definition still_db :: "unit store_ops" where
  "still_db = \<lparr>so_get = (\<lambda>k. ret (block_rlp ext_ref only_block)), so_put = (\<lambda>k v. ret ()), so_del = (\<lambda>k. ret ()),
     so_has = (\<lambda>k. ret True)\<rparr>"

definition still_env :: "(unit, addr_set, (ipnet \<times> string) list) nenv" where
  "still_env = \<lparr>ne_V = \<lparr>ve_C = \<lparr>ce_S = \<lparr>s_ext = ext_ref, s_db = still_db, s_ips = ipset_ref, s_pickle = pickle_ref [],
       s_unpickle = unpickle_ref []\<rparr>, ce_R = radix_ref, ce_J = json_ref, ce_I = iplib_ref, ce_net = (\<lambda>s. Inl ValueError),
       ce_commit = ret (), ce_limit = 1000\<rparr>, ve_bits = bitlib_ref, ve_sha256 = hex_encode, DKG_RENEWAL_INTERVAL = 2,
       DKG_NUMBER_PARTICIPANTS = 0\<rparr>, ne_C = cparams_ref,
     ne_conf = \<lparr>EXT_TX_PER_LOOP = 1, LOOPS_PER_TX = 1, START_TIME = 10, BLOCK_TIME = 10, TIMEOUT = 20, DKG_TIMEOUT = 30\<rparr>,
     ne_limit = 0, ne_first = (\<lambda>s. None), ne_keys = [], ne_start_time = 0, ne_ip_text = (\<lambda>a. [])\<rparr>"

definition still_service :: "(unit, (ipnet \<times> string) list) service" where
  "still_service = \<lparr>sv_chain = \<lparr>ch_state = \<lparr>st_trie = blank_trie ext_ref (), st_txindex = 0, st_block_number = 2,
       st_block_coinbase = [], st_timestamp = 0, st_prev_headers = [], st_journal = [], st_cache = [], st_changed = [],
       st_executing_on_head = False\<rparr>, ch_patricia = patricia_init radix_ref, ch_patricia_file = None, ch_genesis = None,
     ch_head_hash = [], ch_time_queue = [], ch_parent_queue = [], ch_localtime = 0\<rparr>, sv_pool = []\<rparr>"

definition nothing :: arrivals where
  "nothing = \<lparr>ar_now = 7, ar_blocks = [], ar_txs = [], ar_query = NoData, ar_numbers = None, ar_pool = True, ar_shares = [],
     ar_drawn = (\<lambda>_. []), ar_dkg = []\<rparr>"

lemma still_rlp: "block_decode ext_ref iplib_ref (block_rlp ext_ref only_block) = Inr only_block"
  "block_rlp ext_ref only_block \<noteq> ''GENESIS''"
  by (rule block_decode_rlp [OF ext_ref_ok ext_ref_rlp_ok next_block_stable])
    (rule block_rlp_not_genesis [OF ext_ref_ok ext_ref_rlp_ok])

lemma still_get: "cget (ve_C (ne_V still_env)) k c = (Inr (block_rlp ext_ref only_block), c)"
  by (simp add: cget_def in_state_def in_db_def in_trie_def in_tdb_def zoomM_def still_env_def still_db_def)

lemma still_env_simps [simp]:
  "ce_I (ve_C (ne_V still_env)) = iplib_ref" "s_ext (ce_S (ve_C (ne_V still_env))) = ext_ref" "ne_C still_env = cparams_ref"
  "node_addresses still_env = []" "DKG_RENEWAL_INTERVAL (ne_V still_env) = 2" "BLOCK_TIME (ne_conf still_env) = 10"
  "START_TIME (ne_conf still_env) = 10" "ne_start_time still_env = 0" "ce_limit (ve_C (ne_V still_env)) = 1000"
  "DKG_NUMBER_PARTICIPANTS (ne_V still_env) = 0"
  by (simp_all add: still_env_def node_addresses_def)

lemma still_head: "get_head_block (ve_C (ne_V still_env)) c = (Inr (Some only_block), c)"
  by (simp add: get_head_block_def attempt_run bindM_def still_get still_rlp)

lemma still_number: "get_block_by_number (ve_C (ne_V still_env)) k c = (Inr only_block, c)"
  by (simp add: get_block_by_number_def get_blockhash_by_number_def get_block_def attempt_run bindM_def still_get still_rlp)

lemma still_addresses: "get_all_current_addresses (ve_C (ne_V still_env)) (sv_chain still_service) = (Inr [], sv_chain still_service)"
proof -
  have "to_dict_node 1000 T BLANK_NODE = ret []" for T :: "unit trie_env" by (simp add: numeral_eq_Suc)
  then show ?thesis
    by (simp add: get_all_current_addresses_def list_all_addresses_def secure_to_dict_def to_dict_def bindM_def in_trie_def
      in_tdb_def in_state_def zoomM_def still_service_def)
qed

lemma still_group: "get_current_dkg_group (ne_V still_env) still_service = (Inr [], still_service)"
proof -
  have "length (h_random_number (b_header only_block)) = 32" by (simp add: next_block_def block_init_def)
  then obtain r where "compress_random_no_to_int (hex_encode (h_random_number (b_header only_block))) 16 = Inr r"
    using compress_Inr [of "h_random_number (b_header only_block)"] by auto
  then show ?thesis
    by (simp add: get_current_dkg_group_def last_dkg_number_def bindM_def on_chain_def zoomM_def still_head still_number
      still_addresses Let_def)
qed

lemma still_group_key: "get_current_group_key (ne_V still_env) sv = (Inr (h_group_pubkey (b_header only_block)), sv)"
  by (simp add: get_current_group_key_def last_dkg_number_def bindM_def on_chain_def zoomM_def still_head still_number Let_def)

abbreviation blank_consensus :: consensus where
  "blank_consensus \<equiv> \<lparr>cs_dkg_group = [], cs_own_ids = [], cs_random_no = [], cs_secret_keys = [], cs_group_key = [],
     cs_group_sig = [], cs_shares = [], cs_shares_ids = [], cs_msg = [], cs_verified = True, cs_next_signer = None,
     cs_previous_group_key = [], cs_members = None\<rparr>"

lemma still_signer: "\<exists>ip. select_signer (cp_ipaddress cparams_ref) (hex_encode (h_random_number (b_header next_block))) 2 = Inr ip"
  using ipv6_select [OF ipaddress_ref_ok, of "h_random_number (b_header next_block)" 2]
  by (simp add: cparams_ref_def next_block_def block_init_def)

lemma still_start: "\<exists>n. start_node still_env 7 [] None [] (new_node still_service blank_consensus 0) = (Inr (), n) \<and>
    nd_service n = still_service \<and> nd_timestamp n = 6 \<and> nd_block_num n = 2 \<and> \<not> nd_dkg_on n \<and> \<not> nd_isMaster n \<and>
    \<not> nd_in_dkg_group n \<and> sc_future (nd_cache n) = []"
proof -
  obtain ip where ip: "select_signer (cp_ipaddress cparams_ref) (hex_encode (h_random_number (b_header next_block))) 2 = Inr ip"
    using still_signer by blast
  show ?thesis
    by (simp add: start_node_def start_consensus_def init_consensus_def bindM_def zoomM_def read_transactions_def modifyM_def
      read_head_def head_header_def on_service_def on_chain_def still_head still_group still_group_key new_node_def
      find_me_in_dkg_group_def consensus_init_def calculate_next_signer_def ip load_master_private_keys_def on_consensus_def
      store_ids_def add_members_def perform_bootstrap_def share_cache_init_def Let_def)
qed

lemma check_lag_simps [simp]:
  "nd_dkg_on (check_lag N k n) = nd_dkg_on n" "nd_in_dkg_group (check_lag N k n) = nd_in_dkg_group n"
  "nd_block_num (check_lag N k n) = nd_block_num n"
  by (simp_all add: check_lag_def Let_def)

lemma still_pass:
  assumes "nd_service n = still_service" "\<not> nd_dkg_on n" "\<not> nd_isMaster n" "\<not> nd_in_dkg_group n" "sc_future (nd_cache n) = []"
  shows "\<exists>n'. loop_pass still_env nothing n = (Inr (), n')"
  using assms
  by (simp add: loop_pass_def nothing_def process_blocks_def process_txs_def sign_block_def bindM_def read_head_def head_header_def
      on_service_def on_chain_def zoomM_def still_head modifyM_def user_txs_def answer_oor_def get_query_def answer_blocks_def answer_pool_def
      send_def process_shares_def drain_shares_def drain_future.simps pending_future_bls_def trigger_dkg_def collect_dkg_def)

theorem loop_variables_consistent_witness:
  "\<exists>n. run_node still_env 7 [] None [] [nothing] (new_node still_service blank_consensus 0) = (Inr (), n) \<and> node_ok n"
proof -
  obtain n where n: "start_node still_env 7 [] None [] (new_node still_service blank_consensus 0) = (Inr (), n)"
    "nd_service n = still_service" "\<not> nd_dkg_on n" "\<not> nd_isMaster n" "\<not> nd_in_dkg_group n" "sc_future (nd_cache n) = []"
    using still_start by blast
  obtain n' where "loop_pass still_env nothing n = (Inr (), n')" using still_pass [OF n(2-6)] by blast
  with n(1) have run: "run_node still_env 7 [] None [] [nothing] (new_node still_service blank_consensus 0) = (Inr (), n')"
    by (simp add: run_node_def bindM_def)
  from loop_variables_consistent [OF run] run show ?thesis by blast
qed

end
