(* ===== verification/NodeSafety.thy ===== *)
theory NodeSafety
  imports NodeCorrect
begin

text \<open>
  Only verified blocks move the head of the chain of a node. \<open>expected_signer\<close> says, apart from the code, whose
  signature a block needs.
\<close>

section \<open>The signer of a block\<close>

abbreviation head_of :: "('b, 'p) node \<Rightarrow> string" where
  "head_of n \<equiv> ch_head_hash (sv_chain (nd_service n))"

text \<open>The address that has to sign, with the service after it was looked up: after a generation of keys the
  first address of the member that was drawn, otherwise the one drawn from the random number.\<close>

definition expected_signer :: "('b, 'i, 'p) nenv \<Rightarrow> block \<Rightarrow> ('b, 'p) node \<Rightarrow> (ipnet \<times> ('b, 'p) service) option" where
  "expected_signer N b n =
     (if nd_in_dkg_group n \<and> nd_exit_from_dkg n \<and> h_group_pubkey (b_header b) \<noteq> cs_group_key (nd_consensus n) then None
      else if nd_in_dkg_group n \<and> nd_exit_from_dkg n \<or> nd_dkg_on n
      then (case nd_signing_addr n of
              None \<Rightarrow> None
            | Some a \<Rightarrow> (case extract_first_ip_from_address N a (nd_service n) of (Inr (Some ip), sv) \<Rightarrow> Some (ip, sv) | _ \<Rightarrow> None))
      else map_option (\<lambda>a. (net_of_ip a, nd_service n)) (get_next_signer (h_count (b_header b)) (nd_consensus n)))"

definition signed_by_owner :: "('b, 'i, 'p) nenv \<Rightarrow> block \<Rightarrow> ipnet \<Rightarrow> ('b, 'p) service \<Rightarrow> bool" where
  "signed_by_owner N b ip sv \<longleftrightarrow>
     (\<exists>a bal. fst (signer (s_ext (ve_S (ne_V N))) b) = Inr a \<and> a \<noteq> [] \<and>
        fst (get_balance (ve_S (ne_V N)) (PyStr a) (ch_state (sv_chain sv))) = Inr bal \<and> in_own_ips (s_ips (ve_S (ne_V N))) ip bal)"

lemma verify_signature_True:
  assumes "service_verify_block_signature (ne_V N) b ip sv = (Inr v, sv')"
  shows "signed_by_owner N b ip sv"
proof -
  obtain st' where "verify_block_signature (ve_S (ne_V N)) b ip (ch_state (sv_chain sv)) = (Inr v, st')"
    using assms by (auto simp: service_verify_block_signature_def on_state_run split: prod.splits)
  then show ?thesis
    by (auto simp: verify_block_signature_def signed_by_owner_def bindM_eq_Inr raise_def split: sum.splits if_splits)
qed

lemma owner_of_same: "owner_of N ip n = (r, n') \<Longrightarrow> n' = n"
  by (auto simp: owner_of_def on_service_def zoomM_def get_addr_from_ip_def bindM_def gets_def liftE_def raise_def
      split: option.splits prod.splits sum.splits)

lemma draw_signer_run:
  assumes "draw_signer N n = (Inr u, n')"
  shows "\<exists>a ip sv. nd_signing_addr n = Some a \<and> extract_first_ip_from_address N a (nd_service n) = (Inr ip, sv) \<and>
    nd_signer n' = Some ip \<and> nd_service n' = sv"
  using assms
  by (auto simp: draw_signer_def bindM_eq_Inr bound_def on_service_def zoomM_def modifyM_def raise_def gets_def ret_def
      split: option.splits prod.splits)

lemma override_signer_run:
  assumes run: "override_signer N b n = (Inr u, n')" and signer: "nd_signer n' = Some (Some ip)"
    and before: "nd_signer n = Some (map_option net_of_ip (get_next_signer (h_count (b_header b)) (nd_consensus n)))"
  shows "expected_signer N b n = Some (ip, nd_service n')"
proof (cases "nd_in_dkg_group n \<and> nd_exit_from_dkg n")
  case True
  with run have key: "h_group_pubkey (b_header b) = cs_group_key (nd_consensus n)"
    and "draw_signer N (n\<lparr>nd_exit_from_dkg := False\<rparr>) = (Inr u, n')"
    by (auto simp: override_signer_def bindM_def gets_def modifyM_def raise_def split: if_splits)
  with draw_signer_run [OF this(2)] signer True show ?thesis by (auto simp: expected_signer_def)
next
  case False
  show ?thesis
  proof (cases "nd_dkg_on n")
    case True
    with run False obtain v n1 where "draw_signer N n = (Inr v, n1)" "nd_service n' = nd_service n1" "nd_signer n' = nd_signer n1"
      by (auto simp: override_signer_def bindM_eq_Inr gets_def modifyM_def)
    with draw_signer_run [OF this(1)] signer True False show ?thesis by (auto simp: expected_signer_def)
  next
    case no_dkg: False
    with run False have "n' = n" by (auto simp: override_signer_def bindM_def gets_def ret_def)
    with signer before False no_dkg show ?thesis by (auto simp: expected_signer_def)
  qed
qed

section \<open>Verification\<close>

lemma bound_eq_Inr: "bound x s = (Inr a, s') \<longleftrightarrow> x = Some a \<and> s' = s"
  by (auto simp: bound_def raise_def ret_def split: option.splits)

lemma option_case_run: "(case x of None \<Rightarrow> raise e | Some a \<Rightarrow> m a) s = (Inr v, s') \<longleftrightarrow> (\<exists>a. x = Some a \<and> m a s = (Inr v, s'))"
  by (auto simp: raise_def split: option.splits)

lemma check_block_True:
  assumes run: "check_block N b n = (Inr v, n')"
  shows "verify_group_sig (ne_C N) (expected_message n) (h_group_sig (b_header b)) (nd_exit_from_dkg n \<or> nd_dkg_on n) (nd_consensus n) \<and>
    (\<exists>ip sv. expected_signer N b n = Some (ip, sv) \<and> signed_by_owner N b ip sv)"
proof -
  let ?n = "n\<lparr>nd_signer := Some (map_option net_of_ip (get_next_signer (h_count (b_header b)) (nd_consensus n)))\<rparr>"
  from run have sig: "verify_group_sig (ne_C N) (expected_message n) (h_group_sig (b_header b))
      (nd_exit_from_dkg n \<or> nd_dkg_on n) (nd_consensus n)"
    by (auto simp: check_block_def bindM_def gets_def modifyM_def raise_def expected_message_def split: if_splits)
  with run obtain u n1 ip a n2 where over: "override_signer N b ?n = (Inr u, n1)" and ip: "nd_signer n1 = Some (Some ip)"
    and own: "owner_of N (Some ip) n1 = (Inr a, n2)"
    and verified: "on_service (service_verify_block_signature (ne_V N) b ip) n2 = (Inr v, n')"
    by (auto simp: check_block_def bindM_eq_Inr modifyM_def gets_def expected_message_def bound_eq_Inr option_case_run)
  have "expected_signer N b ?n = Some (ip, nd_service n1)" by (rule override_signer_run [OF over ip]) simp
  moreover have "expected_signer N b ?n = expected_signer N b n"
  proof -
    have same: "nd_service ?n = nd_service n" "nd_signing_addr ?n = nd_signing_addr n" "nd_consensus ?n = nd_consensus n"
      "nd_in_dkg_group ?n = nd_in_dkg_group n" "nd_exit_from_dkg ?n = nd_exit_from_dkg n" "nd_dkg_on ?n = nd_dkg_on n" by simp_all
    show ?thesis unfolding expected_signer_def same by (rule refl)
  qed
  moreover have "signed_by_owner N b ip (nd_service n1)"
    using verified owner_of_same [OF own] by (auto simp: on_service_def zoomM_def split: prod.splits intro: verify_signature_True)
  ultimately show ?thesis using sig by auto
qed

lemma keeps_head_state [keeps_intros]: "keeps (\<lambda>s. ch_head_hash (sv_chain s)) (on_state m)"
  by (simp add: keeps_def on_state_run split: prod.splits)

lemma keeps_head_on_service: "keeps (\<lambda>s. ch_head_hash (sv_chain s)) m \<Longrightarrow> keeps head_of (on_service m)"
  by (simp add: keeps_def on_service_def zoomM_def split: prod.splits) (metis snd_conv)

lemma keeps_head_lookups [keeps_intros]:
  "keeps (\<lambda>s. ch_head_hash (sv_chain s)) (get_addr_from_ip V a)"
  "keeps (\<lambda>s. ch_head_hash (sv_chain s)) (extract_first_ip_from_address N addr)"
  "keeps (\<lambda>s. ch_head_hash (sv_chain s)) (service_verify_block_signature V b ip)"
  unfolding get_addr_from_ip_def extract_first_ip_from_address_def get_own_ips_def holding_def service_verify_block_signature_def
  by (intro keeps_intros)+

lemma keeps_head_check: "keeps head_of (check_block N b)"
  unfolding check_block_def override_signer_def draw_signer_def owner_of_def bound_def
  by (intro keeps_intros keeps_modify keeps_head_on_service) simp_all

text \<open>C5. Whatever block arrives, either the head of the chain stays, or the block was verified first: its group
  signature verifies for the message the node expects, and it is signed by an address that owns the
  expected signer. This signer is the address drawn from the random number of the chain or, in the block
  after a generation of keys, the first address of the member that was drawn for it, and then a member
  of the group also finds its own group key in the block.\<close>

theorem accepted_block_verified:
  "head_of (snd (process_block N now b n)) = head_of n \<or>
   verify_group_sig (ne_C N) (expected_message n) (h_group_sig (b_header b)) (nd_exit_from_dkg n \<or> nd_dkg_on n) (nd_consensus n) \<and>
   (\<exists>ip sv. expected_signer N b n = Some (ip, sv) \<and> signed_by_owner N b ip sv)"
proof -
  obtain r n1 where check: "check_block N b n = (r, n1)" by (meson surj_pair)
  show ?thesis
  proof (cases r)
    case (Inl e)
    have "head_of n1 = head_of n" by (rule keepsD [OF keeps_head_check check])
    with check Inl show ?thesis by (simp add: process_block_def bindM_def catchM_def ret_def)
  next
    case (Inr v)
    with check_block_True [of N b n v n1] check show ?thesis by blast
  qed
qed

end
