(* ===== verification/Base64.thy ===== *)
theory Base64
  imports Pyutils
begin

text \<open>
  The codec \<open>base64\<close> of Python 2, in which \<open>messages.py\<close> sends the RLP of transactions, blocks and shares:
  \<open>s.encode('base64')\<close> writes lines of 57 bytes, \<open>s.decode('base64')\<close> is \<open>binascii.a2b_base64\<close>, which skips
  characters that are not of the alphabet. Its exception is \<open>PyException\<close>.
\<close>

section \<open>The alphabet\<close>

definition b64_char :: "nat \<Rightarrow> char" where
  "b64_char v = char_of (if v < 26 then 65 + v else if v < 52 then 71 + v else if v < 62 then v - 4 else if v = 62 then 43 else 47)"

definition b64_val :: "char \<Rightarrow> nat option" where
  "b64_val c =
     (let n = ord c
      in if 65 \<le> n \<and> n < 91 then Some (n - 65) else if 97 \<le> n \<and> n < 123 then Some (n - 71)
         else if 48 \<le> n \<and> n < 58 then Some (n + 4) else if n = 43 then Some 62 else if n = 47 then Some 63 else None)"

section \<open>Encoding\<close>

fun b64_group :: "string \<Rightarrow> string" where
  "b64_group [a, b, c] = map (\<lambda>w. b64_char (bits_val w)) (chunks 6 (be_bits 8 (ord a) @ be_bits 8 (ord b) @ be_bits 8 (ord c)))"
| "b64_group [a, b] = map (\<lambda>w. b64_char (bits_val w)) (chunks 6 (be_bits 8 (ord a) @ be_bits 8 (ord b) @ [False, False])) @ ''=''"
| "b64_group [a] = map (\<lambda>w. b64_char (bits_val w)) (chunks 6 (be_bits 8 (ord a) @ [False, False, False, False])) @ ''==''"
| "b64_group _ = []"

definition b64_line :: "string \<Rightarrow> string" where
  "b64_line s = concat (map b64_group (chunks 3 s)) @ [CHR 0x0A]"

definition b64_encode :: "string \<Rightarrow> string" where
  "b64_encode s = concat (map b64_line (chunks 57 s))"

section \<open>Decoding\<close>

text \<open>The padding character counts as valid where the character after a padding is looked for.\<close>

definition pad_follows :: "string \<Rightarrow> bool" where
  "pad_follows s = (List.find (\<lambda>c. c = CHR ''='' \<or> b64_val c \<noteq> None) s = Some (CHR ''=''))"

text \<open>\<open>quad\<close> is the position in the group of four, \<open>left\<close> the bits that do not fill a byte yet.\<close>

fun a2b_base64 :: "nat \<Rightarrow> bool list \<Rightarrow> string \<Rightarrow> string res" where
  "a2b_base64 quad left [] = (if left = [] then Inr [] else Inl PyException)"
| "a2b_base64 quad left (c # s) =
     (if c = CHR ''=''
      then if quad < 2 \<or> quad = 2 \<and> \<not> pad_follows s then a2b_base64 quad left s else Inr []
      else
        case b64_val c of
          None \<Rightarrow> a2b_base64 quad left s
        | Some v \<Rightarrow>
            let w = left @ be_bits 6 v; quad' = (quad + 1) mod 4
            in if length w < 8 then a2b_base64 quad' w s
               else bindE (a2b_base64 quad' (drop 8 w) s) (\<lambda>r. Inr (char_of (bits_val (take 8 w)) # r)))"

definition b64_decode :: "string \<Rightarrow> string res" where
  "b64_decode s = a2b_base64 0 [] s"

section \<open>Decoding what was encoded\<close>

lemma b64_char_val: "v < 64 \<Longrightarrow> b64_val (b64_char v) = Some v \<and> b64_char v \<noteq> CHR ''=''"
proof -
  assume "v < 64"
  then have "ord (b64_char v) = (if v < 26 then 65 + v else if v < 52 then 71 + v else if v < 62 then v - 4 else if v = 62 then 43 else 47)"
    by (simp add: b64_char_def)
  with \<open>v < 64\<close> show ?thesis by (auto simp: b64_val_def Let_def split: if_splits)
qed

lemma a2b_sextet:
  assumes "length w = 6"
  shows "a2b_base64 quad left (b64_char (bits_val w) # s) =
    (if length left < 2 then a2b_base64 ((quad + 1) mod 4) (left @ w) s
     else bindE (a2b_base64 ((quad + 1) mod 4) (drop 8 (left @ w)) s) (\<lambda>r. Inr (char_of (bits_val (take 8 (left @ w))) # r)))"
proof -
  have "bits_val w < 64" using bits_val_bound [of w] assms by simp
  moreover have "be_bits 6 (bits_val w) = w" using be_bits_bits_val [of w] assms by simp
  ultimately show ?thesis using assms b64_char_val [of "bits_val w"] by (simp add: Let_def)
qed

lemma byte_bits: "\<exists>b1 b2 b3 b4 b5 b6 b7 b8. be_bits 8 (ord c) = [b1, b2, b3, b4, b5, b6, b7, b8] \<and>
    char_of (bits_val [b1, b2, b3, b4, b5, b6, b7, b8]) = c"
proof -
  have "length (be_bits 8 (ord c)) = 8" by simp
  then obtain b1 b2 b3 b4 b5 b6 b7 b8 where b: "be_bits 8 (ord c) = [b1, b2, b3, b4, b5, b6, b7, b8]"
    by (auto simp: numeral_eq_Suc length_Suc_conv)
  moreover have "bits_val (be_bits 8 (ord c)) = ord c" by (rule bits_val_be_bits) simp
  ultimately show ?thesis by (metis char_of_char)
qed

lemma chunks_Cons: "0 < n \<Longrightarrow> xs \<noteq> [] \<Longrightarrow> chunks n xs = take n xs # chunks n (drop n xs)"
  by (subst chunks.simps) simp

lemma a2b_group: "a2b_base64 0 [] (b64_group [a, b, c] @ s) = bindE (a2b_base64 0 [] s) (\<lambda>r. Inr (a # b # c # r))"
proof -
  obtain a1 a2 a3 a4 a5 a6 a7 a8 where a: "be_bits 8 (ord a) = [a1, a2, a3, a4, a5, a6, a7, a8]"
    "char_of (bits_val [a1, a2, a3, a4, a5, a6, a7, a8]) = a" using byte_bits by blast
  obtain b1 b2 b3 b4 b5 b6 b7 b8 where b: "be_bits 8 (ord b) = [b1, b2, b3, b4, b5, b6, b7, b8]"
    "char_of (bits_val [b1, b2, b3, b4, b5, b6, b7, b8]) = b" using byte_bits by blast
  obtain c1 c2 c3 c4 c5 c6 c7 c8 where c: "be_bits 8 (ord c) = [c1, c2, c3, c4, c5, c6, c7, c8]"
    "char_of (bits_val [c1, c2, c3, c4, c5, c6, c7, c8]) = c" using byte_bits by blast
  show ?thesis
    by (simp add: a b c chunks_Cons a2b_sextet del: a2b_base64.simps be_bits.simps) (cases "a2b_base64 0 [] s"; simp)
qed

lemma a2b_short:
  "a2b_base64 0 [] (b64_group [a, b] @ [CHR 0x0A]) = Inr [a, b]"
  "a2b_base64 0 [] (b64_group [a] @ [CHR 0x0A]) = Inr [a]"
proof -
  obtain a1 a2 a3 a4 a5 a6 a7 a8 where a: "be_bits 8 (ord a) = [a1, a2, a3, a4, a5, a6, a7, a8]"
    "char_of (bits_val [a1, a2, a3, a4, a5, a6, a7, a8]) = a" using byte_bits by blast
  obtain b1 b2 b3 b4 b5 b6 b7 b8 where b: "be_bits 8 (ord b) = [b1, b2, b3, b4, b5, b6, b7, b8]"
    "char_of (bits_val [b1, b2, b3, b4, b5, b6, b7, b8]) = b" using byte_bits by blast
  have pad: "a2b_base64 3 left (CHR ''='' # s) = Inr []" "a2b_base64 2 left (CHR ''='' # CHR ''='' # s) = Inr []" for left s
    by (simp_all add: pad_follows_def)
  show "a2b_base64 0 [] (b64_group [a, b] @ [CHR 0x0A]) = Inr [a, b]"
    by (simp add: a b chunks_Cons a2b_sextet pad numeral_3_eq_3 [symmetric] del: a2b_base64.simps be_bits.simps)
  show "a2b_base64 0 [] (b64_group [a] @ [CHR 0x0A]) = Inr [a]"
    by (simp add: a chunks_Cons a2b_sextet pad numeral_2_eq_2 [symmetric] del: a2b_base64.simps be_bits.simps)
qed

lemma a2b_newline: "a2b_base64 q left (CHR 0x0A # s) = a2b_base64 q left s"
  by (simp add: b64_val_def)

text \<open>A line of whole groups is followed by further lines; the last line may end in a short group.\<close>

lemma a2b_line: "length s mod 3 = 0 \<Longrightarrow> a2b_base64 0 [] (b64_line s @ t) = bindE (a2b_base64 0 [] t) (\<lambda>r. Inr (s @ r))"
proof (induction "length s" arbitrary: s rule: less_induct)
  case less
  show ?case
  proof (cases "s = []")
    case True
    then show ?thesis
      by (simp add: b64_line_def a2b_newline del: a2b_base64.simps) (cases "a2b_base64 0 [] t"; simp)
  next
    case False
    with less.prems obtain a b c s' where s: "s = a # b # c # s'"
      by (cases s; cases "tl s"; cases "tl (tl s)") auto
    have "length s = length s' + 3" using s by simp
    then have "a2b_base64 0 [] (b64_line s' @ t) = bindE (a2b_base64 0 [] t) (\<lambda>r. Inr (s' @ r))"
      using less.prems by (intro less.hyps) simp_all
    then show ?thesis
      by (simp add: s b64_line_def chunks_Cons a2b_group append_assoc del: a2b_base64.simps b64_group.simps)
        (cases "a2b_base64 0 [] t"; simp)
  qed
qed

lemma a2b_last: "a2b_base64 0 [] (b64_line s) = Inr s"
proof (induction "length s" arbitrary: s rule: less_induct)
  case less
  show ?case
  proof (cases "length s < 3")
    case True
    then consider "s = []" | a where "s = [a]" | a b where "s = [a, b]"
      by (cases s; cases "tl s"; cases "tl (tl s)") auto
    then show ?thesis
      by cases (simp_all add: b64_line_def a2b_newline chunks_Cons a2b_short del: a2b_base64.simps(2) b64_group.simps)
  next
    case False
    then obtain a b c s' where s: "s = a # b # c # s'"
      by (cases s; cases "tl s"; cases "tl (tl s)") auto
    have "a2b_base64 0 [] (b64_line s') = Inr s'" using s by (intro less.hyps) simp
    then show ?thesis
      by (simp add: s b64_line_def chunks_Cons a2b_group append_assoc del: a2b_base64.simps b64_group.simps)
  qed
qed

theorem b64_roundtrip: "b64_decode (b64_encode s) = Inr s"
  unfolding b64_decode_def
proof (induction "length s" arbitrary: s rule: less_induct)
  case less
  show ?case
  proof (cases "length s \<le> 57")
    case True
    then show ?thesis
      by (cases "s = []") (simp_all add: b64_encode_def chunks_Cons a2b_last del: a2b_base64.simps(2))
  next
    case False
    let ?l = "take 57 s" and ?r = "drop 57 s"
    have "a2b_base64 0 [] (b64_encode ?r) = Inr ?r" using False by (intro less.hyps) simp
    moreover have "length ?l mod 3 = 0" using False by simp
    moreover have "b64_encode s = b64_line ?l @ b64_encode ?r"
      using False by (cases "s = []") (simp_all add: b64_encode_def chunks_Cons [of 57 s])
    ultimately show ?thesis by (simp add: a2b_line del: a2b_base64.simps)
  qed
qed

end
