(* ===== verification/Messages.thy ===== *)
theory Messages
  imports Wire Base64
begin

text \<open>
  \<open>messages.py\<close>: the messages between the program and the process of the network and between nodes. An
  envelope is the dictionary of a JSON object; its values are strings, integers, lists of either and, for the
  peers, a dictionary of strings. \<open>json.dumps\<close> and \<open>json.loads\<close> are the two fields of a parameter record. A
  field with a value of another type than the protocol gives it is not modelled: reading it is a
  TypeError. Strings are ASCII, so \<open>encode('utf-8')\<close> does nothing.
\<close>

section \<open>Envelopes\<close>

datatype jval = JStr string | JInt int | JStrs "string list" | JInts "int list" | JDict "(string \<times> string) list"

type_synonym envelope = "(string \<times> jval) list"

record jcodec =
  jc_dumps :: "envelope \<Rightarrow> string"
  jc_loads :: "string \<Rightarrow> envelope res"

text \<open>What the documentation promises: the object is read back, and without indentation its text is one
  line that begins and ends with a brace.\<close>

definition jcodec_ok :: "jcodec \<Rightarrow> bool" where
  "jcodec_ok J \<longleftrightarrow> (\<forall>d. jc_loads J (jc_dumps J d) = Inr d \<and> CHR 0x0A \<notin> set (jc_dumps J d) \<and> CHR 0x0D \<notin> set (jc_dumps J d) \<and>
     (\<exists>s. jc_dumps J d = CHR 0x7B # s @ [CHR 0x7D]))"

definition make_envelope :: "jcodec \<Rightarrow> string \<Rightarrow> envelope \<Rightarrow> string" where
  "make_envelope J msgtype kwargs = jc_dumps J ((''msgtype'', JStr msgtype) # kwargs) @ [CHR 0x0D, CHR 0x0A]"

definition read_envelope :: "jcodec \<Rightarrow> string \<Rightarrow> envelope res" where
  "read_envelope J msg = jc_loads J msg"

text \<open>\<open>data["k"]\<close> at the types of the protocol.\<close>

definition field :: "envelope \<Rightarrow> string \<Rightarrow> jval res" where
  "field d k = (case map_of d k of Some v \<Rightarrow> Inr v | None \<Rightarrow> Inl KeyError)"

definition str_field :: "envelope \<Rightarrow> string \<Rightarrow> string res" where
  "str_field d k = bindE (field d k) (\<lambda>v. case v of JStr s \<Rightarrow> Inr s | _ \<Rightarrow> Inl TypeError)"

definition int_field :: "envelope \<Rightarrow> string \<Rightarrow> int res" where
  "int_field d k = bindE (field d k) (\<lambda>v. case v of JInt n \<Rightarrow> Inr n | _ \<Rightarrow> Inl TypeError)"

definition strs_field :: "envelope \<Rightarrow> string \<Rightarrow> string list res" where
  "strs_field d k = bindE (field d k) (\<lambda>v. case v of JStrs xs \<Rightarrow> Inr xs | _ \<Rightarrow> Inl TypeError)"

definition ints_field :: "envelope \<Rightarrow> string \<Rightarrow> int list res" where
  "ints_field d k = bindE (field d k) (\<lambda>v. case v of JInts xs \<Rightarrow> Inr xs | _ \<Rightarrow> Inl TypeError)"

definition dict_field :: "envelope \<Rightarrow> string \<Rightarrow> (string \<times> string) list res" where
  "dict_field d k = bindE (field d k) (\<lambda>v. case v of JDict m \<Rightarrow> Inr m | _ \<Rightarrow> Inl TypeError)"

section \<open>The messages\<close>

definition msg_quit :: "jcodec \<Rightarrow> string" where
  "msg_quit J = make_envelope J ''quit'' []"

definition msg_none :: "jcodec \<Rightarrow> string" where
  "msg_none J = make_envelope J ''none'' []"

definition msg_true :: "jcodec \<Rightarrow> string" where
  "msg_true J = make_envelope J ''true'' []"

definition msg_false :: "jcodec \<Rightarrow> string" where
  "msg_false J = make_envelope J ''false'' []"

definition msg_ping :: "jcodec \<Rightarrow> string" where
  "msg_ping J = make_envelope J ''ping'' []"

definition msg_pong :: "jcodec \<Rightarrow> string" where
  "msg_pong J = make_envelope J ''pong'' []"

definition msg_get_peers :: "jcodec \<Rightarrow> string" where
  "msg_get_peers J = make_envelope J ''get_peers'' []"

definition msg_set_peers :: "jcodec \<Rightarrow> (string \<times> string) list \<Rightarrow> string" where
  "msg_set_peers J peers = make_envelope J ''set_peers'' [(''peers'', JDict peers)]"

definition msg_bootstrap :: "jcodec \<Rightarrow> string" where
  "msg_bootstrap J = make_envelope J ''bootstrap'' []"

definition msg_get_tx :: "jcodec \<Rightarrow> string" where
  "msg_get_tx J = make_envelope J ''get_tx'' []"

definition msg_get_tx_pool :: "jcodec \<Rightarrow> string" where
  "msg_get_tx_pool J = make_envelope J ''get_tx_pool'' []"

definition raw_tx :: "ext \<Rightarrow> tx \<Rightarrow> string" where
  "raw_tx E t = b64_encode (rlp_enc E (tx_item E t))"

definition raw_block :: "ext \<Rightarrow> block \<Rightarrow> string" where
  "raw_block E b = b64_encode (block_rlp E b)"

definition msg_set_tx :: "ext \<Rightarrow> jcodec \<Rightarrow> tx \<Rightarrow> string" where
  "msg_set_tx E J t = make_envelope J ''set_tx'' [(''tx'', JStr (raw_tx E t))]"

definition msg_set_tx_pool :: "jcodec \<Rightarrow> string list \<Rightarrow> string" where
  "msg_set_tx_pool J txs = make_envelope J ''set_tx_pool'' [(''txs'', JStrs txs)]"

definition msg_set_tx_local :: "jcodec \<Rightarrow> string \<Rightarrow> string" where
  "msg_set_tx_local J t = make_envelope J ''set_tx_local'' [(''tx'', JStr t)]"

definition msg_get_num_blocks :: "jcodec \<Rightarrow> string" where
  "msg_get_num_blocks J = make_envelope J ''get_num_blocks'' []"

definition msg_set_num_blocks :: "jcodec \<Rightarrow> int \<Rightarrow> string" where
  "msg_set_num_blocks J num = make_envelope J ''set_num_blocks'' [(''num'', JInt num)]"

definition msg_get_block_num :: "jcodec \<Rightarrow> int \<Rightarrow> string" where
  "msg_get_block_num J num = make_envelope J ''get_block_num'' [(''num'', JInt num)]"

definition msg_get_block :: "jcodec \<Rightarrow> string" where
  "msg_get_block J = make_envelope J ''get_block'' []"

definition msg_get_blocks :: "jcodec \<Rightarrow> int \<Rightarrow> int \<Rightarrow> string" where
  "msg_get_blocks J num chunk = make_envelope J ''get_blocks'' [(''num'', JInt num), (''chunk'', JInt chunk)]"

definition msg_set_block :: "ext \<Rightarrow> jcodec \<Rightarrow> block \<Rightarrow> string" where
  "msg_set_block E J b = make_envelope J ''set_block'' [(''block'', JStr (raw_block E b))]"

definition msg_set_blocks :: "jcodec \<Rightarrow> string list \<Rightarrow> string" where
  "msg_set_blocks J bs = make_envelope J ''set_blocks'' [(''blocks'', JStrs bs)]"

definition msg_set_block_local :: "jcodec \<Rightarrow> string \<Rightarrow> string" where
  "msg_set_block_local J b = make_envelope J ''set_block_local'' [(''block'', JStr b)]"

definition msg_get_block_queries :: "jcodec \<Rightarrow> string" where
  "msg_get_block_queries J = make_envelope J ''get_block_queries'' []"

definition msg_set_block_queries :: "jcodec \<Rightarrow> int list \<Rightarrow> string" where
  "msg_set_block_queries J bs = make_envelope J ''set_block_queries'' [(''blocks'', JInts bs)]"

definition msg_answer_block_queries :: "ext \<Rightarrow> jcodec \<Rightarrow> block list \<Rightarrow> string" where
  "msg_answer_block_queries E J bs = make_envelope J ''answer_block_queries'' [(''blocks'', JStrs (map (raw_block E) bs))]"

definition msg_tx_pool_query :: "jcodec \<Rightarrow> string" where
  "msg_tx_pool_query J = make_envelope J ''tx_pool_query'' []"

definition msg_answer_tx_pool_query :: "ext \<Rightarrow> jcodec \<Rightarrow> tx list \<Rightarrow> string" where
  "msg_answer_tx_pool_query E J txs = make_envelope J ''answer_tx_pool_query'' [(''txs'', JStrs (map (raw_tx E) txs))]"

definition raw_share :: "ext \<Rightarrow> share \<Rightarrow> string" where
  "raw_share E s = b64_encode (rlp_enc E (share_item E s))"

definition raw_dkg_share :: "ext \<Rightarrow> dkg_share \<Rightarrow> string" where
  "raw_dkg_share E s = b64_encode (rlp_enc E (dkg_share_item s))"

definition msg_set_share :: "ext \<Rightarrow> jcodec \<Rightarrow> share \<Rightarrow> string" where
  "msg_set_share E J s = make_envelope J ''set_share'' [(''share'', JStr (raw_share E s))]"

definition msg_get_share :: "jcodec \<Rightarrow> string" where
  "msg_get_share J = make_envelope J ''get_share'' []"

definition msg_set_share_local :: "jcodec \<Rightarrow> string \<Rightarrow> string" where
  "msg_set_share_local J s = make_envelope J ''set_share_local'' [(''share'', JStr s)]"

definition msg_set_dkg_share :: "ext \<Rightarrow> jcodec \<Rightarrow> dkg_share \<Rightarrow> string" where
  "msg_set_dkg_share E J s = make_envelope J ''set_dkg_share'' [(''share'', JStr (raw_dkg_share E s))]"

definition msg_get_dkg_share :: "jcodec \<Rightarrow> string" where
  "msg_get_dkg_share J = make_envelope J ''get_dkg_share'' []"

definition msg_set_dkg_share_local :: "jcodec \<Rightarrow> string \<Rightarrow> string" where
  "msg_set_dkg_share_local J s = make_envelope J ''set_dkg_share_local'' [(''dkg_share'', JStr s)]"

section \<open>Reading what was sent\<close>

text \<open>\<open>rlp.decode(raw.decode('base64'), C)\<close>.\<close>

definition read_raw_tx :: "ext \<Rightarrow> iplib \<Rightarrow> string \<Rightarrow> tx res" where
  "read_raw_tx E L s = bindE (b64_decode s) (tx_decode E L)"

definition read_raw_block :: "ext \<Rightarrow> iplib \<Rightarrow> string \<Rightarrow> block res" where
  "read_raw_block E L s = bindE (b64_decode s) (block_decode E L)"

definition read_raw_share :: "ext \<Rightarrow> string \<Rightarrow> share res" where
  "read_raw_share E s = bindE (b64_decode s) (share_decode E)"

definition read_raw_dkg_share :: "ext \<Rightarrow> string \<Rightarrow> dkg_share res" where
  "read_raw_dkg_share E s = bindE (b64_decode s) (dkg_share_decode E)"

end
