(* ===== verification/Network.thy ===== *)
theory Network
  imports Messages "HOL-Library.AList"
begin

text \<open>
  \<open>network.py\<close>: the process that speaks with the other nodes. The state of \<open>myFactory\<close>, with the protocol
  objects of its connections, is the record \<open>network\<close>; a connection is a number. Every callback of twisted is
  an operation; what it does to the outside, writing, closing and opening connections, starting and stopping
  periodic calls, is appended to \<open>nw_out\<close>. A set is a list without repetition, whose \<open>pop\<close> takes
  the first element; a message to a peer that \<open>random.choice\<close> picks is \<open>ToAny\<close>.
\<close>

section \<open>The state\<close>

record peer =
  pr_nodeid :: "string option"
  pr_waiting :: bool
  pr_pong :: bool
  pr_buffer :: string
  pr_host :: string

datatype call = PingCall nat | CkNumBlocks | CkBlocks | CkTx | CkDhtBlock

datatype action =
    Write nat string | Close nat | Connect string | ToAny string
  | StartCall call | StopCall call | CheckBlocksLater int | CheckBlockLater int | CheckPongLater nat
  | DhtSet string | DhtGet | StopReactor

record network =
  nw_nodeid :: string
  nw_num_block :: int
  nw_last_served_block :: int
  nw_peers :: "(string \<times> nat) list"
  nw_peers_ip :: "(string \<times> string) list"
  nw_blocks :: "(int \<times> string) list"
  nw_transactions :: "string list"
  nw_local :: "nat option"
  nw_bootstrap :: bool
  nw_ck_num :: bool
  nw_tx_pool :: bool
  nw_block_queries :: "(nat \<times> int list) list"
  nw_tx_pool_query :: "nat list"
  nw_shares :: "string list"
  nw_dkg_shares :: "string list"
  nw_conns :: "(nat \<times> peer) list"
  nw_local_buffers :: "(nat \<times> string) list"
  nw_out :: "action list"

definition BLOCK_CHUNK :: int where
  "BLOCK_CHUNK = 10"

text \<open>\<open>myFactory(last_block)\<close> and \<open>startFactory\<close>.\<close>

definition start_factory :: "string \<Rightarrow> int \<Rightarrow> network" where
  "start_factory nodeid last_block = \<lparr>nw_nodeid = nodeid, nw_num_block = last_block, nw_last_served_block = last_block,
     nw_peers = [], nw_peers_ip = [], nw_blocks = [], nw_transactions = [], nw_local = None, nw_bootstrap = False,
     nw_ck_num = False, nw_tx_pool = False, nw_block_queries = [], nw_tx_pool_query = [], nw_shares = [], nw_dkg_shares = [],
     nw_conns = [], nw_local_buffers = [], nw_out = []\<rparr>"

definition emit :: "action \<Rightarrow> (network, unit) M" where
  "emit x = modifyM (\<lambda>w. w\<lparr>nw_out := nw_out w @ [x]\<rparr>)"

definition send_any :: "string \<Rightarrow> (network, unit) M" where
  "send_any msg = bindM (gets nw_peers) (\<lambda>ps. if ps = [] then raise IndexError else emit (ToAny msg))"

definition send_peers :: "string \<Rightarrow> (network, unit) M" where
  "send_peers msg = bindM (gets nw_peers) (\<lambda>ps. forM ps (\<lambda>(nodeid, c). emit (Write c msg)))"

definition tryM :: "('s, unit) M \<Rightarrow> ('s, unit) M" where
  "tryM m = catchM m (\<lambda>e. is_a e PyException) (\<lambda>_. ret ())"

definition set_conn :: "nat \<Rightarrow> (peer \<Rightarrow> peer) \<Rightarrow> network \<Rightarrow> network" where
  "set_conn c f w = (case map_of (nw_conns w) c of None \<Rightarrow> w | Some p \<Rightarrow> w\<lparr>nw_conns := AList.update c (f p) (nw_conns w)\<rparr>)"

section \<open>Messages of other nodes\<close>

definition add_block_query :: "nat \<Rightarrow> int \<Rightarrow> network \<Rightarrow> network" where
  "add_block_query c num w =
     w\<lparr>nw_block_queries := AList.update c
        (case map_of (nw_block_queries w) c of None \<Rightarrow> [num] | Some ns \<Rightarrow> List.insert num ns) (nw_block_queries w)\<rparr>"

text \<open>A block the program has processed is asked for later; a newer one is in the dictionary.\<close>

definition look_up_block :: "nat \<Rightarrow> int \<Rightarrow> (network, string list) M" where
  "look_up_block c num =
     bindM (gets (\<lambda>w. w)) (\<lambda>w.
     if num \<le> nw_last_served_block w \<and> \<not> nw_bootstrap w
     then bindM (modifyM (add_block_query c num)) (\<lambda>_. ret [])
     else if num \<le> nw_num_block w then ret (case map_of (nw_blocks w) num of None \<Rightarrow> [] | Some b \<Rightarrow> [b])
     else ret [])"

definition on_set_peers :: "jcodec \<Rightarrow> nat \<Rightarrow> envelope \<Rightarrow> (network, unit) M" where
  "on_set_peers J c d =
     bindM (gets (\<lambda>w. w)) (\<lambda>w.
     if \<not> nw_bootstrap w then ret ()
     else
       bindM (liftE (case map_of d ''peers'' of None \<Rightarrow> Inl TypeError | Some _ \<Rightarrow> dict_field d ''peers'')) (\<lambda>peers.
       bindM (forM peers (\<lambda>(key, host).
         if map_of (nw_peers_ip w) key = None \<and> key \<noteq> nw_nodeid w then emit (Connect host) else ret ())) (\<lambda>_.
       emit (Write c (msg_get_num_blocks J)))))"

definition on_set_num_blocks :: "envelope \<Rightarrow> (network, unit) M" where
  "on_set_num_blocks d =
     bindM (gets nw_bootstrap) (\<lambda>boot.
     if \<not> boot then ret ()
     else
       bindM (liftE (int_field d ''num'')) (\<lambda>num.
       modifyM (\<lambda>w. w\<lparr>nw_num_block := max num (nw_num_block w), nw_ck_num := True\<rparr>)))"

definition on_set_tx :: "ext \<Rightarrow> iplib \<Rightarrow> envelope \<Rightarrow> (network, unit) M" where
  "on_set_tx E L d = tryM (
     bindM (liftE (str_field d ''tx'')) (\<lambda>s.
     bindM (liftE (read_raw_tx E L s)) (\<lambda>_.
     modifyM (\<lambda>w. w\<lparr>nw_transactions := List.insert s (nw_transactions w)\<rparr>))))"

definition on_set_block :: "ext \<Rightarrow> iplib \<Rightarrow> envelope \<Rightarrow> (network, unit) M" where
  "on_set_block E L d = tryM (
     bindM (liftE (str_field d ''block'')) (\<lambda>s.
     bindM (liftE (read_raw_block E L s)) (\<lambda>b.
     let number = int (h_number (b_header b))
     in modifyM (\<lambda>w. if nw_num_block w = number - 1
          then w\<lparr>nw_blocks := AList.update number s (nw_blocks w), nw_num_block := nw_num_block w + 1\<rparr> else w))))"

definition keep_block :: "ext \<Rightarrow> iplib \<Rightarrow> string \<Rightarrow> (network, unit) M" where
  "keep_block E L s = tryM (
     bindM (liftE (read_raw_block E L s)) (\<lambda>b.
     let number = int (h_number (b_header b))
     in modifyM (\<lambda>w. if number > nw_last_served_block w \<and> map_of (nw_blocks w) number = None
          then w\<lparr>nw_blocks := AList.update number s (nw_blocks w)\<rparr> else w)))"

definition on_set_blocks :: "ext \<Rightarrow> iplib \<Rightarrow> envelope \<Rightarrow> (network, unit) M" where
  "on_set_blocks E L d =
     bindM (gets nw_bootstrap) (\<lambda>boot.
     if \<not> boot then ret ()
     else bindM (liftE (strs_field d ''blocks'')) (\<lambda>bs. forM bs (keep_block E L)))"

definition on_get_block_num :: "jcodec \<Rightarrow> nat \<Rightarrow> envelope \<Rightarrow> (network, unit) M" where
  "on_get_block_num J c d =
     bindM (liftE (int_field d ''num'')) (\<lambda>num.
     bindM (look_up_block c num) (\<lambda>bs. if bs = [] then ret () else emit (Write c (msg_set_blocks J bs))))"

definition on_get_blocks :: "jcodec \<Rightarrow> nat \<Rightarrow> envelope \<Rightarrow> (network, unit) M" where
  "on_get_blocks J c d =
     bindM (liftE (int_field d ''num'')) (\<lambda>num.
     bindM (liftE (int_field d ''chunk'')) (\<lambda>chunk.
     bindM (mapM (look_up_block c) [num..num + chunk - 1]) (\<lambda>bs.
     if concat bs = [] then ret () else emit (Write c (msg_set_blocks J (concat bs))))))"

definition on_set_tx_pool :: "ext \<Rightarrow> iplib \<Rightarrow> envelope \<Rightarrow> (network, unit) M" where
  "on_set_tx_pool E L d =
     bindM (gets (\<lambda>w. nw_bootstrap w \<and> \<not> nw_tx_pool w)) (\<lambda>wanted.
     if \<not> wanted then ret ()
     else
       bindM (liftE (strs_field d ''txs'')) (\<lambda>txs.
       bindM (forM txs (\<lambda>s. tryM (bindM (liftE (read_raw_tx E L s)) (\<lambda>_.
         modifyM (\<lambda>w. w\<lparr>nw_transactions := List.insert s (nw_transactions w)\<rparr>))))) (\<lambda>_.
       modifyM (\<lambda>w. w\<lparr>nw_tx_pool := True\<rparr>))))"

definition on_set_share :: "ext \<Rightarrow> envelope \<Rightarrow> (network, unit) M" where
  "on_set_share E d = tryM (
     bindM (liftE (str_field d ''share'')) (\<lambda>s. bindM (liftE (read_raw_share E s)) (\<lambda>_.
     modifyM (\<lambda>w. w\<lparr>nw_shares := List.insert s (nw_shares w)\<rparr>))))"

definition on_set_dkg_share :: "ext \<Rightarrow> envelope \<Rightarrow> (network, unit) M" where
  "on_set_dkg_share E d = tryM (
     bindM (liftE (str_field d ''share'')) (\<lambda>s. bindM (liftE (read_raw_dkg_share E s)) (\<lambda>_.
     modifyM (\<lambda>w. w\<lparr>nw_dkg_shares := List.insert s (nw_dkg_shares w)\<rparr>))))"

definition handle_p2p :: "ext \<Rightarrow> iplib \<Rightarrow> jcodec \<Rightarrow> nat \<Rightarrow> envelope \<Rightarrow> (network, unit) M" where
  "handle_p2p E L J c d =
     bindM (liftE (str_field d ''msgtype'')) (\<lambda>type.
     if type = ''ping'' then emit (Write c (msg_pong J))
     else if type = ''pong'' then modifyM (set_conn c (\<lambda>p. p\<lparr>pr_pong := True\<rparr>))
     else if type = ''get_peers'' then bindM (gets nw_peers_ip) (\<lambda>ps. emit (Write c (msg_set_peers J ps)))
     else if type = ''set_peers'' then on_set_peers J c d
     else if type = ''get_num_blocks'' then bindM (gets nw_num_block) (\<lambda>n. emit (Write c (msg_set_num_blocks J n)))
     else if type = ''set_num_blocks'' then on_set_num_blocks d
     else if type = ''set_tx'' then on_set_tx E L d
     else if type = ''set_block'' then on_set_block E L d
     else if type = ''set_blocks'' then on_set_blocks E L d
     else if type = ''get_block_num'' then on_get_block_num J c d
     else if type = ''get_blocks'' then on_get_blocks J c d
     else if type = ''get_tx_pool''
     then modifyM (\<lambda>w. if nw_bootstrap w then w else w\<lparr>nw_tx_pool_query := List.insert c (nw_tx_pool_query w)\<rparr>)
     else if type = ''set_tx_pool'' then on_set_tx_pool E L d
     else if type = ''set_share'' then on_set_share E d
     else if type = ''set_dkg_share'' then on_set_dkg_share E d
     else ret ())"

section \<open>Connections of other nodes\<close>

text \<open>\<open>str.splitlines\<close> of Python 2, and the suffix of a complete message.\<close>

fun splitlines :: "string \<Rightarrow> string list" where
  "splitlines [] = []"
| "splitlines (c # s) =
     (if c = CHR 0x0A then [] # splitlines s
      else if c = CHR 0x0D then (case s of d # s' \<Rightarrow> if d = CHR 0x0A then [] # splitlines s' else [] # splitlines s | [] \<Rightarrow> [[]])
      else case splitlines s of [] \<Rightarrow> [[c]] | l # ls \<Rightarrow>
        (if s \<noteq> [] \<and> (hd s = CHR 0x0A \<or> hd s = CHR 0x0D) then [c] # ls else (c # l) # ls))"

definition complete :: "string \<Rightarrow> bool" where
  "complete buf \<longleftrightarrow> drop (length buf - 2) buf = [CHR 0x0D, CHR 0x0A]"

definition hello :: "nat \<Rightarrow> string \<Rightarrow> (network, unit) M" where
  "hello c line =
     bindM (gets (\<lambda>w. map_of (nw_peers w) line)) (\<lambda>known.
     if known \<noteq> None then emit (Close c)
     else modifyM (\<lambda>w. case map_of (nw_conns w) c of
            None \<Rightarrow> w
          | Some p \<Rightarrow> w\<lparr>nw_conns := AList.update c (p\<lparr>pr_nodeid := Some line, pr_waiting := False\<rparr>) (nw_conns w),
              nw_peers := AList.update line c (nw_peers w), nw_peers_ip := AList.update line (pr_host p) (nw_peers_ip w)\<rparr>))"

definition p2p_line :: "ext \<Rightarrow> iplib \<Rightarrow> jcodec \<Rightarrow> nat \<Rightarrow> string \<Rightarrow> (network, unit) M" where
  "p2p_line E L J c line =
     bindM (gets (\<lambda>w. map_of (nw_conns w) c)) (\<lambda>p.
     case p of
       None \<Rightarrow> ret ()
     | Some p \<Rightarrow>
         if pr_waiting p then hello c line
         else catchM (bindM (liftE (read_envelope J line)) (handle_p2p E L J c)) (\<lambda>e. is_a e PyException) (\<lambda>_. emit (Close c)))"

definition p2p_data_received :: "ext \<Rightarrow> iplib \<Rightarrow> jcodec \<Rightarrow> nat \<Rightarrow> string \<Rightarrow> (network, unit) M" where
  "p2p_data_received E L J c data =
     bindM (modifyM (set_conn c (\<lambda>p. p\<lparr>pr_buffer := pr_buffer p @ data\<rparr>))) (\<lambda>_.
     bindM (gets (\<lambda>w. case map_of (nw_conns w) c of None \<Rightarrow> [] | Some p \<Rightarrow> pr_buffer p)) (\<lambda>buf.
     if \<not> complete buf then ret ()
     else bindM (forM (splitlines buf) (\<lambda>line. p2p_line E L J c (py_strip line))) (\<lambda>_.
          modifyM (set_conn c (\<lambda>p. p\<lparr>pr_buffer := []\<rparr>)))))"

text \<open>\<open>buildProtocol\<close> and \<open>connectionMade\<close>: connections of the own host are the program's.\<close>

definition p2p_connection_made :: "nat \<Rightarrow> string \<Rightarrow> (network, unit) M" where
  "p2p_connection_made c host =
     bindM (modifyM (\<lambda>w. w\<lparr>nw_conns := AList.update c \<lparr>pr_nodeid = None, pr_waiting = True, pr_pong = False, pr_buffer = [],
       pr_host = host\<rparr> (nw_conns w)\<rparr>)) (\<lambda>_.
     bindM (gets nw_nodeid) (\<lambda>i. bindM (emit (Write c (i @ [CHR 0x0D, CHR 0x0A]))) (\<lambda>_. emit (StartCall (PingCall c)))))"

definition p2p_connection_lost :: "nat \<Rightarrow> (network, unit) M" where
  "p2p_connection_lost c =
     bindM (gets (\<lambda>w. map_of (nw_conns w) c)) (\<lambda>p.
     bindM (modifyM (\<lambda>w. w\<lparr>nw_conns := AList.delete c (nw_conns w)\<rparr>)) (\<lambda>_.
     case Option.bind p pr_nodeid of
       None \<Rightarrow> ret ()
     | Some i \<Rightarrow>
         bindM (emit (StopCall (PingCall c))) (\<lambda>_.
         bindM (gets (\<lambda>w. map_of (nw_peers w) i)) (\<lambda>known.
         if known = None then raise KeyError else
         bindM (modifyM (\<lambda>w. w\<lparr>nw_peers := AList.delete i (nw_peers w)\<rparr>)) (\<lambda>_.
         bindM (gets (\<lambda>w. map_of (nw_peers_ip w) i)) (\<lambda>ip.
         if ip = None then raise KeyError else
         modifyM (\<lambda>w. w\<lparr>nw_peers_ip := AList.delete i (nw_peers_ip w),
           nw_block_queries := AList.delete c (nw_block_queries w)\<rparr>)))))))"

definition send_ping :: "jcodec \<Rightarrow> nat \<Rightarrow> (network, unit) M" where
  "send_ping J c =
     bindM (emit (Write c (msg_ping J))) (\<lambda>_.
     bindM (modifyM (set_conn c (\<lambda>p. p\<lparr>pr_pong := False\<rparr>))) (\<lambda>_. emit (CheckPongLater c)))"

definition check_pong :: "nat \<Rightarrow> (network, unit) M" where
  "check_pong c =
     bindM (gets (\<lambda>w. map_of (nw_conns w) c)) (\<lambda>p.
     case p of None \<Rightarrow> ret () | Some p \<Rightarrow> if pr_pong p then ret () else emit (Close c))"

section \<open>Messages of the program\<close>

definition give_tx :: "jcodec \<Rightarrow> nat \<Rightarrow> (network, unit) M" where
  "give_tx J c =
     bindM (gets nw_transactions) (\<lambda>ts.
     case ts of
       [] \<Rightarrow> emit (Write c (msg_none J))
     | t # ts' \<Rightarrow> bindM (modifyM (\<lambda>w. w\<lparr>nw_transactions := ts'\<rparr>)) (\<lambda>_. emit (Write c (msg_set_tx_local J t))))"

definition give_share :: "jcodec \<Rightarrow> nat \<Rightarrow> (network, unit) M" where
  "give_share J c =
     bindM (gets nw_shares) (\<lambda>ss.
     case ss of
       [] \<Rightarrow> emit (Write c (msg_none J))
     | s # ss' \<Rightarrow> bindM (modifyM (\<lambda>w. w\<lparr>nw_shares := ss'\<rparr>)) (\<lambda>_. emit (Write c (msg_set_share_local J s))))"

definition give_dkg_share :: "jcodec \<Rightarrow> nat \<Rightarrow> (network, unit) M" where
  "give_dkg_share J c =
     bindM (gets nw_dkg_shares) (\<lambda>ss.
     case ss of
       [] \<Rightarrow> emit (Write c (msg_none J))
     | s # ss' \<Rightarrow> bindM (modifyM (\<lambda>w. w\<lparr>nw_dkg_shares := ss'\<rparr>)) (\<lambda>_. emit (Write c (msg_set_dkg_share_local J s))))"

text \<open>The block after the last one served; an empty string counts as no block.\<close>

definition give_block :: "jcodec \<Rightarrow> nat \<Rightarrow> (network, unit) M" where
  "give_block J c =
     bindM (gets (\<lambda>w. map_of (nw_blocks w) (nw_last_served_block w + 1))) (\<lambda>b.
     case b of
       Some (x # xs) \<Rightarrow>
         bindM (emit (Write c (msg_set_block_local J (x # xs)))) (\<lambda>_.
         modifyM (\<lambda>w. w\<lparr>nw_last_served_block := nw_last_served_block w + 1\<rparr>))
     | _ \<Rightarrow> emit (Write c (msg_none J)))"

definition announce_block :: "string \<Rightarrow> (network, unit) M" where
  "announce_block line =
     bindM (send_peers (line @ [CHR 0x0D, CHR 0x0A])) (\<lambda>_.
     bindM (modifyM (\<lambda>w. w\<lparr>nw_num_block := nw_num_block w + 1, nw_last_served_block := nw_last_served_block w + 1\<rparr>)) (\<lambda>_.
     bindM (gets nw_num_block) (\<lambda>n. emit (DhtSet (py_str_int n)))))"

text \<open>The numbers asked for, gathered until there are ten.\<close>

fun gather_queries :: "int list list \<Rightarrow> int list \<Rightarrow> int list" where
  "gather_queries [] acc = acc"
| "gather_queries (v # vs) acc =
     (let acc' = fold List.insert v acc in if length acc' \<ge> 10 then acc' else gather_queries vs acc')"

definition give_block_queries :: "jcodec \<Rightarrow> nat \<Rightarrow> (network, unit) M" where
  "give_block_queries J c =
     bindM (gets nw_block_queries) (\<lambda>q.
     if q = [] then emit (Write c (msg_none J))
     else emit (Write c (msg_set_block_queries J (take 10 (gather_queries (map snd q) [])))))"

text \<open>The blocks of the answer that a peer has asked for; their numbers are taken out of its set.\<close>

fun pick_blocks :: "ext \<Rightarrow> iplib \<Rightarrow> string list \<Rightarrow> (int list, string list) M" where
  "pick_blocks E L [] = ret []"
| "pick_blocks E L (s # bs) =
     bindM (liftE (read_raw_block E L s)) (\<lambda>b.
     let number = int (h_number (b_header b))
     in bindM (gets (\<lambda>asked. number \<in> set asked)) (\<lambda>wanted.
        if wanted
        then bindM (modifyM (filter (\<lambda>k. k \<noteq> number))) (\<lambda>_.
             bindM (pick_blocks E L bs) (\<lambda>picked. ret (s # picked)))
        else pick_blocks E L bs))"

definition queries_of :: "nat \<Rightarrow> network \<Rightarrow> int list" where
  "queries_of c w = (case map_of (nw_block_queries w) c of None \<Rightarrow> [] | Some ns \<Rightarrow> ns)"

definition set_queries :: "nat \<Rightarrow> int list \<Rightarrow> network \<Rightarrow> network" where
  "set_queries c ns w = w\<lparr>nw_block_queries := AList.update c ns (nw_block_queries w)\<rparr>"

definition answer_peer :: "ext \<Rightarrow> iplib \<Rightarrow> jcodec \<Rightarrow> string list \<Rightarrow> nat \<Rightarrow> (network, unit) M" where
  "answer_peer E L J bs c =
     bindM (zoomM (queries_of c) (set_queries c) (pick_blocks E L bs)) (\<lambda>picked.
     bindM (modifyM (\<lambda>w. if queries_of c w = [] then w\<lparr>nw_block_queries := AList.delete c (nw_block_queries w)\<rparr> else w)) (\<lambda>_.
     emit (Write c (msg_set_blocks J picked))))"

definition on_answer_block_queries :: "ext \<Rightarrow> iplib \<Rightarrow> jcodec \<Rightarrow> envelope \<Rightarrow> (network, unit) M" where
  "on_answer_block_queries E L J d =
     bindM (gets (\<lambda>w. map fst (nw_block_queries w))) (\<lambda>peers.
     if peers = [] then ret ()
     else bindM (liftE (strs_field d ''blocks'')) (\<lambda>bs. forM peers (answer_peer E L J bs)))"

text \<open>A peer is taken out of the set before the field is read.\<close>

definition on_answer_tx_pool_query :: "jcodec \<Rightarrow> envelope \<Rightarrow> (network, unit) M" where
  "on_answer_tx_pool_query J d =
     bindM (gets nw_tx_pool_query) (\<lambda>peers.
     forM peers (\<lambda>c.
       bindM (modifyM (\<lambda>w. w\<lparr>nw_tx_pool_query := remove1 c (nw_tx_pool_query w)\<rparr>)) (\<lambda>_.
       bindM (liftE (strs_field d ''txs'')) (\<lambda>txs. emit (Write c (msg_set_tx_pool J txs))))))"

definition handle_local :: "ext \<Rightarrow> iplib \<Rightarrow> jcodec \<Rightarrow> nat \<Rightarrow> string \<Rightarrow> envelope \<Rightarrow> (network, unit) M" where
  "handle_local E L J c line d =
     bindM (liftE (str_field d ''msgtype'')) (\<lambda>type.
     if type = ''quit'' then emit StopReactor
     else if type = ''bootstrap'' then bindM (gets nw_bootstrap) (\<lambda>b. emit (Write c (if b then msg_true J else msg_false J)))
     else if type = ''get_tx'' then give_tx J c
     else if type = ''set_tx'' then send_peers (line @ [CHR 0x0D, CHR 0x0A])
     else if type = ''get_block'' then give_block J c
     else if type = ''set_block'' then announce_block line
     else if type = ''get_block_queries'' then give_block_queries J c
     else if type = ''answer_block_queries'' then on_answer_block_queries E L J d
     else if type = ''tx_pool_query''
     then bindM (gets nw_tx_pool_query) (\<lambda>q. emit (Write c (if q = [] then msg_false J else msg_true J)))
     else if type = ''answer_tx_pool_query'' then on_answer_tx_pool_query J d
     else if type = ''set_share'' then send_peers (line @ [CHR 0x0D, CHR 0x0A])
     else if type = ''get_share'' then give_share J c
     else if type = ''set_dkg_share'' then send_peers (line @ [CHR 0x0D, CHR 0x0A])
     else if type = ''get_dkg_share'' then give_dkg_share J c
     else ret ())"

section \<open>The connection of the program\<close>

definition local_connection_made :: "nat \<Rightarrow> (network, unit) M" where
  "local_connection_made c =
     bindM (modifyM (\<lambda>w. w\<lparr>nw_local_buffers := AList.update c [] (nw_local_buffers w)\<rparr>)) (\<lambda>_.
     bindM (gets nw_local) (\<lambda>l. if l = None then modifyM (\<lambda>w. w\<lparr>nw_local := Some c\<rparr>) else emit (Close c)))"

text \<open>The loss of any connection of the own host forgets the program's.\<close>

definition local_connection_lost :: "nat \<Rightarrow> (network, unit) M" where
  "local_connection_lost c = modifyM (\<lambda>w. w\<lparr>nw_local := None, nw_local_buffers := AList.delete c (nw_local_buffers w)\<rparr>)"

definition build_protocol :: "string \<Rightarrow> nat \<Rightarrow> string \<Rightarrow> (network, unit) M" where
  "build_protocol localhost c host = (if host = localhost then local_connection_made c else p2p_connection_made c host)"

definition local_line :: "ext \<Rightarrow> iplib \<Rightarrow> jcodec \<Rightarrow> nat \<Rightarrow> string \<Rightarrow> (network, unit) M" where
  "local_line E L J c line =
     catchM (bindM (liftE (read_envelope J line)) (handle_local E L J c line)) (\<lambda>e. is_a e PyException) (\<lambda>_. emit (Close c))"

definition local_data_received :: "ext \<Rightarrow> iplib \<Rightarrow> jcodec \<Rightarrow> nat \<Rightarrow> string \<Rightarrow> (network, unit) M" where
  "local_data_received E L J c data =
     bindM (gets (\<lambda>w. (case map_of (nw_local_buffers w) c of None \<Rightarrow> [] | Some b \<Rightarrow> b) @ data)) (\<lambda>buf.
     if \<not> complete buf then modifyM (\<lambda>w. w\<lparr>nw_local_buffers := AList.update c buf (nw_local_buffers w)\<rparr>)
     else bindM (forM (splitlines buf) (\<lambda>line. local_line E L J c (py_strip line))) (\<lambda>_.
          modifyM (\<lambda>w. w\<lparr>nw_local_buffers := AList.update c [] (nw_local_buffers w)\<rparr>)))"

section \<open>Periodic calls\<close>

text \<open>The requests for the blocks that are missing, ten in each. The last one asks for the number of blocks
  modulo ten.\<close>

definition chunk_starts :: "int \<Rightarrow> int \<Rightarrow> int list" where
  "chunk_starts served num = map (\<lambda>k. served + 1 + int k * BLOCK_CHUNK) [0..<nat ((num - served + BLOCK_CHUNK - 1) div BLOCK_CHUNK)]"

definition chunk_size :: "int \<Rightarrow> int \<Rightarrow> int" where
  "chunk_size num i = (if i + BLOCK_CHUNK - 1 > num then num mod BLOCK_CHUNK else BLOCK_CHUNK)"

definition get_blocks :: "jcodec \<Rightarrow> (network, unit) M" where
  "get_blocks J =
     bindM (gets (\<lambda>w. w)) (\<lambda>w.
     forM (chunk_starts (nw_last_served_block w) (nw_num_block w)) (\<lambda>i.
       bindM (send_any (msg_get_blocks J i (chunk_size (nw_num_block w) i))) (\<lambda>_. emit (CheckBlocksLater i))))"

definition check_blocks :: "jcodec \<Rightarrow> int \<Rightarrow> (network, unit) M" where
  "check_blocks J num =
     forM [num..num + BLOCK_CHUNK - 1] (\<lambda>i.
       bindM (gets (\<lambda>w. map_of (nw_blocks w) i = None \<and> i \<le> nw_num_block w)) (\<lambda>missing.
       if missing then bindM (send_any (msg_get_block_num J i)) (\<lambda>_. emit (CheckBlockLater i)) else ret ()))"

definition check_block_again :: "jcodec \<Rightarrow> int \<Rightarrow> (network, unit) M" where
  "check_block_again J num =
     bindM (gets (\<lambda>w. map_of (nw_blocks w) num)) (\<lambda>b.
     if b = None then bindM (send_any (msg_get_block_num J num)) (\<lambda>_. emit (CheckBlockLater num)) else ret ())"

definition check_num_blocks :: "jcodec \<Rightarrow> (network, unit) M" where
  "check_num_blocks J =
     bindM (gets nw_ck_num) (\<lambda>ok.
     if ok then bindM (emit (StopCall CkNumBlocks)) (\<lambda>_. bindM (emit (StartCall CkBlocks)) (\<lambda>_. get_blocks J)) else ret ())"

definition check_all_blocks :: "jcodec \<Rightarrow> (network, unit) M" where
  "check_all_blocks J =
     bindM (gets (\<lambda>w. int (length (nw_blocks w)) = nw_num_block w - nw_last_served_block w)) (\<lambda>all.
     if all
     then bindM (emit (StopCall CkBlocks)) (\<lambda>_. bindM (send_any (msg_get_tx_pool J)) (\<lambda>_. emit (StartCall CkTx)))
     else ret ())"

definition check_tx :: "jcodec \<Rightarrow> (network, unit) M" where
  "check_tx J =
     bindM (gets nw_tx_pool) (\<lambda>ok.
     if ok
     then bindM (emit (StopCall CkTx)) (\<lambda>_. bindM (modifyM (\<lambda>w. w\<lparr>nw_bootstrap := False\<rparr>)) (\<lambda>_. emit (StartCall CkDhtBlock)))
     else send_any (msg_get_tx_pool J))"

definition ask_dht :: "jcodec \<Rightarrow> string option \<Rightarrow> (network, unit) M" where
  "ask_dht J result =
     (case result of
        None \<Rightarrow> ret ()
      | Some s \<Rightarrow>
          bindM (liftE (py_int 10 s)) (\<lambda>r.
          bindM (gets nw_num_block) (\<lambda>n.
          if r > n then forM [n + 1..r] (\<lambda>i. send_any (msg_get_block_num J i)) else ret ())))"

definition check_dht :: "(network, unit) M" where
  "check_dht = emit DhtGet"

text \<open>The first connection, to the bootstrap node, or the start of the bootstrap node itself.\<close>

definition bootstrap_protocol :: "jcodec \<Rightarrow> nat \<Rightarrow> (network, unit) M" where
  "bootstrap_protocol J c =
     bindM (modifyM (\<lambda>w. w\<lparr>nw_bootstrap := True\<rparr>)) (\<lambda>_.
     bindM (emit (StartCall CkNumBlocks)) (\<lambda>_. emit (Write c (msg_get_peers J))))"

definition bootstrap_network :: "string \<Rightarrow> string \<Rightarrow> (network, unit) M" where
  "bootstrap_network node my_ip =
     (if node \<noteq> my_ip then emit (Connect node)
      else bindM (gets nw_num_block) (\<lambda>n. bindM (emit (DhtSet (py_str_int n))) (\<lambda>_. emit (StartCall CkDhtBlock))))"

end
