(* ===== verification/P2P.thy ===== *)
theory P2P
  imports Network
begin

text \<open>
  \<open>p2p.py\<close>: the program's side of the connection to the process of the network, the class \<open>P2P\<close>. The socket is
  a parameter: \<open>tp_tell\<close> sends a string, \<open>tp_ask\<close> sends one and reads until a line is complete. Most methods
  catch every exception and return None then.
\<close>

record 's transport =
  tp_tell :: "string \<Rightarrow> ('s, unit) M"
  tp_ask :: "string \<Rightarrow> ('s, string) M"

text \<open>The reply that \<open>read\<close> returns, with its type.\<close>

definition read_reply :: "jcodec \<Rightarrow> string \<Rightarrow> (string \<times> envelope) res" where
  "read_reply J buf = bindE (read_envelope J (py_strip buf)) (\<lambda>d. bindE (str_field d ''msgtype'') (\<lambda>type. Inr (type, d)))"

definition ask :: "jcodec \<Rightarrow> 's transport \<Rightarrow> string \<Rightarrow> (string \<times> envelope \<Rightarrow> 'a res) \<Rightarrow> ('s, 'a) M" where
  "ask J T msg f = bindM (tp_ask T msg) (\<lambda>buf. liftE (bindE (read_reply J buf) f))"

text \<open>\<open>try: ... except: log\<close>, with None as the result of the handler.\<close>

definition or_none :: "('s, 'a option) M \<Rightarrow> ('s, 'a option) M" where
  "or_none m = catchM m (\<lambda>e. True) (\<lambda>_. ret None)"

definition unless_none :: "(envelope \<Rightarrow> 'a res) \<Rightarrow> string \<times> envelope \<Rightarrow> 'a option res" where
  "unless_none f r = (if fst r = ''none'' then Inr None else bindE (f (snd r)) (\<lambda>x. Inr (Some x)))"

definition p2p_stop :: "jcodec \<Rightarrow> 's transport \<Rightarrow> ('s, unit) M" where
  "p2p_stop J T = tryM (tp_tell T (msg_quit J))"

definition p2p_bootstrap :: "jcodec \<Rightarrow> 's transport \<Rightarrow> ('s, bool option) M" where
  "p2p_bootstrap J T = or_none (ask J T (msg_bootstrap J) (\<lambda>r. Inr (Some (fst r = ''true''))))"

definition p2p_get_tx :: "ext \<Rightarrow> iplib \<Rightarrow> jcodec \<Rightarrow> 's transport \<Rightarrow> ('s, tx option) M" where
  "p2p_get_tx E L J T = or_none (ask J T (msg_get_tx J) (unless_none (\<lambda>d. bindE (str_field d ''tx'') (read_raw_tx E L))))"

definition p2p_broadcast_tx :: "ext \<Rightarrow> jcodec \<Rightarrow> 's transport \<Rightarrow> tx \<Rightarrow> ('s, unit) M" where
  "p2p_broadcast_tx E J T t = tryM (tp_tell T (msg_set_tx E J t))"

definition p2p_get_block :: "ext \<Rightarrow> iplib \<Rightarrow> jcodec \<Rightarrow> 's transport \<Rightarrow> ('s, block option) M" where
  "p2p_get_block E L J T =
     or_none (ask J T (msg_get_block J) (unless_none (\<lambda>d. bindE (str_field d ''block'') (read_raw_block E L))))"

definition p2p_broadcast_block :: "ext \<Rightarrow> jcodec \<Rightarrow> 's transport \<Rightarrow> block \<Rightarrow> ('s, unit) M" where
  "p2p_broadcast_block E J T b = tryM (tp_tell T (msg_set_block E J b))"

definition p2p_get_block_queries :: "jcodec \<Rightarrow> 's transport \<Rightarrow> ('s, int list option) M" where
  "p2p_get_block_queries J T = or_none (ask J T (msg_get_block_queries J) (unless_none (\<lambda>d. ints_field d ''blocks'')))"

definition p2p_answer_block_queries :: "ext \<Rightarrow> jcodec \<Rightarrow> 's transport \<Rightarrow> block list \<Rightarrow> ('s, unit) M" where
  "p2p_answer_block_queries E J T bs = tryM (tp_tell T (msg_answer_block_queries E J bs))"

definition p2p_tx_pool_query :: "jcodec \<Rightarrow> 's transport \<Rightarrow> ('s, bool option) M" where
  "p2p_tx_pool_query J T = or_none (ask J T (msg_tx_pool_query J) (\<lambda>r. Inr (Some (fst r = ''true''))))"

definition p2p_answer_tx_pool_query :: "ext \<Rightarrow> jcodec \<Rightarrow> 's transport \<Rightarrow> tx list \<Rightarrow> ('s, unit) M" where
  "p2p_answer_tx_pool_query E J T pool = tryM (tp_tell T (msg_answer_tx_pool_query E J pool))"

text \<open>The methods for shares pass the exception on.\<close>

definition p2p_broadcast_share :: "ext \<Rightarrow> jcodec \<Rightarrow> 's transport \<Rightarrow> share \<Rightarrow> ('s, unit) M" where
  "p2p_broadcast_share E J T s = tp_tell T (msg_set_share E J s)"

definition p2p_get_share :: "ext \<Rightarrow> jcodec \<Rightarrow> 's transport \<Rightarrow> ('s, share option) M" where
  "p2p_get_share E J T = ask J T (msg_get_share J) (unless_none (\<lambda>d. bindE (str_field d ''share'') (read_raw_share E)))"

definition p2p_send_dkg_share :: "ext \<Rightarrow> jcodec \<Rightarrow> 's transport \<Rightarrow> dkg_share \<Rightarrow> ('s, unit) M" where
  "p2p_send_dkg_share E J T s = tp_tell T (msg_set_dkg_share E J s)"

definition p2p_get_dkg_share :: "ext \<Rightarrow> jcodec \<Rightarrow> 's transport \<Rightarrow> ('s, dkg_share option) M" where
  "p2p_get_dkg_share E J T =
     ask J T (msg_get_dkg_share J) (unless_none (\<lambda>d. bindE (str_field d ''dkg_share'') (read_raw_dkg_share E)))"

text \<open>The connection to the model of the other process: what is sent arrives at once, and what it writes
  to this connection is read.\<close>

fun written :: "nat \<Rightarrow> action list \<Rightarrow> string" where
  "written c [] = []"
| "written c (Write k s # xs) = (if k = c then s @ written c xs else written c xs)"
| "written c (_ # xs) = written c xs"

definition process_transport :: "ext \<Rightarrow> iplib \<Rightarrow> jcodec \<Rightarrow> nat \<Rightarrow> network transport" where
  "process_transport E L J c =
     \<lparr>tp_tell = local_data_received E L J c,
      tp_ask = (\<lambda>msg. bindM (gets (\<lambda>w. length (nw_out w))) (\<lambda>n.
        bindM (local_data_received E L J c msg) (\<lambda>_. gets (\<lambda>w. written c (drop n (nw_out w))))))\<rparr>"

end
