(* ===== verification/MessageCodec.thy ===== *)
theory MessageCodec
  imports Messages
begin

text \<open>
  A codec of envelopes with the documented behaviour of \<open>json\<close>, for the witnesses: the fields as a list of
  words, each in hexadecimal, between braces.
\<close>

fun value_words :: "jval \<Rightarrow> string list" where
  "value_words (JStr s) = [''s'', s]"
| "value_words (JInt n) = [''i'', py_str_int n]"
| "value_words (JStrs xs) = ''l'' # dec_digits (length xs) # xs"
| "value_words (JInts ns) = ''n'' # dec_digits (length ns) # map py_str_int ns"
| "value_words (JDict m) = ''d'' # dec_digits (length m) # concat (map (\<lambda>(k, v). [k, v]) m)"

definition read_nat :: "string \<Rightarrow> nat" where
  "read_nat s = (case digits_value 10 0 s of Some n \<Rightarrow> n | None \<Rightarrow> 0)"

definition read_number :: "string \<Rightarrow> int" where
  "read_number s = (if take 1 s = ''-'' then - int (read_nat (drop 1 s)) else int (read_nat s))"

fun pairs :: "string list \<Rightarrow> (string \<times> string) list" where
  "pairs (k # v # r) = (k, v) # pairs r"
| "pairs _ = []"

fun read_fields :: "nat \<Rightarrow> string list \<Rightarrow> envelope" where
  "read_fields (Suc f) (k # t # x # r) =
     (if t = ''s'' then (k, JStr x) # read_fields f r
      else if t = ''i'' then (k, JInt (read_number x)) # read_fields f r
      else if t = ''l'' then (k, JStrs (take (read_nat x) r)) # read_fields f (drop (read_nat x) r)
      else if t = ''n'' then (k, JInts (map read_number (take (read_nat x) r))) # read_fields f (drop (read_nat x) r)
      else (k, JDict (pairs (take (2 * read_nat x) r))) # read_fields f (drop (2 * read_nat x) r))"
| "read_fields _ _ = []"

definition envelope_words :: "envelope \<Rightarrow> string list" where
  "envelope_words d = dec_digits (length d) # concat (map (\<lambda>(k, v). k # value_words v) d)"

definition jcodec_ref :: jcodec where
  "jcodec_ref = \<lparr>jc_dumps = (\<lambda>d. CHR 0x7B # join_with (CHR '','') (map hex_encode (envelope_words d)) @ [CHR 0x7D]),
     jc_loads = (\<lambda>s. bindE (mapE hex_decode (split_on (CHR '','') (butlast (drop 1 s)))) (\<lambda>ws.
       Inr (read_fields (read_nat (hd ws)) (tl ws))))\<rparr>"

lemma read_nat_dec [simp]: "read_nat (dec_digits n) = n"
  by (simp add: read_nat_def)

lemma read_number_str [simp]: "read_number (py_str_int n) = n"
  using dec_digits_plain [of "nat n"] by (auto simp: read_number_def py_str_int_def)

lemma pairs_concat [simp]: "pairs (concat (map (\<lambda>(k, v). [k, v]) m)) = m"
  by (induction m) auto

lemma length_pairs [simp]: "length (concat (map (\<lambda>(k, v). [k, v]) m)) = 2 * length m"
  by (induction m) auto

lemma read_fields_words: "read_fields (length d) (concat (map (\<lambda>(k, v). k # value_words v) d)) = d"
proof (induction d)
  case (Cons kv d)
  obtain k v where "kv = (k, v)" by fastforce
  with Cons show ?case
    by (cases v) (simp_all add: comp_def del: length_concat)
qed simp

lemma hex_words: "w \<in> set (map hex_encode ws) \<Longrightarrow> CHR '','' \<notin> set w \<and> CHR 0x0A \<notin> set w \<and> CHR 0x0D \<notin> set w"
proof -
  have "CHR '','' \<notin> set (hex_encode s) \<and> CHR 0x0A \<notin> set (hex_encode s) \<and> CHR 0x0D \<notin> set (hex_encode s)" for s
  proof (induction s)
    case (Cons c s)
    have "hex_digit n \<notin> {CHR '','', CHR 0x0A, CHR 0x0D}" if "n < 16" for n
      using less_16_cases [OF that] by (auto simp: hex_digit_def)
    from this [of "ord c div 16"] this [of "ord c mod 16"] Cons show ?case by auto
  qed simp
  then show "w \<in> set (map hex_encode ws) \<Longrightarrow> CHR '','' \<notin> set w \<and> CHR 0x0A \<notin> set w \<and> CHR 0x0D \<notin> set w" by auto
qed

lemma join_words: "x \<in> set (join_with c ws) \<Longrightarrow> x = c \<or> (\<exists>w \<in> set ws. x \<in> set w)"
  by (induction c ws rule: join_with.induct) auto

lemma jcodec_ref_ok: "jcodec_ok jcodec_ref"
  unfolding jcodec_ok_def
proof
  fix d
  let ?ws = "map hex_encode (envelope_words d)"
  have "split_on (CHR '','') (join_with (CHR '','') ?ws) = ?ws"
  proof (rule split_join)
    show "?ws \<noteq> []" by (simp add: envelope_words_def)
    show "\<forall>w \<in> set ?ws. CHR '','' \<notin> set w" using hex_words by blast
  qed
  moreover have "mapE hex_decode ?ws = Inr (envelope_words d)"
    by (simp add: mapE_eq_Inr list_all2_conv_all_nth)
  moreover have "CHR 0x0A \<notin> set (join_with (CHR '','') ?ws)" "CHR 0x0D \<notin> set (join_with (CHR '','') ?ws)"
    using hex_words [of _ "envelope_words d"] by (fastforce dest: join_words)+
  ultimately show "jc_loads jcodec_ref (jc_dumps jcodec_ref d) = Inr d \<and> CHR 0x0A \<notin> set (jc_dumps jcodec_ref d) \<and>
      CHR 0x0D \<notin> set (jc_dumps jcodec_ref d) \<and> (\<exists>s. jc_dumps jcodec_ref d = CHR 0x7B # s @ [CHR 0x7D])"
    by (simp add: jcodec_ref_def envelope_words_def read_fields_words)
qed

end
