(* ===== verification/NetworkCorrect.thy ===== *)
theory NetworkCorrect
  imports P2P MessageCodec ChainStored
begin

text \<open>
  What the process of the network guarantees: a message arrives as the line it was sent as; the block that a
  program announces is handed to the program of every peer that waits for it; the tables of connections and
  blocks are consistent after any sequence of events; and which blocks a starting node asks for.
\<close>

section \<open>A message is one line\<close>

lemma splitlines_line:
  "CHR 0x0A \<notin> set s \<Longrightarrow> CHR 0x0D \<notin> set s \<Longrightarrow> splitlines (s @ [CHR 0x0D, CHR 0x0A]) = [s]"
proof (induction s)
  case (Cons c s)
  then show ?case by (cases s) auto
qed simp

lemma envelope_line:
  assumes "jcodec_ok J"
  shows "splitlines (make_envelope J type kw) = [jc_dumps J ((''msgtype'', JStr type) # kw)]"
    and "py_strip (jc_dumps J d) = jc_dumps J d" and "complete (make_envelope J type kw)"
    and "read_envelope J (jc_dumps J d) = Inr d"
proof -
  obtain s where "jc_dumps J d = CHR 0x7B # s @ [CHR 0x7D]" using assms by (auto simp: jcodec_ok_def)
  then show "py_strip (jc_dumps J d) = jc_dumps J d" by (simp add: py_strip_def is_space_def)
  show "splitlines (make_envelope J type kw) = [jc_dumps J ((''msgtype'', JStr type) # kw)]"
    using assms unfolding make_envelope_def jcodec_ok_def by (intro splitlines_line) auto
qed (use assms in \<open>auto simp: complete_def make_envelope_def read_envelope_def jcodec_ok_def\<close>)

lemma str_field_type [simp]: "str_field ((''msgtype'', JStr s) # kw) ''msgtype'' = Inr s"
  by (simp add: str_field_def field_def)

text \<open>The line of an envelope on either side.\<close>

lemma p2p_receive:
  assumes "jcodec_ok J" "map_of (nw_conns w) c = Some p" "\<not> pr_waiting p" "pr_buffer p = []"
  shows "p2p_data_received E L J c (make_envelope J type kw) w =
    bindM (catchM (handle_p2p E L J c ((''msgtype'', JStr type) # kw)) (\<lambda>e. is_a e PyException) (\<lambda>_. emit (Close c)))
      (\<lambda>_. modifyM (set_conn c (\<lambda>p. p\<lparr>pr_buffer := []\<rparr>)))
      (set_conn c (\<lambda>p. p\<lparr>pr_buffer := make_envelope J type kw\<rparr>) w)"
  using assms
  by (simp add: p2p_data_received_def set_conn_def envelope_line p2p_line_def bindM_def update_conv split: prod.split sum.split)

lemma local_receive:
  assumes "jcodec_ok J" "map_of (nw_local_buffers w) c = Some []"
  shows "local_data_received E L J c (make_envelope J type kw) w =
    bindM (catchM (handle_local E L J c (jc_dumps J ((''msgtype'', JStr type) # kw)) ((''msgtype'', JStr type) # kw))
        (\<lambda>e. is_a e PyException) (\<lambda>_. emit (Close c)))
      (\<lambda>_. modifyM (\<lambda>w. w\<lparr>nw_local_buffers := AList.update c [] (nw_local_buffers w)\<rparr>)) w"
  using assms
  by (simp add: local_data_received_def envelope_line local_line_def bindM_def split: prod.split sum.split)

section \<open>An announced block\<close>

lemma raw_block_again:
  assumes "ext_ok E" "rlp_ok E" "sized E (block_item E b)" "block_stable E L b"
  shows "read_raw_block E L (raw_block E b) = Inr b"
  using block_decode_rlp [OF assms] by (simp add: read_raw_block_def raw_block_def b64_roundtrip)

lemma b64_encode_not_Nil: "s \<noteq> [] \<Longrightarrow> b64_encode s \<noteq> []"
  by (simp add: b64_encode_def chunks_Cons b64_line_def)

lemma raw_block_not_Nil:
  assumes "ext_ok E" "rlp_ok E"
  shows "raw_block E b \<noteq> []"
proof -
  have "block_rlp E b \<noteq> []"
  proof
    assume empty: "block_rlp E b = []"
    obtain xs where xs: "block_item E b = Lst xs" by (simp add: block_item_def)
    let ?p = "concat (map (encode_optimized E) xs)"
    have enc: "block_rlp E b = length_prefix E (length ?p) 192 @ ?p"
      using assms(2) by (simp add: block_rlp_def rlp_ok_def xs Let_def)
    with empty have "length ?p < 2 ^ 64" by simp
    from rlp_split_prefix [OF assms(1) this, of 192] enc empty show False by auto
  qed
  then show ?thesis unfolding raw_block_def by (rule b64_encode_not_Nil)
qed

lemma emit_all: "forM ps (\<lambda>(i, c). emit (Write c msg)) w = (Inr (), w\<lparr>nw_out := nw_out w @ map (\<lambda>(i, c). Write c msg) ps\<rparr>)"
  by (induction ps arbitrary: w) (auto simp: bindM_def emit_def modifyM_def)

lemma broadcast_run:
  assumes "jcodec_ok J" "map_of (nw_local_buffers w) c = Some []"
  shows "\<exists>w'. p2p_broadcast_block E J (process_transport E L J c) b w = (Inr (), w') \<and>
    nw_out w' = nw_out w @ map (\<lambda>(i, k). Write k (msg_set_block E J b)) (nw_peers w) @ [DhtSet (py_str_int (nw_num_block w + 1))] \<and>
    nw_num_block w' = nw_num_block w + 1"
  using assms
  by (simp add: p2p_broadcast_block_def tryM_def process_transport_def msg_set_block_def local_receive handle_local_def
      announce_block_def send_peers_def catchM_def bindM_def emit_all modifyM_def)
    (simp add: emit_def modifyM_def make_envelope_def)

lemma receive_block_run:
  assumes J: "jcodec_ok J" and ok: "ext_ok E" "rlp_ok E" "sized E (block_item E b)" "block_stable E L b"
    and conn: "map_of (nw_conns w) c = Some p" "\<not> pr_waiting p" "pr_buffer p = []"
    and new: "int (h_number (b_header b)) = nw_num_block w + 1"
  shows "\<exists>w'. p2p_data_received E L J c (msg_set_block E J b) w = (Inr (), w') \<and>
    nw_blocks w' = AList.update (nw_num_block w + 1) (raw_block E b) (nw_blocks w) \<and> nw_num_block w' = nw_num_block w + 1 \<and>
    nw_last_served_block w' = nw_last_served_block w \<and> nw_local_buffers w' = nw_local_buffers w \<and> nw_out w' = nw_out w"
proof -
  have "str_field [(''msgtype'', JStr ''set_block''), (''block'', JStr (raw_block E b))] ''block'' = Inr (raw_block E b)"
    by (simp add: str_field_def field_def)
  with J conn new raw_block_again [OF ok] show ?thesis
    by (simp add: msg_set_block_def p2p_receive handle_p2p_def on_set_block_def tryM_def catchM_def bindM_def modifyM_def
        set_conn_def update_conv)
qed

lemma serve_block_run:
  assumes J: "jcodec_ok J" and ok: "ext_ok E" "rlp_ok E" "sized E (block_item E b)" "block_stable E L b"
    and conn: "map_of (nw_local_buffers w) c = Some []"
    and waits: "map_of (nw_blocks w) (nw_last_served_block w + 1) = Some (raw_block E b)"
  shows "\<exists>w'. p2p_get_block E L J (process_transport E L J c) w = (Inr (Some b), w') \<and>
    nw_last_served_block w' = nw_last_served_block w + 1 \<and> nw_blocks w' = nw_blocks w \<and> map_of (nw_local_buffers w') c = Some []"
proof -
  obtain x xs where raw: "raw_block E b = x # xs" using raw_block_not_Nil [OF ok(1,2), of b] by (cases "raw_block E b") auto
  let ?d = "[(''msgtype'', JStr ''set_block_local''), (''block'', JStr (raw_block E b))]"
  have reply: "py_strip (msg_set_block_local J (raw_block E b)) = jc_dumps J ?d"
  proof -
    obtain s where "jc_dumps J ?d = CHR 0x7B # s @ [CHR 0x7D]" using J by (auto simp: jcodec_ok_def)
    then show ?thesis by (simp add: msg_set_block_local_def make_envelope_def py_strip_def is_space_def)
  qed
  have "str_field ?d ''block'' = Inr (raw_block E b)" by (simp add: str_field_def field_def)
  with J conn waits raw reply raw_block_again [OF ok] show ?thesis
    by (simp add: p2p_get_block_def or_none_def ask_def process_transport_def msg_get_block_def local_receive handle_local_def
        give_block_def catchM_def bindM_def emit_def modifyM_def read_reply_def envelope_line unless_none_def update_conv)
qed


text \<open>Two processes with a connection between them and a connection of their program each.\<close>

abbreviation linked :: "int \<Rightarrow> network" where
  "linked n \<equiv> (start_factory ''a'' n)\<lparr>nw_conns := [(7, \<lparr>pr_nodeid = Some ''b'', pr_waiting = False, pr_pong = True,
     pr_buffer = [], pr_host = ''10.0.0.2''\<rparr>)], nw_peers := [(''b'', 7)], nw_peers_ip := [(''b'', ''10.0.0.2'')],
     nw_local := Some 1, nw_local_buffers := [(1, [])]\<rparr>"


section \<open>The tables of the process\<close>

text \<open>Every block is kept under its own number. The two tables of peers have the same node ids, each of a
  connection that has this id; so losing a connection finds its entries.\<close>

definition blocks_numbered :: "ext \<Rightarrow> iplib \<Rightarrow> network \<Rightarrow> bool" where
  "blocks_numbered E L w \<longleftrightarrow>
     (\<forall>(k, s) \<in> set (nw_blocks w). \<exists>b. read_raw_block E L s = Inr b \<and> int (h_number (b_header b)) = k)"

definition peers_ok :: "network \<Rightarrow> bool" where
  "peers_ok w \<longleftrightarrow> map fst (nw_peers w) = map fst (nw_peers_ip w) \<and> distinct (map fst (nw_peers w)) \<and>
     (\<forall>c p. map_of (nw_conns w) c = Some p \<longrightarrow> pr_waiting p = (pr_nodeid p = None)) \<and>
     (\<forall>i c. map_of (nw_peers w) i = Some c \<longleftrightarrow> (\<exists>p. map_of (nw_conns w) c = Some p \<and> pr_nodeid p = Some i))"

text \<open>The events; a new connection has a new number.\<close>

inductive net_step :: "ext \<Rightarrow> iplib \<Rightarrow> jcodec \<Rightarrow> string \<Rightarrow> network \<Rightarrow> network \<Rightarrow> bool" for E L J localhost where
  connected: "c \<notin> fst ` set (nw_conns w) \<Longrightarrow> c \<notin> fst ` set (nw_local_buffers w) \<Longrightarrow>
    build_protocol localhost c host w = (r, w') \<Longrightarrow> net_step E L J localhost w w'"
| p2p_data: "p2p_data_received E L J c data w = (r, w') \<Longrightarrow> net_step E L J localhost w w'"
| p2p_lost: "p2p_connection_lost c w = (r, w') \<Longrightarrow> net_step E L J localhost w w'"
| local_data: "local_data_received E L J c data w = (r, w') \<Longrightarrow> net_step E L J localhost w w'"
| local_lost: "local_connection_lost c w = (r, w') \<Longrightarrow> net_step E L J localhost w w'"
| ping: "send_ping J c w = (r, w') \<Longrightarrow> net_step E L J localhost w w'"
| pong: "check_pong c w = (r, w') \<Longrightarrow> net_step E L J localhost w w'"
| num_blocks: "check_num_blocks J w = (r, w') \<Longrightarrow> net_step E L J localhost w w'"
| all_blocks: "check_all_blocks J w = (r, w') \<Longrightarrow> net_step E L J localhost w w'"
| tx: "check_tx J w = (r, w') \<Longrightarrow> net_step E L J localhost w w'"
| blocks: "check_blocks J num w = (r, w') \<Longrightarrow> net_step E L J localhost w w'"
| block: "check_block_again J num w = (r, w') \<Longrightarrow> net_step E L J localhost w w'"
| dht: "check_dht w = (r, w') \<Longrightarrow> net_step E L J localhost w w'"
| dht_reply: "ask_dht J result w = (r, w') \<Longrightarrow> net_step E L J localhost w w'"
| bootstrapped: "bootstrap_protocol J c w = (r, w') \<Longrightarrow> net_step E L J localhost w w'"
| bootstrapping: "bootstrap_network node my_ip w = (r, w') \<Longrightarrow> net_step E L J localhost w w'"

text \<open>Most operations do not touch these tables.\<close>

definition tables :: "network \<Rightarrow> (nat \<times> peer) list \<times> (string \<times> nat) list \<times> (string \<times> string) list \<times> (int \<times> string) list" where
  "tables w = (nw_conns w, nw_peers w, nw_peers_ip w, nw_blocks w)"

definition tables_ok :: "ext \<Rightarrow> iplib \<Rightarrow> network \<Rightarrow> bool" where
  "tables_ok E L w \<longleftrightarrow> blocks_numbered E L w \<and> peers_ok w"

lemma tables_ok_tables: "tables w' = tables w \<Longrightarrow> tables_ok E L w' = tables_ok E L w"
  by (simp add: tables_ok_def blocks_numbered_def peers_ok_def tables_def)

lemma net_keeps: "keeps tables m \<Longrightarrow> preserves (tables_ok E L) m"
  unfolding preserves_def by (metis keepsD tables_ok_tables)

lemma keeps_list_case [keeps_intros]:
  "keeps g m \<Longrightarrow> (\<And>x xs. keeps g (f x xs)) \<Longrightarrow> keeps g (case l of [] \<Rightarrow> m | x # xs \<Rightarrow> f x xs)"
  by (cases l) auto

lemma keeps_try [keeps_intros]: "keeps g m \<Longrightarrow> keeps g (tryM m)"
  unfolding tryM_def by (intro keeps_intros)

lemma keeps_emit [keeps_intros]: "keeps tables (emit x)" "keeps tables (send_any s)" "keeps tables (send_peers s)"
  unfolding emit_def send_any_def send_peers_def
  by (intro keeps_modify keeps_intros; simp add: tables_def)+

lemma keeps_lookup [keeps_intros]: "keeps tables (look_up_block c num)"
  unfolding look_up_block_def by (intro keeps_intros keeps_modify) (simp add: tables_def add_block_query_def)

lemma keeps_p2p [keeps_intros]:
  "keeps tables (on_set_peers J c d)" "keeps tables (on_set_num_blocks d)" "keeps tables (on_set_tx E L d)"
  "keeps tables (on_get_block_num J c d)" "keeps tables (on_get_blocks J c d)" "keeps tables (on_set_tx_pool E L d)"
  "keeps tables (on_set_share E d)" "keeps tables (on_set_dkg_share E d)"
  unfolding on_set_peers_def on_set_num_blocks_def on_set_tx_def on_get_block_num_def on_get_blocks_def on_set_tx_pool_def
    on_set_share_def on_set_dkg_share_def
  by (intro keeps_intros keeps_modify; simp add: tables_def)+

lemma keeps_answer_peer [keeps_intros]: "keeps tables (answer_peer E L J bs c)"
  unfolding answer_peer_def by (intro keeps_intros keeps_modify keeps_zoom) (simp_all add: tables_def set_queries_def)

lemma keeps_give [keeps_intros]:
  "keeps tables (give_tx J c)" "keeps tables (give_share J c)" "keeps tables (give_dkg_share J c)" "keeps tables (give_block J c)"
  "keeps tables (announce_block l)" "keeps tables (give_block_queries J c)" "keeps tables (on_answer_block_queries E L J d)"
  "keeps tables (on_answer_tx_pool_query J d)"
  unfolding give_tx_def give_share_def give_dkg_share_def give_block_def announce_block_def give_block_queries_def
    on_answer_block_queries_def on_answer_tx_pool_query_def
  by (intro keeps_intros keeps_modify; simp add: tables_def)+

lemma keeps_local [keeps_intros]:
  "keeps tables (local_data_received E L J c data)" "keeps tables (local_connection_lost c)" "keeps tables (local_connection_made c)"
  unfolding local_data_received_def local_line_def handle_local_def local_connection_lost_def local_connection_made_def
  by (intro keeps_intros keeps_modify; simp add: tables_def)+

lemma keeps_calls [keeps_intros]:
  "keeps tables (check_num_blocks J)" "keeps tables (check_all_blocks J)" "keeps tables (check_tx J)" "keeps tables (check_blocks J num)"
  "keeps tables (check_block_again J num)" "keeps tables (ask_dht J result)" "keeps tables check_dht" "keeps tables (check_pong c)"
  "keeps tables (bootstrap_protocol J c)" "keeps tables (bootstrap_network node my_ip)"
  unfolding check_num_blocks_def get_blocks_def check_all_blocks_def check_tx_def check_blocks_def check_block_again_def ask_dht_def
    check_dht_def check_pong_def bootstrap_protocol_def bootstrap_network_def
  by (intro keeps_intros keeps_modify; simp add: tables_def)+

lemma set_conn_peers_ok:
  assumes ok: "peers_ok w" and f: "\<And>p. pr_nodeid (f p) = pr_nodeid p" "\<And>p. pr_waiting (f p) = pr_waiting p"
  shows "peers_ok (set_conn c f w)"
proof (cases "map_of (nw_conns w) c")
  case None
  with ok show ?thesis by (simp add: set_conn_def)
next
  case (Some p)
  from ok have inv: "map fst (nw_peers w) = map fst (nw_peers_ip w)" "distinct (map fst (nw_peers w))"
    "\<And>c p. map_of (nw_conns w) c = Some p \<Longrightarrow> pr_waiting p = (pr_nodeid p = None)"
    "\<And>i c. map_of (nw_peers w) i = Some c \<longleftrightarrow> (\<exists>p. map_of (nw_conns w) c = Some p \<and> pr_nodeid p = Some i)"
    unfolding peers_ok_def by blast+
  show ?thesis
    using inv f Some by (auto simp: peers_ok_def set_conn_def update_conv simp del: map_of_eq_Some_iff)
qed

lemma set_conn_ok:
  "tables_ok E L w \<Longrightarrow> (\<And>p. pr_nodeid (f p) = pr_nodeid p) \<Longrightarrow> (\<And>p. pr_waiting (f p) = pr_waiting p) \<Longrightarrow>
    tables_ok E L (set_conn c f w)"
  by (simp add: tables_ok_def set_conn_peers_ok) (simp add: blocks_numbered_def set_conn_def split: option.splits)

lemma update_new_keys: "map_of xs k = None \<Longrightarrow> map fst (AList.update k v xs) = map fst xs @ [k]"
  by (induction xs) (auto split: if_splits)

lemma same_keys_None: "map fst xs = map fst ys \<Longrightarrow> (map_of xs k = None) = (map_of ys k = None)"
  by (metis list.set_map map_of_eq_None_iff)

lemma hello_peers_ok:
  assumes ok: "peers_ok w" and p: "map_of (nw_conns w) c = Some p" "pr_waiting p" and new: "map_of (nw_peers w) line = None"
  shows "peers_ok (w\<lparr>nw_conns := AList.update c (p\<lparr>pr_nodeid := Some line, pr_waiting := False\<rparr>) (nw_conns w),
    nw_peers := AList.update line c (nw_peers w), nw_peers_ip := AList.update line (pr_host p) (nw_peers_ip w)\<rparr>)"
proof -
  from ok have inv: "map fst (nw_peers w) = map fst (nw_peers_ip w)" "distinct (map fst (nw_peers w))"
    "\<And>c p. map_of (nw_conns w) c = Some p \<Longrightarrow> pr_waiting p = (pr_nodeid p = None)"
    "\<And>i c. map_of (nw_peers w) i = Some c \<longleftrightarrow> (\<exists>p. map_of (nw_conns w) c = Some p \<and> pr_nodeid p = Some i)"
    unfolding peers_ok_def by blast+
  have none: "pr_nodeid p = None" using inv(3) p by blast
  have "map_of (nw_peers_ip w) line = None" using same_keys_None [OF inv(1)] new by blast
  then have keys: "map fst (AList.update line c (nw_peers w)) = map fst (AList.update line (pr_host p) (nw_peers_ip w))"
    "distinct (map fst (AList.update line c (nw_peers w)))"
    using inv(1,2) new by (simp_all add: update_new_keys map_of_eq_None_iff)
  moreover have "pr_nodeid q \<noteq> Some line" if "map_of (nw_conns w) d = Some q" for d q
    using inv(4) [of line d] new that by simp
  ultimately show ?thesis
    using inv(3,4) none p new by (auto simp: peers_ok_def update_conv simp del: map_of_eq_Some_iff)
qed

lemma update_in: "x \<in> set (AList.update k v xs) \<Longrightarrow> x = (k, v) \<or> x \<in> set xs"
  by (induction xs) (auto split: if_splits)

lemma tables_ok_blocks:
  assumes "tables_ok E L w" "read_raw_block E L s = Inr b" "nw_blocks w' = AList.update (int (h_number (b_header b))) s (nw_blocks w)"
    and "peers_ok w' = peers_ok w"
  shows "tables_ok E L w'"
  using assms by (fastforce simp: tables_ok_def blocks_numbered_def dest: update_in)

lemma peers_ok_blocks: "peers_ok (w\<lparr>nw_blocks := bs, nw_num_block := n\<rparr>) = peers_ok w" "peers_ok (w\<lparr>nw_blocks := bs\<rparr>) = peers_ok w"
  by (simp_all add: peers_ok_def)

lemma preserves_liftE:
  assumes "\<And>x. r = Inr x \<Longrightarrow> preserves P (f x)"
  shows "preserves P (bindM (liftE r) f)"
  using assms by (cases r) (auto simp: preserves_def bindM_def liftE_def)

lemma on_set_block_ok [preserves_intros]:
  "preserves (tables_ok E L) (on_set_block E L d)" "preserves (tables_ok E L) (keep_block E L s)"
  unfolding on_set_block_def keep_block_def tryM_def Let_def
  by (intro preserves_catch preserves_liftE preserves_modify preserves_basic;
      auto elim: tables_ok_blocks simp: peers_ok_blocks)+

lemma handle_p2p_ok: "preserves (tables_ok E L) (handle_p2p E L J c d)"
  unfolding handle_p2p_def on_set_blocks_def
  by (intro preserves_liftE preserves_if preserves_bind preserves_basic preserves_forM on_set_block_ok
      net_keeps [OF keeps_emit(1)] keeps_p2p [THEN net_keeps])
    (auto intro!: preserves_modify set_conn_ok simp: tables_ok_def peers_ok_def blocks_numbered_def)

lemma blocks_numbered_cong: "nw_blocks w' = nw_blocks w \<Longrightarrow> blocks_numbered E L w' = blocks_numbered E L w"
  by (simp add: blocks_numbered_def)

lemma peers_ok_out: "peers_ok (w\<lparr>nw_out := xs\<rparr>) = peers_ok w" "blocks_numbered E L (w\<lparr>nw_out := xs\<rparr>) = blocks_numbered E L w"
  by (simp_all add: peers_ok_def blocks_numbered_def)

lemma hello_ok:
  assumes ok: "tables_ok E L w" and p: "map_of (nw_conns w) c = Some p" "pr_waiting p" and run: "hello c line w = (r, w')"
  shows "tables_ok E L w'"
proof (cases "map_of (nw_peers w) line")
  case None
  with run p have "w' = w\<lparr>nw_conns := AList.update c (p\<lparr>pr_nodeid := Some line, pr_waiting := False\<rparr>) (nw_conns w),
      nw_peers := AList.update line c (nw_peers w), nw_peers_ip := AList.update line (pr_host p) (nw_peers_ip w)\<rparr>"
    by (simp add: hello_def bindM_def gets_def modifyM_def)
  with hello_peers_ok [OF _ p None] ok show ?thesis by (simp add: tables_ok_def blocks_numbered_def)
next
  case (Some d)
  with run ok show ?thesis
    by (auto simp: hello_def bindM_def gets_def emit_def modifyM_def tables_ok_def peers_ok_out)
qed

lemma p2p_line_ok [preserves_intros]: "preserves (tables_ok E L) (p2p_line E L J c line)"
  unfolding preserves_def
proof (intro allI impI)
  fix w r w'
  assume ok: "tables_ok E L w" and run: "p2p_line E L J c line w = (r, w')"
  have rest: "preserves (tables_ok E L) (catchM (bindM (liftE (read_envelope J line)) (handle_p2p E L J c))
      (\<lambda>e. is_a e PyException) (\<lambda>_. emit (Close c)))"
    by (intro preserves_intros handle_p2p_ok net_keeps [OF keeps_emit(1)])
  show "tables_ok E L w'"
  proof (cases "map_of (nw_conns w) c")
    case None
    with run ok show ?thesis by (simp add: p2p_line_def bindM_def gets_def ret_def)
  next
    case (Some p)
    show ?thesis
    proof (cases "pr_waiting p")
      case True
      with run Some have "hello c line w = (r, w')" by (simp add: p2p_line_def bindM_def gets_def)
      with ok Some True show ?thesis by (rule hello_ok)
    next
      case False
      with run Some show ?thesis using preservesD [OF rest ok] by (simp add: p2p_line_def bindM_def [of "gets _"] gets_def)
    qed
  qed
qed

lemma delete_keys_same: "map fst xs = map fst ys \<Longrightarrow> map fst (AList.delete k xs) = map fst (AList.delete k ys)"
  by (simp add: delete_keys)

lemma lost_peers_ok:
  assumes ok: "peers_ok w" and p: "map_of (nw_conns w) c = Some p"
  shows "pr_nodeid p = None \<Longrightarrow> peers_ok (w\<lparr>nw_conns := AList.delete c (nw_conns w)\<rparr>)"
    and "pr_nodeid p = Some i \<Longrightarrow> peers_ok (w\<lparr>nw_peers := AList.delete i (nw_peers w),
      nw_peers_ip := AList.delete i (nw_peers_ip w), nw_conns := AList.delete c (nw_conns w)\<rparr>)"
proof -
  from ok have inv: "map fst (nw_peers w) = map fst (nw_peers_ip w)" "distinct (map fst (nw_peers w))"
    "\<And>c p. map_of (nw_conns w) c = Some p \<Longrightarrow> pr_waiting p = (pr_nodeid p = None)"
    "\<And>i c. map_of (nw_peers w) i = Some c \<longleftrightarrow> (\<exists>p. map_of (nw_conns w) c = Some p \<and> pr_nodeid p = Some i)"
    unfolding peers_ok_def by blast+
  show "peers_ok (w\<lparr>nw_conns := AList.delete c (nw_conns w)\<rparr>)" if "pr_nodeid p = None"
    using inv p that by (auto simp: peers_ok_def delete_conv' simp del: map_of_eq_Some_iff)
  show "peers_ok (w\<lparr>nw_peers := AList.delete i (nw_peers w),
      nw_peers_ip := AList.delete i (nw_peers_ip w), nw_conns := AList.delete c (nw_conns w)\<rparr>)" if "pr_nodeid p = Some i"
  proof -
    have "pr_nodeid q \<noteq> Some i" if "map_of (nw_conns w) d = Some q" "d \<noteq> c" for d q
      using inv(4) [of i d] inv(4) [of i c] p \<open>pr_nodeid p = Some i\<close> that by auto
    then show ?thesis
      using inv p that delete_keys_same [OF inv(1), of i] distinct_delete [OF inv(2), of i]
      by (auto simp: peers_ok_def delete_conv' simp del: map_of_eq_Some_iff)
  qed
qed

lemma p2p_connection_lost_run:
  assumes ok: "tables_ok E L w"
  shows "\<exists>w'. p2p_connection_lost c w = (Inr (), w') \<and> tables_ok E L w'"
proof (cases "map_of (nw_conns w) c")
  case None
  then have "AList.delete c (nw_conns w) = nw_conns w" by (simp add: delete_id map_of_eq_None_iff)
  with None ok show ?thesis by (simp add: p2p_connection_lost_def bindM_def gets_def ret_def modifyM_def)
next
  case (Some p)
  show ?thesis
  proof (cases "pr_nodeid p")
    case None
    with ok Some lost_peers_ok(1) [of w c p] show ?thesis
      by (simp add: p2p_connection_lost_def bindM_def gets_def ret_def modifyM_def tables_ok_def blocks_numbered_def)
  next
    case i: (Some i)
    from ok have peers: "map fst (nw_peers w) = map fst (nw_peers_ip w)" "map_of (nw_peers w) i = Some c"
      using Some i by (simp_all add: tables_ok_def peers_ok_def)
    have "map_of (nw_peers_ip w) i \<noteq> None" using same_keys_None [OF peers(1), of i] peers(2) by simp
    moreover have "peers_ok (w\<lparr>nw_conns := C, nw_out := xs, nw_peers := P, nw_peers_ip := Q, nw_block_queries := q\<rparr>) =
        peers_ok (w\<lparr>nw_peers := P, nw_peers_ip := Q, nw_conns := C\<rparr>)" for xs P Q q C
      by (simp add: peers_ok_def)
    ultimately show ?thesis using peers Some i ok lost_peers_ok(2) [of w c p i]
      by (simp add: p2p_connection_lost_def bindM_def gets_def modifyM_def emit_def tables_ok_def blocks_numbered_def)
  qed
qed

lemma p2p_connection_lost_ok: "preserves (tables_ok E L) (p2p_connection_lost c)"
  unfolding preserves_def
proof (intro allI impI)
  fix w r w' assume "tables_ok E L w" "p2p_connection_lost c w = (r, w')"
  with p2p_connection_lost_run [of E L w c] show "tables_ok E L w'" by auto
qed

lemma p2p_connection_made_ok:
  assumes ok: "tables_ok E L w" and new: "c \<notin> fst ` set (nw_conns w)" and run: "p2p_connection_made c host w = (r, w')"
  shows "tables_ok E L w'"
proof -
  let ?p = "\<lparr>pr_nodeid = None, pr_waiting = True, pr_pong = False, pr_buffer = [], pr_host = host\<rparr>"
  have "map_of (nw_conns w) c = None" using new by (simp add: map_of_eq_None_iff)
  with ok have "peers_ok (w\<lparr>nw_conns := AList.update c ?p (nw_conns w)\<rparr>)"
    by (auto simp: tables_ok_def peers_ok_def update_conv simp del: map_of_eq_Some_iff)
  moreover from run have "tables w' = tables (w\<lparr>nw_conns := AList.update c ?p (nw_conns w)\<rparr>)"
    by (auto simp: p2p_connection_made_def bindM_def modifyM_def gets_def emit_def tables_def)
  moreover have "blocks_numbered E L (w\<lparr>nw_conns := AList.update c ?p (nw_conns w)\<rparr>)"
    using ok by (simp add: tables_ok_def blocks_numbered_def)
  ultimately show ?thesis using tables_ok_tables [of w'] unfolding tables_ok_def by blast
qed

lemma p2p_operations_ok:
  "preserves (tables_ok E L) (p2p_data_received E L J c data)" "preserves (tables_ok E L) (send_ping J c)"
  unfolding p2p_data_received_def send_ping_def
  by (intro preserves_intros preserves_modify set_conn_ok net_keeps [OF keeps_emit(1)]; simp)+

lemmas net_operations_ok = p2p_operations_ok p2p_connection_lost_ok keeps_local [THEN net_keeps] keeps_calls [THEN net_keeps]

lemma preserves_run: "m w = (r, w') \<Longrightarrow> P w \<Longrightarrow> preserves P m \<Longrightarrow> P w'"
  by (rule preservesD)

lemma net_step_ok:
  assumes "net_step E L J localhost w w'" "tables_ok E L w"
  shows "tables_ok E L w'"
  using assms
proof cases
  case (connected c host r)
  show ?thesis
  proof (cases "host = localhost")
    case True
    with connected(3) have "local_connection_made c w = (r, w')" by (simp add: build_protocol_def)
    then show ?thesis using assms(2) by (rule preserves_run) (rule net_operations_ok)
  next
    case False
    with connected(3) have "p2p_connection_made c host w = (r, w')" by (simp add: build_protocol_def)
    with assms(2) connected(1) show ?thesis by (rule p2p_connection_made_ok)
  qed
qed (erule preserves_run, rule assms(2), rule net_operations_ok)+

text \<open>C13. However the connections of the network process come, speak and go, and whatever they send, its tables
  stay consistent: every block is kept under the number in its own header; the two tables of peers have the
  same node ids, without repetition; a node id leads to the connection that has introduced itself
  with it, and every such connection is in the table. So the loss of a connection finds its entries and
  never raises KeyError.\<close>

theorem network_tables_consistent:
  assumes "(net_step E L J localhost)\<^sup>*\<^sup>* (start_factory nodeid last_block) w"
  shows "blocks_numbered E L w \<and> peers_ok w \<and> fst (p2p_connection_lost c w) = Inr ()"
proof -
  have "tables_ok E L (start_factory nodeid last_block)"
    by (simp add: tables_ok_def blocks_numbered_def peers_ok_def start_factory_def)
  with assms have "tables_ok E L w" by (induction rule: rtranclp_induct) (auto intro: net_step_ok)
  with p2p_connection_lost_run [OF this, of c] show ?thesis by (auto simp: tables_ok_def)
qed

text \<open>A peer connects and introduces itself.\<close>

theorem network_tables_consistent_witness:
  "\<exists>w. (net_step ext_ref iplib_ref jcodec_ref ''127.0.0.1'')\<^sup>*\<^sup>* (start_factory ''a'' 1) w \<and> nw_peers w = [(''b'', 7)] \<and>
    blocks_numbered ext_ref iplib_ref w \<and> peers_ok w \<and> fst (p2p_connection_lost 7 w) = Inr ()"
proof -
  let ?w0 = "start_factory ''a'' 1"
  obtain r1 w1 where one: "build_protocol ''127.0.0.1'' 7 ''10.0.0.2'' ?w0 = (r1, w1)" by (meson surj_pair)
  obtain r2 w2 where two: "p2p_data_received ext_ref iplib_ref jcodec_ref 7 [CHR ''b'', CHR 0x0D, CHR 0x0A] w1 = (r2, w2)"
    by (meson surj_pair)
  have "net_step ext_ref iplib_ref jcodec_ref ''127.0.0.1'' ?w0 w1"
    by (rule net_step.connected [OF _ _ one]) (simp_all add: start_factory_def)
  then have "(net_step ext_ref iplib_ref jcodec_ref ''127.0.0.1'')\<^sup>*\<^sup>* ?w0 w1" by (rule r_into_rtranclp)
  moreover have "net_step ext_ref iplib_ref jcodec_ref ''127.0.0.1'' w1 w2" by (rule net_step.p2p_data [OF two])
  ultimately have "(net_step ext_ref iplib_ref jcodec_ref ''127.0.0.1'')\<^sup>*\<^sup>* ?w0 w2"
    by (rule rtranclp.rtrancl_into_rtrancl)
  moreover have "nw_peers w2 = [(''b'', 7)]" using one two
    by (auto simp: build_protocol_def p2p_connection_made_def p2p_data_received_def bindM_def modifyM_def gets_def emit_def
        start_factory_def set_conn_def complete_def p2p_line_def hello_def py_strip_def is_space_def)
  ultimately show ?thesis using network_tables_consistent by blast
qed

section \<open>Fetching the blocks that are missing\<close>

lemma send_any_run: "nw_peers w \<noteq> [] \<Longrightarrow> send_any s w = (Inr (), w\<lparr>nw_out := nw_out w @ [ToAny s]\<rparr>)"
  by (simp add: send_any_def bindM_def gets_def emit_def modifyM_def)

lemma forM_out:
  assumes "\<And>x xs. f x (w\<lparr>nw_out := xs\<rparr>) = (Inr (), w\<lparr>nw_out := xs @ g x\<rparr>)"
  shows "forM ns f w = (Inr (), w\<lparr>nw_out := nw_out w @ concat (map g ns)\<rparr>)"
proof -
  have "forM ns f (w\<lparr>nw_out := xs\<rparr>) = (Inr (), w\<lparr>nw_out := xs @ concat (map g ns)\<rparr>)" for xs
    by (induction ns arbitrary: xs) (simp_all add: assms bindM_def ret_def)
  from this [of "nw_out w"] show ?thesis by simp
qed

lemma chunk_starts_mem: "i \<in> set (chunk_starts served num) \<longleftrightarrow> (\<exists>k. i = served + 1 + int k * 10 \<and> i \<le> num)"
  by (auto simp: chunk_starts_def BLOCK_CHUNK_def image_iff)

lemma chunks_cover: "(\<Union>i \<in> set (chunk_starts served num). {i..i + BLOCK_CHUNK - 1}) \<inter> {..num} = {served + 1..num}"
proof (intro set_eqI iffI)
  fix n assume n: "n \<in> {served + 1..num}"
  define k where "k = nat ((n - served - 1) div 10)"
  have k: "int k = (n - served - 1) div 10" using n by (simp add: k_def pos_imp_zdiv_nonneg_iff)
  have "served + 1 + int k * 10 \<le> n \<and> n \<le> served + 1 + int k * 10 + 9" unfolding k by presburger
  with n show "n \<in> (\<Union>i \<in> set (chunk_starts served num). {i..i + BLOCK_CHUNK - 1}) \<inter> {..num}"
    by (force simp: chunk_starts_mem BLOCK_CHUNK_def)
qed (auto simp: chunk_starts_mem BLOCK_CHUNK_def)

lemma chunks_exact:
  assumes "served mod BLOCK_CHUNK = 0"
  shows "(\<Union>i \<in> set (chunk_starts served num). {i..<i + chunk_size num i}) = {served + 1..num}"
proof -
  have size: "{i..<i + chunk_size num i} = {i..i + BLOCK_CHUNK - 1} \<inter> {..num}" if "i \<in> set (chunk_starts served num)" for i
  proof (cases "i + BLOCK_CHUNK - 1 > num")
    case True
    from that obtain k where "i = served + 1 + int k * 10" "i \<le> num" by (auto simp: chunk_starts_mem)
    moreover from assms obtain q where "served = 10 * q" by (auto simp: BLOCK_CHUNK_def)
    moreover define d where "d = num - 10 * (q + int k)"
    ultimately have "num = d + 10 * (q + int k)" "0 \<le> d" "d < 10" "i + d = num + 1"
      using True by (simp_all add: BLOCK_CHUNK_def)
    then have "i + num mod 10 = num + 1" by (simp only: mod_mult_self2 mod_pos_pos_trivial)
    with True show ?thesis by (auto simp: chunk_size_def BLOCK_CHUNK_def)
  qed (auto simp: chunk_size_def BLOCK_CHUNK_def)
  have "(\<Union>i \<in> set (chunk_starts served num). {i..<i + chunk_size num i}) =
      (\<Union>i \<in> set (chunk_starts served num). {i..i + BLOCK_CHUNK - 1} \<inter> {..num})"
    using size by (intro SUP_cong refl) blast
  also have "\<dots> = (\<Union>i \<in> set (chunk_starts served num). {i..i + BLOCK_CHUNK - 1}) \<inter> {..num}" by blast
  finally show ?thesis by (simp only: chunks_cover)
qed

text \<open>C35. A node that joins asks for the blocks it misses. It sends one request for every ten numbers from
  the first one on and plans a check for each; the checks together look at exactly the missing
  numbers, and each asks again, one by one, for those that have not arrived. The requests themselves ask for exactly the
  missing numbers where the last block served is a multiple of ten; the last request is wrong
  otherwise, and only its check corrects it.\<close>

theorem missing_blocks_requested:
  assumes "nw_peers w \<noteq> []"
  shows "get_blocks J w = (Inr (), w\<lparr>nw_out := nw_out w @ concat (map
      (\<lambda>i. [ToAny (msg_get_blocks J i (chunk_size (nw_num_block w) i)), CheckBlocksLater i])
      (chunk_starts (nw_last_served_block w) (nw_num_block w)))\<rparr>) \<and>
    (\<forall>i. check_blocks J i w = (Inr (), w\<lparr>nw_out := nw_out w @ concat (map
      (\<lambda>n. if map_of (nw_blocks w) n = None \<and> n \<le> nw_num_block w then [ToAny (msg_get_block_num J n), CheckBlockLater n] else [])
      [i..i + BLOCK_CHUNK - 1])\<rparr>)) \<and>
    (\<Union>i \<in> set (chunk_starts (nw_last_served_block w) (nw_num_block w)). {i..i + BLOCK_CHUNK - 1}) \<inter> {..nw_num_block w} =
      {nw_last_served_block w + 1..nw_num_block w} \<and>
    (nw_last_served_block w mod BLOCK_CHUNK = 0 \<longrightarrow>
      (\<Union>i \<in> set (chunk_starts (nw_last_served_block w) (nw_num_block w)). {i..<i + chunk_size (nw_num_block w) i}) =
        {nw_last_served_block w + 1..nw_num_block w})"
proof (intro conjI allI impI)
  show "get_blocks J w = (Inr (), w\<lparr>nw_out := nw_out w @ concat (map
      (\<lambda>i. [ToAny (msg_get_blocks J i (chunk_size (nw_num_block w) i)), CheckBlocksLater i])
      (chunk_starts (nw_last_served_block w) (nw_num_block w)))\<rparr>)"
    unfolding get_blocks_def bindM_def gets_def prod.case sum.case
    by (rule forM_out) (simp add: assms send_any_run emit_def modifyM_def bindM_def)
  show "check_blocks J i w = (Inr (), w\<lparr>nw_out := nw_out w @ concat (map
      (\<lambda>n. if map_of (nw_blocks w) n = None \<and> n \<le> nw_num_block w then [ToAny (msg_get_block_num J n), CheckBlockLater n] else [])
      [i..i + BLOCK_CHUNK - 1])\<rparr>)" for i
    unfolding check_blocks_def
    by (rule forM_out) (simp add: assms send_any_run emit_def modifyM_def bindM_def gets_def ret_def)
qed (rule chunks_cover chunks_exact; assumption?)+

theorem missing_blocks_requested_witness:
  "get_blocks jcodec_ref ((linked 20)\<lparr>nw_num_block := 33\<rparr>) = (Inr (), (linked 20)\<lparr>nw_num_block := 33, nw_out :=
      [ToAny (msg_get_blocks jcodec_ref 21 10), CheckBlocksLater 21, ToAny (msg_get_blocks jcodec_ref 31 3), CheckBlocksLater 31]\<rparr>) \<and>
    (\<Union>i \<in> set (chunk_starts 20 33). {i..<i + chunk_size 33 i}) = {21..33}"
proof -
  have "nw_peers ((linked 20)\<lparr>nw_num_block := 33\<rparr>) \<noteq> []" by simp
  from missing_blocks_requested [OF this, of jcodec_ref] have
    "get_blocks jcodec_ref ((linked 20)\<lparr>nw_num_block := 33\<rparr>) = (Inr (), ((linked 20)\<lparr>nw_num_block := 33\<rparr>)\<lparr>nw_out :=
      concat (map (\<lambda>i. [ToAny (msg_get_blocks jcodec_ref i (chunk_size 33 i)), CheckBlocksLater i]) (chunk_starts 20 33))\<rparr>)"
      "(\<Union>i \<in> set (chunk_starts 20 33). {i..<i + chunk_size 33 i}) = {21..33}"
    by (simp_all add: start_factory_def BLOCK_CHUNK_def)
  moreover have "chunk_starts 20 33 = [21, 31]" by code_simp
  ultimately show ?thesis by (simp add: chunk_size_def BLOCK_CHUNK_def)
qed

end
