(* ===== verification/BlockFeed.thy ===== *)
theory BlockFeed
  imports NetworkCorrect
begin

text \<open>
  What the program gets when it asks the process of the network for blocks again and again. The interface
  \<open>block_feed\<close> is what a client of \<open>get_block\<close> relies on: the blocks to come, one with each call, then None. The
  methods of \<open>p2p.py\<close> over the process of \<open>network.py\<close> provide it.
\<close>

locale block_feed =
  fixes get_block :: "('s, block option) M" and feed :: "'s \<Rightarrow> block list \<Rightarrow> bool"
  assumes get_next: "feed s (b # bs) \<Longrightarrow> \<exists>s'. get_block s = (Inr (Some b), s') \<and> feed s' bs"
    and get_none: "feed s [] \<Longrightarrow> \<exists>s'. get_block s = (Inr None, s') \<and> feed s' []"
begin

text \<open>The client that calls \<open>n\<close> times.\<close>

lemma fetch_in_order:
  "feed s bs \<Longrightarrow> \<exists>s'. mapM (\<lambda>_. get_block) [0..<n] s = (Inr (map Some (take n bs) @ replicate (n - length bs) None), s') \<and>
     feed s' (drop n bs)"
proof (induction n arbitrary: s bs)
  case (Suc n)
  have calls: "mapM (\<lambda>_. get_block) [0..<Suc n] = bindM get_block (\<lambda>b. bindM (mapM (\<lambda>_. get_block) [0..<n]) (\<lambda>r. ret (b # r)))"
  proof -
    have "mapM (\<lambda>_. get_block) xs = mapM (\<lambda>_. get_block) ys" if "length xs = length ys" for xs ys :: "nat list"
      using that by (induction xs ys rule: list_induct2) simp_all
    from this [of "[0..<Suc n]" "0 # [0..<n]"] show ?thesis by simp
  qed
  show ?case
  proof (cases bs)
    case Nil
    with Suc.prems get_none obtain s1 where s1: "get_block s = (Inr None, s1)" "feed s1 []" by blast
    from Suc.IH [OF s1(2)] s1(1) Nil show ?thesis unfolding calls by (auto simp: bindM_def)
  next
    case (Cons b bs')
    with Suc.prems get_next obtain s1 where s1: "get_block s = (Inr (Some b), s1)" "feed s1 bs'" by blast
    from Suc.IH [OF s1(2)] s1(1) Cons show ?thesis unfolding calls by (auto simp: bindM_def)
  qed
qed simp

end

section \<open>The process of the network as a feed\<close>

text \<open>The process has the blocks \<open>bs\<close> right after the last one it served, and not the one behind them; what its
  peers sent is what \<open>raw_block\<close> writes.\<close>

definition has_feed :: "ext \<Rightarrow> iplib \<Rightarrow> jcodec \<Rightarrow> nat \<Rightarrow> network \<Rightarrow> block list \<Rightarrow> bool" where
  "has_feed E L J c w bs \<longleftrightarrow>
     ext_ok E \<and> rlp_ok E \<and> jcodec_ok J \<and> map_of (nw_local_buffers w) c = Some [] \<and>
     (\<forall>i < length bs. map_of (nw_blocks w) (nw_last_served_block w + 1 + int i) = Some (raw_block E (bs ! i)) \<and>
        sized E (block_item E (bs ! i)) \<and> block_stable E L (bs ! i)) \<and>
     map_of (nw_blocks w) (nw_last_served_block w + 1 + int (length bs)) = None"

lemma serve_none_run:
  assumes "jcodec_ok J" "map_of (nw_local_buffers w) c = Some []" "map_of (nw_blocks w) (nw_last_served_block w + 1) = None"
  shows "\<exists>w'. p2p_get_block E L J (process_transport E L J c) w = (Inr None, w') \<and>
    nw_last_served_block w' = nw_last_served_block w \<and> nw_blocks w' = nw_blocks w \<and> map_of (nw_local_buffers w') c = Some []"
proof -
  let ?d = "[(''msgtype'', JStr ''none'')]"
  have reply: "py_strip (msg_none J) = jc_dumps J ?d"
  proof -
    obtain s where "jc_dumps J ?d = CHR 0x7B # s @ [CHR 0x7D]" using assms(1) by (auto simp: jcodec_ok_def)
    then show ?thesis by (simp add: msg_none_def make_envelope_def py_strip_def is_space_def)
  qed
  with assms show ?thesis
    by (simp add: p2p_get_block_def or_none_def ask_def process_transport_def msg_get_block_def local_receive handle_local_def
        give_block_def catchM_def bindM_def emit_def modifyM_def read_reply_def envelope_line unless_none_def update_conv)
qed

lemma has_feed_tail:
  assumes "has_feed E L J c w (b # bs)" "nw_last_served_block w' = nw_last_served_block w + 1" "nw_blocks w' = nw_blocks w"
    "map_of (nw_local_buffers w') c = Some []"
  shows "has_feed E L J c w' bs"
proof -
  have "map_of (nw_blocks w) (nw_last_served_block w + 1 + int (Suc i)) = Some (raw_block E (bs ! i)) \<and>
      sized E (block_item E (bs ! i)) \<and> block_stable E L (bs ! i)" if "i < length bs" for i
    using assms(1) that unfolding has_feed_def by fastforce
  then show ?thesis using assms by (simp add: has_feed_def ac_simps)
qed

interpretation network_feed: block_feed "p2p_get_block E L J (process_transport E L J c)" "has_feed E L J c" for E L J c
proof unfold_locales
  fix w b bs
  assume feed: "has_feed E L J c w (b # bs)"
  then have first: "map_of (nw_blocks w) (nw_last_served_block w + 1) = Some (raw_block E b)" "sized E (block_item E b)" "block_stable E L b"
    unfolding has_feed_def by (force dest: spec [of _ 0])+
  from feed have ok: "jcodec_ok J" "ext_ok E" "rlp_ok E" "map_of (nw_local_buffers w) c = Some []" by (simp_all add: has_feed_def)
  from serve_block_run [OF ok(1-3) first(2,3) ok(4) first(1)] has_feed_tail [OF feed]
  show "\<exists>w'. p2p_get_block E L J (process_transport E L J c) w = (Inr (Some b), w') \<and> has_feed E L J c w' bs" by blast
next
  fix w
  assume feed: "has_feed E L J c w []"
  then obtain w' where w': "p2p_get_block E L J (process_transport E L J c) w = (Inr None, w')"
      "nw_last_served_block w' = nw_last_served_block w" "nw_blocks w' = nw_blocks w" "map_of (nw_local_buffers w') c = Some []"
    using serve_none_run [of J w c E L] by (auto simp: has_feed_def)
  then have "has_feed E L J c w' []" using feed by (simp add: has_feed_def)
  with w'(1) show "\<exists>w'. p2p_get_block E L J (process_transport E L J c) w = (Inr None, w') \<and> has_feed E L J c w' []" by blast
qed

text \<open>C40. A program that calls \<open>get_block\<close> again and again gets the blocks its network process holds behind the last one it
  served, in the order of their numbers, each once and none left out, and None from the first number that
  is missing on, however often it asks.\<close>

theorem blocks_fetched_in_order:
  assumes "ext_ok E" "rlp_ok E" "jcodec_ok J" "map_of (nw_local_buffers w) c = Some []"
    and "\<And>i. i < length bs \<Longrightarrow> map_of (nw_blocks w) (nw_last_served_block w + 1 + int i) = Some (raw_block E (bs ! i)) \<and>
        sized E (block_item E (bs ! i)) \<and> block_stable E L (bs ! i)"
    and "map_of (nw_blocks w) (nw_last_served_block w + 1 + int (length bs)) = None"
  shows "fst (mapM (\<lambda>_. p2p_get_block E L J (process_transport E L J c)) [0..<n] w) =
    Inr (map Some (take n bs) @ replicate (n - length bs) None)"
proof -
  have "has_feed E L J c w bs" using assms by (simp add: has_feed_def)
  from network_feed.fetch_in_order [OF this, of n] show ?thesis by auto
qed

theorem blocks_fetched_in_order_witness:
  "fst (mapM (\<lambda>_. p2p_get_block ext_ref iplib_ref jcodec_ref (process_transport ext_ref iplib_ref jcodec_ref 1)) [0..<3]
      ((linked 1)\<lparr>nw_blocks := [(2, raw_block ext_ref (next_block\<lparr>b_signer := None\<rparr>))]\<rparr>)) =
     Inr [Some (next_block\<lparr>b_signer := None\<rparr>), None, None]"
proof -
  let ?b = "next_block\<lparr>b_signer := None\<rparr>"
  have "fst (mapM (\<lambda>_. p2p_get_block ext_ref iplib_ref jcodec_ref (process_transport ext_ref iplib_ref jcodec_ref 1)) [0..<3]
      ((linked 1)\<lparr>nw_blocks := [(2, raw_block ext_ref ?b)]\<rparr>)) = Inr (map Some (take 3 [?b]) @ replicate (3 - length [?b]) None)"
    by (rule blocks_fetched_in_order [OF ext_ref_ok ext_ref_rlp_ok jcodec_ref_ok])
      (use next_block_stable in \<open>simp_all add: start_factory_def\<close>)
  then show ?thesis by (simp add: numeral_eq_Suc)
qed

end
