(* ===== verification/Keystore.thy ===== *)
theory Keystore
  imports Pyutils "HOL-Library.AList" "HOL-Library.Sublist"
begin

text \<open>
  \<open>keys.py\<close> and \<open>keystore.py\<close>: the file with an encrypted private key, and the object that holds it. The derivation
  of a key from a password, AES in counter mode and the public key are parameters; the random bytes are
  arguments. A dictionary is an association list, and only a dictionary is taken as the content of a file.
\<close>

section \<open>Values of a key file\<close>

datatype kval = KNone | KInt int | KStr string | KDict "(string \<times> kval) list"

type_synonym kdict = "(string \<times> kval) list"

text \<open>\<open>k in d\<close>, where a string is searched for a part, and \<open>d[k]\<close>.\<close>

definition has_key :: "kval \<Rightarrow> string \<Rightarrow> bool res" where
  "has_key d k = (case d of KDict m \<Rightarrow> Inr (map_of m k \<noteq> None) | KStr s \<Rightarrow> Inr (sublist k s) | _ \<Rightarrow> Inl TypeError)"

definition item_of :: "kval \<Rightarrow> string \<Rightarrow> kval res" where
  "item_of d k =
     (case d of KDict m \<Rightarrow> (case map_of m k of None \<Rightarrow> Inl KeyError | Some v \<Rightarrow> Inr v) | _ \<Rightarrow> Inl TypeError)"

definition str_item :: "kval \<Rightarrow> string \<Rightarrow> string res" where
  "str_item d k = bindE (item_of d k) (\<lambda>v. case v of KStr s \<Rightarrow> Inr s | _ \<Rightarrow> Inl TypeError)"

definition int_item :: "kval \<Rightarrow> string \<Rightarrow> int res" where
  "int_item d k = bindE (item_of d k) (\<lambda>v. case v of KInt n \<Rightarrow> Inr n | _ \<Rightarrow> Inl TypeError)"

section \<open>keys.py\<close>

text \<open>\<open>kl_pbkdf2 password salt rounds dklen\<close>, \<open>kl_scrypt password salt n r p dklen\<close>, \<open>kl_encrypt text key iv\<close>.\<close>

record key_lib =
  kl_pbkdf2 :: "string \<Rightarrow> string \<Rightarrow> int \<Rightarrow> int \<Rightarrow> string res"
  kl_scrypt :: "string \<Rightarrow> string \<Rightarrow> int \<Rightarrow> int \<Rightarrow> int \<Rightarrow> int \<Rightarrow> string res"
  kl_encrypt :: "string \<Rightarrow> string \<Rightarrow> nat \<Rightarrow> string res"
  kl_decrypt :: "string \<Rightarrow> string \<Rightarrow> nat \<Rightarrow> string res"
  kl_privtopub :: "string \<Rightarrow> string"

definition aes_ctr_encrypt :: "key_lib \<Rightarrow> string \<Rightarrow> string \<Rightarrow> kval \<Rightarrow> string res" where
  "aes_ctr_encrypt K text key params =
     bindE (str_item params ''iv'') (\<lambda>iv. bindE (hex_decode iv) (\<lambda>iv. kl_encrypt K text key (be_val iv)))"

definition aes_ctr_decrypt :: "key_lib \<Rightarrow> string \<Rightarrow> string \<Rightarrow> kval \<Rightarrow> string res" where
  "aes_ctr_decrypt K text key params =
     bindE (str_item params ''iv'') (\<lambda>iv. bindE (hex_decode iv) (\<lambda>iv. kl_decrypt K text key (be_val iv)))"

definition aes_mkparams :: "string \<Rightarrow> kval" where
  "aes_mkparams rnd = KDict [(''iv'', KStr (hex_encode rnd))]"

definition mk_scrypt_params :: "string \<Rightarrow> kval" where
  "mk_scrypt_params rnd = KDict [(''n'', KInt 262144), (''r'', KInt 1), (''p'', KInt 8), (''dklen'', KInt 32),
     (''salt'', KStr (hex_encode rnd))]"

definition scrypt_hash :: "key_lib \<Rightarrow> string \<Rightarrow> kval \<Rightarrow> string res" where
  "scrypt_hash K pw params =
     bindE (str_item params ''salt'') (\<lambda>salt. bindE (hex_decode salt) (\<lambda>salt.
     bindE (int_item params ''n'') (\<lambda>n. bindE (int_item params ''r'') (\<lambda>r. bindE (int_item params ''p'') (\<lambda>p.
     bindE (int_item params ''dklen'') (\<lambda>dklen. kl_scrypt K pw salt n r p dklen))))))"

definition mk_pbkdf2_params :: "string \<Rightarrow> kval" where
  "mk_pbkdf2_params rnd = KDict [(''dklen'', KInt 32), (''rounds'', KInt 262144), (''salt'', KStr (hex_encode rnd))]"

definition pbkdf2_hash :: "key_lib \<Rightarrow> string \<Rightarrow> kval \<Rightarrow> string res" where
  "pbkdf2_hash K pw params =
     bindE (str_item params ''salt'') (\<lambda>salt. bindE (hex_decode salt) (\<lambda>salt.
     bindE (int_item params ''rounds'') (\<lambda>rounds. bindE (int_item params ''dklen'') (\<lambda>dklen.
     kl_pbkdf2 K pw salt rounds dklen))))"

text \<open>The entries of \<open>kdfs\<close> and \<open>ciphers\<close>.\<close>

definition kdf_calc :: "key_lib \<Rightarrow> string \<Rightarrow> (string \<Rightarrow> kval \<Rightarrow> string res) option" where
  "kdf_calc K kdf = (if kdf = ''pbkdf2'' then Some (pbkdf2_hash K) else if kdf = ''scrypt'' then Some (scrypt_hash K) else None)"

definition kdf_mkparams :: "string \<Rightarrow> string \<Rightarrow> kval" where
  "kdf_mkparams kdf rnd = (if kdf = ''pbkdf2'' then mk_pbkdf2_params rnd else mk_scrypt_params rnd)"

definition aes_name :: string where
  "aes_name = ''aes-128-ctr''"

definition uuid_text :: "string \<Rightarrow> string" where
  "uuid_text u = slice u 0 8 @ ''-'' @ slice u 8 12 @ ''-'' @ slice u 12 16 @ ''-'' @ slice u 16 20 @ ''-'' @ drop 20 u"

text \<open>The three readings of \<open>os.urandom(16)\<close> are the salt, the initial counter and the UUID.\<close>

definition make_keystore_json ::
  "ext \<Rightarrow> key_lib \<Rightarrow> string \<times> string \<times> string \<Rightarrow> string \<Rightarrow> string \<Rightarrow> string \<Rightarrow> string \<Rightarrow> kdict res" where
  "make_keystore_json E K rnd priv pw kdf cipher =
     (case rnd of (r1, r2, r3) \<Rightarrow>
     case kdf_calc K kdf of
       None \<Rightarrow> Inl PyException
     | Some kdfeval \<Rightarrow>
         let kdfparams = kdf_mkparams kdf r1
         in bindE (kdfeval pw kdfparams) (\<lambda>derivedkey.
            if cipher \<noteq> aes_name then Inl PyException
            else
              let cipherparams = aes_mkparams r2; enckey = take 16 derivedkey
              in bindE (aes_ctr_encrypt K priv enckey cipherparams) (\<lambda>c.
                 let mac = sha3 E (slice derivedkey 16 32 @ c)
                 in Inr [(''crypto'', KDict [(''cipher'', KStr cipher), (''ciphertext'', KStr (hex_encode c)),
                      (''cipherparams'', cipherparams), (''kdf'', KStr kdf), (''kdfparams'', kdfparams),
                      (''mac'', KStr (hex_encode mac)), (''version'', KInt 1)]),
                    (''id'', KStr (uuid_text (hex_encode r3))), (''version'', KInt 3)])))"

fun has_keys :: "kval \<Rightarrow> string list \<Rightarrow> bool res" where
  "has_keys d [] = Inr True"
| "has_keys d (k # ks) = bindE (has_key d k) (\<lambda>b. if b then has_keys d ks else Inr False)"

definition crypto_of :: "kdict \<Rightarrow> kval option" where
  "crypto_of jsondata = (case map_of jsondata ''crypto'' of None \<Rightarrow> map_of jsondata ''Crypto'' | Some c \<Rightarrow> Some c)"

definition check_keystore_json :: "kdict \<Rightarrow> bool res" where
  "check_keystore_json jsondata =
     (case crypto_of jsondata of
        None \<Rightarrow> Inr False
      | Some crypto \<Rightarrow>
          if map_of jsondata ''version'' \<noteq> Some (KInt 3) then Inr False
          else has_keys crypto [''cipher'', ''ciphertext'', ''kdf'', ''mac''])"

text \<open>A name that is looked up in \<open>kdfs\<close> or \<open>ciphers\<close>; a dictionary cannot be looked up.\<close>

definition name_item :: "kval \<Rightarrow> string \<Rightarrow> string res" where
  "name_item d k = bindE (item_of d k) (\<lambda>v. case v of KStr s \<Rightarrow> Inr s | KDict m \<Rightarrow> Inl TypeError | _ \<Rightarrow> Inl PyException)"

definition decode_keystore_json :: "ext \<Rightarrow> key_lib \<Rightarrow> kdict \<Rightarrow> string \<Rightarrow> string res" where
  "decode_keystore_json E K jsondata pw =
     (case crypto_of jsondata of
        None \<Rightarrow> Inl PyException
      | Some cryptdata \<Rightarrow>
          bindE (item_of cryptdata ''kdfparams'') (\<lambda>kdfparams.
          bindE (name_item cryptdata ''kdf'') (\<lambda>kdf.
          case kdf_calc K kdf of
            None \<Rightarrow> Inl PyException
          | Some kdfeval \<Rightarrow>
              bindE (item_of cryptdata ''cipherparams'') (\<lambda>cipherparams.
              bindE (name_item cryptdata ''cipher'') (\<lambda>cipher.
              if cipher \<noteq> aes_name then Inl PyException
              else
                bindE (kdfeval pw kdfparams) (\<lambda>derivedkey.
                if length derivedkey < 32 then Inl AssertionError
                else
                  bindE (str_item cryptdata ''ciphertext'') (\<lambda>s. bindE (hex_decode s) (\<lambda>ctext.
                  bindE (aes_ctr_decrypt K ctext (take 16 derivedkey) cipherparams) (\<lambda>x.
                  let mac1 = sha3 E (slice derivedkey 16 32 @ ctext)
                  in bindE (str_item cryptdata ''mac'') (\<lambda>m. bindE (hex_decode m) (\<lambda>mac2.
                     if mac1 \<noteq> mac2 then Inl ValueError else Inr x)))))))))))"

definition keys_privtoaddr :: "ext \<Rightarrow> key_lib \<Rightarrow> string \<Rightarrow> string res" where
  "keys_privtoaddr E K x =
     bindE (if length x > 32 then hex_decode x else Inr x) (\<lambda>x. Inr (drop 12 (sha3 E (drop 1 (kl_privtopub K x)))))"

section \<open>keystore.py\<close>

definition mk_privkey :: "ext \<Rightarrow> string \<Rightarrow> string" where
  "mk_privkey E seed = sha3 E seed"

text \<open>The hexadecimal digits of a random number below \<open>2 ^ 256\<close>, filled up to 64.\<close>

definition mk_random_privkey :: "nat \<Rightarrow> string res" where
  "mk_random_privkey n =
     (let digits = dropWhile (\<lambda>c. c = CHR ''0'') (hex_encode (be_bytes n));
          k = replicate (64 - length digits) (CHR ''0'') @ digits
      in if length k \<noteq> 64 then Inl AssertionError else hex_decode k)"

record keystore =
  ks_json :: kdict
  ks_address :: "string option"
  ks_locked :: bool
  ks_privkey :: "string option"
  ks_path :: "string option"

text \<open>The hexadecimal text under a key of the dictionary.\<close>

definition hex_item :: "kdict \<Rightarrow> string \<Rightarrow> string res" where
  "hex_item d k = bindE (item_of (KDict d) k) (\<lambda>v. case v of KStr s \<Rightarrow> hex_decode s | _ \<Rightarrow> Inl AttributeError)"

definition keystore_privkey :: "keystore \<Rightarrow> string option" where
  "keystore_privkey k = (if \<not> ks_locked k then ks_privkey k else None)"

definition keystore_pubkey :: "ext \<Rightarrow> keystore \<Rightarrow> (nat \<times> nat) option" where
  "keystore_pubkey E k = (if \<not> ks_locked k then map_option (ec_pub E) (keystore_privkey k) else None)"

definition keystore_address :: "ext \<Rightarrow> key_lib \<Rightarrow> (keystore, string option) M" where
  "keystore_address E K =
     bindM (gets (\<lambda>k. k)) (\<lambda>k.
     let found = (\<lambda>a. bindM (modifyM (\<lambda>k. k\<lparr>ks_address := Some a\<rparr>)) (\<lambda>_. ret (Some a)))
     in if ks_address k \<noteq> None \<and> ks_address k \<noteq> Some [] then ret (ks_address k)
        else if map_of (ks_json k) ''address'' \<noteq> None then bindM (liftE (hex_item (ks_json k) ''address'')) found
        else if \<not> ks_locked k
        then (case keystore_privkey k of
                None \<Rightarrow> raise TypeError
              | Some x \<Rightarrow> bindM (liftE (keys_privtoaddr E K x)) found)
        else ret None)"

definition keystore_unlock :: "ext \<Rightarrow> key_lib \<Rightarrow> string \<Rightarrow> (keystore, unit) M" where
  "keystore_unlock E K password =
     bindM (gets (\<lambda>k. k)) (\<lambda>k.
     if \<not> ks_locked k then ret ()
     else
       bindM (liftE (decode_keystore_json E K (ks_json k) password)) (\<lambda>x.
       bindM (modifyM (\<lambda>k. k\<lparr>ks_privkey := Some x, ks_locked := False\<rparr>)) (\<lambda>_.
       bindM (keystore_address E K) (\<lambda>_. ret ()))))"

definition keystore_lock :: "keystore \<Rightarrow> keystore" where
  "keystore_lock k = k\<lparr>ks_privkey := None, ks_locked := True\<rparr>"

definition result_of :: "unit res \<times> 's \<Rightarrow> 's res" where
  "result_of r = (case r of (Inl e, s) \<Rightarrow> Inl e | (Inr _, s) \<Rightarrow> Inr s)"

text \<open>\<open>Keystore(keystore, password, path)\<close>, with \<open>path\<close> after \<open>os.path.abspath\<close>.\<close>

definition keystore_init :: "ext \<Rightarrow> key_lib \<Rightarrow> kdict \<Rightarrow> string option \<Rightarrow> string option \<Rightarrow> keystore res" where
  "keystore_init E K json password path =
     bindE (case hex_item json ''address'' of
              Inl e \<Rightarrow> if is_a e KeyError then Inr None else Inl e
            | Inr a \<Rightarrow> Inr (Some a)) (\<lambda>a.
     let k = \<lparr>ks_json = json, ks_address = a, ks_locked = True, ks_privkey = None, ks_path = None\<rparr>
     in bindE (case password of None \<Rightarrow> Inr k | Some pw \<Rightarrow> result_of (keystore_unlock E K pw k)) (\<lambda>k.
        Inr (k\<lparr>ks_path := path\<rparr>)))"

text \<open>\<open>Keystore.new\<close>: the identifier of the file is replaced by the one that is given, or None.\<close>

definition keystore_new ::
  "ext \<Rightarrow> key_lib \<Rightarrow> string \<times> string \<times> string \<Rightarrow> nat \<Rightarrow> string \<Rightarrow> string option \<Rightarrow> string option \<Rightarrow> string option \<Rightarrow> keystore res" where
  "keystore_new E K rnd n password key uuid path =
     bindE (case key of None \<Rightarrow> mk_random_privkey n | Some k \<Rightarrow> Inr k) (\<lambda>key.
     bindE (make_keystore_json E K rnd key password ''pbkdf2'' aes_name) (\<lambda>json.
     keystore_init E K (AList.update ''id'' (case uuid of None \<Rightarrow> KNone | Some u \<Rightarrow> KStr u) json) (Some password) path))"

text \<open>\<open>Keystore.load\<close> of a file whose content is \<open>json\<close>.\<close>

definition keystore_load :: "ext \<Rightarrow> key_lib \<Rightarrow> kdict \<Rightarrow> string option \<Rightarrow> string \<Rightarrow> keystore res" where
  "keystore_load E K json password path =
     bindE (check_keystore_json json) (\<lambda>ok. if \<not> ok then Inl ValueError else keystore_init E K json password (Some path))"

definition keystore_uuid :: "keystore \<Rightarrow> kval option" where
  "keystore_uuid k = (case map_of (ks_json k) ''id'' of Some KNone \<Rightarrow> None | v \<Rightarrow> v)"

definition keystore_set_uuid :: "string option \<Rightarrow> keystore \<Rightarrow> keystore" where
  "keystore_set_uuid v k =
     k\<lparr>ks_json := (case v of Some u \<Rightarrow> AList.update ''id'' (KStr u) (ks_json k) | None \<Rightarrow> AList.delete ''id'' (ks_json k))\<rparr>"

text \<open>\<open>dump\<close>, before \<open>json.dumps\<close>.\<close>

definition keystore_dump :: "ext \<Rightarrow> key_lib \<Rightarrow> bool \<Rightarrow> bool \<Rightarrow> (keystore, kdict) M" where
  "keystore_dump E K include_address include_id =
     bindM (gets (\<lambda>k. KDict (ks_json k))) (\<lambda>d.
     bindM (liftE (item_of d ''crypto'')) (\<lambda>crypto.
     bindM (liftE (item_of d ''version'')) (\<lambda>version.
     bindM (if include_address then keystore_address E K else ret None) (\<lambda>a.
     bindM (gets keystore_uuid) (\<lambda>u.
     ret ([(''crypto'', crypto), (''version'', version)] @
          (case a of None \<Rightarrow> [] | Some x \<Rightarrow> [(''address'', KStr (hex_encode x))]) @
          (if include_id then (case u of None \<Rightarrow> [] | Some v \<Rightarrow> [(''id'', v)]) else [])))))))"

text \<open>\<open>save\<close> into the files; \<open>absolute\<close> is \<open>os.path.abspath\<close>, and an absolute path begins with a slash.\<close>

definition keystore_save ::
  "ext \<Rightarrow> key_lib \<Rightarrow> (string \<Rightarrow> string) \<Rightarrow> bool \<Rightarrow> bool \<Rightarrow> bool \<Rightarrow> (keystore \<times> (string \<times> kdict) list, unit) M" where
  "keystore_save E K absolute store include_address include_id =
     (if \<not> store then ret ()
      else
        bindM (gets (\<lambda>s. ks_path (fst s))) (\<lambda>p.
        bindM (case p of
                 Some path \<Rightarrow> ret path
               | None \<Rightarrow>
                   bindM (zoomM fst (\<lambda>k s. (k, snd s)) (keystore_address E K)) (\<lambda>a.
                   case a of
                     None \<Rightarrow> raise AttributeError
                   | Some x \<Rightarrow>
                       let path = absolute (''./keystore/'' @ hex_encode x)
                       in bindM (modifyM (\<lambda>s. ((fst s)\<lparr>ks_path := Some path\<rparr>, snd s))) (\<lambda>_. ret path))) (\<lambda>path.
        bindM (assertM (take 1 path = ''/'')) (\<lambda>_.
        bindM (gets (\<lambda>s. map_of (snd s) path)) (\<lambda>old.
        if old \<noteq> None then raise IOError
        else
          bindM (zoomM fst (\<lambda>k s. (k, snd s)) (keystore_dump E K include_address include_id)) (\<lambda>d.
          modifyM (\<lambda>s. (fst s, AList.update path d (snd s)))))))))"

section \<open>The keystore of a node\<close>

text \<open>\<open>init_keystore\<close>: every file of the directory, each with its content; the name of a file is its last forty characters.\<close>

definition init_keystore :: "ext \<Rightarrow> key_lib \<Rightarrow> (string \<times> kdict) list \<Rightarrow> string \<Rightarrow> (keystore list \<times> string list) res" where
  "init_keystore E K files password =
     bindE (mapE (\<lambda>(path, json).
       bindE (keystore_load E K json (Some password) path) (\<lambda>k.
       bindE (item_of (KDict (ks_json k)) ''address'') (\<lambda>a.
       bindE (case a of KStr s \<Rightarrow> normalize_address E (PyStr s) False | _ \<Rightarrow> Inl TypeError) (\<lambda>addr.
       Inr (k, addr))))) files) (\<lambda>ks. Inr (map fst ks, map snd ks))"

end
