(* ===== verification/KeystoreCorrect.thy ===== *)
theory KeystoreCorrect
  imports Keystore Codec
begin

text \<open>
  A key that is stored under a password is read back with it, and only with a password whose message
  authentication code agrees.
\<close>

text \<open>PBKDF2 gives as many bytes as it is asked for; AES in counter mode with a key of sixteen bytes and a counter of
  128 bits is inverted by decryption.\<close>

definition key_lib_ok :: "key_lib \<Rightarrow> bool" where
  "key_lib_ok K \<longleftrightarrow>
     (\<forall>pw salt. \<exists>k. kl_pbkdf2 K pw salt 262144 32 = Inr k \<and> length k = 32) \<and>
     (\<forall>text key iv. length key = 16 \<and> iv < 256 ^ 16 \<longrightarrow>
        (\<exists>c. kl_encrypt K text key iv = Inr c \<and> kl_decrypt K c key iv = Inr text))"

text \<open>The key that is derived from a password and the salt.\<close>

definition derived :: "key_lib \<Rightarrow> string \<Rightarrow> string \<Rightarrow> string" where
  "derived K salt pw = (case kl_pbkdf2 K pw salt 262144 32 of Inr k \<Rightarrow> k | Inl _ \<Rightarrow> [])"

lemma derived_run: "key_lib_ok K \<Longrightarrow> kl_pbkdf2 K pw salt 262144 32 = Inr (derived K salt pw) \<and> length (derived K salt pw) = 32"
  unfolding key_lib_ok_def derived_def by (metis sum.case(2))

text \<open>The encrypted key with everything that is needed to decrypt it.\<close>

definition key_file :: "ext \<Rightarrow> key_lib \<Rightarrow> string \<Rightarrow> string \<Rightarrow> string \<Rightarrow> string \<Rightarrow> kval" where
  "key_file E K salt iv c pw =
     KDict [(''cipher'', KStr aes_name), (''ciphertext'', KStr (hex_encode c)),
        (''cipherparams'', aes_mkparams iv), (''kdf'', KStr ''pbkdf2''), (''kdfparams'', mk_pbkdf2_params salt),
        (''mac'', KStr (hex_encode (sha3 E (slice (derived K salt pw) 16 32 @ c)))), (''version'', KInt 1)]"

lemma make_keystore_run:
  assumes K: "key_lib_ok K" and iv: "length iv = 16"
  shows "\<exists>c. make_keystore_json E K (salt, iv, u) key pw ''pbkdf2'' aes_name =
      Inr [(''crypto'', key_file E K salt iv c pw), (''id'', KStr (uuid_text (hex_encode u))), (''version'', KInt 3)] \<and>
    kl_decrypt K c (take 16 (derived K salt pw)) (be_val iv) = Inr key"
proof -
  have "length (take 16 (derived K salt pw)) = 16" using derived_run [OF K, of pw salt] by simp
  moreover have "be_val iv < 256 ^ 16" using be_val_less [of iv] iv by simp
  ultimately obtain c where "kl_encrypt K key (take 16 (derived K salt pw)) (be_val iv) = Inr c"
    "kl_decrypt K c (take 16 (derived K salt pw)) (be_val iv) = Inr key"
    using K unfolding key_lib_ok_def by blast
  then show ?thesis
    using derived_run [OF K, of pw salt]
    by (intro exI [of _ c]) (simp add: make_keystore_json_def kdf_calc_def kdf_mkparams_def pbkdf2_hash_def mk_pbkdf2_params_def str_item_def
        int_item_def item_of_def aes_ctr_encrypt_def aes_mkparams_def key_file_def)
qed

text \<open>Any dictionary with this entry is decrypted, when the code agrees.\<close>

lemma decode_keystore_run:
  assumes K: "key_lib_ok K" and d: "crypto_of d = Some (key_file E K salt iv c pw)"
  shows "decode_keystore_json E K d pw' =
    (case kl_decrypt K c (take 16 (derived K salt pw')) (be_val iv) of
       Inl e \<Rightarrow> Inl e
     | Inr x \<Rightarrow>
         if sha3 E (slice (derived K salt pw') 16 32 @ c) \<noteq> sha3 E (slice (derived K salt pw) 16 32 @ c) then Inl ValueError
         else Inr x)"
  using derived_run [OF K, of pw' salt] d
  by (auto simp: decode_keystore_json_def key_file_def item_of_def name_item_def str_item_def int_item_def kdf_calc_def
      pbkdf2_hash_def mk_pbkdf2_params_def aes_ctr_decrypt_def aes_mkparams_def bindE_def split: sum.split)

text \<open>The address of a key.\<close>

abbreviation key_address :: "ext \<Rightarrow> key_lib \<Rightarrow> string \<Rightarrow> string" where
  "key_address E K key \<equiv> drop 12 (sha3 E (drop 1 (kl_privtopub K key)))"

lemma init_run:
  assumes "crypto_of d = Some (key_file E K salt iv c pw)" "decode_keystore_json E K d pw' = Inr key" "length key \<le> 32"
    and addr: "map_of d ''address'' = None \<or> map_of d ''address'' = Some (KStr (hex_encode a)) \<and> a = key_address E K key \<and> a \<noteq> []"
  shows "keystore_init E K d (Some pw') path = Inr \<lparr>ks_json = d, ks_address = Some (key_address E K key), ks_locked = False,
    ks_privkey = Some key, ks_path = path\<rparr>"
  using assms
  by (auto simp: keystore_init_def hex_item_def item_of_def keystore_unlock_def keystore_address_def bindM_def result_of_def
      keystore_privkey_def keys_privtoaddr_def is_a_def)

lemma new_run:
  assumes K: "key_lib_ok K" and iv: "length iv = 16" and key: "length key \<le> 32"
  shows "\<exists>c d. keystore_new E K (salt, iv, u) n pw (Some key) uuid path = Inr \<lparr>ks_json = d,
      ks_address = Some (key_address E K key), ks_locked = False, ks_privkey = Some key, ks_path = path\<rparr> \<and>
    map_of d ''crypto'' = Some (key_file E K salt iv c pw) \<and> map_of d ''version'' = Some (KInt 3) \<and>
    map_of d ''id'' = Some (case uuid of None \<Rightarrow> KNone | Some x \<Rightarrow> KStr x) \<and>
    kl_decrypt K c (take 16 (derived K salt pw)) (be_val iv) = Inr key"
proof -
  obtain c where c: "make_keystore_json E K (salt, iv, u) key pw ''pbkdf2'' aes_name =
      Inr [(''crypto'', key_file E K salt iv c pw), (''id'', KStr (uuid_text (hex_encode u))), (''version'', KInt 3)]"
    "kl_decrypt K c (take 16 (derived K salt pw)) (be_val iv) = Inr key"
    using make_keystore_run [OF K iv] by blast
  define d where "d = [(''crypto'', key_file E K salt iv c pw), (''id'', case uuid of None \<Rightarrow> KNone | Some x \<Rightarrow> KStr x), (''version'', KInt 3)]"
  have entry: "crypto_of d = Some (key_file E K salt iv c pw)" by (simp add: crypto_of_def d_def)
  have "keystore_init E K d (Some pw) path = Inr \<lparr>ks_json = d, ks_address = Some (key_address E K key), ks_locked = False,
      ks_privkey = Some key, ks_path = path\<rparr>"
    by (rule init_run [OF entry _ key]) (simp add: decode_keystore_run [OF K entry] c, simp add: d_def)
  then have "keystore_new E K (salt, iv, u) n pw (Some key) uuid path = Inr \<lparr>ks_json = d,
      ks_address = Some (key_address E K key), ks_locked = False, ks_privkey = Some key, ks_path = path\<rparr>"
    using c(1) by (simp add: keystore_new_def d_def)
  with c(2) show ?thesis by (auto simp: d_def)
qed


text \<open>A library where the password is the key, and the cipher adds nothing.\<close>

definition key_lib_ref :: key_lib where
  "key_lib_ref = \<lparr>kl_pbkdf2 = (\<lambda>pw salt rounds n. Inr (take (nat n) (pw @ salt @ replicate (nat n) (CHR 0x00)))),
     kl_scrypt = (\<lambda>pw salt n r p d. Inl ValueError), kl_encrypt = (\<lambda>t k iv. Inr (rev t)), kl_decrypt = (\<lambda>t k iv. Inr (rev t)),
     kl_privtopub = (\<lambda>k. CHR 0x04 # k)\<rparr>"

lemma key_lib_ref_ok: "key_lib_ok key_lib_ref"
  by (auto simp: key_lib_ok_def key_lib_ref_def min_def)


end
