(* ===== verification/ChainLedger.thy ===== *)
theory ChainLedger
  imports ChainStored BlockRefine
begin

text \<open>
  What an accepted block does to the ledger, over all layers: \<open>add_block\<close> of the chain, validation and effect of the
  transactions, accounts, trie and database. Validation asks every transaction for the nonce of its sender before the block,
  the transactions then count it up, so no sender has two transactions in a block.
\<close>

section \<open>Nonces along a run\<close>

lemma tx_spec_nonces:
  assumes "tx_spec E I t L = Inr L'" "tx_sender_of E t = Inr s"
  shows "fst (L s) = tx_nonce t" "fst (L' a) = (if a = s then Suc (fst (L a)) else fst (L a))"
proof -
  have valid: "valid_spec I s t L = Inr ()" and eff: "effect_spec E I s t L = Inr L'"
    using assms by (auto simp: tx_spec_def bindE_eq_Inr)
  show "fst (L s) = tx_nonce t" using valid by (auto simp: valid_spec_def split: if_splits)
  show "fst (L' a) = (if a = s then Suc (fst (L a)) else fst (L a))"
    using eff release_nonce
    by (auto simp: effect_spec_def allocate_spec_def delegate_spec_def metadata_spec_def bindE_eq_Inr Let_def
        bump_nonce_def put_balance_def split: if_splits)
qed

lemma run_senders: "ledger_run E I ts L = Inr L' \<Longrightarrow> t \<in> set ts \<Longrightarrow> \<exists>s. tx_sender_of E t = Inr s"
  by (induction ts arbitrary: L) (auto simp: bindE_eq_Inr tx_spec_def)

text \<open>A transaction of a run has a nonce that is not below that of its sender at the start.\<close>

lemma run_nonce_le:
  "ledger_run E I ts L = Inr L' \<Longrightarrow> t \<in> set ts \<Longrightarrow> tx_sender_of E t = Inr s \<Longrightarrow> fst (L s) \<le> tx_nonce t"
proof (induction ts arbitrary: L)
  case (Cons u us)
  then obtain L1 r where L1: "tx_spec E I u L = Inr L1" and rest: "ledger_run E I us L1 = Inr L'" and r: "tx_sender_of E u = Inr r"
    by (auto simp: bindE_eq_Inr tx_spec_def)
  show ?case
  proof (cases "t = u")
    case True
    with Cons.prems(3) tx_spec_nonces(1) [OF L1] show ?thesis by simp
  next
    case False
    with Cons.prems Cons.IH [OF rest] have "fst (L1 s) \<le> tx_nonce t" by simp
    with tx_spec_nonces(2) [OF L1 r, of s] show ?thesis by (simp split: if_splits)
  qed
qed simp

lemma run_distinct_senders:
  assumes "ledger_run E I ts L = Inr L'" "\<And>t s. t \<in> set ts \<Longrightarrow> tx_sender_of E t = Inr s \<Longrightarrow> tx_nonce t = N s"
  shows "distinct (map (tx_sender_of E) ts)"
  using assms
proof (induction ts arbitrary: L)
  case (Cons u us)
  then obtain L1 r where L1: "tx_spec E I u L = Inr L1" and rest: "ledger_run E I us L1 = Inr L'" and r: "tx_sender_of E u = Inr r"
    by (auto simp: bindE_eq_Inr tx_spec_def)
  have new: "tx_sender_of E t \<noteq> Inr r" if t: "t \<in> set us" for t
  proof
    assume s: "tx_sender_of E t = Inr r"
    have "fst (L1 r) \<le> tx_nonce t" by (rule run_nonce_le [OF rest t s])
    moreover have "fst (L1 r) = Suc (tx_nonce u)" using tx_spec_nonces [OF L1 r] by simp
    ultimately show False using Cons.prems(2) [of u r] Cons.prems(2) [of t r] t s r by simp
  qed
  have "tx_sender_of E u \<notin> tx_sender_of E ` set us"
  proof
    assume "tx_sender_of E u \<in> tx_sender_of E ` set us"
    then obtain t where "tx_sender_of E u = tx_sender_of E t" "t \<in> set us" by (rule imageE)
    with new r show False by simp
  qed
  moreover have "distinct (map (tx_sender_of E) us)"
    by (rule Cons.IH [OF rest]) (rule Cons.prems(2), simp_all)
  ultimately show ?case by simp
qed simp

section \<open>Validation reads the ledger\<close>

context account_store begin

lemma validate_transactions_run:
  assumes "rep (n + 400 * length ts) st L" "senders_ok (s_ext S) ts" "validate_transactions S ts st = (Inr ok, st')"
  shows "rep n st' L \<and> (\<forall>t \<in> set ts. \<exists>s. tx_sender_of (s_ext S) t = Inr s \<and> fst (L s) = tx_nonce t)"
  using assms
proof (induction ts arbitrary: st)
  case Nil
  then show ?case by simp
next
  case (Cons t ts)
  from Cons.prems(3) obtain s where s: "tx_sender_of (s_ext S) t = Inr s"
    by (auto simp: validate_transaction_def bindM_eq_Inr)
  then have len: "length s = 20" using Cons.prems(2) by (auto simp: senders_ok_def)
  have rep: "rep ((n + 400 * length ts) + 400) st L" using Cons.prems(1) by (simp add: ac_simps)
  obtain r st1 where st1: "validate_transaction S t st = (r, st1)"
    and r: "case bindE (valid_spec (s_ips S) s t L) (\<lambda>_. Inr (True, L)) of
        Inl e \<Rightarrow> r = Inl e \<and> (\<exists>L'. rep (n + 400 * length ts) st1 L')
      | Inr (x, L') \<Rightarrow> r = Inr x \<and> rep (n + 400 * length ts) st1 L'"
    using impl_validate [OF s len, of L] rep unfolding impl_def by blast
  show ?case
  proof (cases "valid_spec (s_ips S) s t L")
    case (Inl e)
    with r st1 Cons.prems(3) show ?thesis by (simp add: bindM_def)
  next
    case (Inr u)
    with r have r': "r = Inr True" "rep (n + 400 * length ts) st1 L" by simp_all
    with Cons.prems(3) st1 have "validate_transactions S ts st1 = (Inr ok, st')" by (simp add: bindM_def)
    moreover have "senders_ok (s_ext S) ts" using Cons.prems(2) by (simp add: senders_ok_def)
    moreover have "fst (L s) = tx_nonce t" using Inr by (auto simp: valid_spec_def split: if_splits)
    ultimately show ?thesis using Cons.IH r'(2) s by auto
  qed
qed

end

section \<open>The block\<close>

lemma chain_rep_changed [simp]: "chain_rep S n (st\<lparr>st_changed := x\<rparr>) L = chain_rep S n st L"
  by (simp add: chain_rep_def)

lemma validate_block_transactions:
  assumes "validate_block S b st = (Inr ok, st')"
  shows "validate_transactions S (b_transactions b) st = (Inr ok, st')"
  using assms by (auto simp: validate_block_def bindM_eq_Inr split: if_splits)

lemma apply_block_Inr:
  assumes "apply_block S R b p st = (Inr p', st')"
  shows "\<exists>cs st1. apply_transactions S (b_transactions b) [] st = (Inr cs, st1) \<and> st' = snd (add_block_header (b_header b) st1)"
proof -
  have "\<exists>ok. block_checks (s_ext S) st b = Inr ok"
    using assms apply_block_unchecked [of S st b _ R p] by (cases "block_checks (s_ext S) st b") auto
  then obtain ok where "block_checks (s_ext S) st b = Inr ok" ..
  note run = apply_block_checked [OF this, of R p]
  obtain r st1 where txs: "apply_transactions S (b_transactions b) [] st = (r, st1)" by (meson surj_pair)
  show ?thesis
  proof (cases r)
    case (Inl e)
    have "bindM (revert S (snapshot st)) (\<lambda>_. raise e) st1 \<noteq> (Inr p', st')" by (auto simp: bindM_eq_Inr)
    with run txs Inl assms show ?thesis by (auto split: if_splits)
  next
    case (Inr cs)
    with run txs assms show ?thesis by auto
  qed
qed


text \<open>A block without transactions, on the chain of one block whose state has no accounts yet.\<close>

definition fresh_chain :: "(level, (ipnet \<times> string) list) chain" where
  "fresh_chain = one_chain\<lparr>ch_state := (ch_state one_chain)\<lparr>st_cache := []\<rparr>\<rparr>"

lemma fresh_chain_rep: "n < 2 ^ 32 \<Longrightarrow> chain_rep chain_senv n (ch_state fresh_chain) (\<lambda>_. (0, empty_balance ipset_ref))"
proof -
  assume "n < 2 ^ 32"
  then have "refcount_inv level_view n level_empty" by (rule level_empty_inv)
  moreover have "cache_shows chain_senv (\<lambda>_. []) [] (\<lambda>_. (0, empty_balance ipset_ref))"
    by (simp add: cache_shows_def trie_shows_def)
  moreover have "env_ok chain_senv" by (rule senv_for_ok)
  ultimately show ?thesis
    using represents_blank [of ext_ref chain_view level_empty]
    by (auto simp: chain_rep_def fresh_chain_def one_chain_def sample_state_def)
qed


end
