(* ===== verification/TrieOrder.thy ===== *)
theory TrieOrder
  imports TrieDict "HOL-Library.List_Lexorder" "HOL-Library.Char_ord"
begin

text \<open>
  The ordered search of \<open>trie.py\<close>: \<open>_getany\<close>, the first or last key below a node, and \<open>_iter\<close>, the
  nearest key after or before a given one, with \<open>next\<close> and \<open>prev\<close>. A key on the way is a list of nibbles,
  with a 16 at its end when the value is that of a branch; \<open>None\<close> is the result of a node without
  such a key. Python compares lists of nibbles lexicographically, as \<open><\<close> on lists does here.
  The argument \<open>path\<close>, which no code reads, is left out.
\<close>

section \<open>The methods\<close>

text \<open>\<open>for i in scan_range: o = ...; if o is not None: return [i] + o\<close>.\<close>

fun first_found :: "(nat \<Rightarrow> ('s, nat list option) M) \<Rightarrow> nat list \<Rightarrow> ('s, nat list option) M" where
  "first_found g [] = ret None"
| "first_found g (i # is) =
     bindM (g i) (\<lambda>o'. case o' of Some k \<Rightarrow> ret (Some (i # k)) | None \<Rightarrow> first_found g is)"

fun getany :: "nat \<Rightarrow> 's trie_env \<Rightarrow> bool \<Rightarrow> item \<Rightarrow> ('s, nat list option) M" where
  "getany 0 T reverse node = raise RuntimeError"
| "getany (Suc f) T reverse node =
     bindM (liftE (get_node_type node)) (\<lambda>node_type.
     case node_type of
       NODE_TYPE_BLANK \<Rightarrow> ret None
     | NODE_TYPE_BRANCH \<Rightarrow>
         bindM (liftE (node_nth node 16)) (\<lambda>v.
         if truthy v \<and> \<not> reverse then ret (Some [16])
         else
           bindM (first_found (\<lambda>i. bindM (child_node T node i) (getany f T reverse))
             (if reverse then rev [0..<16] else [0..<16])) (\<lambda>o'.
           case o' of
             Some k \<Rightarrow> ret (Some k)
           | None \<Rightarrow> ret (if truthy v \<and> reverse then Some [16] else None)))
     | NODE_TYPE_LEAF \<Rightarrow> bindM (liftE (node_key node)) (\<lambda>curr_key. ret (Some curr_key))
     | NODE_TYPE_EXTENSION \<Rightarrow>
         bindM (liftE (node_key node)) (\<lambda>curr_key.
         bindM (child_node T node 1) (\<lambda>sub_node.
         bindM (getany f T reverse sub_node) (\<lambda>o'.
         case o' of
           Some k \<Rightarrow> ret (Some (curr_key @ k))
         | None \<Rightarrow> raise TypeError))))"

text \<open>The children of a branch that are tried after the one on the way to the key.\<close>

definition scan_range :: "bool \<Rightarrow> nat list \<Rightarrow> nat list" where
  "scan_range reverse key =
     (if reverse then rev [0..<(case key of [] \<Rightarrow> 0 | i # _ \<Rightarrow> i)]
      else [(case key of [] \<Rightarrow> 0 | i # _ \<Rightarrow> Suc i)..<16])"

text \<open>\<open>descend_key + o if o else None\<close>.\<close>

definition descend :: "nat list \<Rightarrow> nat list option \<Rightarrow> nat list option" where
  "descend descend_key o' = (case o' of Some k \<Rightarrow> if k = [] then None else Some (descend_key @ k) | None \<Rightarrow> None)"

fun iter_key :: "nat \<Rightarrow> 's trie_env \<Rightarrow> bool \<Rightarrow> item \<Rightarrow> nat list \<Rightarrow> ('s, nat list option) M" where
  "iter_key 0 T reverse node key = raise RuntimeError"
| "iter_key (Suc f) T reverse node key =
     bindM (liftE (get_node_type node)) (\<lambda>node_type.
     case node_type of
       NODE_TYPE_BLANK \<Rightarrow> ret None
     | NODE_TYPE_BRANCH \<Rightarrow>
         bindM (case key of
             [] \<Rightarrow> ret None
           | i # k \<Rightarrow>
               bindM (child_node T node i) (\<lambda>sub_node.
               bindM (iter_key f T reverse sub_node k) (\<lambda>o'. ret (map_option ((#) i) o')))) (\<lambda>o'.
         case o' of
           Some k \<Rightarrow> ret (Some k)
         | None \<Rightarrow>
             bindM (first_found (\<lambda>i. bindM (child_node T node i) (getany f T reverse)) (scan_range reverse key)) (\<lambda>o'.
             case o' of
               Some k \<Rightarrow> ret (Some k)
             | None \<Rightarrow>
                 if reverse \<and> key \<noteq> []
                 then bindM (liftE (node_nth node 16)) (\<lambda>v. ret (if truthy v then Some [16] else None))
                 else ret None))
     | NODE_TYPE_LEAF \<Rightarrow>
         bindM (liftE (node_key node)) (\<lambda>descend_key.
         ret (if (if reverse then descend_key < key else key < descend_key) then Some descend_key else None))
     | NODE_TYPE_EXTENSION \<Rightarrow>
         bindM (liftE (node_key node)) (\<lambda>descend_key.
         bindM (child_node T node 1) (\<lambda>sub_node.
         let head = take (length descend_key) key in
         bindM (if starts_with key descend_key then iter_key f T reverse sub_node (drop (length descend_key) key)
                else if descend_key > head \<and> \<not> reverse then getany f T False sub_node
                else if descend_key < head \<and> reverse then getany f T True sub_node
                else ret None) (\<lambda>o'.
         ret (descend descend_key o')))))"

definition near_key :: "nat \<Rightarrow> 's trie_env \<Rightarrow> bool \<Rightarrow> string \<Rightarrow> ('s trie, string option) M" where
  "near_key limit T reverse key =
     bindM (liftE (bin_to_nibbles key)) (\<lambda>ns.
     bindM (gets root_node) (\<lambda>node.
     bindM (in_tdb (iter_key limit T reverse node ns)) (\<lambda>o'.
     case o' of
       Some k \<Rightarrow> if k = [] then ret None
                 else bindM (liftE (nibbles_to_bin (without_terminator k))) (\<lambda>s. ret (Some s))
     | None \<Rightarrow> ret None)))"

definition next_key :: "nat \<Rightarrow> 's trie_env \<Rightarrow> string \<Rightarrow> ('s trie, string option) M" where
  "next_key limit T key = near_key limit T False key"

definition prev_key :: "nat \<Rightarrow> 's trie_env \<Rightarrow> string \<Rightarrow> ('s trie, string option) M" where
  "prev_key limit T key = near_key limit T True key"

section \<open>The same search on trees\<close>

fun first_some :: "(nat \<Rightarrow> nat list option) \<Rightarrow> nat list \<Rightarrow> nat list option" where
  "first_some g [] = None"
| "first_some g (i # is) = (case g i of Some k \<Rightarrow> Some (i # k) | None \<Rightarrow> first_some g is)"

definition either :: "'a option \<Rightarrow> 'a option \<Rightarrow> 'a option" where
  "either o1 o2 = (case o1 of Some x \<Rightarrow> Some x | None \<Rightarrow> o2)"

lemma size_child [termination_simp]: "i < length ts \<Longrightarrow> size (ts ! i) < Suc (size_list size ts)"
  using size_list_estimation' [of "ts ! i" ts "size (ts ! i)" size] by simp

fun pany :: "bool \<Rightarrow> ptree \<Rightarrow> nat list option" where
  "pany r PBlank = None"
| "pany r (PLeaf p v) = Some p"
| "pany r (PExt p t) = map_option ((@) p) (pany r t)"
| "pany r (PBranch ts v) =
     (let val = (if v \<noteq> [] then Some [16] else None);
          kids = first_some (\<lambda>i. if i < length ts then pany r (ts ! i) else None) (if r then rev [0..<16] else [0..<16])
      in if r then either kids val else either val kids)"

fun piter :: "bool \<Rightarrow> ptree \<Rightarrow> nat list \<Rightarrow> nat list option" where
  "piter r PBlank key = None"
| "piter r (PLeaf p v) key = (if (if r then p < key else key < p) then Some p else None)"
| "piter r (PExt p t) key =
     descend p (let head = take (length p) key in
       if starts_with key p then piter r t (drop (length p) key)
       else if (if r then p < head else head < p) then pany r t
       else None)"
| "piter r (PBranch ts v) key =
     either (case key of [] \<Rightarrow> None | i # k \<Rightarrow> if i < length ts then map_option ((#) i) (piter r (ts ! i) k) else None)
       (either (first_some (\<lambda>i. pany r (ts ! i)) (scan_range r key))
         (if r \<and> key \<noteq> [] \<and> v \<noteq> [] then Some [16] else None))"

text \<open>What a search promises about the keys \<open>K\<close> in reach: the first of them in its direction, or none when
  there are no keys.\<close>

definition before :: "bool \<Rightarrow> nat list \<Rightarrow> nat list \<Rightarrow> bool" where
  "before r a b \<longleftrightarrow> (if r then b < a else a < b)"

definition nearest :: "bool \<Rightarrow> nat list set \<Rightarrow> nat list option \<Rightarrow> bool" where
  "nearest r K o' \<longleftrightarrow>
     (case o' of None \<Rightarrow> K = {}
      | Some x \<Rightarrow> without_terminator x \<in> K \<and> (\<forall>k \<in> K. k \<noteq> without_terminator x \<longrightarrow> before r (without_terminator x) k))"

definition pkeys :: "ptree \<Rightarrow> nat list set" where
  "pkeys t = {k. plookup t k \<noteq> []}"

lemma before_simps [simp]:
  "before r (i # a) (i # b) = before r a b" "before r (p @ a) (p @ b) = before r a b"
  "before True (i # a) []" "before False [] (i # a)" "\<not> before False a []" "\<not> before True [] a"
  "\<not> before r a a"
proof -
  show "before r (p @ a) (p @ b) = before r a b" by (cases r; induction p) (simp_all add: before_def)
qed (simp_all add: before_def)

lemma before_heads: "i \<noteq> j \<Longrightarrow> before r (i # a) (j # b) \<longleftrightarrow> (if r then j < i else i < j)"
  by (auto simp: before_def)

lemma before_Cons: "before r (i # a) (j # b) \<longleftrightarrow> (if r then j < i else i < j) \<or> i = j \<and> before r a b"
  by (cases "i = j") (auto simp: before_heads)

lemma nearest_None [simp]: "nearest r K None \<longleftrightarrow> K = {}"
  by (simp add: nearest_def)

lemma nearest_empty: "nearest r {} o' \<Longrightarrow> o' = None"
  by (auto simp: nearest_def split: option.splits)

lemma nearest_Some:
  "nearest r K (Some x) \<longleftrightarrow> without_terminator x \<in> K \<and> (\<forall>k \<in> K. k \<noteq> without_terminator x \<longrightarrow> before r (without_terminator x) k)"
  by (simp add: nearest_def)

lemma nearest_either:
  assumes "nearest r K1 o1" "nearest r K2 o2" "\<And>a b. a \<in> K1 \<Longrightarrow> b \<in> K2 \<Longrightarrow> before r a b"
  shows "nearest r (K1 \<union> K2) (either o1 o2)"
proof (cases o1)
  case (Some x)
  with assms(1) have "without_terminator x \<in> K1" by (simp add: nearest_Some)
  with assms(1,3) Some show ?thesis by (auto simp: nearest_Some either_def)
qed (use assms in \<open>simp add: either_def\<close>)

lemma without_terminator_Cons: "i \<noteq> 16 \<Longrightarrow> without_terminator (i # k) = i # without_terminator k"
  by (auto simp: without_terminator_def NIBBLE_TERMINATOR_def)

lemma without_terminator_nibs: "nibs_ok p \<Longrightarrow> without_terminator (p @ k) = p @ without_terminator k"
  by (induction p) (auto simp: without_terminator_Cons)

lemma without_terminator_16 [simp]: "without_terminator [16] = []"
  by (simp add: without_terminator_def NIBBLE_TERMINATOR_def)

lemma nearest_map:
  assumes "nearest r K o'" "\<And>k. without_terminator (p @ k) = p @ without_terminator k"
  shows "nearest r ((@) p ` K) (map_option ((@) p) o')"
  using assms by (cases o') (auto simp: nearest_Some)

lemma nearest_first:
  assumes "\<And>i. i \<in> set is \<Longrightarrow> i < 16 \<and> nearest r (A i) (g i)"
    and "sorted_wrt (\<lambda>i j. if r then j < i else i < j) is"
  shows "nearest r (\<Union>i \<in> set is. (#) i ` A i) (first_some g is)"
  using assms
proof (induction "is")
  case (Cons i "is")
  have "nearest r ((@) [i] ` A i) (map_option ((@) [i]) (g i))"
    using Cons.prems(1) [of i] by (intro nearest_map) (auto simp: without_terminator_Cons)
  moreover have "nearest r (\<Union>j \<in> set is. (#) j ` A j) (first_some g is)"
    using Cons.prems by (intro Cons.IH) auto
  moreover have "before r a b" if "a \<in> (@) [i] ` A i" "b \<in> (\<Union>j \<in> set is. (#) j ` A j)" for a b
    using that Cons.prems(2) by (cases r) (auto simp: before_def)
  ultimately have "nearest r ((@) [i] ` A i \<union> (\<Union>j \<in> set is. (#) j ` A j)) (either (map_option ((@) [i]) (g i)) (first_some g is))"
    by (rule nearest_either)
  moreover have "first_some g (i # is) = either (map_option ((@) [i]) (g i)) (first_some g is)"
    by (simp add: either_def split: option.splits)
  moreover have "(@) [i] = (#) i" by (rule ext) simp
  ultimately show ?case by simp
qed simp

lemma pkeys_simps [simp]:
  "pkeys PBlank = {}" "v \<noteq> [] \<Longrightarrow> pkeys (PLeaf p v) = {p}" "pkeys (PExt p t) = (@) p ` pkeys t"
  "length ts = 16 \<Longrightarrow> pkeys (PBranch ts v) = (\<Union>i \<in> {0..<16}. (#) i ` pkeys (ts ! i)) \<union> (if v \<noteq> [] then {[]} else {})"
proof -
  show "pkeys (PExt p t) = (@) p ` pkeys t"
    by (auto simp: pkeys_def starts_with_iff image_iff)
  show "length ts = 16 \<Longrightarrow> pkeys (PBranch ts v) = (\<Union>i \<in> {0..<16}. (#) i ` pkeys (ts ! i)) \<union> (if v \<noteq> [] then {[]} else {})"
  proof (rule set_eqI)
    fix k assume "length ts = 16"
    then show "k \<in> pkeys (PBranch ts v) \<longleftrightarrow> k \<in> (\<Union>i \<in> {0..<16}. (#) i ` pkeys (ts ! i)) \<union> (if v \<noteq> [] then {[]} else {})"
      by (cases k) (auto simp: pkeys_def image_iff)
  qed
qed (auto simp: pkeys_def)

lemma pany_nearest: "pcanon t \<Longrightarrow> nearest r (pkeys t) (pany r t)"
proof (induction t)
  case (PLeaf p v)
  then show ?case using nibs_ok_last [of p] by (auto simp: nearest_Some without_terminator_nibs)
next
  case (PExt p t)
  then show ?case using nearest_map [of r "pkeys t" "pany r t" p] by (auto simp: without_terminator_nibs)
next
  case (PBranch ts v)
  then have n: "length ts = 16" by simp
  let ?is = "if r then rev [0..<16] else [0..<16]"
  have kids: "nearest r (\<Union>i \<in> set ?is. (#) i ` pkeys (ts ! i)) (first_some (\<lambda>i. if i < length ts then pany r (ts ! i) else None) ?is)"
    using PBranch n by (intro nearest_first) (auto simp: sorted_wrt_rev split: if_splits)
  have val: "nearest r (if v \<noteq> [] then {[]} else {}) (if v \<noteq> [] then Some [16] else None)"
    by (simp add: nearest_Some)
  have set: "set ?is = {0..<16}" by auto
  let ?K = "\<Union>i \<in> set ?is. (#) i ` pkeys (ts ! i)" let ?V = "if v \<noteq> [] then {[]} else {}"
  let ?kids = "first_some (\<lambda>i. if i < length ts then pany r (ts ! i) else None) ?is"
  let ?val = "if v \<noteq> [] then Some [16] else None"
  show ?case
  proof (cases r)
    case True
    have "nearest r (?K \<union> ?V) (either ?kids ?val)"
      by (rule nearest_either [OF kids val]) (use True in \<open>auto split: if_splits\<close>)
    moreover have "pany r (PBranch ts v) = either ?kids ?val" unfolding pany.simps Let_def using True by (rule if_P)
    ultimately show ?thesis by (simp only: set pkeys_simps(4) [OF n])
  next
    case False
    have "nearest r (?V \<union> ?K) (either ?val ?kids)"
      by (rule nearest_either [OF val kids]) (use False in \<open>auto split: if_splits\<close>)
    moreover have "pany r (PBranch ts v) = either ?val ?kids" unfolding pany.simps Let_def using False by (rule if_not_P)
    ultimately show ?thesis by (simp only: set pkeys_simps(4) [OF n] Un_commute)
  qed
qed simp

lemma pany_branch: "is_branch t \<Longrightarrow> pany r t \<noteq> Some []" "is_branch t \<Longrightarrow> piter r t key \<noteq> Some []"
proof -
  have kids: "first_some g is \<noteq> Some []" for g and "is" :: "nat list"
    by (induction "is") (auto split: option.splits)
  show "pany r t \<noteq> Some []" if "is_branch t"
    using that kids by (elim is_branchE) (auto simp: Let_def either_def split: option.splits)
  show "piter r t key \<noteq> Some []" if "is_branch t"
    using that kids by (elim is_branchE) (auto simp: either_def split: option.splits list.splits if_splits)
qed

lemma descend_branch: "o' \<noteq> Some [] \<Longrightarrow> descend p o' = map_option ((@) p) o'"
  by (auto simp: descend_def split: option.splits)

text \<open>A key that does not pass through the path \<open>p\<close> lies on the same side of all keys below it.\<close>

lemma before_off_path: "\<not> starts_with key p \<Longrightarrow> before r key (p @ k) \<longleftrightarrow> before r (take (length p) key) p"
proof (induction p arbitrary: key)
  case Nil
  then show ?case by (simp add: starts_with_iff)
next
  case (Cons i p)
  show ?case
  proof (cases key)
    case (Cons j k')
    then show ?thesis using Cons.IH [of k'] Cons.prems by (cases "i = j") (auto simp: starts_with_iff before_heads)
  qed (simp add: before_def)
qed

lemma piter_nearest: "pcanon t \<Longrightarrow> nibs_ok key \<Longrightarrow> nearest r {k \<in> pkeys t. before r key k} (piter r t key)"
proof (induction t arbitrary: key)
  case PBlank
  then show ?case by simp
next
  case (PLeaf p v)
  then show ?case by (auto simp: nearest_Some without_terminator_nibs [of p "[]"] before_def)
next
  case (PExt p t)
  then have t: "pcanon t" "is_branch t" "nibs_ok p" by auto
  show ?case
  proof (cases "starts_with key p")
    case True
    then obtain k where k: "key = p @ k" by (auto simp: starts_with_iff)
    have "nearest r ((@) p ` {j \<in> pkeys t. before r k j}) (map_option ((@) p) (piter r t k))"
      using PExt k t by (intro nearest_map) (auto simp: without_terminator_nibs)
    moreover have "{j \<in> pkeys (PExt p t). before r key j} = (@) p ` {j \<in> pkeys t. before r k j}"
      by (auto simp: k)
    ultimately show ?thesis using k pany_branch(2) [OF t(2)] by (simp add: descend_branch)
  next
    case False
    have same: "before r key (p @ k) \<longleftrightarrow> before r (take (length p) key) p" for k
      using before_off_path [OF False] .
    show ?thesis
    proof (cases "before r (take (length p) key) p")
      case True
      then have "{k \<in> pkeys (PExt p t). before r key k} = (@) p ` pkeys t" using same by auto
      moreover have "nearest r ((@) p ` pkeys t) (map_option ((@) p) (pany r t))"
        using pany_nearest [OF t(1)] t(3) by (intro nearest_map) (auto simp: without_terminator_nibs)
      ultimately show ?thesis
        using True False pany_branch(1) [OF t(2)] by (simp add: descend_branch before_def Let_def)
    next
      case no: False
      then have "{k \<in> pkeys (PExt p t). before r key k} = {}" using same by auto
      with no False show ?thesis by (simp add: descend_def before_def Let_def)
    qed
  qed
next
  case (PBranch ts v)
  then have n: "length ts = 16" and can: "\<And>i. i < 16 \<Longrightarrow> pcanon (ts ! i)" by auto
  let ?val = "if r \<and> key \<noteq> [] \<and> v \<noteq> [] then Some [16] else None"
  let ?V = "if r \<and> key \<noteq> [] \<and> v \<noteq> [] then {[]} else {}"
  let ?R = "\<Union>i \<in> set (scan_range r key). (#) i ` pkeys (ts ! i)"
  have range: "i < 16" if "i \<in> set (scan_range r key)" for i
    using that PBranch.prems(2) by (auto simp: scan_range_def split: list.splits if_splits)
  have "sorted_wrt (\<lambda>i j. if r then j < i else i < j) (scan_range r key)"
    by (cases r) (simp_all add: scan_range_def sorted_wrt_rev)
  then have rest: "nearest r ?R (first_some (\<lambda>i. pany r (ts ! i)) (scan_range r key))"
    using range can by (intro nearest_first) (auto intro: pany_nearest)
  have "nearest r ?V ?val" by (simp add: nearest_Some)
  then have rest: "nearest r (?R \<union> ?V) (either (first_some (\<lambda>i. pany r (ts ! i)) (scan_range r key)) ?val)"
    by (intro nearest_either rest) (auto split: if_splits)
  show ?case
  proof (cases key)
    case Nil
    then have "{k \<in> pkeys (PBranch ts v). before r key k} = ?R \<union> ?V"
      unfolding pkeys_simps(4) [OF n] by (cases r) (auto simp: scan_range_def)
    with Nil rest show ?thesis by (simp add: either_def)
  next
    case (Cons i k)
    with PBranch.prems(2) have i: "i < 16" "nibs_ok k" by auto
    have "nearest r ((@) [i] ` {j \<in> pkeys (ts ! i). before r k j}) (map_option ((@) [i]) (piter r (ts ! i) k))"
      using PBranch.IH [of "ts ! i" k] can [of i] i n by (intro nearest_map) (auto simp: without_terminator_Cons)
    then have "nearest r ((@) [i] ` {j \<in> pkeys (ts ! i). before r k j} \<union> (?R \<union> ?V))
        (either (map_option ((@) [i]) (piter r (ts ! i) k)) (either (first_some (\<lambda>i. pany r (ts ! i)) (scan_range r key)) ?val))"
      using rest by (rule nearest_either) (use Cons in \<open>auto simp: scan_range_def before_heads split: if_splits\<close>)
    moreover have "{k' \<in> pkeys (PBranch ts v). before r key k'} = (@) [i] ` {j \<in> pkeys (ts ! i). before r k j} \<union> (?R \<union> ?V)"
    proof (rule set_eqI)
      fix k'
      show "k' \<in> {k' \<in> pkeys (PBranch ts v). before r key k'} \<longleftrightarrow> k' \<in> (@) [i] ` {j \<in> pkeys (ts ! i). before r k j} \<union> (?R \<union> ?V)"
        unfolding pkeys_simps(4) [OF n] using Cons i
        by (cases r; cases k') (auto simp: scan_range_def before_Cons image_iff split: if_splits)
    qed
    moreover have "(@) [i] = (#) i" by (rule ext) simp
    ultimately show ?thesis using Cons i n by simp
  qed
qed

section \<open>The methods search the tree\<close>

context content_store begin

lemma runs_first_found:
  assumes "\<And>i m1. i \<in> set is \<Longrightarrow> m0 \<subseteq>\<^sub>m m1 \<Longrightarrow> runs C view inv 0 m1 (f i) (\<lambda>x m. x = g i)"
  shows "runs C view inv 0 m0 (first_found f is) (\<lambda>x m. x = first_some g is)"
  using assms
proof (induction "is" arbitrary: m0)
  case Nil
  then show ?case by (auto intro!: runs_value)
next
  case (Cons i "is")
  have head: "runs C view inv 0 m0 (f i) (\<lambda>x m. x = g i)"
    using Cons.prems by auto
  show ?case
    unfolding first_found.simps
  proof (rule runs_seq [OF head])
    fix x m1
    assume m1: "m0 \<subseteq>\<^sub>m m1" "x = g i"
    have "runs C view inv 0 m1 (first_found f is) (\<lambda>x m. x = first_some g is)"
      using Cons.prems map_le_trans [OF m1(1)] by (intro Cons.IH) auto
    then show "runs C view inv 0 m1 (case x of Some k \<Rightarrow> ret (Some (i # k)) | None \<Rightarrow> first_found f is)
        (\<lambda>x m. x = first_some g (i # is))"
      using m1(2) by (auto split: option.splits intro!: runs_value)
  qed simp
qed

text \<open>A child is read, then the search goes on in it.\<close>

lemma runs_below:
  assumes E: "ext_ok E" "rlp_ok E" and c: "pcanon c" "small c" "kept E m0 c" "node_nth node i = Inr (tref E c)"
    and rest: "\<And>m. stored E m c \<Longrightarrow> runs C view inv 0 m (h (nodeof E c)) Q"
  shows "runs C view inv 0 m0 (bindM (child_node (trie_methods E get put) node i) h) Q"
proof (rule runs_seq)
  show "runs C view inv 0 m0 (child_node (trie_methods E get put) node i) (\<lambda>x m. x = nodeof E c \<and> kept E m c)"
    using c pcanon_pwf by (intro runs_child [OF E]) auto
qed (use rest in auto)

lemma branch_child:
  assumes "pcanon (PBranch ts v)" "small (PBranch ts v)" "stored E m0 (PBranch ts v)" "m0 \<subseteq>\<^sub>m m1" "i < 16"
  shows "pcanon (ts ! i)" "small (ts ! i)" "kept E m1 (ts ! i)" "node_nth (nodeof E (PBranch ts v)) i = Inr (tref E (ts ! i))"
    "depth (ts ! i) < depth (PBranch ts v)" "ts ! i \<in> set ts"
proof -
  have n: "length ts = 16" using assms(1) by simp
  then show c: "ts ! i \<in> set ts" using assms(5) by simp
  show "pcanon (ts ! i)" "small (ts ! i)" using assms(1,2) c by auto
  show "kept E m1 (ts ! i)" using assms(3,4) c by (auto intro: held_mono stored_mono)
  show "node_nth (nodeof E (PBranch ts v)) i = Inr (tref E (ts ! i))"
    using n assms(5) by (rule node_nth_branch)
  show "depth (ts ! i) < depth (PBranch ts v)" using c by (simp add: le_imp_less_Suc)
qed

lemma runs_getany:
  assumes E: "ext_ok E" "rlp_ok E"
  shows "pcanon t \<Longrightarrow> small t \<Longrightarrow> stored E m0 t \<Longrightarrow> depth t < f \<Longrightarrow>
    runs C view inv 0 m0 (getany f (trie_methods E get put) r (nodeof E t)) (\<lambda>x m. x = pany r t)"
proof (induction f arbitrary: t m0)
  case 0
  then show ?case by simp
next
  case (Suc f)
  show ?case
  proof (cases t)
    case PBlank
    then show ?thesis by (auto intro!: runs_value)
  next
    case (PLeaf p v)
    with Suc.prems show ?thesis by (auto intro!: runs_value)
  next
    case (PExt p u)
    then have u: "kept E m0 u" "pcanon u" "small u" "nibs_ok p" "u \<noteq> PBlank" "depth u < f" using Suc.prems by (auto simp: is_branch_def)
    then obtain k where k: "pany r u = Some k"
      using pany_nearest [of u r] pcanon_nonempty [of u] by (cases "pany r u") (auto simp: pkeys_def)
    have "getany (Suc f) (trie_methods E get put) r (nodeof E t) =
        bindM (child_node (trie_methods E get put) (nodeof E t) 1) (\<lambda>sub_node.
        bindM (getany f (trie_methods E get put) r sub_node) (\<lambda>o'.
        case o' of Some k \<Rightarrow> ret (Some (p @ k)) | None \<Rightarrow> raise TypeError))"
      by (rule ext) (use PExt u(4) in simp)
    moreover have "runs C view inv 0 m0 \<dots> (\<lambda>x m. x = pany r t)"
    proof (rule runs_below [OF E u(2,3,1)])
      show "node_nth (nodeof E t) 1 = Inr (tref E u)" using PExt by simp
      show "runs C view inv 0 m (bindM (getany f (trie_methods E get put) r (nodeof E u)) (\<lambda>o'.
          case o' of Some k \<Rightarrow> ret (Some (p @ k)) | None \<Rightarrow> raise TypeError)) (\<lambda>x m. x = pany r t)" if "stored E m u" for m
        by (rule runs_seq [OF Suc.IH [OF u(2,3) that u(6)]]) (use PExt k in \<open>auto intro!: runs_value\<close>)
    qed
    ultimately show ?thesis by simp
  next
    case (PBranch ts v)
    then have n: "length ts = 16" and t: "pcanon (PBranch ts v)" "small (PBranch ts v)" "stored E m0 (PBranch ts v)" using Suc.prems by auto
    let ?is = "if r then rev [0..<16] else [0..<16]"
    let ?g = "\<lambda>i. if i < length ts then pany r (ts ! i) else None"
    have kids: "runs C view inv 0 m0 (first_found (\<lambda>i. bindM (child_node (trie_methods E get put) (nodeof E t) i)
        (getany f (trie_methods E get put) r)) ?is) (\<lambda>x m. x = first_some ?g ?is)"
    proof (rule runs_first_found)
      fix i m1 assume i: "i \<in> set ?is" and m1: "m0 \<subseteq>\<^sub>m m1"
      then have i: "i < 16" by (auto split: if_splits)
      note c = branch_child [OF t m1 i]
      show "runs C view inv 0 m1 (bindM (child_node (trie_methods E get put) (nodeof E t) i) (getany f (trie_methods E get put) r))
          (\<lambda>x m. x = ?g i)"
        unfolding PBranch
        by (rule runs_below [OF E c(1-4)]) (use Suc.IH [OF c(1,2)] Suc.prems(4) PBranch c(5) n i in simp)
    qed
    have "getany (Suc f) (trie_methods E get put) r (nodeof E t) =
        (if v \<noteq> [] \<and> \<not> r then ret (Some [16])
         else bindM (first_found (\<lambda>i. bindM (child_node (trie_methods E get put) (nodeof E t) i) (getany f (trie_methods E get put) r)) ?is)
           (\<lambda>o'. case o' of Some k \<Rightarrow> ret (Some k) | None \<Rightarrow> ret (if v \<noteq> [] \<and> r then Some [16] else None)))"
      by (rule ext) (use PBranch n in \<open>simp add: truthy_def nth_append\<close>)
    moreover have "runs C view inv 0 m0 \<dots> (\<lambda>x m. x = pany r t)"
    proof (cases "v \<noteq> [] \<and> \<not> r")
      case True
      with PBranch show ?thesis by (auto simp: Let_def either_def intro!: runs_value)
    next
      case False
      then show ?thesis
        unfolding if_not_P [OF False]
        by (intro runs_seq [OF kids]) (auto simp: PBranch Let_def either_def split: option.splits intro!: runs_value)
    qed
    ultimately show ?thesis by simp
  qed
qed

lemma runs_iter_key:
  assumes E: "ext_ok E" "rlp_ok E"
  shows "pcanon t \<Longrightarrow> small t \<Longrightarrow> stored E m0 t \<Longrightarrow> depth t < f \<Longrightarrow> nibs_ok key \<Longrightarrow>
    runs C view inv 0 m0 (iter_key f (trie_methods E get put) r (nodeof E t) key) (\<lambda>x m. x = piter r t key)"
proof (induction f arbitrary: t m0 key)
  case 0
  then show ?case by simp
next
  case (Suc f)
  show ?case
  proof (cases t)
    case PBlank
    then show ?thesis by (auto intro!: runs_value)
  next
    case (PLeaf p v)
    with Suc.prems show ?thesis by (auto intro!: runs_value)
  next
    case (PExt p u)
    then have u: "kept E m0 u" "pcanon u" "small u" "nibs_ok p" "depth u < f" using Suc.prems by auto
    let ?head = "take (length p) key"
    let ?inner = "\<lambda>sub_node. if starts_with key p then iter_key f (trie_methods E get put) r sub_node (drop (length p) key)
        else if p > ?head \<and> \<not> r then getany f (trie_methods E get put) False sub_node
        else if p < ?head \<and> r then getany f (trie_methods E get put) True sub_node
        else ret None"
    let ?x = "if starts_with key p then piter r u (drop (length p) key)
        else if (if r then p < ?head else ?head < p) then pany r u else None"
    have "iter_key (Suc f) (trie_methods E get put) r (nodeof E t) key =
        bindM (child_node (trie_methods E get put) (nodeof E t) 1) (\<lambda>sub_node. bindM (?inner sub_node) (\<lambda>o'. ret (descend p o')))"
      by (rule ext) (use PExt u(4) in \<open>simp add: Let_def\<close>)
    moreover have "runs C view inv 0 m0 \<dots> (\<lambda>x m. x = piter r t key)"
    proof (rule runs_below [OF E u(2,3,1)])
      show "node_nth (nodeof E t) 1 = Inr (tref E u)" using PExt by simp
      fix m assume m: "stored E m u"
      have "nibs_ok (drop (length p) key)" if "starts_with key p" using that Suc.prems(5) by (auto simp: starts_with_iff)
      then have in_path: "runs C view inv 0 m (iter_key f (trie_methods E get put) r (nodeof E u) (drop (length p) key))
          (\<lambda>x m. x = piter r u (drop (length p) key))" if "starts_with key p"
        using that by (intro Suc.IH [OF u(2,3) m u(5)]) simp
      have off_path: "runs C view inv 0 m (getany f (trie_methods E get put) b (nodeof E u)) (\<lambda>x m. x = pany b u)" for b
        by (rule runs_getany [OF E u(2,3) m u(5)])
      have none: "runs C view inv 0 m (ret None) (\<lambda>x m. x = (None :: nat list option))" by (auto intro!: runs_value)
      have "runs C view inv 0 m (?inner (nodeof E u)) (\<lambda>x m. x = ?x)"
        using in_path off_path none by (cases r; cases "starts_with key p"; simp split: if_split)
      then show "runs C view inv 0 m (bindM (?inner (nodeof E u)) (\<lambda>o'. ret (descend p o'))) (\<lambda>x m. x = piter r t key)"
        by (rule runs_seq) (auto simp: PExt Let_def intro!: runs_value)
    qed
    ultimately show ?thesis by simp
  next
    case (PBranch ts v)
    then have n: "length ts = 16" and t: "pcanon (PBranch ts v)" "small (PBranch ts v)" "stored E m0 (PBranch ts v)" using Suc.prems by auto
    let ?way = "case key of [] \<Rightarrow> ret None
      | i # k \<Rightarrow> bindM (child_node (trie_methods E get put) (nodeof E t) i) (\<lambda>sub_node.
          bindM (iter_key f (trie_methods E get put) r sub_node k) (\<lambda>o'. ret (map_option ((#) i) o')))"
    let ?x = "case key of [] \<Rightarrow> None | i # k \<Rightarrow> if i < length ts then map_option ((#) i) (piter r (ts ! i) k) else None"
    let ?scan = "first_found (\<lambda>i. bindM (child_node (trie_methods E get put) (nodeof E t) i) (getany f (trie_methods E get put) r)) (scan_range r key)"
    let ?y = "first_some (\<lambda>i. pany r (ts ! i)) (scan_range r key)"
    let ?val = "if r \<and> key \<noteq> [] \<and> v \<noteq> [] then Some [16] else None"
    have way: "runs C view inv 0 m0 ?way (\<lambda>x m. x = ?x)"
    proof (cases key)
      case (Cons i k)
      with Suc.prems(5) have i: "i < 16" "nibs_ok k" by auto
      note c = branch_child [OF t map_le_refl i(1)]
      have "depth (ts ! i) < f" using c(5) Suc.prems(4) unfolding PBranch by linarith
      note IH = Suc.IH [OF c(1,2) _ this i(2)]
      have "runs C view inv 0 m0 (bindM (child_node (trie_methods E get put) (nodeof E t) i) (\<lambda>sub_node.
          bindM (iter_key f (trie_methods E get put) r sub_node k) (\<lambda>o'. ret (map_option ((#) i) o'))))
          (\<lambda>x m. x = map_option ((#) i) (piter r (ts ! i) k))"
        unfolding PBranch
        by (rule runs_below [OF E c(1-4)]) (rule runs_seq [OF IH], auto intro!: runs_value)
      with Cons i n show ?thesis by simp
    qed (auto intro!: runs_value)
    have deep: "depth c < f" if "c \<in> set ts" for c using Suc.prems(4) that unfolding PBranch by simp
    have scan: "runs C view inv 0 m1 ?scan (\<lambda>x m. x = ?y)" if "m0 \<subseteq>\<^sub>m m1" for m1
    proof (rule runs_first_found)
      fix i m2 assume i: "i \<in> set (scan_range r key)" and m2: "m1 \<subseteq>\<^sub>m m2"
      then have i: "i < 16" using Suc.prems(5) by (auto simp: scan_range_def split: list.splits if_splits)
      note c = branch_child [OF t map_le_trans [OF that m2] i]
      show "runs C view inv 0 m2 (bindM (child_node (trie_methods E get put) (nodeof E t) i) (getany f (trie_methods E get put) r))
          (\<lambda>x m. x = pany r (ts ! i))"
        unfolding PBranch
        by (rule runs_below [OF E c(1-4)]) (use runs_getany [OF E c(1,2)] deep [OF c(6)] in simp)
    qed
    have ty: "get_node_type (nodeof E t) = Inr NODE_TYPE_BRANCH" using PBranch n by simp
    have "node_nth (nodeof E t) 16 = Inr (Str v)" using node_nth_branch(2) [OF n] PBranch by simp
    then have val: "(if r \<and> key \<noteq> [] then bindM (liftE (node_nth (nodeof E t) 16)) (\<lambda>v. ret (if truthy v then Some [16::nat] else None))
        else ret None) = ret ?val" by (simp add: truthy_def ret_eq)
    have "iter_key (Suc f) (trie_methods E get put) r (nodeof E t) key =
        bindM ?way (\<lambda>o'. case o' of Some k \<Rightarrow> ret (Some k)
        | None \<Rightarrow> bindM ?scan (\<lambda>o'. case o' of Some k \<Rightarrow> ret (Some k) | None \<Rightarrow> ret ?val))"
      by (simp only: iter_key.simps ty bindM_liftE_Inr node_type.case val)
    moreover have "runs C view inv 0 m0 \<dots> (\<lambda>x m. x = piter r t key)"
    proof (rule runs_seq [OF way])
      fix x m1 assume m1: "m0 \<subseteq>\<^sub>m m1" and x: "x = ?x"
      have "runs C view inv 0 m1 (bindM ?scan (\<lambda>o'. case o' of Some k \<Rightarrow> ret (Some k) | None \<Rightarrow> ret ?val))
          (\<lambda>x m. x = either ?y ?val)"
        by (rule runs_seq [OF scan [OF m1]]) (auto simp: either_def split: option.splits intro!: runs_value)
      then show "runs C view inv 0 m1 (case x of Some k \<Rightarrow> ret (Some k)
          | None \<Rightarrow> bindM ?scan (\<lambda>o'. case o' of Some k \<Rightarrow> ret (Some k) | None \<Rightarrow> ret ?val)) (\<lambda>x m. x = piter r t key)"
        unfolding PBranch piter.simps x [symmetric] by (cases x) (auto simp: either_def intro!: runs_value)
    qed simp
    ultimately show ?thesis by simp
  qed
qed

end

section \<open>The order of the keys\<close>

lemma ord_less: "ord c < ord d \<longleftrightarrow> c < d"
  by (simp add: less_char_def)

lemma nibs_Cons: "nibs (c # s) = ord c div 16 # ord c mod 16 # nibs s"
  by (simp add: nibs_def)

lemma split_16:
  fixes a b :: nat
  shows "a < b \<longleftrightarrow> a div 16 < b div 16 \<or> a div 16 = b div 16 \<and> a mod 16 < b mod 16"
    "a = b \<longleftrightarrow> a div 16 = b div 16 \<and> a mod 16 = b mod 16"
proof -
  have "a mod 16 < 16" "b mod 16 < 16" "a = 16 * (a div 16) + a mod 16" "b = 16 * (b div 16) + b mod 16" by simp_all
  then show "a < b \<longleftrightarrow> a div 16 < b div 16 \<or> a div 16 = b div 16 \<and> a mod 16 < b mod 16" by linarith
  show "a = b \<longleftrightarrow> a div 16 = b div 16 \<and> a mod 16 = b mod 16" by (metis mult_div_mod_eq)
qed

text \<open>Keys compare as bytes as their nibbles do.\<close>

lemma nibs_less: "nibs s < nibs t \<longleftrightarrow> s < t"
proof (induction s arbitrary: t)
  case Nil
  then show ?case by (cases t) (simp_all add: nibs_def)
next
  case (Cons c s)
  show ?case
  proof (cases t)
    case (Cons d t')
    show ?thesis unfolding Cons nibs_Cons using Cons.IH [of t'] ord_less [of c d] ord_eq_iff [of c d] split_16 [of "ord c" "ord d"] by auto
  qed (simp add: nibs_def)
qed

lemma nibs_before: "before r (nibs s) (nibs t) \<longleftrightarrow> (if r then t < s else s < t)"
  by (simp add: before_def nibs_less)

text \<open>The nearest key of a map, and the one case in which \<open>prev\<close> does not see it.\<close>

definition near_in :: "bool \<Rightarrow> contents \<Rightarrow> string \<Rightarrow> string option \<Rightarrow> bool" where
  "near_in r m key o' \<longleftrightarrow>
     (case o' of
        Some k \<Rightarrow> m k \<noteq> [] \<and> (if r then k < key else key < k) \<and>
          (\<forall>k'. m k' \<noteq> [] \<longrightarrow> (if r then k' < key else key < k') \<longrightarrow> (if r then k' \<le> k else k \<le> k'))
      | None \<Rightarrow> \<forall>k. m k \<noteq> [] \<longrightarrow> \<not> (if r then k < key else key < k))"

lemma nibbles_to_bin_nibs: "nibbles_to_bin (nibs s) = Inr s"
  using nibs_ok_nibs [of s] by (auto simp: nibbles_to_bin_def nibs_ok_def pack_pairs_nibs)

lemma pkeys_nibs:
  assumes "tree_for t m"
  shows "{k \<in> pkeys t. nibs_ok k} = nibs ` {key. m key \<noteq> []}"
  using assms by (auto simp: tree_for_def pkeys_def)

lemma pkeys_ok: "pcanon t \<Longrightarrow> k \<in> pkeys t \<Longrightarrow> nibs_ok k"
proof (induction t arbitrary: k)
  case (PBranch ts v)
  then have n: "length ts = 16" by simp
  have "nibs_ok k'" if "i < 16" "k' \<in> pkeys (ts ! i)" for i k'
    using PBranch.IH [of "ts ! i" k'] PBranch.prems(1) n that by simp
  with PBranch.prems(2) show ?case unfolding pkeys_simps(4) [OF n] by (auto split: if_splits)
qed auto

text \<open>What the search finds in a tree that stands for a map.\<close>

lemma piter_near:
  assumes "tree_for t m" "piter r t (nibs key) = Some x"
  obtains k where "without_terminator x = nibs k" "near_in r m key (Some k)"
proof -
  have can: "pcanon t" using assms(1) by (simp add: tree_for_def)
  have keys: "pkeys t = nibs ` {key. m key \<noteq> []}"
    using pkeys_nibs [OF assms(1)] pkeys_ok [OF can] by auto
  have near: "nearest r {k \<in> pkeys t. before r (nibs key) k} (Some x)"
    using piter_nearest [OF can, of "nibs key" r] assms(2) by simp
  then obtain k where k: "without_terminator x = nibs k" "m k \<noteq> []" "before r (nibs key) (nibs k)"
    unfolding nearest_Some keys by auto
  moreover have "if r then k' \<le> k else k \<le> k'" if k': "m k' \<noteq> []" "if r then k' < key else key < k'" for k'
  proof (cases "k' = k")
    case False
    with near k' k(1) have "before r (nibs k) (nibs k')"
      unfolding nearest_Some keys by (auto simp: nibs_before nibs_inject)
    then show ?thesis by (auto simp: nibs_before)
  qed simp
  ultimately have "near_in r m key (Some k)"
    by (cases r) (auto simp: near_in_def nibs_before)
  with k(1) show thesis by (rule that)
qed

lemma piter_none:
  assumes "tree_for t m" "piter r t (nibs key) = None"
  shows "near_in r m key None"
proof -
  have can: "pcanon t" using assms(1) by (simp add: tree_for_def)
  have "pkeys t = nibs ` {key. m key \<noteq> []}"
    using pkeys_nibs [OF assms(1)] pkeys_ok [OF can] by auto
  then show ?thesis
    using piter_nearest [OF can, of "nibs key" r] assms(2) by (auto simp: near_in_def nibs_before)
qed

lemma nibs_single: "nibs ` S = {[]} \<longleftrightarrow> S = {[]}"
proof -
  have "nibs s = [] \<longleftrightarrow> s = []" for s by (cases s) (simp_all add: nibs_def)
  note Nil = this
  have "S = {[]}" if "nibs ` S = {[]}"
  proof -
    have "s = []" if "s \<in> S" for s using \<open>nibs ` S = {[]}\<close> Nil that by (metis imageI singletonD)
    moreover have "S \<noteq> {}" using that by auto
    ultimately show ?thesis by auto
  qed
  then show ?thesis using Nil by auto
qed

text \<open>The empty list of nibbles, which the methods take for no result, comes from a trie with the empty key alone.\<close>

lemma piter_empty:
  assumes "tree_for t m"
  shows "piter r t key = Some [] \<Longrightarrow> {k. m k \<noteq> []} = {[]}"
    and "{k. m k \<noteq> []} = {[]} \<Longrightarrow> piter r t key = None \<or> piter r t key = Some []"
proof -
  have can: "pcanon t" using assms by (simp add: tree_for_def)
  have keys: "pkeys t = nibs ` {key. m key \<noteq> []}"
    using pkeys_nibs [OF assms] pkeys_ok [OF can] by auto
  show "{k. m k \<noteq> []} = {[]}" if none: "piter r t key = Some []"
  proof (cases t)
    case (PLeaf p v)
    with none can have "pkeys t = {[]}" by (auto split: if_splits)
    then have "nibs ` {key. m key \<noteq> []} = {[]}" unfolding keys .
    then show ?thesis unfolding nibs_single .
  next
    case (PExt p u)
    with none can show ?thesis by (auto simp: descend_def split: option.splits if_splits)
  next
    case (PBranch ts v)
    with none pany_branch(2) [of t r key] show ?thesis by simp
  qed (use none in simp)
  show "piter r t key = None \<or> piter r t key = Some []" if single: "{k. m k \<noteq> []} = {[]}"
  proof -
    have only: "pkeys t = {[]}" unfolding keys single by (simp add: nibs_def)
    show ?thesis
  proof (cases t)
    case (PLeaf p v)
    with only can show ?thesis by auto
  next
    case (PExt p u)
    with only can show ?thesis by auto
  next
    case (PBranch ts v)
    with can have n: "length ts = 16" and e: "2 \<le> entries ts v" by auto
    then have "nonblank ts \<noteq> []" by (auto simp: entries_def split: if_splits)
    then obtain i where i: "i < 16" "ts ! i \<noteq> PBlank" using set_nonblank [of ts] by (cases "nonblank ts") auto
    then have "pcanon (ts ! i)" using can PBranch n by simp
    then obtain k where "k \<in> pkeys (ts ! i)" using pcanon_nonempty i(2) by (auto simp: pkeys_def)
    with i(1) have "i # k \<in> pkeys t" unfolding PBranch pkeys_simps(4) [OF n] by auto
    with only show ?thesis by auto
  qed simp
  qed
qed

context content_store begin

lemma near_key_run:
  assumes E: "ext_ok E" "rlp_ok E" and tr: "represents E view tr m" and inv: "inv n (tdb tr)"
    and len: "\<And>key. m key \<noteq> [] \<Longrightarrow> length key \<le> L" "2 * L < limit"
  shows "\<exists>o' s'. near_key limit (trie_methods E get put) r key tr = (Inr o', tr\<lparr>tdb := s'\<rparr>) \<and> inv n s' \<and>
    (if {k. m k \<noteq> []} = {[]} then o' = None else near_in r m key o')"
proof -
  obtain t where t: "tree_for t m" "in_store E (view (tdb tr)) t" "root_node tr = nodeof E t"
    using tr by (auto simp: represents_def)
  have depth: "depth t < limit" by (rule tree_depth [OF t(1) len])
  have small: "pcanon t" "small t" "stored E (view (tdb tr)) t"
    using tree_for_small [OF t(1)] t(2) by (auto simp: in_store_def)
  have "runs (\<lambda>_. False) view inv 0 (view (tdb tr)) (iter_key limit (trie_methods E get put) r (nodeof E t) (nibs key))
      (\<lambda>x m. x = piter r t (nibs key))"
    using small depth by (intro runs_iter_key [OF E]) auto
  then have "\<exists>s'. inv n s' \<and> in_tdb (iter_key limit (trie_methods E get put) r (nodeof E t) (nibs key)) tr =
      (Inr (piter r t (nibs key)), tr\<lparr>tdb := s'\<rparr>)"
    by (rule in_tdb_runs [of "\<lambda>_. False" 0 _ _ _ n tr]) (use inv in \<open>auto split: sum.splits\<close>)
  then obtain s' where s': "inv n s'"
      "in_tdb (iter_key limit (trie_methods E get put) r (nodeof E t) (nibs key)) tr = (Inr (piter r t (nibs key)), tr\<lparr>tdb := s'\<rparr>)"
    by blast
  note empty = piter_empty [OF t(1), of r "nibs key"]
  show ?thesis
  proof (cases "piter r t (nibs key)")
    case None
    with s' t(3) piter_none [OF t(1) None] show ?thesis by (auto simp: near_key_def bindM_def)
  next
    case (Some x)
    show ?thesis
    proof (cases "x = []")
      case True
      with Some s' t(3) empty(1) show ?thesis by (auto simp: near_key_def bindM_def)
    next
      case False
      obtain k where k: "without_terminator x = nibs k" "near_in r m key (Some k)"
        using piter_near [OF t(1) Some] by blast
      have "{k. m k \<noteq> []} \<noteq> {[]}" using empty(2) Some False by auto
      moreover have "near_key limit (trie_methods E get put) r key tr = (Inr (Some k), tr\<lparr>tdb := s'\<rparr>)"
        using Some False s'(2) t(3) k(1) by (simp add: near_key_def bindM_def nibbles_to_bin_nibs)
      ultimately show ?thesis using s'(1) k(2) by auto
    qed
  qed
qed

end

text \<open>C38. \<open>next\<close> returns the smallest key of the trie above the given one, \<open>prev\<close> the largest below it, and None
  when there is none, in the order of Python's strings. The one exception is a trie with the empty key
  alone, for which \<open>prev\<close> returns None for every key. The trie is not changed.\<close>

theorem ordered_search_correct:
  assumes "ext_ok E" "rlp_ok E" "represents E chain_view tr m" "refcount_inv level_view n (tdb tr)"
    and "\<And>key. m key \<noteq> [] \<Longrightarrow> length key \<le> L" "2 * L < limit"
  shows "\<exists>next prev s1 s2.
    next_key limit (chain_trie E) key tr = (Inr next, tr\<lparr>tdb := s1\<rparr>) \<and>
    (case next of
       Some k \<Rightarrow> m k \<noteq> [] \<and> key < k \<and> (\<forall>k'. m k' \<noteq> [] \<and> key < k' \<longrightarrow> k \<le> k')
     | None \<Rightarrow> \<forall>k. m k \<noteq> [] \<longrightarrow> \<not> key < k) \<and>
    prev_key limit (chain_trie E) key tr = (Inr prev, tr\<lparr>tdb := s2\<rparr>) \<and>
    (if {k. m k \<noteq> []} = {[]} then prev = None
     else case prev of
       Some k \<Rightarrow> m k \<noteq> [] \<and> k < key \<and> (\<forall>k'. m k' \<noteq> [] \<and> k' < key \<longrightarrow> k' \<le> k)
     | None \<Rightarrow> \<forall>k. m k \<noteq> [] \<longrightarrow> \<not> k < key)"
proof -
  note run = lvl.rc.near_key_run [OF assms(1-3), of E n L limit _ key]
  obtain o1 s1 where o1: "next_key limit (chain_trie E) key tr = (Inr o1, tr\<lparr>tdb := s1\<rparr>)"
      "if {k. m k \<noteq> []} = {[]} then o1 = None else near_in False m key o1"
    using run [of False] assms by (auto simp: next_key_def)
  obtain o2 s2 where o2: "prev_key limit (chain_trie E) key tr = (Inr o2, tr\<lparr>tdb := s2\<rparr>)"
      "if {k. m k \<noteq> []} = {[]} then o2 = None else near_in True m key o2"
    using run [of True] assms by (auto simp: prev_key_def)
  have "near_in False m key o1"
  proof (cases "{k. m k \<noteq> []} = {[]}")
    case True
    then have "m k \<noteq> [] \<longleftrightarrow> k = []" for k by (metis (mono_tags) mem_Collect_eq singleton_iff)
    then have "near_in False m key None" by (simp add: near_in_def)
    then show ?thesis using o1(2) by (simp only: True if_True)
  qed (use o1(2) in simp)
  then have "case o1 of Some k \<Rightarrow> m k \<noteq> [] \<and> key < k \<and> (\<forall>k'. m k' \<noteq> [] \<and> key < k' \<longrightarrow> k \<le> k')
      | None \<Rightarrow> \<forall>k. m k \<noteq> [] \<longrightarrow> \<not> key < k" by (cases o1) (simp_all add: near_in_def)
  moreover have "near_in True m key o2 \<Longrightarrow> case o2 of Some k \<Rightarrow> m k \<noteq> [] \<and> k < key \<and> (\<forall>k'. m k' \<noteq> [] \<and> k' < key \<longrightarrow> k' \<le> k)
      | None \<Rightarrow> \<forall>k. m k \<noteq> [] \<longrightarrow> \<not> k < key" by (cases o2) (simp_all add: near_in_def)
  moreover have "if {k. m k \<noteq> []} = {[]} then o2 = None else near_in True m key o2" by (rule o2(2))
  ultimately show ?thesis using o1(1) o2(1) by (intro exI conjI) (assumption, assumption, assumption, presburger)
qed

theorem ordered_search_correct_witness:
  "\<exists>s1. next_key 7 (chain_trie ext_ref) ''key'' (blank_trie ext_ref level_empty) =
     (Inr None, (blank_trie ext_ref level_empty)\<lparr>tdb := s1\<rparr>)"
  using ordered_search_correct [OF ext_ref_ok ext_ref_rlp_ok represents_blank, of 0 level_empty 3 7 "''key''"]
    level_empty_inv [of 0] by (auto split: option.splits)

end
