(* ===== verification/TrieSplit.thy ===== *)
theory TrieSplit
  imports TrieOrder
begin

text \<open>
  \<open>_split\<close> and \<open>split\<close> of \<open>trie.py\<close>, which part a trie at a key, \<open>clear\<close>, and \<open>_merge\<close> with \<open>unsafe_merge\<close>. The two tries that \<open>split\<close>
  returns share the database of the old one; here each has the database as it is after the call.
  The theorem says which keys each part holds.
\<close>

section \<open>The methods\<close>

text \<open>\<open>self._normalize_branch_node(b) if len([x for x in b if x]) else BLANK_NODE\<close>.\<close>

definition normalize_if_any :: "'s trie_env \<Rightarrow> item list \<Rightarrow> ('s, item) M" where
  "normalize_if_any T b =
     (if filter truthy b \<noteq> [] then normalize_branch_node T (Lst b) else ret BLANK_NODE)"

text \<open>\<open>self._encode_node(sub) if sub else ''\<close>.\<close>

definition encode_if_any :: "'s trie_env \<Rightarrow> item \<Rightarrow> ('s, item) M" where
  "encode_if_any T sub = (if truthy sub then encode_node T sub else ret BLANK_NODE)"

text \<open>A part of the node below an extension with the path of the extension in front.\<close>

definition rejoin :: "'s trie_env \<Rightarrow> nat list \<Rightarrow> node_type \<Rightarrow> item \<Rightarrow> ('s, item) M" where
  "rejoin T head subtype sub =
     (if \<not> truthy sub then ret BLANK_NODE
      else if is_key_value_type subtype
      then bindM (liftE (node_nibbles sub)) (\<lambda>ns.
           bindM (liftE (pack_nibbles (head @ ns))) (\<lambda>p.
           bindM (liftE (node_nth sub 1)) (\<lambda>v.
           ret (Lst [Str p, v]))))
      else bindM (liftE (pack_nibbles head)) (\<lambda>p.
           bindM (encode_node T sub) (\<lambda>e.
           ret (Lst [Str p, e]))))"

fun split_node :: "nat \<Rightarrow> 's trie_env \<Rightarrow> item \<Rightarrow> nat list \<Rightarrow> ('s, item \<times> item) M" where
  "split_node 0 T node key = raise RuntimeError"
| "split_node (Suc f) T node key =
     bindM (liftE (get_node_type node)) (\<lambda>node_type.
     if node_type = NODE_TYPE_BLANK then ret (BLANK_NODE, BLANK_NODE)
     else case key of
       [] \<Rightarrow> ret (BLANK_NODE, node)
     | i # k \<Rightarrow>
         if node_type = NODE_TYPE_BRANCH then
           let xs = (case node of Lst xs \<Rightarrow> xs | Str _ \<Rightarrow> []);
               b1 = take i xs @ replicate (17 - i) BLANK_NODE;
               b2 = replicate (Suc i) BLANK_NODE @ drop (Suc i) xs;
               b1' = b1[16 := b2 ! 16]; b2' = b2[16 := b1 ! 16]
           in bindM (child_node T node i) (\<lambda>sub.
              bindM (split_node f T sub k) (\<lambda>(lo, hi).
              bindM (encode_if_any T lo) (\<lambda>e1.
              bindM (encode_if_any T hi) (\<lambda>e2.
              bindM (normalize_if_any T (b1'[i := e1])) (\<lambda>r1.
              bindM (normalize_if_any T (b2'[i := e2])) (\<lambda>r2.
              ret (r1, r2)))))))
         else
           bindM (liftE (node_key node)) (\<lambda>descend_key.
           if node_type = NODE_TYPE_LEAF
           then ret (if descend_key < key then (node, BLANK_NODE) else (BLANK_NODE, node))
           else
             bindM (child_node T node 1) (\<lambda>sub_node.
             let head = take (length descend_key) key in
             if starts_with key descend_key then
               bindM (split_node f T sub_node (drop (length descend_key) key)) (\<lambda>(lo, hi).
               bindM (liftE (get_node_type lo)) (\<lambda>subtype1.
               bindM (liftE (get_node_type hi)) (\<lambda>subtype2.
               bindM (rejoin T head subtype1 lo) (\<lambda>o1.
               bindM (rejoin T head subtype2 hi) (\<lambda>o2.
               ret (o1, o2))))))
             else if descend_key < head then ret (node, BLANK_NODE)
             else if descend_key > head then ret (BLANK_NODE, node)
             else ret (BLANK_NODE, BLANK_NODE))))"

definition split_trie :: "nat \<Rightarrow> 's trie_env \<Rightarrow> string \<Rightarrow> ('s trie, 's trie \<times> 's trie) M" where
  "split_trie limit T key =
     bindM (liftE (bin_to_nibbles key)) (\<lambda>ns.
     bindM (gets root_node) (\<lambda>node.
     bindM (in_tdb (split_node limit T node ns)) (\<lambda>(r1, r2).
     bindM (gets tdb) (\<lambda>d.
     ret (\<lparr>tdb = d, root_node = r1, root_hash = BLANK_ROOT (t_ext T)\<rparr>,
          \<lparr>tdb = d, root_node = r2, root_hash = BLANK_ROOT (t_ext T)\<rparr>)))))"

text \<open>\<open>_delete_child_storage\<close> reads every node below.\<close>

fun delete_child_storage :: "nat \<Rightarrow> 's trie_env \<Rightarrow> item \<Rightarrow> ('s, unit) M" where
  "delete_child_storage 0 T node = raise RuntimeError"
| "delete_child_storage (Suc f) T node =
     bindM (liftE (get_node_type node)) (\<lambda>node_type.
     if node_type = NODE_TYPE_BRANCH
     then bindM (mapM (\<lambda>i. bindM (child_node T node i) (delete_child_storage f T)) [0..<16]) (\<lambda>_. ret ())
     else if node_type = NODE_TYPE_EXTENSION
     then bindM (child_node T node 1) (delete_child_storage f T)
     else ret ())"

definition trie_clear :: "nat \<Rightarrow> 's trie_env \<Rightarrow> ('s trie, unit) M" where
  "trie_clear limit T =
     bindM (gets root_node) (\<lambda>node.
     bindM (in_tdb (delete_child_storage limit T node)) (\<lambda>_.
     modifyM (\<lambda>t. t\<lparr>root_node := BLANK_NODE, root_hash := BLANK_ROOT (t_ext T)\<rparr>)))"

text \<open>
  \<open>_merge\<close> and \<open>unsafe_merge\<close>. When both tries have a key, \<open>_merge\<close> takes the two values for nodes; so here a
  string can be a node as well: it has a length and items, and a type if its length is that of a node.
\<close>

definition any_item :: "item \<Rightarrow> nat \<Rightarrow> item res" where
  "any_item node i =
     (case node of
        Lst xs \<Rightarrow> py_nth xs i
      | Str s \<Rightarrow> if i < length s then Inr (Str [s ! i]) else Inl IndexError)"

definition any_nibbles :: "item \<Rightarrow> nat list res" where
  "any_nibbles node =
     bindE (any_item node 0) (\<lambda>p. case p of Str s \<Rightarrow> unpack_to_nibbles s | Lst _ \<Rightarrow> Inl TypeError)"

definition any_type :: "item \<Rightarrow> node_type option res" where
  "any_type node =
     (let len = (case node of Lst xs \<Rightarrow> length xs | Str s \<Rightarrow> length s)
      in if node = BLANK_NODE then Inr (Some NODE_TYPE_BLANK)
         else if len = 2
         then bindE (any_nibbles node) (\<lambda>nibbles.
              Inr (Some (if nibbles \<noteq> [] \<and> last nibbles = NIBBLE_TERMINATOR then NODE_TYPE_LEAF else NODE_TYPE_EXTENSION)))
         else Inr (if len = 17 then Some NODE_TYPE_BRANCH else None))"

text \<open>What is left of a node after its first \<open>n\<close> nibbles.\<close>

definition rest_of_node :: "'s trie_env \<Rightarrow> node_type option \<Rightarrow> item \<Rightarrow> nat list \<Rightarrow> nat \<Rightarrow> ('s, item) M" where
  "rest_of_node T ty node descend_key n =
     bindM (liftE (any_item node 1)) (\<lambda>x.
     bindM (if ty = Some NODE_TYPE_EXTENSION then decode_to_node T x else ret x) (\<lambda>sub.
     if drop n descend_key = [] then ret sub
     else bindM (liftE (pack_nibbles (drop n descend_key))) (\<lambda>p. ret (Lst [Str p, sub]))))"

text \<open>A node that is no branch as a branch with one item.\<close>

definition as_branch :: "'s trie_env \<Rightarrow> node_type option \<Rightarrow> item \<Rightarrow> ('s, item) M" where
  "as_branch T ty node =
     (if ty = Some NODE_TYPE_BRANCH then ret node
      else
        bindM (liftE (any_nibbles node)) (\<lambda>curr_key.
        case curr_key of
          [] \<Rightarrow> raise IndexError
        | i # rest \<Rightarrow>
            bindM (liftE (any_item node 1)) (\<lambda>x.
            bindM (if i < 16 \<and> rest \<noteq> []
                   then bindM (liftE (pack_nibbles rest)) (\<lambda>p. encode_node T (Lst [Str p, x]))
                   else ret x) (\<lambda>e.
            ret (node_set blank_branch i e)))))"

definition merge_items :: "'s trie_env \<Rightarrow> (item \<Rightarrow> item \<Rightarrow> ('s, item) M) \<Rightarrow> item \<Rightarrow> item \<Rightarrow> ('s, item) M" where
  "merge_items T merge x y =
     (if truthy x \<and> truthy y
      then bindM (decode_to_node T x) (\<lambda>n1.
           bindM (decode_to_node T y) (\<lambda>n2.
           bindM (merge n1 n2) (encode_node T)))
      else ret (if truthy x then x else y))"

fun merge_node :: "nat \<Rightarrow> 's trie_env \<Rightarrow> item \<Rightarrow> item \<Rightarrow> ('s, item) M" where
  "merge_node 0 T node1 node2 = raise RuntimeError"
| "merge_node (Suc f) T node1 node2 =
     bindM (liftE (any_type node1)) (\<lambda>type1.
     bindM (liftE (any_type node2)) (\<lambda>type2.
     if \<not> truthy node1 then ret node2
     else if \<not> truthy node2 then ret node1
     else
       bindM (if type1 \<noteq> Some NODE_TYPE_BRANCH \<and> type2 \<noteq> Some NODE_TYPE_BRANCH
              then bindM (liftE (any_nibbles node1)) (\<lambda>key1.
                   bindM (liftE (any_nibbles node2)) (\<lambda>key2.
                   ret (common_prefix_length key1 key2, key1, key2)))
              else ret (0, [], [])) (\<lambda>(prefix_length, key1, key2).
       if prefix_length \<noteq> 0
       then
         bindM (rest_of_node T type1 node1 key1 prefix_length) (\<lambda>new1.
         bindM (rest_of_node T type2 node2 key2 prefix_length) (\<lambda>new2.
         bindM (liftE (pack_nibbles (take prefix_length key1))) (\<lambda>p.
         bindM (merge_node f T new1 new2) (\<lambda>sub.
         bindM (encode_node T sub) (\<lambda>e. ret (Lst [Str p, e]))))))
       else
         bindM (as_branch T type1 node1) (\<lambda>branch1.
         bindM (as_branch T type2 node2) (\<lambda>branch2.
         bindM (liftE (mapE (\<lambda>i. bindE (any_item branch1 i) (\<lambda>x. bindE (any_item branch2 i) (\<lambda>y. Inr (x, y)))) [0..<17])) (\<lambda>pairs.
         bindM (assertM (length (filter (\<lambda>(x, y). truthy x \<and> truthy y) pairs) \<le> 1)) (\<lambda>_.
         bindM (mapM (\<lambda>(x, y). merge_items T (merge_node f T) x y) pairs) (\<lambda>items. ret (Lst items)))))))))"

definition unsafe_merge :: "nat \<Rightarrow> 's trie_env \<Rightarrow> item \<Rightarrow> ('s trie, 's trie) M" where
  "unsafe_merge limit T other =
     bindM (gets root_node) (\<lambda>node.
     bindM (in_tdb (merge_node limit T node other)) (\<lambda>node'.
     bindM (gets tdb) (\<lambda>d. ret \<lparr>tdb = d, root_node = node', root_hash = BLANK_ROOT (t_ext T)\<rparr>)))"

text \<open>Two leaves with a common prefix become an extension over a branch.\<close>

lemma merged_leaves:
  "fst (merge_node 3 (chain_trie ext_ref) (nodeof ext_ref (PLeaf [6, 1] ''v'')) (nodeof ext_ref (PLeaf [6, 2] ''w'')) level_empty) =
    Inr (nodeof ext_ref (PExt [6] (PBranch (blanks[1 := PLeaf [] ''v'', 2 := PLeaf [] ''w'']) [])))"
  by code_simp

section \<open>The two parts of a tree\<close>

definition pnorm_if_any :: "ptree list \<Rightarrow> string \<Rightarrow> ptree" where
  "pnorm_if_any ts v = (if entries ts v = 0 then PBlank else pnorm ts v)"

definition lower :: "ptree list \<Rightarrow> nat \<Rightarrow> ptree \<Rightarrow> ptree list" where
  "lower ts i t = (take i ts @ replicate (16 - i) PBlank)[i := t]"

definition upper :: "ptree list \<Rightarrow> nat \<Rightarrow> ptree \<Rightarrow> ptree list" where
  "upper ts i t = (replicate (Suc i) PBlank @ drop (Suc i) ts)[i := t]"

fun psplit :: "ptree \<Rightarrow> nat list \<Rightarrow> ptree \<times> ptree" where
  "psplit PBlank key = (PBlank, PBlank)"
| "psplit t [] = (PBlank, t)"
| "psplit (PLeaf p v) key = (if p < key then (PLeaf p v, PBlank) else (PBlank, PLeaf p v))"
| "psplit (PExt p t) key =
     (if starts_with key p
      then let (t1, t2) = psplit t (drop (length p) key) in (pprefix p t1, pprefix p t2)
      else if p < take (length p) key then (PExt p t, PBlank) else (PBlank, PExt p t))"
| "psplit (PBranch ts v) (i # k) =
     (let (t1, t2) = (if i < length ts then psplit (ts ! i) k else (PBlank, PBlank))
      in (pnorm_if_any (lower ts i t1) v, pnorm_if_any (upper ts i t2) []))"

lemma entries_0: "entries ts v = 0 \<longleftrightarrow> (\<forall>i < 16. ts ! i = PBlank) \<and> v = []"
proof -
  have "nonblank ts = [] \<longleftrightarrow> (\<forall>i < 16. ts ! i = PBlank)" by (metis (mono_tags, lifting) empty_Collect_eq empty_set set_empty set_nonblank)
  then show ?thesis by (simp add: entries_def)
qed

lemma plookup_pnorm_if_any: "length ts = 16 \<Longrightarrow> plookup (pnorm_if_any ts v) k = plookup (PBranch ts v) k"
proof (cases "entries ts v = 0")
  case True
  then have "plookup (PBranch ts v) k = []" if "length ts = 16"
    using that by (cases k) (auto simp: entries_0)
  with True show "length ts = 16 \<Longrightarrow> plookup (pnorm_if_any ts v) k = plookup (PBranch ts v) k"
    by (simp add: pnorm_if_any_def)
qed (simp add: pnorm_if_any_def plookup_pnorm)

lemma pcanon_pnorm_if_any: "length ts = 16 \<Longrightarrow> \<forall>t \<in> set ts. pcanon t \<Longrightarrow> pcanon (pnorm_if_any ts v)"
  by (simp add: pnorm_if_any_def pcanon_pnorm)

lemma branch_parts:
  assumes "length ts = 16" "i < 16"
  shows "length (lower ts i t) = 16" "length (upper ts i t) = 16"
    "j < 16 \<Longrightarrow> lower ts i t ! j = (if j < i then ts ! j else if j = i then t else PBlank)"
    "j < 16 \<Longrightarrow> upper ts i t ! j = (if j < i then PBlank else if j = i then t else ts ! j)"
  using assms by (simp_all add: lower_def upper_def nth_list_update nth_append del: replicate.simps replicate_Suc)

lemma psplit_Nil: "psplit t [] = (PBlank, t)"
  by (cases t) simp_all

lemma psplit_ext:
  "key \<noteq> [] \<Longrightarrow> psplit (PExt p t) key =
     (if starts_with key p
      then (pprefix p (fst (psplit t (drop (length p) key))), pprefix p (snd (psplit t (drop (length p) key))))
      else if p < take (length p) key then (PExt p t, PBlank) else (PBlank, PExt p t))"
  by (cases key) (simp_all add: case_prod_beta)

lemma all_nth: "length ts = 16 \<Longrightarrow> (\<And>j. j < 16 \<Longrightarrow> P (ts ! j)) \<Longrightarrow> \<forall>t \<in> set ts. P t"
  by (metis in_set_conv_nth)

lemma pcanon_psplit: "pcanon t \<Longrightarrow> nibs_ok key \<Longrightarrow> pcanon (fst (psplit t key)) \<and> pcanon (snd (psplit t key))"
proof (induction t arbitrary: key)
  case (PLeaf p v)
  then show ?case by (cases key) auto
next
  case (PExt p t)
  then have "pcanon (fst (psplit t r)) \<and> pcanon (snd (psplit t r))" if "key = p @ r" for r
    using that by (intro PExt.IH) auto
  then show ?case
    using PExt.prems by (cases key) (auto simp: case_prod_beta Let_def starts_with_iff intro!: pcanon_pprefix)
next
  case (PBranch ts v)
  show ?case
  proof (cases key)
    case (Cons i k)
    with PBranch.prems have n: "length ts = 16" "i < 16" "nibs_ok k" and can: "\<And>j. j < 16 \<Longrightarrow> pcanon (ts ! j)" by auto
    have "pcanon (fst (psplit (ts ! i) k)) \<and> pcanon (snd (psplit (ts ! i) k))"
      using n can by (intro PBranch.IH) auto
    then have "\<forall>t \<in> set (lower ts i (fst (psplit (ts ! i) k))). pcanon t"
      "\<forall>t \<in> set (upper ts i (snd (psplit (ts ! i) k))). pcanon t"
      using branch_parts [OF n(1,2)] can by (intro all_nth; simp)+
    with Cons n branch_parts(1,2) [OF n(1,2)] show ?thesis
      by (simp add: case_prod_beta pcanon_pnorm_if_any)
  qed (use PBranch.prems in simp)
qed simp

lemma plookup_psplit:
  "pcanon t \<Longrightarrow> nibs_ok key \<Longrightarrow>
     plookup (fst (psplit t key)) k = (if k < key then plookup t k else []) \<and>
     plookup (snd (psplit t key)) k = (if k < key then [] else plookup t k)"
proof (induction t arbitrary: key k)
  case (PLeaf p v)
  then show ?case by (cases key) auto
next
  case (PExt p t)
  show ?case
  proof (cases "starts_with key p")
    case True
    then obtain r where r: "key = p @ r" by (auto simp: starts_with_iff)
    have split: "psplit (PExt p t) key = (pprefix p (fst (psplit t r)), pprefix p (snd (psplit t r)))"
      using PExt.prems(1) r psplit_ext [of key p t] by simp
    show ?thesis
    proof (cases "starts_with k p")
      case True
      then obtain s where s: "k = p @ s" by (auto simp: starts_with_iff)
      have "plookup (fst (psplit t r)) s = (if s < r then plookup t s else []) \<and>
          plookup (snd (psplit t r)) s = (if s < r then [] else plookup t s)"
        using PExt.prems r by (intro PExt.IH) auto
      moreover have "k < key \<longleftrightarrow> s < r" using before_simps(2) [of True p r s] s r by (simp add: before_def)
      ultimately show ?thesis by (simp add: split plookup_pprefix s)
    next
      case False
      then show ?thesis by (simp add: split plookup_pprefix)
    qed
  next
    case False
    show ?thesis
    proof (cases "starts_with k p")
      case True
      then obtain s where s: "k = p @ s" by (auto simp: starts_with_iff)
      have "k < key \<longleftrightarrow> p < take (length p) key" using before_off_path [OF False, of True s] s by (simp add: before_def)
      with False show ?thesis by (cases key) auto
    next
      case k: False
      with False show ?thesis by (cases key) auto
    qed
  qed
next
  case (PBranch ts v)
  show ?case
  proof (cases key)
    case (Cons i k')
    with PBranch.prems have n: "length ts = 16" "i < 16" "nibs_ok k'" "pcanon (ts ! i)" by auto
    note IH = PBranch.IH [of "ts ! i" k', OF _ n(4,3)]
    show ?thesis
      using n IH branch_parts [OF n(1,2)] plookup_pnorm_if_any [OF branch_parts(1) [OF n(1,2)]] plookup_pnorm_if_any [OF branch_parts(2) [OF n(1,2)]]
      by (cases k) (auto simp: Cons case_prod_beta)
  qed simp
qed simp

lemma small_psplit:
  assumes "pcanon t" "nibs_ok key" "small_map t"
  shows "small_map (fst (psplit t key))" "small_map (snd (psplit t key))"
  using plookup_psplit [OF assms(1,2)] assms(3) by (auto simp: small_map_def split: if_splits)

section \<open>The methods part the tree\<close>

lemma truthy_nodeof: "truthy (nodeof E t) \<longleftrightarrow> t \<noteq> PBlank"
  by (cases t) (simp_all add: truthy_def BLANK_NODE_def)

lemma any_entry:
  assumes "ext_ok E" "length ts = 16"
  shows "filter truthy (map (tref E) ts @ [Str v]) \<noteq> [] \<longleftrightarrow> entries ts v \<noteq> 0"
proof -
  have "filter truthy (map (tref E) ts) = [] \<longleftrightarrow> (\<forall>j < 16. ts ! j = PBlank)"
    using assms by (auto simp: filter_empty_conv all_set_conv_all_nth)
  then show ?thesis by (simp add: entries_0 truthy_def)
qed

text \<open>The two lists of items that \<open>_split\<close> makes of the items of a branch.\<close>

lemma branch_items:
  fixes E :: ext and v :: string and ts :: "ptree list"
  assumes "length ts = 16" "i < 16"
  defines "xs \<equiv> map (tref E) ts @ [Str v]"
  defines "b1 \<equiv> take i xs @ replicate (17 - i) BLANK_NODE" and "b2 \<equiv> replicate (Suc i) BLANK_NODE @ drop (Suc i) xs"
  shows "(b1[16 := b2 ! 16])[i := tref E t] = map (tref E) (lower ts i t) @ [Str v]"
    "(b2[16 := b1 ! 16])[i := tref E t] = map (tref E) (upper ts i t) @ [Str []]"
proof -
  have len: "length xs = 17" "length b1 = 17" "length b2 = 17" using assms by (simp_all add: xs_def b1_def b2_def)
  have ends: "b2 ! 16 = Str v" "b1 ! 16 = Str []"
    using assms(1,2) by (simp_all add: xs_def b1_def b2_def nth_append BLANK_NODE_def del: replicate.simps replicate_Suc)
  have "b1 ! j = (if j < i then tref E (ts ! j) else BLANK_NODE)" if "j < 16" for j
    using that assms(1,2) by (simp add: xs_def b1_def nth_append del: replicate.simps replicate_Suc)
  moreover have "b2 ! j = tref E (ts ! j)" if "j < 16" "i < j" for j
  proof -
    have "j - Suc i < 15 - i" using that by linarith
    then show ?thesis using that assms(1,2) by (simp add: xs_def b2_def nth_append del: replicate.simps replicate_Suc)
  qed
  moreover have "b2 ! j = BLANK_NODE" if "j \<le> i" for j
    using that by (simp add: b2_def nth_append del: replicate.simps replicate_Suc)
  ultimately have inner: "\<And>j. j < 16 \<Longrightarrow> b1 ! j = (if j < i then tref E (ts ! j) else BLANK_NODE)"
      "\<And>j. j < 16 \<Longrightarrow> i < j \<Longrightarrow> b2 ! j = tref E (ts ! j)" "\<And>j. j \<le> i \<Longrightarrow> b2 ! j = BLANK_NODE" by blast+
  show "(b1[16 := b2 ! 16])[i := tref E t] = map (tref E) (lower ts i t) @ [Str v]"
  proof (rule nth_equalityI)
    fix j assume "j < length ((b1[16 := b2 ! 16])[i := tref E t])"
    then have "j < 16 \<or> j = 16" using len by auto
    then show "(b1[16 := b2 ! 16])[i := tref E t] ! j = (map (tref E) (lower ts i t) @ [Str v]) ! j"
      using assms(1,2) len ends inner branch_parts(1,3) [OF assms(1,2)] by (auto simp: nth_list_update nth_append)
  qed (use len branch_parts(1) [OF assms(1,2)] in simp)
  show "(b2[16 := b1 ! 16])[i := tref E t] = map (tref E) (upper ts i t) @ [Str []]"
  proof (rule nth_equalityI)
    fix j assume "j < length ((b2[16 := b1 ! 16])[i := tref E t])"
    then have "j < 16 \<or> j = 16" using len by auto
    then show "(b2[16 := b1 ! 16])[i := tref E t] ! j = (map (tref E) (upper ts i t) @ [Str []]) ! j"
      using assms(1,2) len ends inner branch_parts(2,4) [OF assms(1,2)] by (auto simp: nth_list_update nth_append)
  qed (use len branch_parts(2) [OF assms(1,2)] in simp)
qed

lemma split_node_trivial:
  assumes "pcanon t" "t = PBlank \<or> key = []"
  shows "split_node (Suc f) T (nodeof E t) key = ret (nodeof E PBlank, nodeof E t)"
proof -
  obtain ty where ty: "get_node_type (nodeof E t) = Inr ty" "ty = NODE_TYPE_BLANK \<longleftrightarrow> t = PBlank"
    using node_type_nodeof [OF pcanon_pwf [OF assms(1)], of E] by (cases t) auto
  show ?thesis
    unfolding split_node.simps ty(1) bindM_liftE_Inr using assms(2) ty(2) by (cases "t = PBlank") simp_all
qed

lemma split_node_leaf:
  assumes "nibs_ok p" "key \<noteq> []"
  shows "split_node (Suc f) T (nodeof E (PLeaf p v)) key =
    ret (if p < key then (nodeof E (PLeaf p v), nodeof E PBlank) else (nodeof E PBlank, nodeof E (PLeaf p v)))"
proof -
  have "get_node_type (nodeof E (PLeaf p v)) = Inr NODE_TYPE_LEAF" "node_key (nodeof E (PLeaf p v)) = Inr p"
    using assms(1) by simp_all
  note eq = this
  obtain i k where "key = i # k" using assms(2) by (cases key) auto
  then show ?thesis
    by (simp only: split_node.simps eq bindM_liftE_Inr list.case node_type.distinct if_False if_True simp_thms nodeof.simps(1))
qed

lemma part_children:
  assumes "length ts = 16" "i < 16" "\<forall>u \<in> set ts. P u" "P t" "P PBlank"
  shows "\<forall>u \<in> set (lower ts i t). P u" "\<forall>u \<in> set (upper ts i t). P u"
  using assms branch_parts [OF assms(1,2)] by (intro all_nth; simp)+

context content_store begin

lemma runs_encode_if_any:
  assumes "ext_ok E" "stored E m0 t"
  shows "runs (clash E UNIV) view inv 1 m0 (encode_if_any (trie_methods E get put) (nodeof E t)) (\<lambda>x m. x = tref E t \<and> kept E m t)"
proof (cases "t = PBlank")
  case True
  then show ?thesis by (auto simp: encode_if_any_def truthy_def BLANK_NODE_def ref_of_def intro!: runs_value)
next
  case False
  then show ?thesis using runs_encode_tree [OF assms, of UNIV] by (simp add: encode_if_any_def truthy_nodeof)
qed

lemma runs_normalize_if_any:
  assumes E: "ext_ok E" "rlp_ok E"
    and ts: "length ts = 16" "stored E m0 (PBranch ts v)" "\<forall>t \<in> set ts. pwf t \<and> small t"
  shows "runs (clash E UNIV) view inv 1 m0 (normalize_if_any (trie_methods E get put) (map (tref E) ts @ [Str v]))
    (\<lambda>x m. x = nodeof E (pnorm_if_any ts v) \<and> stored E m (pnorm_if_any ts v))"
proof (cases "entries ts v = 0")
  case True
  then have "normalize_if_any (trie_methods E get put) (map (tref E) ts @ [Str v]) = ret BLANK_NODE"
    using any_entry [OF E(1) ts(1), of v] by (simp add: normalize_if_any_def)
  with True show ?thesis by (auto simp: pnorm_if_any_def intro!: runs_value)
next
  case False
  then have "normalize_if_any (trie_methods E get put) (map (tref E) ts @ [Str v]) =
      normalize_branch_node (trie_methods E get put) (nodeof E (PBranch ts v))"
    using any_entry [OF E(1) ts(1), of v] by (simp add: normalize_if_any_def)
  moreover have "1 \<le> entries ts v" using False by simp
  ultimately show ?thesis
    using runs_normalize [OF E ts, of UNIV] False by (simp add: pnorm_if_any_def)
qed

lemma runs_rejoin:
  assumes E: "ext_ok E" and t: "stored E m0 t" "pwf t" "nibs_ok p" and ty: "get_node_type (nodeof E t) = Inr ty"
  shows "runs (clash E UNIV) view inv 1 m0 (rejoin (trie_methods E get put) p ty (nodeof E t))
    (\<lambda>x m. x = nodeof E (pprefix p t) \<and> stored E m (pprefix p t))"
proof (cases "t = PBlank")
  case True
  then show ?thesis by (auto simp: rejoin_def truthy_def BLANK_NODE_def pprefix_def intro!: runs_value)
next
  case False
  then have "ty \<in> {NODE_TYPE_LEAF, NODE_TYPE_EXTENSION, NODE_TYPE_BRANCH}"
    using ty node_type_nodeof [OF t(2), of E] by (cases t) auto
  then show ?thesis
    using runs_prefix [OF E t(1,2) False t(3), of UNIV] False ty
    by (auto simp: rejoin_def truthy_nodeof is_key_value_type_def)
qed

abbreviation parts :: "ext \<Rightarrow> ptree \<times> ptree \<Rightarrow> item \<times> item \<Rightarrow> (string \<rightharpoonup> string) \<Rightarrow> bool" where
  "parts E ps x m \<equiv> x = (nodeof E (fst ps), nodeof E (snd ps)) \<and> stored E m (fst ps) \<and> stored E m (snd ps)"

lemma runs_two_branches:
  assumes E: "ext_ok E" "rlp_ok E" and ts: "length ts = 16" "stored E m0 (PBranch ts v)" "\<forall>t \<in> set ts. pwf t \<and> small t"
    and us: "length us = 16" "stored E m0 (PBranch us w)" "\<forall>t \<in> set us. pwf t \<and> small t"
  shows "runs (clash E UNIV) view inv 2 m0
    (bindM (normalize_if_any (trie_methods E get put) (map (tref E) ts @ [Str v])) (\<lambda>r1.
     bindM (normalize_if_any (trie_methods E get put) (map (tref E) us @ [Str w])) (\<lambda>r2. ret (r1, r2))))
    (parts E (pnorm_if_any ts v, pnorm_if_any us w))"
proof (rule runs_seq [OF runs_normalize_if_any [OF E ts], where d = 1])
  fix x m1 assume m1: "m0 \<subseteq>\<^sub>m m1" and x: "x = nodeof E (pnorm_if_any ts v) \<and> stored E m1 (pnorm_if_any ts v)"
  show "runs (clash E UNIV) view inv 1 m1
      (bindM (normalize_if_any (trie_methods E get put) (map (tref E) us @ [Str w])) (\<lambda>r2. ret (x, r2)))
      (parts E (pnorm_if_any ts v, pnorm_if_any us w))"
  proof (rule runs_seq [OF runs_normalize_if_any [OF E us(1) _ us(3)], where d = 0])
    show "stored E m1 (PBranch us w)" using us(2) m1 by (rule stored_mono)
    fix y m2 assume m2: "m1 \<subseteq>\<^sub>m m2" and y: "y = nodeof E (pnorm_if_any us w) \<and> stored E m2 (pnorm_if_any us w)"
    show "runs (clash E UNIV) view inv 0 m2 (ret (x, y)) (parts E (pnorm_if_any ts v, pnorm_if_any us w))"
      using x y m2 by (intro runs_ret) (auto intro: stored_mono map_le_trans)
  qed simp
qed simp

lemma runs_split_branch:
  assumes E: "ext_ok E" "rlp_ok E"
    and t: "pcanon (PBranch ts v)" "small_map (PBranch ts v)" "stored E m0 (PBranch ts v)" "i < 16" "nibs_ok k"
    and rec: "\<And>m. stored E m (ts ! i) \<Longrightarrow>
      runs (clash E UNIV) view inv c m (split_node f (trie_methods E get put) (nodeof E (ts ! i)) k) (parts E (psplit (ts ! i) k))"
  shows "runs (clash E UNIV) view inv (c + 4) m0 (split_node (Suc f) (trie_methods E get put) (nodeof E (PBranch ts v)) (i # k))
    (parts E (psplit (PBranch ts v) (i # k)))"
proof -
  let ?T = "trie_methods E get put"
  let ?xs = "map (tref E) ts @ [Str v]"
  let ?b1 = "take i ?xs @ replicate (17 - i) BLANK_NODE" let ?b2 = "replicate (Suc i) BLANK_NODE @ drop (Suc i) ?xs"
  let ?ps = "psplit (ts ! i) k"
  have n: "length ts = 16" using t(1) by simp
  note c = branch_child [OF t(1) small_map_small [OF t(1,2)] t(3) map_le_refl t(4)]
  have ok: "pcanon (fst ?ps)" "pcanon (snd ?ps)" "small_map (fst ?ps)" "small_map (snd ?ps)"
    using pcanon_psplit [OF c(1) t(5)] small_psplit [OF c(1) t(5) small_map_child(2) [OF t(2) n t(4)]] by auto
  have kids: "\<forall>u \<in> set ts. pwf u \<and> small u"
    using t(1) small_map_small [OF t(1,2)] pcanon_pwf by auto
  have parts_ok: "\<forall>u \<in> set (lower ts i (fst ?ps)). pwf u \<and> small u" "\<forall>u \<in> set (upper ts i (snd ?ps)). pwf u \<and> small u"
  proof -
    have part: "pwf (fst ?ps) \<and> small (fst ?ps)" "pwf (snd ?ps) \<and> small (snd ?ps)"
      using ok pcanon_pwf small_map_small by auto
    show "\<forall>u \<in> set (lower ts i (fst ?ps)). pwf u \<and> small u" by (rule part_children(1) [OF n t(4) kids part(1)]) simp
    show "\<forall>u \<in> set (upper ts i (snd ?ps)). pwf u \<and> small u" by (rule part_children(2) [OF n t(4) kids part(2)]) simp
  qed
  have "get_node_type (nodeof E (PBranch ts v)) = Inr NODE_TYPE_BRANCH" using n by simp
  then have run: "split_node (Suc f) ?T (nodeof E (PBranch ts v)) (i # k) =
      bindM (child_node ?T (nodeof E (PBranch ts v)) i) (\<lambda>sub.
      bindM (split_node f ?T sub k) (\<lambda>(lo, hi).
      bindM (encode_if_any ?T lo) (\<lambda>e1.
      bindM (encode_if_any ?T hi) (\<lambda>e2.
      bindM (normalize_if_any ?T (?b1[16 := ?b2 ! 16, i := e1])) (\<lambda>r1.
      bindM (normalize_if_any ?T (?b2[16 := ?b1 ! 16, i := e2])) (\<lambda>r2. ret (r1, r2)))))))"
    by (simp only: split_node.simps bindM_liftE_Inr list.case node_type.distinct if_False if_True simp_thms Let_def nodeof.simps item.case)
  have goal: "psplit (PBranch ts v) (i # k) = (pnorm_if_any (lower ts i (fst ?ps)) v, pnorm_if_any (upper ts i (snd ?ps)) [])"
    using n t(4) by (simp add: case_prod_beta)
  have held: "stored E m (PBranch (lower ts i (fst ?ps)) v)" "stored E m (PBranch (upper ts i (snd ?ps)) [])"
    if "m0 \<subseteq>\<^sub>m m" "kept E m (fst ?ps)" "kept E m (snd ?ps)" for m
  proof -
    have kept: "\<forall>u \<in> set ts. kept E m u" using stored_mono [OF t(3) that(1)] by simp
    show "stored E m (PBranch (lower ts i (fst ?ps)) v)"
      unfolding stored.simps by (rule part_children(1) [OF n t(4) kept that(2)]) simp
    show "stored E m (PBranch (upper ts i (snd ?ps)) [])"
      unfolding stored.simps by (rule part_children(2) [OF n t(4) kept that(3)]) simp
  qed
  show ?thesis
    unfolding run
  proof (rule runs_seq [where c = 0 and d = "c + 4"])
    show "runs (clash E UNIV) view inv 0 m0 (child_node ?T (nodeof E (PBranch ts v)) i) (\<lambda>x m. x = nodeof E (ts ! i) \<and> kept E m (ts ! i))"
      using c pcanon_pwf by (intro runs_child [OF E]) auto
  next
    fix x m1 assume m1: "m0 \<subseteq>\<^sub>m m1" and x: "x = nodeof E (ts ! i) \<and> kept E m1 (ts ! i)"
    show "runs (clash E UNIV) view inv (c + 4) m1 (bindM (split_node f ?T x k) (\<lambda>(lo, hi).
      bindM (encode_if_any ?T lo) (\<lambda>e1.
      bindM (encode_if_any ?T hi) (\<lambda>e2.
      bindM (normalize_if_any ?T (?b1[16 := ?b2 ! 16, i := e1])) (\<lambda>r1.
      bindM (normalize_if_any ?T (?b2[16 := ?b1 ! 16, i := e2])) (\<lambda>r2. ret (r1, r2)))))))
      (parts E (psplit (PBranch ts v) (i # k)))"
      unfolding conjunct1 [OF x] goal
    proof (rule runs_seq [OF rec, where d = 4])
      fix y m2 assume m2: "m1 \<subseteq>\<^sub>m m2" and y: "parts E ?ps y m2"
      then have y1: "stored E m2 (fst ?ps)" "stored E m2 (snd ?ps)" by simp_all
      have "runs (clash E UNIV) view inv 4 m2
          (bindM (encode_if_any ?T (nodeof E (fst ?ps))) (\<lambda>e1.
           bindM (encode_if_any ?T (nodeof E (snd ?ps))) (\<lambda>e2.
           bindM (normalize_if_any ?T (?b1[16 := ?b2 ! 16, i := e1])) (\<lambda>r1.
           bindM (normalize_if_any ?T (?b2[16 := ?b1 ! 16, i := e2])) (\<lambda>r2. ret (r1, r2))))))
          (parts E (pnorm_if_any (lower ts i (fst ?ps)) v, pnorm_if_any (upper ts i (snd ?ps)) []))"
      proof (rule runs_seq [OF runs_encode_if_any [OF E(1)], where d = 3])
        fix e1 m3 assume m3: "m2 \<subseteq>\<^sub>m m3" and e1: "e1 = tref E (fst ?ps) \<and> kept E m3 (fst ?ps)"
        show "runs (clash E UNIV) view inv 3 m3
            (bindM (encode_if_any ?T (nodeof E (snd ?ps))) (\<lambda>e2.
             bindM (normalize_if_any ?T (?b1[16 := ?b2 ! 16, i := e1])) (\<lambda>r1.
             bindM (normalize_if_any ?T (?b2[16 := ?b1 ! 16, i := e2])) (\<lambda>r2. ret (r1, r2)))))
            (parts E (pnorm_if_any (lower ts i (fst ?ps)) v, pnorm_if_any (upper ts i (snd ?ps)) []))"
        proof (rule runs_seq [OF runs_encode_if_any [OF E(1)], where d = 2])
          fix e2 m4 assume m4: "m3 \<subseteq>\<^sub>m m4" and e2: "e2 = tref E (snd ?ps) \<and> kept E m4 (snd ?ps)"
          have m: "m0 \<subseteq>\<^sub>m m4" using m1 m2 m3 m4 map_le_trans by blast
          have k1: "kept E m4 (fst ?ps)" using e1 m4 held_mono stored_mono by blast
          show "runs (clash E UNIV) view inv 2 m4
              (bindM (normalize_if_any ?T (?b1[16 := ?b2 ! 16, i := e1])) (\<lambda>r1.
               bindM (normalize_if_any ?T (?b2[16 := ?b1 ! 16, i := e2])) (\<lambda>r2. ret (r1, r2))))
              (parts E (pnorm_if_any (lower ts i (fst ?ps)) v, pnorm_if_any (upper ts i (snd ?ps)) []))"
            unfolding conjunct1 [OF e1] conjunct1 [OF e2] branch_items [OF n t(4)]
            using e2 by (intro runs_two_branches [OF E] held [OF m k1] parts_ok branch_parts(1,2) [OF n t(4)]) auto
        qed (use stored_mono [OF y1(2) m3] in simp_all)
      qed (use y1 in simp_all)
      then show "runs (clash E UNIV) view inv 4 m2 (case y of (lo, hi) \<Rightarrow>
          bindM (encode_if_any ?T lo) (\<lambda>e1.
          bindM (encode_if_any ?T hi) (\<lambda>e2.
          bindM (normalize_if_any ?T (?b1[16 := ?b2 ! 16, i := e1])) (\<lambda>r1.
          bindM (normalize_if_any ?T (?b2[16 := ?b1 ! 16, i := e2])) (\<lambda>r2. ret (r1, r2))))))
          (parts E (pnorm_if_any (lower ts i (fst ?ps)) v, pnorm_if_any (upper ts i (snd ?ps)) []))"
        unfolding conjunct1 [OF y] by simp
    qed (use x in auto)
  qed simp
qed

lemma runs_split_ext:
  assumes E: "ext_ok E" "rlp_ok E"
    and t: "pcanon (PExt p u)" "small_map (PExt p u)" "stored E m0 (PExt p u)" "nibs_ok key" "key \<noteq> []"
    and rec: "\<And>r m. key = p @ r \<Longrightarrow> stored E m u \<Longrightarrow>
      runs (clash E UNIV) view inv c m (split_node f (trie_methods E get put) (nodeof E u) r) (parts E (psplit u r))"
  shows "runs (clash E UNIV) view inv (c + 2) m0 (split_node (Suc f) (trie_methods E get put) (nodeof E (PExt p u)) key)
    (parts E (psplit (PExt p u) key))"
proof -
  let ?T = "trie_methods E get put"
  let ?node = "nodeof E (PExt p u)"
  let ?head = "take (length p) key"
  have p: "nibs_ok p" and u: "kept E m0 u" "pcanon u" "small u" "small_map u"
    using t small_map_small [OF t(1,2)] small_map_child(1) [OF t(2)] by auto
  let ?below = "\<lambda>sub_node. if starts_with key p then
      bindM (split_node f ?T sub_node (drop (length p) key)) (\<lambda>(lo, hi).
      bindM (liftE (get_node_type lo)) (\<lambda>subtype1.
      bindM (liftE (get_node_type hi)) (\<lambda>subtype2.
      bindM (rejoin ?T ?head subtype1 lo) (\<lambda>o1.
      bindM (rejoin ?T ?head subtype2 hi) (\<lambda>o2. ret (o1, o2))))))
    else if p < ?head then ret (?node, BLANK_NODE) else if p > ?head then ret (BLANK_NODE, ?node) else ret (BLANK_NODE, BLANK_NODE)"
  have "get_node_type ?node = Inr NODE_TYPE_EXTENSION" "node_key ?node = Inr p" using p by simp_all
  note eq = this
  have run: "split_node (Suc f) ?T ?node key = bindM (child_node ?T ?node 1) ?below"
  proof -
    obtain i k where "key = i # k" using t(5) by (cases key) auto
    then show ?thesis
      by (simp only: split_node.simps eq bindM_liftE_Inr list.case node_type.distinct if_False Let_def)
  qed
  have below: "runs (clash E UNIV) view inv (c + 2) m (?below (nodeof E u)) (parts E (psplit (PExt p u) key))"
    if m: "m0 \<subseteq>\<^sub>m m" "stored E m u" for m
  proof (cases "starts_with key p")
    case False
    have st: "stored E m' (PExt p u)" if "m \<subseteq>\<^sub>m m'" for m' using t(3) m(1) that by (metis map_le_trans stored_mono)
    have "?head \<noteq> p" using False by (metis append_take_drop_id starts_with_iff)
    then consider "p < ?head" | "?head < p" "\<not> p < ?head" by fastforce
    then show ?thesis
      unfolding if_not_P [OF False] psplit_ext [OF t(5)] using st
      by cases (auto intro!: runs_ret simp del: nodeof.simps(3,4) simp: BLANK_NODE_def)
  next
    case True
    then obtain r where r: "key = p @ r" by (auto simp: starts_with_iff)
    let ?ps = "psplit u r"
    have ok: "nibs_ok r" "pcanon (fst ?ps)" "pcanon (snd ?ps)"
      using t(4) r pcanon_psplit [OF u(2), of r] by auto
    then have pwf: "pwf (fst ?ps)" "pwf (snd ?ps)" using pcanon_pwf by auto
    obtain ty1 ty2 where ty: "get_node_type (nodeof E (fst ?ps)) = Inr ty1" "get_node_type (nodeof E (snd ?ps)) = Inr ty2"
      using node_type_nodeof [OF pwf(1), of E] node_type_nodeof [OF pwf(2), of E] by blast
    have goal: "psplit (PExt p u) key = (pprefix p (fst ?ps), pprefix p (snd ?ps))" using True psplit_ext [OF t(5), of p u] r by simp
    have head: "?head = p" "drop (length p) key = r" using r by simp_all
    show ?thesis
      unfolding if_P [OF True] goal head
    proof (rule runs_seq [OF rec [OF r m(2)], where d = 2])
      fix y m1 assume y: "parts E ?ps y m1"
      then have y1: "stored E m1 (fst ?ps)" "stored E m1 (snd ?ps)" by simp_all
      have "runs (clash E UNIV) view inv 2 m1 (bindM (rejoin ?T p ty1 (nodeof E (fst ?ps))) (\<lambda>o1.
          bindM (rejoin ?T p ty2 (nodeof E (snd ?ps))) (\<lambda>o2. ret (o1, o2)))) (parts E (pprefix p (fst ?ps), pprefix p (snd ?ps)))"
      proof (rule runs_seq [OF runs_rejoin [OF E(1) _ pwf(1) p ty(1)], where d = 1])
        fix o1 m2 assume m2: "m1 \<subseteq>\<^sub>m m2" and o1: "o1 = nodeof E (pprefix p (fst ?ps)) \<and> stored E m2 (pprefix p (fst ?ps))"
        show "runs (clash E UNIV) view inv 1 m2 (bindM (rejoin ?T p ty2 (nodeof E (snd ?ps))) (\<lambda>o2. ret (o1, o2)))
            (parts E (pprefix p (fst ?ps), pprefix p (snd ?ps)))"
        proof (rule runs_seq [OF runs_rejoin [OF E(1) _ pwf(2) p ty(2)], where d = 0])
          fix o2 m3 assume m3: "m2 \<subseteq>\<^sub>m m3" and o2: "o2 = nodeof E (pprefix p (snd ?ps)) \<and> stored E m3 (pprefix p (snd ?ps))"
          show "runs (clash E UNIV) view inv 0 m3 (ret (o1, o2)) (parts E (pprefix p (fst ?ps), pprefix p (snd ?ps)))"
            using o1 o2 m3 by (intro runs_ret) (auto intro: stored_mono map_le_trans)
        qed (use stored_mono [OF y1(2) m2] in simp_all)
      qed (use y1 in simp_all)
      then show "runs (clash E UNIV) view inv 2 m1 (case y of (lo, hi) \<Rightarrow>
          bindM (liftE (get_node_type lo)) (\<lambda>subtype1.
          bindM (liftE (get_node_type hi)) (\<lambda>subtype2.
          bindM (rejoin ?T p subtype1 lo) (\<lambda>o1.
          bindM (rejoin ?T p subtype2 hi) (\<lambda>o2. ret (o1, o2)))))) (parts E (pprefix p (fst ?ps), pprefix p (snd ?ps)))"
        unfolding conjunct1 [OF y] prod.case ty bindM_liftE_Inr .
    qed simp
  qed
  show ?thesis
    unfolding run
  proof (rule runs_seq [where c = 0 and d = "c + 2"])
    show "runs (clash E UNIV) view inv 0 m0 (child_node ?T ?node 1) (\<lambda>x m. x = nodeof E u \<and> kept E m u)"
      using u pcanon_pwf by (intro runs_child [OF E]) auto
    fix x m1 assume "m0 \<subseteq>\<^sub>m m1" "x = nodeof E u \<and> kept E m1 u"
    then show "runs (clash E UNIV) view inv (c + 2) m1 (?below x) (parts E (psplit (PExt p u) key))"
      using below by blast
  qed simp
qed

lemma runs_split_node:
  assumes E: "ext_ok E" "rlp_ok E"
  shows "pcanon t \<Longrightarrow> small_map t \<Longrightarrow> stored E m0 t \<Longrightarrow> depth t < f \<Longrightarrow> nibs_ok key \<Longrightarrow>
    runs (clash E UNIV) view inv (4 * f) m0 (split_node f (trie_methods E get put) (nodeof E t) key)
      (\<lambda>x m. x = (nodeof E (fst (psplit t key)), nodeof E (snd (psplit t key))) \<and>
        stored E m (fst (psplit t key)) \<and> stored E m (snd (psplit t key)))"
proof (induction f arbitrary: t m0 key)
  case 0
  then show ?case by simp
next
  case (Suc f)
  let ?T = "trie_methods E get put"
  have as_is: "runs (clash E UNIV) view inv (4 * Suc f) m0 (ret (nodeof E t1, nodeof E t2))
      (\<lambda>x m. x = (nodeof E t1, nodeof E t2) \<and> stored E m t1 \<and> stored E m t2)"
    if "stored E m0 t1" "stored E m0 t2" for t1 t2
    by (rule runs_ret) (use that stored_mono in blast)
  show ?case
  proof (cases "t = PBlank \<or> key = []")
    case True
    then have "psplit t key = (PBlank, t)" by (auto simp: psplit_Nil)
    then show ?thesis
      unfolding split_node_trivial [OF Suc.prems(1) True] using as_is [of PBlank t] Suc.prems(3) by (simp only: fst_conv snd_conv stored.simps)
  next
    case False
    then obtain i k where key: "key = i # k" by (cases key) auto
    show ?thesis
    proof (cases t)
      case PBlank
      with False show ?thesis by simp
    next
      case (PLeaf p v)
      have p: "nibs_ok p" "key \<noteq> []" using PLeaf Suc.prems(1) key by simp_all
      have ps: "psplit t key = (if p < key then (t, PBlank) else (PBlank, t))" using key PLeaf by simp
      show ?thesis
      proof (cases "p < key")
        case True
        show ?thesis
          unfolding ps if_P [OF True] fst_conv snd_conv
          unfolding PLeaf split_node_leaf [OF p] if_P [OF True] by (rule as_is) simp_all
      next
        case False
        show ?thesis
          unfolding ps if_not_P [OF False] fst_conv snd_conv
          unfolding PLeaf split_node_leaf [OF p] if_not_P [OF False] by (rule as_is) simp_all
      qed
    next
      case (PExt p u)
      have "pcanon u" "small_map u" "depth u < f" using PExt Suc.prems small_map_child(1) [of p u] by auto
      then have "runs (clash E UNIV) view inv (4 * f) m (split_node f ?T (nodeof E u) r) (parts E (psplit u r))"
        if "key = p @ r" "stored E m u" for r m
        using that Suc.prems(5) by (intro Suc.IH) auto
      then have "runs (clash E UNIV) view inv (4 * f + 2) m0 (split_node (Suc f) ?T (nodeof E t) key) (parts E (psplit t key))"
        unfolding PExt using Suc.prems PExt key by (intro runs_split_ext [OF E]) auto
      then show ?thesis by (rule runs_conseq) simp_all
    next
      case (PBranch ts v)
      with key Suc.prems have i: "i < 16" "nibs_ok k" and t: "pcanon (PBranch ts v)" "small_map (PBranch ts v)" "stored E m0 (PBranch ts v)" by auto
      note c = branch_child [OF t(1) small_map_small [OF t(1,2)] t(3) map_le_refl i(1)]
      have "runs (clash E UNIV) view inv (4 * f) m (split_node f ?T (nodeof E (ts ! i)) k) (parts E (psplit (ts ! i) k))"
        if "stored E m (ts ! i)" for m
      proof (rule Suc.IH [OF c(1) small_map_child(2) [OF t(2) _ i(1)] that _ i(2)])
        show "length ts = 16" using t(1) by simp
        show "depth (ts ! i) < f" using c(5) Suc.prems(4) unfolding PBranch by linarith
      qed
      from runs_split_branch [OF E t i this] show ?thesis unfolding PBranch key by (rule runs_conseq) simp_all
    qed
  qed
qed

lemma get_of_tree:
  assumes E: "ext_ok E" "rlp_ok E" and t: "tree_for t m" "stored E (view (tdb tr)) t" "root_node tr = nodeof E t" and inv: "inv n (tdb tr)"
  shows "fst (Trie.get (trie_methods E get put) key tr) = Inr (Str (m key))"
proof -
  have "runs (\<lambda>_. False) view inv 0 (view (tdb tr))
      (trie_get (Suc (length (nibs key))) (trie_methods E get put) (nodeof E t) (nibs key)) (\<lambda>x d. x = Str (plookup t (nibs key)))"
    using tree_for_small [OF t(1)] t(2) by (intro runs_trie_get [OF E]) auto
  moreover have "inv (n + 0) (tdb tr)" using inv by simp
  ultimately obtain r s' where
      "in_tdb (trie_get (Suc (length (nibs key))) (trie_methods E get put) (nodeof E t) (nibs key)) tr = (r, tr\<lparr>tdb := s'\<rparr>)"
      "case r of Inl e \<Rightarrow> e = AssertionError \<and> False | Inr x \<Rightarrow> x = Str (plookup t (nibs key))"
    by (rule in_tdb_runs) simp
  moreover have "plookup t (nibs key) = m key" using t(1) by (simp add: tree_for_def)
  ultimately show ?thesis using t(3) by (auto simp: Trie.get_def bindM_def simp del: trie_get.simps split: sum.splits)
qed

end

lemma tree_for_psplit:
  assumes "tree_for t m"
  shows "tree_for (fst (psplit t (nibs key))) (\<lambda>k. if k < key then m k else [])"
    "tree_for (snd (psplit t (nibs key))) (\<lambda>k. if k < key then [] else m k)"
proof -
  have t: "pcanon t" "small_map t" and keys: "\<And>k. plookup t (nibs k) = m k" "\<And>k. nibs_ok k \<Longrightarrow> plookup t k \<noteq> [] \<Longrightarrow> \<exists>key. k = nibs key"
    using assms by (auto simp: tree_for_def)
  note parts = pcanon_psplit [OF t(1) nibs_ok_nibs, of key] small_psplit [OF t(1) nibs_ok_nibs t(2), of key]
    plookup_psplit [OF t(1) nibs_ok_nibs, of key]
  show "tree_for (fst (psplit t (nibs key))) (\<lambda>k. if k < key then m k else [])"
    using parts keys unfolding tree_for_def by (simp add: nibs_less)
  show "tree_for (snd (psplit t (nibs key))) (\<lambda>k. if k < key then [] else m k)"
    using parts keys unfolding tree_for_def by (simp add: nibs_less)
qed

context content_store begin

lemma split_run:
  assumes E: "ext_ok E" "rlp_ok E" and tr: "represents E view tr m" and inv: "inv (n + 4 * limit) (tdb tr)"
    and len: "\<And>key. m key \<noteq> [] \<Longrightarrow> length key \<le> L" "2 * L < limit"
  shows "\<exists>r tr'. split_trie limit (trie_methods E get put) key tr = (r, tr') \<and> inv n (tdb tr') \<and> view (tdb tr) \<subseteq>\<^sub>m view (tdb tr') \<and>
    (case r of Inl e \<Rightarrow> e = AssertionError \<and> clash E UNIV (view (tdb tr'))
     | Inr (t1, t2) \<Rightarrow> root_hash t1 = BLANK_ROOT E \<and> root_hash t2 = BLANK_ROOT E \<and>
         (\<forall>k. fst (Trie.get (trie_methods E get put) k t1) = Inr (Str (if k < key then m k else []))) \<and>
         (\<forall>k. fst (Trie.get (trie_methods E get put) k t2) = Inr (Str (if k < key then [] else m k))))"
proof -
  obtain t where t: "tree_for t m" "in_store E (view (tdb tr)) t" "root_node tr = nodeof E t"
    using tr by (auto simp: represents_def)
  let ?ps = "psplit t (nibs key)"
  have "runs (clash E UNIV) view inv (4 * limit) (view (tdb tr)) (split_node limit (trie_methods E get put) (nodeof E t) (nibs key)) (parts E ?ps)"
    using tree_for_small [OF t(1)] t(2) tree_depth [OF t(1) len] by (intro runs_split_node [OF E]) (auto simp: in_store_def)
  from in_tdb_runs [OF this inv map_le_refl] obtain r s' where
    run: "in_tdb (split_node limit (trie_methods E get put) (nodeof E t) (nibs key)) tr = (r, tr\<lparr>tdb := s'\<rparr>)"
      "inv n s'" "view (tdb tr) \<subseteq>\<^sub>m view s'"
    and res: "case r of Inl e \<Rightarrow> e = AssertionError \<and> clash E UNIV (view s') | Inr x \<Rightarrow> parts E ?ps x (view s')" .
  show ?thesis
  proof (cases r)
    case (Inl e)
    with run res t(3) show ?thesis by (auto simp: split_trie_def bindM_def)
  next
    case (Inr x)
    then have x: "x = (nodeof E (fst ?ps), nodeof E (snd ?ps))" "stored E (view s') (fst ?ps)" "stored E (view s') (snd ?ps)"
      using res by simp_all
    have "split_trie limit (trie_methods E get put) key tr =
        (Inr (\<lparr>tdb = s', root_node = nodeof E (fst ?ps), root_hash = BLANK_ROOT E\<rparr>,
              \<lparr>tdb = s', root_node = nodeof E (snd ?ps), root_hash = BLANK_ROOT E\<rparr>), tr\<lparr>tdb := s'\<rparr>)"
      using run(1) Inr x(1) t(3) by (simp add: split_trie_def bindM_def)
    moreover have "fst (Trie.get (trie_methods E get put) k \<lparr>tdb = s', root_node = nodeof E (fst ?ps), root_hash = BLANK_ROOT E\<rparr>) =
        Inr (Str (if k < key then m k else []))" for k
      by (rule get_of_tree [OF E tree_for_psplit(1) [OF t(1)], where n = n]) (use x run(2) in simp_all)
    moreover have "fst (Trie.get (trie_methods E get put) k \<lparr>tdb = s', root_node = nodeof E (snd ?ps), root_hash = BLANK_ROOT E\<rparr>) =
        Inr (Str (if k < key then [] else m k))" for k
      by (rule get_of_tree [OF E tree_for_psplit(2) [OF t(1)], where n = n]) (use x run(2) in simp_all)
    ultimately show ?thesis using run(2,3) by simp
  qed
qed

end



end
