(* ===== verification/Spec2Isabelle.thy ===== *)
theory Spec2Isabelle
  imports ApplyCorrect ShareCache MapReply ServiceCorrect TxTypes UserCorrect NodeSafety BlockFeed KeystoreCorrect ChainLedger TrieSplit
begin

text \<open>
  A verification development for the mapping system on a blockchain of OpenOverlayRouter, the Python 2 program under
  \<open>src/\<close>. The program keeps on a blockchain which address holds which IP prefix and where the map servers or
  locators of a prefix are, and answers the map requests of a router from it. The signer of each block is drawn from the
  addresses in proportion to the prefixes they own, with a random number that a group of nodes makes with threshold signatures.

  \<^bold>\<open>Parts of the program and how they interact.\<close> The main loop (\<open>blockchaincba.py\<close>) takes blocks,
  transactions and key shares from the process of the network (\<open>network.py\<close>, spoken to through \<open>p2p.py\<close> with
  the messages of \<open>messages.py\<close>), user transactions from a file (\<open>user.py\<close>) and queries from the router
  (\<open>oor.py\<close>). It works with three objects: the chain service (\<open>chain_service.py\<close>) with the chain
  (\<open>chain.py\<close>) and the pool, the consensus (\<open>consensus.py\<close>, \<open>Consensus/dkg.py\<close>), and the share
  cache (\<open>share_cache.py\<close>). The chain applies a block (\<open>apply.py\<close>) to its state (\<open>state.py\<close>),
  which keeps the accounts (\<open>account.py\<close>, \<open>balance.py\<close>) in a trie (\<open>securetrie.py\<close>,
  \<open>trie.py\<close>) over a database (\<open>db.py\<close>), and to the index from prefixes to holders
  (\<open>patricia_state.py\<close>). Blocks, transactions and shares (\<open>block.py\<close>, \<open>transactions.py\<close>,
  \<open>shares.py\<close>) are stored and sent in RLP.

  \<^bold>\<open>How code becomes definitions.\<close> A definition has the name of the function or method it models (methods of
  one name in two classes get a prefix or the theory's name). Stateful code has the type \<open>('s, 'a) M\<close> of the theory
  \<open>Prelude\<close>: from the state to the result, or the exception raised, and the state as it is then; a mutation survives
  an exception as it does in Python. Exceptions are the datatype \<open>py_error\<close>, and an \<open>except\<close> clause tests its
  class hierarchy with \<open>is_a\<close>. A byte string is a \<open>string\<close>, an object a record, a dictionary a map or an
  association list where its order or its order of insertion matters, a set a list without repetition whose \<open>pop\<close>
  takes the first element. Integers are unbounded as in Python, and the widths of encodings are written out. The clock, random
  numbers and what arrives from outside are arguments; what is sent is recorded in the state.

  \<^bold>\<open>Theories, from the bottom.\<close>

  \<^item> \<open>Prelude\<close> (\<open>own_exceptions.py\<close> and the vocabulary above), \<open>Pyutils\<close> (\<open>utils.py\<close>, the
    integer codecs of \<open>keys.py\<close>), \<open>Base64\<close> (the codec of Python).
  \<^item> \<open>Store\<close>: the classes of \<open>db.py\<close> as records of methods. The locale \<open>kv_store\<close> is the contract of a
    dictionary, interpreted on EphemDB (\<open>eph\<close>), LevelDB (\<open>lvl\<close>), OverlayDB (\<open>ovl\<close>) and ListeningDB
    (\<open>lis\<close>); \<open>content_store\<close> is what the trie needs, and its \<open>sublocale\<close> \<open>rc\<close> shows that RefcountDB
    over any dictionary provides it, as long as the 32-bit counters do not overflow.
  \<^item> \<open>Codec\<close> (nibbles, hexadecimal-prefix paths, RLP), \<open>Ptree\<close> (the abstract Patricia tree: look-up after
    update and deletion, canonical form, uniqueness), \<open>Trie\<close> (the class as the code has it), \<open>TrieRefine\<close>,
    \<open>TrieMethods\<close>, \<open>TrieObject\<close> (the methods run as the operations on trees; \<open>represents E view tr m\<close> says
    that the object shows the map \<open>m\<close>), \<open>TrieDict\<close> (the walks), \<open>TrieOrder\<close> (\<open>next\<close> and \<open>prev\<close>),
    \<open>TrieSplit\<close> (\<open>split\<close>, \<open>clear\<close>, \<open>unsafe_merge\<close>).
  \<^item> \<open>Transactions\<close>, \<open>TxTypes\<close>, \<open>Block\<close>, \<open>Wire\<close> (\<open>shares.py\<close> and RLP forms),
    \<open>Balance\<close>, \<open>Patricia\<close>.
  \<^item> \<open>State\<close> (\<open>securetrie.py\<close>, \<open>account.py\<close>, \<open>state.py\<close>), \<open>Snapshots\<close>,
    \<open>Addresses\<close>, \<open>Ledger\<close> (the abstract specification: a ledger maps an address to its nonce and balance, a
    transaction is a partial function on ledgers, and \<open>ledger_ok\<close> is the invariant of the registry of prefixes),
    \<open>StateRefine\<close> (the locale \<open>account_store\<close>, what the methods of State do to the ledger they show,
    interpreted as \<open>chain\<close>), \<open>Samples\<close> (concrete states for witnesses).
  \<^item> \<open>Apply\<close> (\<open>apply.py\<close>), \<open>ApplyRefine\<close> (every handler refines its ledger transition),
    \<open>ApplyCorrect\<close> and \<open>BlockRefine\<close> (transactions and blocks on the ledger, with the ways they fail).
  \<^item> \<open>Genesis\<close> (\<open>genesis_helpers.py\<close>, \<open>config.py\<close>), \<open>Chain\<close>, \<open>ChainCorrect\<close>,
    \<open>ChainStored\<close> (the head, the queues, what is stored is found), \<open>ChainLedger\<close> (an accepted block through all
    layers down to the ledger).
  \<^item> \<open>MapReply\<close>, \<open>Oor\<close>, \<open>ChainService\<close>, \<open>ServiceCorrect\<close>, \<open>User\<close>, \<open>UserCorrect\<close>.
  \<^item> \<open>Selection\<close> (the last part of \<open>consensus.py\<close>: who signs the next block), \<open>Dkg\<close>, \<open>Consensus\<close>,
    \<open>ConsensusCorrect\<close>, \<open>ShareCache\<close> (\<open>share_cache.py\<close> and the loop that drains it).
  \<^item> \<open>Keystore\<close>, \<open>KeystoreCorrect\<close> (\<open>keystore.py\<close> and the key files of \<open>keys.py\<close>).
  \<^item> \<open>Messages\<close>, \<open>MessageCodec\<close>, \<open>Network\<close>, \<open>P2P\<close>, \<open>NetworkCorrect\<close>, \<open>BlockFeed\<close>: the two
    processes; \<open>net_step\<close> is the relation of all callbacks, over which the invariant of the tables is a rule induction;
    the locale \<open>block_feed\<close> is the interface of \<open>get_block\<close> (its interpretation \<open>network_feed\<close> is on both processes).
  \<^item> \<open>Node\<close> (the local variables of \<open>run\<close> as a record, one definition per \<open>try\<close> block, \<open>loop_pass\<close> their
    composition), \<open>NodeCorrect\<close>, \<open>NodeSafety\<close>.
\<close>

text \<open>
  \<^bold>\<open>What the properties say together.\<close> On the data: the trie is a map whose root hash depends on the map alone; a
  transaction does to the state exactly what the ledger transition says, on every branch, the errors included, and keeps
  each prefix with one owner; a block is its transactions in order; an accepted block moves the head by one, is found again, and
  no block moves the head of a node without the signature of the drawn signer and, while it checks it, the signature of
  the group. On the protocols: the generation of keys ends with one group key, any threshold of shares gives the same
  random number; the tables of the network process stay consistent under every sequence of events, and an announced block reaches
  the programs that wait for it. On the formats: what is packed, encoded, stored or written is read back. Several properties state
  what the code does where it does not do what was meant; the manifest lists these as findings.

  \<^bold>\<open>Bounds and fuel.\<close> The recursive methods of the trie carry fuel: \<open>get\<close>, \<open>update\<close> and \<open>delete\<close>
  start with one more than the number of nibbles, which the theorems show to suffice. Where the depth depends on the data (the
  walks and the ordered search of the trie, the queue of blocks, look-ups over many blocks), the argument \<open>limit\<close> is the
  number of frames the interpreter allows, and running out of it is Python's RuntimeError; the theorems say how large it must be.
  The counters of RefcountDB have 32 bits, so refinement of the state carries a budget of writes: 200 for each cached account,
  400 for each account access of a transaction (\<open>tx_budget\<close>, \<open>run_budget\<close>), and a theorem holds as long as the
  counters are that far from their bound. Keys, values and accounts are taken to be shorter than the sizes RLP can express.

  \<^bold>\<open>Parameters and hypotheses.\<close> What is not under \<open>src/\<close> is an argument: \<open>ext\<close> (keccak, secp256k1 and rlp:
  \<open>ext_ok\<close>, \<open>rlp_ok\<close>, \<open>ec_ok\<close>), \<open>iplib\<close> and netaddr (\<open>iplib_ok\<close>, \<open>ipaddress_ok\<close>,
  \<open>ipset_ok\<close>), py-radix (\<open>radix_ok\<close>), pickle (\<open>env_ok\<close>), bitstring (\<open>bitlib_ok\<close>), the BLS program
  (\<open>bls_ok\<close>), json (\<open>json_ok\<close>, \<open>jcodec_ok\<close>), hashlib (\<open>sha256_ok\<close>), the key derivation and
  AES (\<open>key_lib_ok\<close>), the socket, the configuration. Each hypothesis states the documented behaviour of one library, and
  each has a concrete instance with which the witnesses run. Hashes are not taken to be injective: where a
  collision in the database could matter, the theorem names it as a case.

  \<^bold>\<open>Not modelled.\<close> Logging, sleeping, the files with measured delays and the check for old processes of
  \<open>blockchaincba.py\<close>; the opening of sockets, the set-up of the servers and the distributed hash table, whose
  answers are arguments; fields of JSON messages and values in a key file of a type that the program does not write. The list
  \<open>deletes\<close> of a trie and the caches of the sender and signer in an object, which cannot be observed; the storage trie and the
  code of an account, which nothing fills; code that no code calls and that could not run (\<open>delta_balance\<close>,
  \<open>transfer_value\<close>, \<open>is_blank\<close>, \<open>load_state\<close>, the first \<open>from_snapshot\<close>), and the renderings of a transaction for the user. The clock is read once for each block of code of a pass, in whole seconds. The scripts
  (\<open>generate_master_dkg.py\<close>, \<open>dataset/\<close>, \<open>Tests/\<close>, \<open>Consensus/examples/\<close>) and the vendored
  \<open>libs/ipgetter-master\<close> are not part of the running program.
\<close>

end
